(* ===== verification/Prelude.thy ===== *)
theory Prelude
  imports Main "HOL-Library.Word" "HOL-Library.Monad_Syntax" "HOL-Library.Code_Target_Nat"
    "HOL-Library.Sublist"
begin

text \<open>
  Shared vocabulary of the development: C characters and their integer promotion, checked reads
  of a memory object (an out-of-range read is the value \<open>None\<close>), string spans, and the
  two loop combinators that model C \<open>for\<close> loops with an early \<open>return\<close> or
  \<open>break\<close>. The generic lemmas on lists, options and characters that several components use
  are collected here; the collections \<open>char_facts\<close>, \<open>span_facts\<close> and
  \<open>codec_facts\<close> gather the rewrite rules the component proofs run on.
\<close>

unbundle bit_operations_syntax

named_theorems char_facts \<open>classification of C characters\<close>
named_theorems span_facts \<open>reads through a well-formed span\<close>
named_theorems codec_facts \<open>byte encodings and their inverses\<close>

type_synonym u8 = "8 word"
type_synonym u16 = "16 word"
type_synonym u32 = "32 word"
type_synonym u64 = "64 word"

text \<open>A memory object that holds a C string: its bytes, terminating NUL included.\<close>
type_synonym cmem = string

section \<open>C characters\<close>

text \<open>
  \<open>char\<close> is a signed 8-bit type on the platforms the programs are built for; used in an
  expression it is promoted to \<open>int\<close>.
\<close>

definition c_int :: "char \<Rightarrow> int" where
  "c_int c = (let n = of_char c in if n < 128 then n else n - 256)"

text \<open>Assignment of an \<open>int\<close> to a \<open>char\<close>: reduction modulo 256.\<close>

definition c_char :: "int \<Rightarrow> char" where
  "c_char n = char_of (n mod 256)"

text \<open>Conversion of a promoted \<open>char\<close> to \<open>unsigned\<close>, \<open>uint32_t\<close> and \<open>uint64_t\<close>.\<close>

definition c_u32 :: "char \<Rightarrow> u32" where
  "c_u32 c = word_of_int (c_int c)"

definition c_u64 :: "char \<Rightarrow> u64" where
  "c_u64 c = word_of_int (c_int c)"

lemma all_char_iff: "(\<forall>c::char. P c) \<Longrightarrow> P c"
  by simp

section \<open>Checked reads and spans\<close>

definition rd :: "'a list \<Rightarrow> nat \<Rightarrow> 'a option" where
  "rd m i = (if i < length m then Some (m ! i) else None)"

text \<open>\<open>rd_block m off n\<close> is the read of \<open>n\<close> consecutive elements (\<open>memcmp\<close>, \<open>memcpy\<close>).\<close>

definition rd_block :: "'a list \<Rightarrow> nat \<Rightarrow> nat \<Rightarrow> 'a list option" where
  "rd_block m off n = (if off + n \<le> length m then Some (take n (drop off m)) else None)"

lemma rd_Some [simp]: "i < length m \<Longrightarrow> rd m i = Some (m ! i)"
  by (simp add: rd_def)

lemma rd_block_Some [simp]:
  "off + n \<le> length m \<Longrightarrow> rd_block m off n = Some (take n (drop off m))"
  by (simp add: rd_block_def)

lemma rd_None_iff [simp]: "rd m i = None \<longleftrightarrow> length m \<le> i"
  by (auto simp: rd_def)

section \<open>C for loops\<close>

text \<open>
  \<open>c_for f st is\<close> runs the loop body \<open>f\<close> over the index values \<open>is\<close>. The body
  answers \<open>Inr st'\<close> to go on, \<open>Inl r\<close> to leave the loop with \<open>r\<close>
  (\<open>return\<close> or \<open>break\<close>), and \<open>None\<close> when it performs an undefined memory access.
\<close>

primrec c_for :: "('st \<Rightarrow> 'i \<Rightarrow> ('r + 'st) option) \<Rightarrow> 'st \<Rightarrow> 'i list \<Rightarrow> ('r + 'st) option" where
  "c_for f st [] = Some (Inr st)"
| "c_for f st (i # is) =
     (case f st i of
        None \<Rightarrow> None
      | Some (Inl r) \<Rightarrow> Some (Inl r)
      | Some (Inr st') \<Rightarrow> c_for f st' is)"

text \<open>The special case of a loop that returns \<open>false\<close> at the first index failing a test.\<close>

primrec c_forall :: "('i \<Rightarrow> bool option) \<Rightarrow> 'i list \<Rightarrow> bool option" where
  "c_forall P [] = Some True"
| "c_forall P (i # is) = do { ok \<leftarrow> P i; if ok then c_forall P is else Some False }"

lemma c_forall_Some:
  "(\<And>i. i \<in> set is \<Longrightarrow> P i = Some (q i)) \<Longrightarrow> c_forall P is = Some (\<forall>i\<in>set is. q i)"
  by (induction "is") auto

lemma c_for_append:
  "c_for f st (xs @ ys) =
     (case c_for f st xs of
        None \<Rightarrow> None | Some (Inl r) \<Rightarrow> Some (Inl r) | Some (Inr st') \<Rightarrow> c_for f st' ys)"
  by (induction xs arbitrary: st) (auto split: option.splits sum.splits)

text \<open>Invariant rule: a body that keeps \<open>I\<close> and whose early exits satisfy \<open>Q\<close>.\<close>

lemma c_for_invariant:
  assumes "I st"
    and "\<And>st i. I st \<Longrightarrow> i \<in> set is \<Longrightarrow>
           (\<exists>r. f st i = Some (Inl r) \<and> Q r) \<or> (\<exists>st'. f st i = Some (Inr st') \<and> I st')"
  shows "(\<exists>r. c_for f st is = Some (Inl r) \<and> Q r) \<or> (\<exists>st'. c_for f st is = Some (Inr st') \<and> I st')"
  using assms
proof (induction "is" arbitrary: st)
  case (Cons i "is")
  from Cons.prems(2) [OF Cons.prems(1), of i] show ?case
    using Cons.IH Cons.prems(2) by fastforce
qed simp

text \<open>Index-dependent invariants of a loop over \<open>[0..<n]\<close> that never leaves early.\<close>

lemma c_for_upt_invariant:
  assumes "I 0 st" "\<And>i st. i < n \<Longrightarrow> I i st \<Longrightarrow> \<exists>st'. f st i = Some (Inr st') \<and> I (Suc i) st'"
  shows "\<exists>st'. c_for f st [0..<n] = Some (Inr st') \<and> I n st'"
  using assms
proof (induction n)
  case (Suc n)
  then obtain st' where "c_for f st [0..<n] = Some (Inr st')" "I n st'" by (meson less_SucI)
  with Suc.prems(2) [of n st'] show ?case by (auto simp: c_for_append)
qed simp

lemma c_for_upt_outcomes:
  assumes "I 0 st" "\<And>i st. i < n \<Longrightarrow> I i st \<Longrightarrow>
      (\<exists>r. f st i = Some (Inl r) \<and> Q r) \<or> (\<exists>st'. f st i = Some (Inr st') \<and> I (Suc i) st')"
  shows "(\<exists>r. c_for f st [0..<n] = Some (Inl r) \<and> Q r) \<or> (\<exists>st'. c_for f st [0..<n] = Some (Inr st') \<and> I n st')"
  using assms
proof (induction n)
  case (Suc n)
  then have "(\<exists>r. c_for f st [0..<n] = Some (Inl r) \<and> Q r) \<or> (\<exists>st'. c_for f st [0..<n] = Some (Inr st') \<and> I n st')"
    by (meson less_SucI)
  then show ?case
  proof
    assume "\<exists>st'. c_for f st [0..<n] = Some (Inr st') \<and> I n st'"
    then obtain st' where st': "c_for f st [0..<n] = Some (Inr st')" "I n st'" by blast
    with Suc.prems(2) [OF lessI st'(2)] show ?thesis by (auto simp: c_for_append)
  qed (auto simp: c_for_append)
qed simp

lemma c_for_upt_result:
  assumes "I 0 st" "\<And>i st st'. i < n \<Longrightarrow> I i st \<Longrightarrow> f st i = Some (Inr st') \<Longrightarrow> I (Suc i) st'"
    and "c_for f st [0..<n] = Some (Inr st')"
  shows "I n st'"
  using assms(2,3)
proof (induction n arbitrary: st')
  case 0
  then show ?case using assms(1) by simp
next
  case (Suc n)
  then show ?case by (fastforce simp: c_for_append split: option.splits sum.splits)
qed

text \<open>A loop that always runs to its end, and a loop that fills an array slot by slot.\<close>

primrec c_fold :: "('st \<Rightarrow> 'i \<Rightarrow> 'st option) \<Rightarrow> 'st \<Rightarrow> 'i list \<Rightarrow> 'st option" where
  "c_fold f st [] = Some st"
| "c_fold f st (i # is) = do { st \<leftarrow> f st i; c_fold f st is }"

primrec c_map :: "('i \<Rightarrow> 'a option) \<Rightarrow> 'i list \<Rightarrow> 'a list option" where
  "c_map f [] = Some []"
| "c_map f (i # is) = do { x \<leftarrow> f i; xs \<leftarrow> c_map f is; Some (x # xs) }"

lemma c_map_Some: "(\<And>i. i \<in> set is \<Longrightarrow> f i = Some (g i)) \<Longrightarrow> c_map f is = Some (map g is)"
  by (induction "is") auto

lemma c_fold_append: "c_fold f st (xs @ ys) = do { st \<leftarrow> c_fold f st xs; c_fold f st ys }"
  by (induction xs arbitrary: st) (auto split: Option.bind_splits)

text \<open>Invariant rules: for a loop over arbitrary items, and for a counting loop.\<close>

lemma c_fold_invariant:
  assumes "I [] st"
    and "\<And>done x st. done @ [x] \<in> set (prefixes is) \<Longrightarrow> I done st \<Longrightarrow> \<exists>st'. f st x = Some st' \<and> I (done @ [x]) st'"
  shows "\<exists>st'. c_fold f st is = Some st' \<and> I is st'"
  using assms(2)
proof (induction "is" rule: rev_induct)
  case Nil
  then show ?case using assms(1) by simp
next
  case (snoc x xs)
  have "\<exists>st'. c_fold f st xs = Some st' \<and> I xs st'" by (rule snoc.IH) (use snoc.prems in auto)
  then show ?case using snoc.prems [of xs x] by (auto simp: c_fold_append)
qed

lemma c_fold_upt_invariant:
  assumes "a \<le> b" "I a st"
    and "\<And>i st. a \<le> i \<Longrightarrow> i < b \<Longrightarrow> I i st \<Longrightarrow> \<exists>st'. f st i = Some st' \<and> I (Suc i) st'"
  shows "\<exists>st'. c_fold f st [a..<b] = Some st' \<and> I b st'"
  using assms(1,3)
proof (induction b rule: dec_induct)
  case base
  then show ?case using assms(2) by simp
next
  case (step n)
  then have "\<exists>st'. c_fold f st [a..<n] = Some st' \<and> I n st'" by auto
  then show ?case using step.prems [of n] step.hyps by (auto simp: c_fold_append)
qed

text \<open>\<open>and_then\<close> sequences two steps, either of which may exit or access memory it must not.\<close>

definition and_then :: "('e + 'a) option \<Rightarrow> ('a \<Rightarrow> ('e + 'b) option) \<Rightarrow> ('e + 'b) option" where
  "and_then m f = (case m of None \<Rightarrow> None | Some (Inl e) \<Rightarrow> Some (Inl e) | Some (Inr x) \<Rightarrow> f x)"

lemma and_then_simps [simp]:
  "and_then None f = None" "and_then (Some (Inl e)) f = Some (Inl e)" "and_then (Some (Inr x)) f = f x"
  by (simp_all add: and_then_def)

section \<open>Words\<close>

lemma unat_of_nat_small: "n < 2 ^ LENGTH('a) \<Longrightarrow> unat (of_nat n :: 'a::len word) = n"
  by (simp add: unat_of_nat)

section \<open>Generic list lemmas\<close>

lemma ball_upt_nth: "(\<forall>i\<in>set [0..<length t]. P (t ! i)) \<longleftrightarrow> (\<forall>x\<in>set t. P x)"
  by (auto simp: all_set_conv_all_nth)

lemma map_eq_nth:
  "length t = length c \<Longrightarrow> map f t = map f c \<longleftrightarrow> (\<forall>i<length c. f (c ! i) = f (t ! i))"
  by (induction t c rule: list_induct2) (auto simp: less_Suc_eq_0_disj)

lemma takeWhile_append_hd:
  "(\<forall>x\<in>set a. P x) \<Longrightarrow> (b = [] \<or> \<not> P (hd b)) \<Longrightarrow> takeWhile P (a @ b) = a"
  by (cases b) auto

lemma dropWhile_append_hd:
  "(\<forall>x\<in>set a. P x) \<Longrightarrow> (b = [] \<or> \<not> P (hd b)) \<Longrightarrow> dropWhile P (a @ b) = b"
  by (cases b) auto

lemma upt_split_at: "k < n \<Longrightarrow> [0..<n] = [0..<k] @ k # [Suc k..<n]"
  using upt_add_eq_append [of 0 k "n - k"] by (simp add: upt_conv_Cons)

lemma nth_drop_hd: "i < length xs \<Longrightarrow> hd (drop i xs) = xs ! i"
  by (rule hd_drop_conv_nth)

lemma length_concat_blocks: "\<forall>i<n. length (f i) = k \<Longrightarrow> length (concat (map f [0..<n])) = n * k"
  by (induction n) auto

lemma nth_concat_blocks:
  assumes "\<forall>i<n. length (f i) = k" "i < n" "j < k"
  shows "concat (map f [0..<n]) ! (i * k + j) = f i ! j"
  using assms
proof (induction n)
  case (Suc n)
  have len: "length (concat (map f [0..<n])) = n * k"
    using Suc.prems(1) by (intro length_concat_blocks) auto
  show ?case
  proof (cases "i = n")
    case True
    then show ?thesis using len Suc.prems by (simp add: nth_append)
  next
    case False
    then have "Suc i * k \<le> n * k" using Suc.prems by (intro mult_le_mono1) auto
    then have "i * k + j < n * k" using Suc.prems(3) by simp
    then show ?thesis using len Suc False by (simp add: nth_append)
  qed
qed simp

lemma map_fixed: "map f xs = xs \<Longrightarrow> x \<in> set xs \<Longrightarrow> f x = x"
  by (induction xs) auto

section \<open>Byte memory\<close>

text \<open>Numbers in little-endian byte order; \<open>le_bytes n\<close> truncates to \<open>n\<close> bytes.\<close>

primrec le_bytes :: "nat \<Rightarrow> nat \<Rightarrow> u8 list" where
  "le_bytes 0 x = []"
| "le_bytes (Suc n) x = of_nat x # le_bytes n (x div 256)"

primrec le_nat :: "u8 list \<Rightarrow> nat" where
  "le_nat [] = 0"
| "le_nat (b # bs) = unat b + 256 * le_nat bs"

lemma length_le_bytes [simp]: "length (le_bytes n x) = n"
  by (induction n arbitrary: x) auto

lemma le_nat_bytes: "le_nat (le_bytes n x) = x mod 256 ^ n"
proof (induction n arbitrary: x)
  case (Suc n)
  have "unat (of_nat x :: u8) = x mod 256" by (simp add: unat_of_nat)
  then show ?case using Suc [of "x div 256"] by (simp add: mod_mult2_eq)
qed simp

lemma le_nat_less: "le_nat bs < 256 ^ length bs"
proof (induction bs)
  case (Cons b bs)
  have "unat b < 256" using unsigned_less [of b, where ?'a=nat] by simp
  then show ?case using Cons by simp
qed simp

lemma le_bytes_nat: "le_bytes (length bs) (le_nat bs) = bs"
proof (induction bs)
  case (Cons b bs)
  have b: "unat b < 256" using unsigned_less [of b, where ?'a=nat] by simp
  then have "(unat b + 256 * le_nat bs) div 256 = le_nat bs" by simp
  moreover have "(of_nat (256 * le_nat bs) :: u8) = 0" by (subst word_of_nat_eq_0_iff) (simp add: dvd_def)
  ultimately show ?case using Cons by (simp del: of_nat_mult)
qed simp

text \<open>A write of consecutive elements; \<open>has mem off bs\<close> says that they are there.\<close>

definition wr_block :: "'a list \<Rightarrow> nat \<Rightarrow> 'a list \<Rightarrow> 'a list option" where
  "wr_block m off bs =
     (if off + length bs \<le> length m then Some (take off m @ bs @ drop (off + length bs) m) else None)"

lemma wr_block_length: "wr_block m off bs = Some m' \<Longrightarrow> length m' = length m"
  by (auto simp: wr_block_def split: if_splits)

lemma wr_block_at: "length pre = off \<Longrightarrow> length old = length bs \<Longrightarrow> wr_block (pre @ old @ post) off bs = Some (pre @ bs @ post)"
  by (simp add: wr_block_def)

definition has :: "'a list \<Rightarrow> nat \<Rightarrow> 'a list \<Rightarrow> bool" where
  "has m off bs \<longleftrightarrow> off + length bs \<le> length m \<and> take (length bs) (drop off m) = bs"

lemma has_rd: "has m off bs \<Longrightarrow> n = length bs \<Longrightarrow> rd_block m off n = Some bs"
  by (simp add: has_def)

lemma has_append: "has m off (bs @ cs) \<longleftrightarrow> has m off bs \<and> has m (off + length bs) cs"
proof -
  have "take (length (bs @ cs)) (drop off m) = take (length bs) (drop off m) @ take (length cs) (drop (off + length bs) m)"
    if "off + length (bs @ cs) \<le> length m"
    by (simp add: take_add add.commute)
  then show ?thesis by (auto simp: has_def append_eq_append_conv)
qed

lemma has_at: "length pre = off \<Longrightarrow> has (pre @ bs @ post) off bs"
  by (simp add: has_def)

section \<open>Encodings\<close>

text \<open>
  The contract of an encoding: \<open>enc\<close> maps the values in \<open>src\<close> to the codes in
  \<open>img\<close>, and \<open>dec\<close> is its inverse.
\<close>

locale codec =
  fixes enc :: "'a \<Rightarrow> 'b" and dec :: "'b \<Rightarrow> 'a" and src :: "'a \<Rightarrow> bool" and img :: "'b \<Rightarrow> bool"
  assumes dec_enc: "src x \<Longrightarrow> dec (enc x) = x"
    and enc_img: "src x \<Longrightarrow> img (enc x)"
    and enc_dec: "img y \<Longrightarrow> enc (dec y) = y"
    and dec_src: "img y \<Longrightarrow> src (dec y)"
begin

lemma enc_inject: "src x \<Longrightarrow> src y \<Longrightarrow> enc x = enc y \<longleftrightarrow> x = y"
  by (metis dec_enc)

lemma dec_inject: "img x \<Longrightarrow> img y \<Longrightarrow> dec x = dec y \<longleftrightarrow> x = y"
  by (metis enc_dec)

lemma img_iff: "img y \<longleftrightarrow> (\<exists>x. src x \<and> y = enc x)"
  by (metis enc_dec dec_src enc_img)

lemma bijection: "bij_betw enc (Collect src) (Collect img)"
  unfolding bij_betw_def inj_on_def using enc_inject img_iff by auto

end

text \<open>Little-endian numbers of a fixed width.\<close>

interpretation le: codec "le_bytes n" le_nat "\<lambda>x. x < 256 ^ n" "\<lambda>bs. length bs = n" for n
  by unfold_locales (use le_nat_less in \<open>auto simp: le_nat_bytes le_bytes_nat\<close>)

end
