(* ===== verification/Spans.thy ===== *)
theory Spans
  imports Prelude
begin

text \<open>
  The lexical layer of the configuration highlighter (\<open>contrib/highlighter/highlighter.c\<close>):
  string spans, character classes and the two span comparisons. A span is a pointer into the
  NUL-terminated configuration text, here the offset of the pointer, and a length. All reads go
  through the checked read of the prelude, so that an access outside the text object is the value
  \<open>None\<close>.

  The locale \<open>span_check\<close> is the interface every validator of the highlighter offers its
  callers: on a span that leaves at least one readable byte behind it, followed by an admissible
  byte, the validator performs no undefined access and decides a property of the span's characters
  alone.
\<close>

section \<open>Spans\<close>

record string_span_t =
  sp_s :: nat
  sp_len :: nat

definition at :: "cmem \<Rightarrow> string_span_t \<Rightarrow> nat \<Rightarrow> char option" where
  "at m s i = rd m (sp_s s + i)"

definition span_ok :: "cmem \<Rightarrow> string_span_t \<Rightarrow> bool" where
  "span_ok m s \<longleftrightarrow> sp_s s + sp_len s < length m"

definition span_str :: "cmem \<Rightarrow> string_span_t \<Rightarrow> string" where
  "span_str m s = take (sp_len s) (drop (sp_s s) m)"

definition span_next :: "cmem \<Rightarrow> string_span_t \<Rightarrow> char" where
  "span_next m s = m ! (sp_s s + sp_len s)"

lemma length_span_str [span_facts]: "span_ok m s \<Longrightarrow> length (span_str m s) = sp_len s"
  by (simp add: span_ok_def span_str_def)

lemma span_str_eqD: "span_ok m s \<Longrightarrow> span_str m s = c \<Longrightarrow> sp_len s = length c"
  by (auto simp: length_span_str)

lemma span_str_Nil_iff: "span_ok m s \<Longrightarrow> span_str m s = [] \<longleftrightarrow> sp_len s = 0"
  by (metis length_span_str length_0_conv)

lemma at_span_str [span_facts]:
  "span_ok m s \<Longrightarrow> i < sp_len s \<Longrightarrow> at m s i = Some (span_str m s ! i)"
  by (simp add: span_ok_def span_str_def at_def)

lemma at_span_next [span_facts]: "span_ok m s \<Longrightarrow> at m s (sp_len s) = Some (span_next m s)"
  by (simp add: span_ok_def span_next_def at_def)

lemma rd_block_span_str [span_facts]:
  "span_ok m s \<Longrightarrow> rd_block m (sp_s s) (sp_len s) = Some (span_str m s)"
  by (simp add: span_ok_def span_str_def)

lemma sub_span_ok [span_facts]:
  "span_ok m s \<Longrightarrow> a + n \<le> sp_len s \<Longrightarrow> span_ok m \<lparr>sp_s = sp_s s + a, sp_len = n\<rparr>"
  by (simp add: span_ok_def)

lemma sub_span_str [span_facts]:
  "span_ok m s \<Longrightarrow> a + n \<le> sp_len s \<Longrightarrow>
     span_str m \<lparr>sp_s = sp_s s + a, sp_len = n\<rparr> = take n (drop a (span_str m s))"
  by (simp add: span_ok_def span_str_def drop_take add.commute min_def)

lemma sub_span_next [span_facts]:
  "span_ok m s \<Longrightarrow> a + n < sp_len s \<Longrightarrow>
     span_next m \<lparr>sp_s = sp_s s + a, sp_len = n\<rparr> = span_str m s ! (a + n)"
  by (simp add: span_ok_def span_str_def span_next_def add.assoc)

lemma sub_span_next_end [span_facts]:
  "a + n = sp_len s \<Longrightarrow> span_next m \<lparr>sp_s = sp_s s + a, sp_len = n\<rparr> = span_next m s"
  by (auto simp: span_next_def add.assoc)

lemma drop_span_Cons:
  "span_ok m s \<Longrightarrow> i < sp_len s \<Longrightarrow>
     drop i (span_str m s) = span_str m s ! i # drop (Suc i) (span_str m s)"
  by (simp add: Cons_nth_drop_Suc length_span_str)

text \<open>A loop that tests every character of a part of the span against a class.\<close>

lemma c_forall_span [span_facts]:
  assumes "span_ok m s" "hi \<le> sp_len s"
  shows "c_forall (\<lambda>i. at m s i \<bind> (\<lambda>c. Some (P c))) [lo..<hi] =
           Some (\<forall>i\<in>{lo..<hi}. P (span_str m s ! i))"
  using assms
  by (subst c_forall_Some [where q = "\<lambda>i. P (span_str m s ! i)"]) (auto simp: at_span_str)

lemma ball_span_str:
  assumes "span_ok m s"
  shows "(\<forall>i\<in>{0..<sp_len s}. P (span_str m s ! i)) \<longleftrightarrow> (\<forall>c\<in>set (span_str m s). P c)"
  using length_span_str [OF assms] by (auto simp: all_set_conv_all_nth)

text \<open>
  A loop that looks for the first occurrence of a character and leaves with what the body computes
  there.
\<close>

definition search_step ::
  "cmem \<Rightarrow> string_span_t \<Rightarrow> char \<Rightarrow> (nat \<Rightarrow> 'r option) \<Rightarrow> unit \<Rightarrow> nat \<Rightarrow> ('r + unit) option" where
  "search_step m s x F st i = do {
     c \<leftarrow> at m s i;
     if c = x then do { r \<leftarrow> F i; Some (Inl r) } else Some (Inr ()) }"

definition index_of :: "char \<Rightarrow> string \<Rightarrow> nat" where
  "index_of x t = length (takeWhile (\<lambda>c. c \<noteq> x) t)"

lemma index_of_less: "x \<in> set t \<Longrightarrow> index_of x t < length t"
  unfolding index_of_def
  by (metis (mono_tags, lifting) length_takeWhile_le le_neq_implies_less takeWhile_eq_all_conv
      takeWhile_eq_take take_all_iff order_refl)

lemma nth_index_of: "x \<in> set t \<Longrightarrow> t ! index_of x t = x"
  using index_of_less nth_length_takeWhile unfolding index_of_def by fastforce

lemma take_index_of: "take (index_of x t) t = takeWhile (\<lambda>c. c \<noteq> x) t"
  unfolding index_of_def by (rule takeWhile_eq_take [symmetric])

lemma drop_index_of: "drop (index_of x t) t = dropWhile (\<lambda>c. c \<noteq> x) t"
  unfolding index_of_def by (rule dropWhile_eq_drop [symmetric])

text \<open>\<open>strlen\<close>; without a NUL in the object it runs out of bounds.\<close>

definition c_strlen :: "cmem \<Rightarrow> nat option" where
  "c_strlen m = (if CHR 0x00 \<in> set m then Some (index_of CHR 0x00 m) else None)"

lemma c_strlen_terminated: "c_strlen (s @ [CHR 0x00]) = Some (length (takeWhile (\<lambda>c. c \<noteq> CHR 0x00) s))"
  by (induction s) (auto simp: c_strlen_def index_of_def)

lemma c_strlen_no_nul: "CHR 0x00 \<notin> set s \<Longrightarrow> c_strlen (s @ [CHR 0x00]) = Some (length s)"
  by (induction s) (auto simp: c_strlen_def index_of_def)

lemma c_for_search:
  assumes ok: "span_ok m s"
  shows "c_for (search_step m s x F) () [0..<sp_len s] =
    (if x \<in> set (span_str m s) then do { r \<leftarrow> F (index_of x (span_str m s)); Some (Inl r) }
     else Some (Inr ()))"
proof -
  let ?t = "span_str m s"
  have len: "length ?t = sp_len s" using ok by (simp add: length_span_str)
  have pre: "c_for (search_step m s x F) () [0..<n] = Some (Inr ())"
    if "n \<le> sp_len s" "\<forall>i<n. ?t ! i \<noteq> x" for n
    using that ok
    by (induction n) (auto simp: c_for_append search_step_def at_span_str)
  show ?thesis
  proof (cases "x \<in> set ?t")
    case True
    let ?k = "index_of x ?t"
    have k: "?k < sp_len s" "?t ! ?k = x" using index_of_less [OF True] nth_index_of [OF True] len by auto
    have "\<forall>i<?k. ?t ! i \<noteq> x"
      unfolding index_of_def by (metis (mono_tags, lifting) nth_mem set_takeWhileD takeWhile_nth)
    then have "c_for (search_step m s x F) () [0..<?k] = Some (Inr ())"
      using pre k by simp
    moreover have "[0..<sp_len s] = [0..<?k] @ ?k # [Suc ?k..<sp_len s]"
      using k by (simp add: upt_split_at)
    ultimately show ?thesis
      using True k ok
      by (auto simp: c_for_append search_step_def at_span_str split: Option.bind_splits)
  next
    case False
    then show ?thesis
      using pre [OF order_refl] len by (auto simp: in_set_conv_nth)
  qed
qed

section \<open>Character classes\<close>

definition is_decimal :: "char \<Rightarrow> bool" where
  "is_decimal c \<longleftrightarrow> c_int c \<ge> c_int CHR ''0'' \<and> c_int c \<le> c_int CHR ''9''"

definition is_hexadecimal :: "char \<Rightarrow> bool" where
  "is_hexadecimal c \<longleftrightarrow>
     is_decimal c \<or> ((c_int c OR 32) \<ge> c_int CHR ''a'' \<and> (c_int c OR 32) \<le> c_int CHR ''f'')"

definition is_alphabet :: "char \<Rightarrow> bool" where
  "is_alphabet c \<longleftrightarrow> (c_int c OR 32) \<ge> c_int CHR ''a'' \<and> (c_int c OR 32) \<le> c_int CHR ''z''"

lemma is_decimal_set: "is_decimal c \<longleftrightarrow> c \<in> set ''0123456789''"
  by (rule all_char_iff, code_simp)

lemma is_hexadecimal_set: "is_hexadecimal c \<longleftrightarrow> c \<in> set ''0123456789abcdefABCDEF''"
  by (rule all_char_iff, code_simp)

lemma is_alphabet_set:
  "is_alphabet c \<longleftrightarrow>
     c \<in> set ''abcdefghijklmnopqrstuvwxyzABCDEFGHIJKLMNOPQRSTUVWXYZ''"
  by (rule all_char_iff, code_simp)

section \<open>Comparing spans with literals\<close>

definition is_same :: "cmem \<Rightarrow> string_span_t \<Rightarrow> string \<Rightarrow> bool option" where
  "is_same m s c =
     (let len = length c in
      if len \<noteq> sp_len s then Some False
      else do { t \<leftarrow> rd_block m (sp_s s) len; Some (t = c) })"

text \<open>
  \<open>if ((unsigned)a - 'a' < 26) a &= 95;\<close>: the subtraction wraps at 32 bits, so that only
  \<open>'a'\<close> to \<open>'z'\<close> pass.
\<close>

definition fold_case :: "char \<Rightarrow> char" where
  "fold_case a =
     (if c_u32 a - c_u32 CHR ''a'' < 26 then c_char (c_int a AND 95) else a)"

definition is_caseless_same :: "cmem \<Rightarrow> string_span_t \<Rightarrow> string \<Rightarrow> bool option" where
  "is_caseless_same m s c =
     (let len = length c in
      if len \<noteq> sp_len s then Some False
      else c_forall (\<lambda>i. do {
             let a = c ! i;
             b \<leftarrow> at m s i;
             Some (fold_case a = fold_case b) }) [0..<len])"

definition same_caseless :: "string \<Rightarrow> string \<Rightarrow> bool" where
  "same_caseless t c \<longleftrightarrow> map fold_case t = map fold_case c"

text \<open>ASCII upper case, as the reference for \<open>fold_case\<close>.\<close>

definition ascii_upper :: "char \<Rightarrow> char" where
  "ascii_upper c =
     (if of_char c \<ge> (97::nat) \<and> of_char c \<le> (122::nat) then char_of (of_char c - 32 :: nat) else c)"

lemma fold_case_upper: "fold_case c = ascii_upper c"
  by (rule all_char_iff, code_simp)

section \<open>The validator interface\<close>

locale span_check =
  fixes V :: "cmem \<Rightarrow> string_span_t \<Rightarrow> bool option"
    and spec :: "string \<Rightarrow> bool"
    and follow :: "char \<Rightarrow> bool"
  assumes refines:
    "span_ok m s \<Longrightarrow> follow (span_next m s) \<Longrightarrow> V m s = Some (spec (span_str m s))"
begin

lemma no_bad_read: "span_ok m s \<Longrightarrow> follow (span_next m s) \<Longrightarrow> V m s \<noteq> None"
  by (simp add: refines)

lemma content_only:
  "span_ok m s \<Longrightarrow> follow (span_next m s) \<Longrightarrow> span_ok m' s' \<Longrightarrow> follow (span_next m' s') \<Longrightarrow>
     span_str m s = span_str m' s' \<Longrightarrow> V m s = V m' s'"
  by (simp add: refines)

lemma on_sub_span:
  assumes "span_ok m s" "a + n < sp_len s" "follow (span_str m s ! (a + n))"
  shows "V m \<lparr>sp_s = sp_s s + a, sp_len = n\<rparr> = Some (spec (take n (drop a (span_str m s))))"
  using assms by (simp add: refines span_facts)

lemma on_tail_span:
  assumes "span_ok m s" "a + n = sp_len s" "follow (span_next m s)"
  shows "V m \<lparr>sp_s = sp_s s + a, sp_len = n\<rparr> = Some (spec (drop a (span_str m s)))"
  using assms by (simp add: refines span_facts)

end

interpretation same: span_check "\<lambda>m s. is_same m s c" "\<lambda>t. t = c" "\<lambda>_. True" for c
proof
  show "is_same m s c = Some (span_str m s = c)" if "span_ok m s" for m s
    using that length_span_str [OF that] by (auto simp: is_same_def span_facts Let_def)
qed

lemma is_caseless_same_refines:
  assumes "span_ok m s"
  shows "is_caseless_same m s c = Some (same_caseless (span_str m s) c)"
proof (cases "length c = sp_len s")
  case True
  let ?t = "span_str m s"
  have len: "length ?t = length c"
    using True assms by (simp add: span_facts)
  have "is_caseless_same m s c = Some (\<forall>i\<in>set [0..<length c]. fold_case (c ! i) = fold_case (?t ! i))"
    unfolding is_caseless_same_def Let_def using True assms
    by (subst c_forall_Some [where q = "\<lambda>i. fold_case (c ! i) = fold_case (?t ! i)"])
      (auto simp: span_facts)
  also have "(\<forall>i\<in>set [0..<length c]. fold_case (c ! i) = fold_case (?t ! i)) \<longleftrightarrow> same_caseless ?t c"
    unfolding same_caseless_def map_eq_nth [OF len] by auto
  finally show ?thesis .
next
  case False
  then have "length (span_str m s) \<noteq> length c"
    using assms by (simp add: span_facts)
  then have "\<not> same_caseless (span_str m s) c"
    by (metis same_caseless_def length_map)
  with False show ?thesis by (simp add: is_caseless_same_def Let_def)
qed

interpretation caseless: span_check "\<lambda>m s. is_caseless_same m s c" "\<lambda>t. same_caseless t c" "\<lambda>_. True" for c
  by unfold_locales (rule is_caseless_same_refines)

end
