(* ===== verification/Validators.thy ===== *)
theory Validators
  imports Spans
begin

text \<open>
  The value validators of the highlighter for keys, host names, IPv4 and IPv6 addresses
  (\<open>highlighter.c\<close>, \<open>is_valid_key\<close> to \<open>is_valid_ipv6\<close>). Each validator is followed by its reference predicate on strings and
  by the lemma that it refines that predicate without any access outside the text, which is the
  interpretation of the interface \<open>span_check\<close>.
\<close>

section \<open>Keys\<close>

definition is_valid_key :: "cmem \<Rightarrow> string_span_t \<Rightarrow> bool option" where
  "is_valid_key m s =
     (if sp_len s \<noteq> 44 then Some False else do {
        c43 \<leftarrow> at m s 43;
        if c43 \<noteq> CHR ''='' then Some False else do {
        ok \<leftarrow> c_forall (\<lambda>i. do {
            c \<leftarrow> at m s i;
            Some (\<not> (\<not> is_decimal c \<and> \<not> is_alphabet c \<and> c \<noteq> CHR ''/'' \<and> c \<noteq> CHR ''+'')) })
          [0..<42];
        if \<not> ok then Some False else do {
        c42 \<leftarrow> at m s 42;
        Some (c42 \<in> set ''AEIMQUYcgkosw480'') }}})"

definition b64_char :: "char \<Rightarrow> bool" where
  "b64_char c \<longleftrightarrow> is_decimal c \<or> is_alphabet c \<or> c = CHR ''/'' \<or> c = CHR ''+''"

definition key_text :: "string \<Rightarrow> bool" where
  "key_text t \<longleftrightarrow> length t = 44 \<and> t ! 43 = CHR ''='' \<and> (\<forall>i<42. b64_char (t ! i)) \<and>
     t ! 42 \<in> set ''AEIMQUYcgkosw480''"

lemma is_valid_key_refines:
  assumes ok: "span_ok m s"
  shows "is_valid_key m s = Some (key_text (span_str m s))"
proof (cases "sp_len s = 44")
  case True
  then have "length (span_str m s) = 44"
    using ok by (simp add: span_facts)
  with True ok show ?thesis
    by (auto simp: is_valid_key_def key_text_def b64_char_def span_facts)
next
  case False
  then show ?thesis
    using ok by (simp add: is_valid_key_def key_text_def span_facts)
qed

interpretation key: span_check is_valid_key key_text "\<lambda>_. True"
  by unfold_locales (rule is_valid_key_refines)

section \<open>Host names\<close>

text \<open>
  The loop body keeps the source's order of tests; the counters are \<open>size_t\<close> values bounded by
  the span's length. The last test can only be reached with a character that is not a dot.
\<close>

definition hostname_step ::
  "cmem \<Rightarrow> string_span_t \<Rightarrow> nat \<times> nat \<Rightarrow> nat \<Rightarrow> (bool + nat \<times> nat) option" where
  "hostname_step m s st i = (case st of (num_digit, num_entity) \<Rightarrow> do {
     c \<leftarrow> at m s i;
     if is_decimal c then Some (Inr (num_digit + 1, num_entity))
     else if c = CHR ''.'' then Some (Inr (num_digit, num_entity - 1))
     else if \<not> is_alphabet c \<and> c \<noteq> CHR ''-'' then Some (Inl False)
     else if i \<noteq> 0 \<and> c = CHR ''.'' then do {
       p \<leftarrow> at m s (i - 1);
       Some (if p = CHR ''.'' then Inl False else Inr (num_digit, num_entity)) }
     else Some (Inr (num_digit, num_entity)) })"

definition is_valid_hostname :: "cmem \<Rightarrow> string_span_t \<Rightarrow> bool option" where
  "is_valid_hostname m s =
     (if sp_len s > 63 \<or> sp_len s = 0 then Some False else do {
        c0 \<leftarrow> at m s 0;
        cn \<leftarrow> at m s (sp_len s - 1);
        if c0 = CHR ''-'' \<or> cn = CHR ''-'' then Some False
        else if c0 = CHR ''.'' \<or> cn = CHR ''.'' then Some False
        else do {
          r \<leftarrow> c_for (hostname_step m s) (0, sp_len s) [0..<sp_len s];
          Some (case r of Inl b \<Rightarrow> b
                 | Inr (num_digit, num_entity) \<Rightarrow> num_digit \<noteq> num_entity) }})"

definition host_char :: "char \<Rightarrow> bool" where
  "host_char c \<longleftrightarrow> is_decimal c \<or> is_alphabet c \<or> c = CHR ''.'' \<or> c = CHR ''-''"

text \<open>The reference: admissible characters, no dash or dot at the ends, not only digits and dots.\<close>

definition hostname_text :: "string \<Rightarrow> bool" where
  "hostname_text t \<longleftrightarrow> 0 < length t \<and> length t \<le> 63 \<and>
     hd t \<notin> set ''-.'' \<and> last t \<notin> set ''-.'' \<and> (\<forall>c\<in>set t. host_char c) \<and>
     (\<exists>c\<in>set t. \<not> is_decimal c \<and> c \<noteq> CHR ''.'')"

lemma hostname_loop:
  assumes ok: "span_ok m s"
  shows "n \<le> sp_len s \<Longrightarrow>
    c_for (hostname_step m s) (0, sp_len s) [0..<n] =
      Some (if \<forall>c\<in>set (take n (span_str m s)). host_char c
            then Inr (length (filter is_decimal (take n (span_str m s))),
                      sp_len s - length (filter (\<lambda>c. c = CHR ''.'') (take n (span_str m s))))
            else Inl False)"
proof (induction n)
  case (Suc n)
  have "take (Suc n) (span_str m s) = take n (span_str m s) @ [span_str m s ! n]"
    using Suc.prems length_span_str [OF ok] by (simp add: take_Suc_conv_app_nth)
  moreover have "\<not> is_decimal CHR ''.''" by code_simp
  ultimately show ?case
    using Suc ok by (auto simp: c_for_append hostname_step_def at_span_str host_char_def)
qed simp

lemma digits_dots_count:
  "length (filter is_decimal t) = length t - length (filter (\<lambda>c. c = CHR ''.'') t) \<longleftrightarrow>
     (\<forall>c\<in>set t. is_decimal c \<or> c = CHR ''.'')"
proof (induction t)
  case (Cons c t)
  have "\<not> is_decimal CHR ''.''" by code_simp
  moreover have "length (filter is_decimal t) + length (filter (\<lambda>c. c = CHR ''.'') t) \<le> length t"
    using \<open>\<not> is_decimal CHR ''.''\<close> by (induction t) auto
  moreover have "length (filter (\<lambda>c. c = CHR ''.'') t) \<le> length t" by (rule length_filter_le)
  ultimately show ?case
    using Cons by (auto simp: Suc_diff_le)
qed simp

lemma is_valid_hostname_refines:
  assumes ok: "span_ok m s"
  shows "is_valid_hostname m s = Some (hostname_text (span_str m s))"
proof (cases "sp_len s > 63 \<or> sp_len s = 0")
  case True
  then show ?thesis
    using ok by (auto simp: is_valid_hostname_def hostname_text_def span_facts)
next
  case False
  let ?t = "span_str m s"
  have len: "length ?t = sp_len s" and ne: "?t \<noteq> []"
    using ok False length_span_str [OF ok] by auto
  have h: "at m s 0 = Some (hd ?t)" and l: "at m s (sp_len s - 1) = Some (last ?t)"
    using ok False ne len by (simp_all add: at_span_str hd_conv_nth last_conv_nth)
  have "c_for (hostname_step m s) (0, sp_len s) [0..<sp_len s] =
      Some (if \<forall>c\<in>set ?t. host_char c
            then Inr (length (filter is_decimal ?t), sp_len s - length (filter (\<lambda>c. c = CHR ''.'') ?t))
            else Inl False)"
    using hostname_loop [OF ok order_refl] len by simp
  then show ?thesis
    using False h l ne len digits_dots_count [of ?t]
    by (auto simp: is_valid_hostname_def hostname_text_def)
qed

interpretation hostname: span_check is_valid_hostname hostname_text "\<lambda>_. True"
  by unfold_locales (rule is_valid_hostname_refines)

section \<open>IPv4 addresses\<close>

text \<open>
  The inner loop \<open>for (j = 0; j < 3 && pos + j < s.len && is_decimal(s.s[pos + j]); ++j)\<close>;
  it returns \<open>j\<close> and the accumulated \<open>uint32_t\<close>.
\<close>

function ipv4_digits :: "cmem \<Rightarrow> string_span_t \<Rightarrow> nat \<Rightarrow> nat \<Rightarrow> u32 \<Rightarrow> (nat \<times> u32) option" where
  "ipv4_digits m s pos j val =
     (if j < 3 \<and> pos + j < sp_len s then do {
        c \<leftarrow> at m s (pos + j);
        if is_decimal c then ipv4_digits m s pos (j + 1) (10 * val + c_u32 c - c_u32 CHR ''0'')
        else Some (j, val) }
      else Some (j, val))"
  by pat_completeness auto
termination
  by (relation "measure (\<lambda>(m, s, pos, j, val). 3 - j)") auto

text \<open>
  The outer loop. Its last test reads \<open>s.s[pos + j]\<close>, one byte behind the span when the
  digits reach the end of it.
\<close>

function ipv4_groups :: "cmem \<Rightarrow> string_span_t \<Rightarrow> nat \<Rightarrow> nat \<Rightarrow> bool option" where
  "ipv4_groups m s i pos =
     (if i < 4 \<and> pos < sp_len s then do {
        (j, val) \<leftarrow> ipv4_digits m s pos 0 0;
        c0 \<leftarrow> at m s pos;
        if j = 0 \<or> (j > 1 \<and> c0 = CHR ''0'') \<or> val > 255 then Some False
        else if pos + j = sp_len s \<and> i = 3 then Some True
        else do {
          c \<leftarrow> at m s (pos + j);
          if c \<noteq> CHR ''.'' then Some False
          else ipv4_groups m s (i + 1) (pos + (j + 1)) }}
      else Some False)"
  by pat_completeness auto
termination
  by (relation "measure (\<lambda>(m, s, i, pos). 4 - i)") auto

definition is_valid_ipv4 :: "cmem \<Rightarrow> string_span_t \<Rightarrow> bool option" where
  "is_valid_ipv4 m s = ipv4_groups m s 0 0"

declare ipv4_digits.simps [simp del] ipv4_groups.simps [simp del]

text \<open>
  The reference. An octet is one to three digits without a redundant leading zero whose value is
  at most 255; an address is four octets separated by dots.
\<close>

definition digit_val :: "char \<Rightarrow> nat" where
  "digit_val c = nat (c_int c - c_int CHR ''0'')"

definition dec_val :: "string \<Rightarrow> nat" where
  "dec_val d = foldl (\<lambda>v c. 10 * v + digit_val c) 0 d"

definition octet_text :: "string \<Rightarrow> bool" where
  "octet_text d \<longleftrightarrow> d \<noteq> [] \<and> length d \<le> 3 \<and> (\<forall>c\<in>set d. is_decimal c) \<and>
     (length d > 1 \<longrightarrow> hd d \<noteq> CHR ''0'') \<and> dec_val d \<le> 255"

fun ipv4_rest :: "nat \<Rightarrow> string \<Rightarrow> bool" where
  "ipv4_rest 0 t = False"
| "ipv4_rest (Suc n) t =
     (let d = takeWhile is_decimal (take 3 t); r = drop (length d) t in
      octet_text d \<and>
      (if r = [] then n = 0 else hd r = CHR ''.'' \<and> ipv4_rest n (tl r)))"

definition ipv4_text :: "string \<Rightarrow> bool" where
  "ipv4_text t = ipv4_rest 4 t"

lemma digit_u32 [rule_format, char_facts]: "\<forall>c. is_decimal c \<longrightarrow> c_u32 c - c_u32 CHR ''0'' = of_nat (digit_val c)"
  by code_simp

lemma digit_u64 [rule_format, char_facts]: "\<forall>c. is_decimal c \<longrightarrow> c_u64 c - c_u64 CHR ''0'' = of_nat (digit_val c)"
  by code_simp

lemma digit_val_less [rule_format, char_facts]: "\<forall>c. is_decimal c \<longrightarrow> digit_val c < 10"
  by code_simp

lemma digit_acc [char_facts]:
  "is_decimal c \<Longrightarrow> x + c_u32 c - c_u32 CHR ''0'' = x + of_nat (digit_val c)"
  "is_decimal c \<Longrightarrow> y + c_u64 c - c_u64 CHR ''0'' = y + of_nat (digit_val c)"
  by (simp_all add: char_facts add_diff_eq [symmetric])

lemma not_decimal_dot [simp]: "\<not> is_decimal CHR ''.''"
  by code_simp

lemma dec_val_snoc [simp]: "dec_val (d @ [c]) = 10 * dec_val d + digit_val c"
  by (simp add: dec_val_def)

lemma dec_val_Nil [simp]: "dec_val [] = 0"
  by (simp add: dec_val_def)

lemma of_nat_foldl_dec:
  "foldl (\<lambda>v c. 10 * v + of_nat (digit_val c)) (of_nat n) d =
     (of_nat (foldl (\<lambda>v c. 10 * v + digit_val c) n d) :: 'a :: len word)"
proof (induction d arbitrary: n)
  case (Cons c d)
  show ?case
    using Cons.IH [of "10 * n + digit_val c"] by simp
qed simp

lemma dec_val_bound: "(\<forall>c\<in>set d. is_decimal c) \<Longrightarrow> dec_val d < 10 ^ length d"
proof (induction d rule: rev_induct)
  case (snoc c d)
  then have "digit_val c < 10" "dec_val d < 10 ^ length d"
    by (auto simp: char_facts)
  then show ?case by simp
qed simp

lemma ipv4_digits_eq:
  "span_ok m s \<Longrightarrow> ipv4_digits m s pos j val =
     (let d = takeWhile is_decimal (take (3 - j) (drop (pos + j) (span_str m s))) in
      Some (j + length d, foldl (\<lambda>v c. 10 * v + of_nat (digit_val c)) val d))"
proof (induction m s pos j val rule: ipv4_digits.induct)
  case (1 m s pos j val)
  show ?case
  proof (cases "j < 3 \<and> pos + j < sp_len s")
    case True
    moreover have "3 - j = Suc (3 - (j + 1))"
      using True by arith
    ultimately show ?thesis
      using 1 drop_span_Cons [of m s "pos + j"]
      by (subst ipv4_digits.simps) (auto simp: Let_def span_facts char_facts)
  next
    case False
    then show ?thesis
      using 1 by (subst ipv4_digits.simps) (auto simp: Let_def span_facts)
  qed
qed

lemma ipv4_digits_0:
  assumes "span_ok m s"
  shows "ipv4_digits m s pos 0 0 =
     (let d = takeWhile is_decimal (take 3 (drop pos (span_str m s))) in
      Some (length d, of_nat (dec_val d)))"
  using ipv4_digits_eq [OF assms, of pos 0 0] of_nat_foldl_dec [of 0, where 'a = 32]
  by (simp add: dec_val_def)

lemma takeWhile_digits:
  fixes P :: "char \<Rightarrow> bool" and n :: nat and t :: string
  defines "d \<equiv> takeWhile P (take n t)"
  shows "length d \<le> n" "\<forall>c\<in>set d. P c" "d = take (length d) t" "length d \<le> length t"
proof -
  show "length d \<le> n" "length d \<le> length t"
    unfolding d_def by (metis length_takeWhile_le length_take min.boundedE)+
  show "\<forall>c\<in>set d. P c"
    unfolding d_def by (auto dest: set_takeWhileD)
  show "d = take (length d) t"
    unfolding d_def
    by (metis length_takeWhile_le length_take min.boundedE take_take min.absorb1 takeWhile_eq_take)
qed

lemma word_dec_small:
  assumes "\<forall>c\<in>set d. is_decimal c" "length d \<le> 3"
  shows "(of_nat (dec_val d) :: u32) > 255 \<longleftrightarrow> dec_val d > 255"
proof -
  have "dec_val d < 10 ^ length d" by (rule dec_val_bound [OF assms(1)])
  also have "(10::nat) ^ length d \<le> 10 ^ 3" using assms(2) by (intro power_increasing) auto
  finally have "unat (of_nat (dec_val d) :: u32) = dec_val d"
    by (intro unat_of_nat_small) simp
  then show ?thesis by (simp add: word_less_nat_alt)
qed

lemma ipv4_rest_Nil [simp]: "\<not> ipv4_rest n []"
  by (cases n) (auto simp: octet_text_def)

text \<open>One round of the reference and of the code, with the digits of the group named.\<close>

abbreviation group4 :: "string \<Rightarrow> nat \<Rightarrow> string" where
  "group4 t pos \<equiv> takeWhile is_decimal (take 3 (drop pos t))"

lemma ipv4_rest_at:
  assumes "pos < length t" "i < 4" "d = group4 t pos"
  shows "ipv4_rest (4 - i) (drop pos t) =
    (octet_text d \<and> (if drop (pos + length d) t = [] then i = 3
       else t ! (pos + length d) = CHR ''.'' \<and> ipv4_rest (4 - (i + 1)) (drop (pos + (length d + 1)) t)))"
proof -
  have "4 - i = Suc (4 - (i + 1))" using assms(2) by arith
  moreover have "drop (length d) (drop pos t) = drop (pos + length d) t" by (simp add: add.commute)
  ultimately show ?thesis
    using assms(1,2) by (auto simp: assms(3) [symmetric] hd_drop_conv_nth drop_Suc tl_drop Let_def add.commute)
qed

lemma ipv4_groups_at:
  assumes ok: "span_ok m s" and pos: "pos < sp_len s" "i < 4" and d: "d = group4 (span_str m s) pos"
  shows "ipv4_groups m s i pos =
    (if \<not> octet_text d then Some False
     else if pos + length d = sp_len s \<and> i = 3 then Some True
     else do {
       c \<leftarrow> at m s (pos + length d);
       if c \<noteq> CHR ''.'' then Some False else ipv4_groups m s (i + 1) (pos + (length d + 1)) })"
proof -
  let ?t = "span_str m s"
  note dd = takeWhile_digits [where P = is_decimal and n = 3 and t = "drop pos ?t", folded d]
  have small: "(255 < (of_nat (dec_val d) :: u32)) = (255 < dec_val d)" by (rule word_dec_small) (use dd in auto)
  have hd: "d \<noteq> [] \<Longrightarrow> hd d = ?t ! pos"
    using pos ok dd(3) by (metis hd_drop_conv_nth hd_take length_greater_0_conv length_span_str)
  have dig: "ipv4_digits m s pos 0 0 = Some (length d, of_nat (dec_val d))" using ok by (simp add: ipv4_digits_0 d Let_def)
  have at0: "at m s pos = Some (?t ! pos)" using pos ok by (simp add: at_span_str)
  show ?thesis using pos dd hd by (subst ipv4_groups.simps) (auto simp: dig at0 small octet_text_def)
qed

lemma ipv4_groups_eq:
  assumes "span_ok m s"
  shows "i \<le> 4 \<Longrightarrow> ipv4_groups m s i pos = Some (ipv4_rest (4 - i) (drop pos (span_str m s)))"
proof (induction "sp_len s - pos" arbitrary: i pos rule: less_induct)
  case less
  let ?t = "span_str m s"
  define d where "d = group4 ?t pos"
  have len: "length ?t = sp_len s" using assms by (simp add: span_facts)
  show ?case
  proof (cases "i < 4 \<and> pos < sp_len s")
    case True
    note code = ipv4_groups_at [OF assms _ _ d_def, of i] and ref = ipv4_rest_at [OF _ _ d_def, of i]
    have bound: "pos + length d \<le> sp_len s"
      using takeWhile_digits(4) [where P = is_decimal and n = 3 and t = "drop pos ?t", folded d_def] len True by auto
    have IH: "ipv4_groups m s (i + 1) (pos + (length d + 1)) = Some (ipv4_rest (4 - (i + 1)) (drop (pos + (length d + 1)) ?t))"
      by (rule less.hyps) (use True in auto)
    have "at m s (pos + length d) = Some (?t ! (pos + length d))" if "pos + length d \<noteq> sp_len s"
      using that bound assms by (simp add: at_span_str)
    then show ?thesis
      using True len bound IH at_span_next [OF assms] by (cases "pos + length d = sp_len s") (auto simp: code ref)
  next
    case False
    then have "i = 4 \<or> drop pos ?t = []" using less.prems len by auto
    with False show ?thesis by (subst ipv4_groups.simps) auto
  qed
qed

lemma is_valid_ipv4_refines: "span_ok m s \<Longrightarrow> is_valid_ipv4 m s = Some (ipv4_text (span_str m s))"
  by (simp add: is_valid_ipv4_def ipv4_text_def ipv4_groups_eq)

interpretation ipv4: span_check is_valid_ipv4 ipv4_text "\<lambda>_. True"
  by unfold_locales (rule is_valid_ipv4_refines)

section \<open>IPv6 addresses\<close>

text \<open>\<open>for (j = 0; j < 4 && pos + j < s.len && is_hexadecimal(s.s[pos + j]); ++j);\<close>\<close>

function ipv6_digits :: "cmem \<Rightarrow> string_span_t \<Rightarrow> nat \<Rightarrow> nat \<Rightarrow> nat option" where
  "ipv6_digits m s pos j =
     (if j < 4 \<and> pos + j < sp_len s then do {
        c \<leftarrow> at m s (pos + j);
        if is_hexadecimal c then ipv6_digits m s pos (j + 1) else Some j }
      else Some j)"
  by pat_completeness auto
termination
  by (relation "measure (\<lambda>(m, s, pos, j). 4 - j)") auto

function ipv6_groups :: "cmem \<Rightarrow> string_span_t \<Rightarrow> nat \<Rightarrow> nat \<Rightarrow> bool \<Rightarrow> bool option" where
  "ipv6_groups m s i pos seen_colon =
     (if pos < sp_len s then do {
        c0 \<leftarrow> at m s pos;
        if c0 = CHR '':'' \<and> \<not> seen_colon then
          (if pos + 1 = sp_len s then Some True
           else if i = 7 then Some False
           else ipv6_groups m s (i + 1) (pos + 1) True)
        else do {
          j \<leftarrow> ipv6_digits m s pos 0;
          if j = 0 then Some False
          else if pos + j = sp_len s \<and> (seen_colon \<or> i = 7) then Some True
          else if i = 7 then Some False
          else do {
            c \<leftarrow> at m s (pos + j);
            if c \<noteq> CHR '':'' then
              (if c \<noteq> CHR ''.'' \<or> (i < 6 \<and> \<not> seen_colon) then Some False
               else is_valid_ipv4 m \<lparr>sp_s = sp_s s + pos, sp_len = sp_len s - pos\<rparr>)
            else ipv6_groups m s (i + 1) (pos + (j + 1)) seen_colon }}}
      else Some True)"
  by pat_completeness auto
termination
  by (relation "measure (\<lambda>(m, s, i, pos, seen). sp_len s - pos)") auto

definition is_valid_ipv6 :: "cmem \<Rightarrow> string_span_t \<Rightarrow> bool option" where
  "is_valid_ipv6 m s =
     (if sp_len s < 2 then Some False else do {
        c0 \<leftarrow> at m s 0;
        c1 \<leftarrow> at m s 1;
        if c0 = CHR '':'' \<and> c1 \<noteq> CHR '':'' then Some False
        else do {
          let pos = (if c0 = CHR '':'' then 1 else 0);
          cl \<leftarrow> at m s (sp_len s - 1);
          ck \<leftarrow> at m s (sp_len s - 2);
          if cl = CHR '':'' \<and> ck \<noteq> CHR '':'' then Some False
          else ipv6_groups m s 0 pos False }})"

declare ipv6_digits.simps [simp del] ipv6_groups.simps [simp del]

text \<open>
  The reference follows the same left-to-right reading, on the string. Behind the last group the
  code looks at one more byte; it decides nothing unless that byte is a colon, which is why the
  interpretation below requires the byte behind the span to differ from \<open>':'\<close>.
\<close>

function ipv6_rest :: "nat \<Rightarrow> bool \<Rightarrow> string \<Rightarrow> bool" where
  "ipv6_rest i seen t =
     (if t = [] then True
      else if hd t = CHR '':'' \<and> \<not> seen then
        (if tl t = [] then True else i \<noteq> 7 \<and> ipv6_rest (i + 1) True (tl t))
      else
        (let d = takeWhile is_hexadecimal (take 4 t); r = drop (length d) t in
         d \<noteq> [] \<and>
         (if r = [] then seen \<or> i = 7
          else i \<noteq> 7 \<and>
            (if hd r = CHR '':'' then ipv6_rest (i + 1) seen (tl r)
             else hd r = CHR ''.'' \<and> (i \<ge> 6 \<or> seen) \<and> ipv4_text t))))"
  by pat_completeness auto
termination
proof (relation "measure (\<lambda>(i, seen, t). length t)", goal_cases)
  case (2 i seen t)
  then show ?case by (cases t) auto
next
  case (3 i seen t d r)
  then have "length (tl r) < length t" by (cases t) auto
  then show ?case by simp
qed simp

declare ipv6_rest.simps [simp del]

definition ipv6_text :: "string \<Rightarrow> bool" where
  "ipv6_text t \<longleftrightarrow> length t \<ge> 2 \<and> \<not> (t ! 0 = CHR '':'' \<and> t ! 1 \<noteq> CHR '':'') \<and>
     \<not> (t ! (length t - 1) = CHR '':'' \<and> t ! (length t - 2) \<noteq> CHR '':'') \<and>
     ipv6_rest 0 False (if t ! 0 = CHR '':'' then tl t else t)"

lemma not_hexadecimal_colon [simp]: "\<not> is_hexadecimal CHR '':''" "\<not> is_hexadecimal CHR ''.''"
  by (simp_all add: is_hexadecimal_set)

lemma ipv4_rest_has_dot:
  assumes "ipv4_rest (Suc n) t" "n \<noteq> 0"
  shows "CHR ''.'' \<in> set t"
proof -
  let ?r = "drop (length (takeWhile is_decimal (take 3 t))) t"
  have "?r \<noteq> []" "hd ?r = CHR ''.''"
    using assms by (auto simp: Let_def split: if_splits)
  then have "CHR ''.'' \<in> set ?r" by (metis hd_in_set)
  then show ?thesis by (rule in_set_dropD)
qed

lemma ipv4_text_has_dot: "ipv4_text t \<Longrightarrow> CHR ''.'' \<in> set t"
proof (rule ipv4_rest_has_dot)
  assume "ipv4_text t"
  moreover have "4 = Suc 3" by simp
  ultimately show "ipv4_rest (Suc 3) t" by (simp only: ipv4_text_def)
qed simp

lemma ipv6_digits_eq:
  "span_ok m s \<Longrightarrow> ipv6_digits m s pos j =
     Some (j + length (takeWhile is_hexadecimal (take (4 - j) (drop (pos + j) (span_str m s)))))"
proof (induction m s pos j rule: ipv6_digits.induct)
  case (1 m s pos j)
  show ?case
  proof (cases "j < 4 \<and> pos + j < sp_len s")
    case True
    moreover have "4 - j = Suc (4 - (j + 1))"
      using True by arith
    ultimately show ?thesis
      using 1 drop_span_Cons [of m s "pos + j"]
      by (subst ipv6_digits.simps) (auto simp: span_facts)
  next
    case False
    then show ?thesis
      using 1 by (subst ipv6_digits.simps) (auto simp: span_facts)
  qed
qed

text \<open>One round that is not the compressed run, in the code and in the reference.\<close>

abbreviation group6 :: "string \<Rightarrow> nat \<Rightarrow> string" where
  "group6 t pos \<equiv> takeWhile is_hexadecimal (take 4 (drop pos t))"

lemma ipv6_groups_at:
  assumes ok: "span_ok m s" and pos: "pos < sp_len s" and d: "d = group6 (span_str m s) pos"
    and group: "\<not> (span_str m s ! pos = CHR '':'' \<and> \<not> seen)"
  shows "ipv6_groups m s i pos seen =
    (if length d = 0 then Some False
     else if pos + length d = sp_len s \<and> (seen \<or> i = 7) then Some True
     else if i = 7 then Some False
     else do {
       c \<leftarrow> at m s (pos + length d);
       if c \<noteq> CHR '':'' then
         (if c \<noteq> CHR ''.'' \<or> (i < 6 \<and> \<not> seen) then Some False
          else Some (ipv4_text (drop pos (span_str m s))))
       else ipv6_groups m s (i + 1) (pos + (length d + 1)) seen })"
proof -
  have at0: "at m s pos = Some (span_str m s ! pos)" using pos ok by (simp add: at_span_str)
  have dig: "ipv6_digits m s pos 0 = Some (length d)" using ok by (simp add: ipv6_digits_eq d)
  have v4: "is_valid_ipv4 m \<lparr>sp_s = sp_s s + pos, sp_len = sp_len s - pos\<rparr> = Some (ipv4_text (drop pos (span_str m s)))"
    by (rule ipv4.on_tail_span) (use ok pos in auto)
  show ?thesis
    unfolding ipv6_groups.simps [of m s i pos] if_P [OF pos] at0 bind.bind_lunit if_not_P [OF group] dig v4 ..
qed

lemma ipv6_rest_at:
  assumes "pos < length t" "d = group6 t pos" "\<not> (t ! pos = CHR '':'' \<and> \<not> seen)"
  shows "ipv6_rest i seen (drop pos t) =
    (d \<noteq> [] \<and> (if drop (pos + length d) t = [] then seen \<or> i = 7
      else i \<noteq> 7 \<and>
        (if t ! (pos + length d) = CHR '':'' then ipv6_rest (i + 1) seen (drop (pos + (length d + 1)) t)
         else t ! (pos + length d) = CHR ''.'' \<and> (i \<ge> 6 \<or> seen) \<and> ipv4_text (drop pos t))))"
proof -
  have hd0: "hd (drop pos t) = t ! pos" "drop pos t \<noteq> []" using assms(1) by (simp_all add: hd_drop_conv_nth)
  have r: "drop (length d) (drop pos t) = drop (pos + length d) t" by (simp add: add.commute)
  have tl1: "tl (drop (pos + length d) t) = drop (pos + (length d + 1)) t" by (simp add: tl_drop drop_Suc)
  show ?thesis
    using assms(3) hd0(2)
    by (subst ipv6_rest.simps) (auto simp: hd0(1) assms(2) [symmetric] Let_def r hd_drop_conv_nth tl1 simp del: drop_drop)
qed

lemma ipv6_groups_colon:
  assumes ok: "span_ok m s" and pos: "pos < sp_len s" and colon: "span_str m s ! pos = CHR '':''"
  shows "ipv6_groups m s i pos False =
      (if pos + 1 = sp_len s then Some True else if i = 7 then Some False else ipv6_groups m s (i + 1) (pos + 1) True)"
    "ipv6_rest i False (drop pos (span_str m s)) \<longleftrightarrow> pos + 1 = sp_len s \<or> i \<noteq> 7 \<and> ipv6_rest (i + 1) True (drop (pos + 1) (span_str m s))"
proof -
  let ?t = "span_str m s"
  have len: "length ?t = sp_len s" using ok by (simp add: span_facts)
  have at0: "at m s pos = Some (?t ! pos)" using pos ok by (simp add: at_span_str)
  have hd0: "hd (drop pos ?t) = CHR '':''" "drop pos ?t \<noteq> []" using pos len colon by (simp_all add: hd_drop_conv_nth)
  have tl0: "tl (drop pos ?t) = drop (pos + 1) ?t" by (simp add: tl_drop drop_Suc)
  show "ipv6_groups m s i pos False =
      (if pos + 1 = sp_len s then Some True else if i = 7 then Some False else ipv6_groups m s (i + 1) (pos + 1) True)"
    using pos colon by (subst ipv6_groups.simps) (simp add: at0)
  have "drop (pos + 1) ?t = [] \<longleftrightarrow> pos + 1 = sp_len s" using pos len by auto
  then show "ipv6_rest i False (drop pos ?t) \<longleftrightarrow> pos + 1 = sp_len s \<or> i \<noteq> 7 \<and> ipv6_rest (i + 1) True (drop (pos + 1) ?t)"
    using hd0 by (subst ipv6_rest.simps) (auto simp: tl0 simp del: drop_drop)
qed

lemma all_hex_no_ipv4:
  assumes "length (group6 t pos) = length t - pos"
  shows "\<not> ipv4_text (drop pos t)"
proof -
  have "drop pos t = group6 t pos"
    using takeWhile_digits(3) [of is_hexadecimal 4 "drop pos t"] assms by simp
  then have "CHR ''.'' \<notin> set (drop pos t)" using takeWhile_digits(2) [of is_hexadecimal 4 "drop pos t"] not_hexadecimal_colon(2) by metis
  then show ?thesis using ipv4_text_has_dot by blast
qed

lemma ipv6_groups_eq:
  assumes ok: "span_ok m s" and nx: "span_next m s \<noteq> CHR '':''"
  shows "pos \<le> sp_len s \<Longrightarrow> ipv6_groups m s i pos seen = Some (ipv6_rest i seen (drop pos (span_str m s)))"
proof (induction "sp_len s - pos" arbitrary: i pos seen rule: less_induct)
  case less
  let ?t = "span_str m s"
  have len: "length ?t = sp_len s" using ok by (simp add: span_facts)
  consider "pos = sp_len s" | "pos < sp_len s" "?t ! pos = CHR '':''" "\<not> seen" | "pos < sp_len s" "\<not> (?t ! pos = CHR '':'' \<and> \<not> seen)"
    using less.prems by linarith
  then show ?case
  proof cases
    case 1
    then show ?thesis using len by (subst ipv6_groups.simps, subst ipv6_rest.simps) simp
  next
    case 2
    have "ipv6_groups m s (i + 1) (pos + 1) True = Some (ipv6_rest (i + 1) True (drop (pos + 1) ?t))"
      by (rule less.hyps) (use 2 in auto)
    then show ?thesis using 2(3) ipv6_groups_colon [OF ok 2(1,2), of i] by simp
  next
    case 3
    define d where "d = group6 ?t pos"
    note code = ipv6_groups_at [OF ok 3(1) d_def 3(2), of i] and ref = ipv6_rest_at [OF _ d_def 3(2), of i, unfolded len, OF 3(1)]
    have bound: "pos + length d \<le> sp_len s"
      using takeWhile_digits(4) [where P = is_hexadecimal and n = 4 and t = "drop pos ?t", folded d_def] len 3(1) by simp
    show ?thesis
    proof (cases "pos + length d = sp_len s")
      case True
      then have "\<not> ipv4_text (drop pos ?t)" using all_hex_no_ipv4 [of pos ?t, folded d_def] len by simp
      then show ?thesis using True nx len at_span_next [OF ok] by (auto simp: code ref)
    next
      case False
      then have lt: "pos + length d < sp_len s" using bound by simp
      have "ipv6_groups m s (i + 1) (pos + (length d + 1)) seen = Some (ipv6_rest (i + 1) seen (drop (pos + (length d + 1)) ?t))"
        by (rule less.hyps) (use lt in auto)
      then show ?thesis using lt len at_span_str [OF ok lt] by (auto simp: code ref)
    qed
  qed
qed

lemma is_valid_ipv6_refines:
  assumes ok: "span_ok m s" and nx: "span_next m s \<noteq> CHR '':''"
  shows "is_valid_ipv6 m s = Some (ipv6_text (span_str m s))"
proof (cases "sp_len s < 2")
  case True
  then show ?thesis
    using ok by (simp add: is_valid_ipv6_def ipv6_text_def span_facts)
next
  case False
  then show ?thesis
    using ok nx
    by (auto simp: is_valid_ipv6_def ipv6_text_def length_span_str at_span_str ipv6_groups_eq drop_Suc Let_def)
qed

interpretation ipv6: span_check is_valid_ipv6 ipv6_text "\<lambda>c. c \<noteq> CHR '':''"
  by unfold_locales (rule is_valid_ipv6_refines)

end
