(* ===== verification/Value_Validators.thy ===== *)
theory Value_Validators
  imports Validators
begin

text \<open>
  The remaining value validators of the highlighter (\<open>highlighter.c\<close>, \<open>is_valid_uint\<close>
  to \<open>is_valid_network\<close>): bounded numbers, the \<open>off\<close>/\<open>auto\<close> options, interface scopes,
  endpoints and networks in CIDR notation, each with its reference predicate on strings and the
  interpretation of \<open>span_check\<close>.
\<close>

section \<open>Numbers\<close>

definition uint_hex_step :: "cmem \<Rightarrow> string_span_t \<Rightarrow> u64 \<Rightarrow> nat \<Rightarrow> (bool + u64) option" where
  "uint_hex_step m s val i = do {
     c \<leftarrow> at m s i;
     Some (if c_u32 c - c_u32 CHR ''0'' < 10
           then Inr (16 * val + word_of_int (c_int c - c_int CHR ''0''))
           else if (c_u32 c OR 32) - c_u32 CHR ''a'' < 6
           then Inr (16 * val + word_of_int (c_int c OR 32) - c_u64 CHR ''a'' + 10)
           else Inl False) }"

definition uint_dec_step :: "cmem \<Rightarrow> string_span_t \<Rightarrow> u64 \<Rightarrow> nat \<Rightarrow> (bool + u64) option" where
  "uint_dec_step m s val i = do {
     c \<leftarrow> at m s i;
     Some (if \<not> is_decimal c then Inl False else Inr (10 * val + c_u64 c - c_u64 CHR ''0'')) }"

definition is_valid_uint :: "cmem \<Rightarrow> string_span_t \<Rightarrow> bool \<Rightarrow> u64 \<Rightarrow> u64 \<Rightarrow> bool option" where
  "is_valid_uint m s support_hex mn mx =
     (if sp_len s > 10 \<or> sp_len s = 0 then Some False else do {
        hex \<leftarrow> (if support_hex \<and> sp_len s > 2 then do {
                  c0 \<leftarrow> at m s 0; c1 \<leftarrow> at m s 1; Some (c0 = CHR ''0'' \<and> c1 = CHR ''x'') }
                else Some False);
        r \<leftarrow> (if hex then c_for (uint_hex_step m s) 0 [2..<sp_len s]
              else c_for (uint_dec_step m s) 0 [0..<sp_len s]);
        Some (case r of Inl b \<Rightarrow> b | Inr val \<Rightarrow> val \<le> mx \<and> val \<ge> mn) })"

definition hex_digit_val :: "char \<Rightarrow> nat" where
  "hex_digit_val c = (if is_decimal c then digit_val c else nat ((c_int c OR 32) - c_int CHR ''a'' + 10))"

definition hex_val :: "string \<Rightarrow> nat" where
  "hex_val d = foldl (\<lambda>v c. 16 * v + hex_digit_val c) 0 d"

definition uint_text :: "bool \<Rightarrow> nat \<Rightarrow> nat \<Rightarrow> string \<Rightarrow> bool" where
  "uint_text support_hex mn mx t \<longleftrightarrow> 0 < length t \<and> length t \<le> 10 \<and>
     (if support_hex \<and> length t > 2 \<and> take 2 t = ''0x''
      then (\<forall>c\<in>set (drop 2 t). is_hexadecimal c) \<and> hex_val (drop 2 t) \<in> {mn..mx}
      else (\<forall>c\<in>set t. is_decimal c) \<and> dec_val t \<in> {mn..mx})"

lemma hex_val_simps [simp]:
  "hex_val [] = 0" "hex_val (d @ [c]) = 16 * hex_val d + hex_digit_val c"
  by (simp_all add: hex_val_def)

lemma hex_digit_val_less [rule_format, char_facts]:
  "\<forall>c. is_hexadecimal c \<longrightarrow> hex_digit_val c < 16"
  by code_simp

lemma hex_tests [char_facts]:
  "c_u32 c - c_u32 CHR ''0'' < 10 \<longleftrightarrow> is_decimal c"
  "(c_u32 c OR 32) - c_u32 CHR ''a'' < 6 \<longleftrightarrow> is_hexadecimal c \<and> \<not> is_decimal c"
  by (rule all_char_iff, code_simp)+

lemma hex_digit_u64:
  "is_decimal c \<Longrightarrow> word_of_int (c_int c - c_int CHR ''0'') = (of_nat (hex_digit_val c) :: u64)"
  "is_hexadecimal c \<and> \<not> is_decimal c \<Longrightarrow>
     word_of_int (c_int c OR 32) - c_u64 CHR ''a'' + 10 = (of_nat (hex_digit_val c) :: u64)"
proof -
  have "\<forall>c. is_decimal c \<longrightarrow> word_of_int (c_int c - c_int CHR ''0'') = (of_nat (hex_digit_val c) :: u64)"
    by code_simp
  then show "is_decimal c \<Longrightarrow> word_of_int (c_int c - c_int CHR ''0'') = (of_nat (hex_digit_val c) :: u64)"
    by blast
  have "\<forall>c. is_hexadecimal c \<and> \<not> is_decimal c \<longrightarrow>
     word_of_int (c_int c OR 32) - c_u64 CHR ''a'' + 10 = (of_nat (hex_digit_val c) :: u64)"
    by code_simp
  then show "is_hexadecimal c \<and> \<not> is_decimal c \<Longrightarrow>
     word_of_int (c_int c OR 32) - c_u64 CHR ''a'' + 10 = (of_nat (hex_digit_val c) :: u64)"
    by blast
qed

lemma hex_acc:
  "is_hexadecimal c \<and> \<not> is_decimal c \<Longrightarrow>
     x + word_of_int (c_int c OR 32) - c_u64 CHR ''a'' + 10 = x + of_nat (hex_digit_val c)"
  using hex_digit_u64(2) [of c] by (simp add: add_diff_eq [symmetric] add.assoc)

lemma hex_val_bound: "(\<forall>c\<in>set d. is_hexadecimal c) \<Longrightarrow> hex_val d < 16 ^ length d"
proof (induction d rule: rev_induct)
  case (snoc c d)
  then have "hex_digit_val c < 16" "hex_val d < 16 ^ length d"
    by (auto simp: char_facts)
  then show ?case by simp
qed simp

lemma uint_dec_loop:
  assumes ok: "span_ok m s"
  shows "n \<le> sp_len s \<Longrightarrow> c_for (uint_dec_step m s) 0 [0..<n] =
     Some (if \<forall>c\<in>set (take n (span_str m s)). is_decimal c
           then Inr (of_nat (dec_val (take n (span_str m s)))) else Inl False)"
proof (induction n)
  case (Suc n)
  have "take (Suc n) (span_str m s) = take n (span_str m s) @ [span_str m s ! n]"
    using Suc.prems length_span_str [OF ok] by (simp add: take_Suc_conv_app_nth)
  then show ?case
    using Suc ok by (auto simp: c_for_append uint_dec_step_def at_span_str char_facts)
qed simp

lemma uint_hex_loop:
  assumes ok: "span_ok m s"
  shows "2 + n \<le> sp_len s \<Longrightarrow> c_for (uint_hex_step m s) 0 [2..<2 + n] =
     Some (if \<forall>c\<in>set (take n (drop 2 (span_str m s))). is_hexadecimal c
           then Inr (of_nat (hex_val (take n (drop 2 (span_str m s))))) else Inl False)"
proof (induction n)
  case (Suc n)
  have "take (Suc n) (drop 2 (span_str m s)) = take n (drop 2 (span_str m s)) @ [span_str m s ! (2 + n)]"
    using Suc.prems length_span_str [OF ok] by (simp add: take_Suc_conv_app_nth)
  moreover have "[2..<2 + Suc n] = [2..<2 + n] @ [2 + n]" by simp
  moreover have "is_decimal c \<Longrightarrow> is_hexadecimal c" for c
    by (simp add: is_hexadecimal_def)
  ultimately show ?case
    using Suc ok
    by (auto simp del: upt_Suc of_int_diff
        simp: c_for_append uint_hex_step_def at_span_str char_facts hex_digit_u64 hex_acc)
qed simp

lemma of_nat_range_u64:
  fixes mn mx :: u64
  assumes "n < 2 ^ 64"
  shows "(of_nat n :: u64) \<le> mx \<and> mn \<le> of_nat n \<longleftrightarrow> n \<in> {unat mn..unat mx}"
proof -
  have "unat (of_nat n :: u64) = n"
    using assms by (intro unat_of_nat_small) simp
  then show ?thesis by (auto simp: word_le_nat_alt)
qed

lemma is_valid_uint_refines:
  assumes ok: "span_ok m s"
  shows "is_valid_uint m s hex mn mx = Some (uint_text hex (unat mn) (unat mx) (span_str m s))"
proof (cases "sp_len s > 10 \<or> sp_len s = 0")
  case True
  then show ?thesis
    using ok by (auto simp: is_valid_uint_def uint_text_def span_facts)
next
  case False
  let ?t = "span_str m s"
  have len: "length ?t = sp_len s" using ok by (simp add: span_facts)
  have dec: "(of_nat (dec_val ?t) :: u64) \<le> mx \<and> mn \<le> of_nat (dec_val ?t) \<longleftrightarrow>
      dec_val ?t \<in> {unat mn..unat mx}" if "\<forall>c\<in>set ?t. is_decimal c"
  proof (rule of_nat_range_u64)
    have "dec_val ?t < 10 ^ length ?t" using that by (rule dec_val_bound)
    also have "(10::nat) ^ length ?t \<le> 10 ^ 10" using False len by (intro power_increasing) auto
    finally show "dec_val ?t < 2 ^ 64" by simp
  qed
  have hx: "(of_nat (hex_val (drop 2 ?t)) :: u64) \<le> mx \<and> mn \<le> of_nat (hex_val (drop 2 ?t)) \<longleftrightarrow>
      hex_val (drop 2 ?t) \<in> {unat mn..unat mx}" if "\<forall>c\<in>set (drop 2 ?t). is_hexadecimal c"
  proof (rule of_nat_range_u64)
    have "hex_val (drop 2 ?t) < 16 ^ length (drop 2 ?t)" using that by (rule hex_val_bound)
    also have "(16::nat) ^ length (drop 2 ?t) \<le> 16 ^ 8" using False len by (intro power_increasing) auto
    finally show "hex_val (drop 2 ?t) < 2 ^ 64" by simp
  qed
  have pre: "take 2 ?t = ''0x'' \<longleftrightarrow> ?t ! 0 = CHR ''0'' \<and> ?t ! 1 = CHR ''x''" if "sp_len s > 2"
    using that len by (auto simp: take_Suc_conv_app_nth numeral_2_eq_2)
  show ?thesis
  proof (cases "hex \<and> sp_len s > 2 \<and> take 2 ?t = ''0x''")
    case True
    then have e: "2 + (sp_len s - 2) = sp_len s" by arith
    have "c_for (uint_hex_step m s) 0 [2..<sp_len s] =
      Some (if \<forall>c\<in>set (drop 2 ?t). is_hexadecimal c then Inr (of_nat (hex_val (drop 2 ?t))) else Inl False)"
      using uint_hex_loop [OF ok, of "sp_len s - 2", unfolded e] len by simp
    then show ?thesis
      using True False ok hx pre len by (auto simp: is_valid_uint_def uint_text_def at_span_str)
  next
    case nohex: False
    have "c_for (uint_dec_step m s) 0 [0..<sp_len s] =
      Some (if \<forall>c\<in>set ?t. is_decimal c then Inr (of_nat (dec_val ?t)) else Inl False)"
      using uint_dec_loop [OF ok order_refl] len by simp
    then show ?thesis
      using nohex False ok dec pre len by (auto simp: is_valid_uint_def uint_text_def at_span_str)
  qed
qed

interpretation uint: span_check "\<lambda>m s. is_valid_uint m s hex mn mx"
    "uint_text hex (unat mn) (unat mx)" "\<lambda>_. True" for hex mn mx
  by unfold_locales (rule is_valid_uint_refines)

section \<open>Ports, options and scopes\<close>

definition is_valid_port :: "cmem \<Rightarrow> string_span_t \<Rightarrow> bool option" where
  "is_valid_port m s = is_valid_uint m s False 0 65535"

definition is_valid_mtu :: "cmem \<Rightarrow> string_span_t \<Rightarrow> bool option" where
  "is_valid_mtu m s = is_valid_uint m s False 576 65535"

definition is_valid_persistentkeepalive :: "cmem \<Rightarrow> string_span_t \<Rightarrow> bool option" where
  "is_valid_persistentkeepalive m s = do {
     off \<leftarrow> is_same m s ''off'';
     if off then Some True else is_valid_uint m s False 0 65535 }"

definition is_valid_fwmark :: "cmem \<Rightarrow> string_span_t \<Rightarrow> bool option" where
  "is_valid_fwmark m s = do {
     off \<leftarrow> is_same m s ''off'';
     if off then Some True else is_valid_uint m s True 0 4294967295 }"

definition is_valid_table :: "cmem \<Rightarrow> string_span_t \<Rightarrow> bool option" where
  "is_valid_table m s = do {
     auto \<leftarrow> is_same m s ''auto'';
     if auto then Some True else do {
     off \<leftarrow> is_same m s ''off'';
     if off then Some True
     else if sp_len s < 512 then Some True
     else is_valid_uint m s False 0 4294967295 }}"

definition is_valid_saveconfig :: "cmem \<Rightarrow> string_span_t \<Rightarrow> bool option" where
  "is_valid_saveconfig m s = do {
     t \<leftarrow> is_same m s ''true'';
     if t then Some True else is_same m s ''false'' }"

definition is_valid_prepostupdown :: "cmem \<Rightarrow> string_span_t \<Rightarrow> bool option" where
  "is_valid_prepostupdown m s = Some (sp_len s \<noteq> 0)"

definition off_or_uint :: "bool \<Rightarrow> nat \<Rightarrow> string \<Rightarrow> bool" where
  "off_or_uint hex mx t \<longleftrightarrow> t = ''off'' \<or> uint_text hex 0 mx t"

interpretation port: span_check is_valid_port "uint_text False 0 65535" "\<lambda>_. True"
  by unfold_locales (simp add: is_valid_port_def is_valid_uint_refines)

interpretation mtu: span_check is_valid_mtu "uint_text False 576 65535" "\<lambda>_. True"
  by unfold_locales (simp add: is_valid_mtu_def is_valid_uint_refines)

interpretation keepalive: span_check is_valid_persistentkeepalive "off_or_uint False 65535" "\<lambda>_. True"
  by unfold_locales
    (auto simp: is_valid_persistentkeepalive_def off_or_uint_def same.refines is_valid_uint_refines)

interpretation fwmark: span_check is_valid_fwmark "off_or_uint True 4294967295" "\<lambda>_. True"
  by unfold_locales
    (auto simp: is_valid_fwmark_def off_or_uint_def same.refines is_valid_uint_refines)

text \<open>
  A routing table name is any text of less than 512 bytes: the numeric test behind that length
  check never accepts, since it bounds the text to ten characters.
\<close>

interpretation table: span_check is_valid_table "\<lambda>t. length t < 512" "\<lambda>_. True"
  by unfold_locales
    (auto simp: is_valid_table_def same.refines is_valid_uint_refines uint_text_def length_span_str
      dest: span_str_eqD)

interpretation saveconfig: span_check is_valid_saveconfig "\<lambda>t. t = ''true'' \<or> t = ''false''" "\<lambda>_. True"
  by unfold_locales (auto simp: is_valid_saveconfig_def same.refines)

interpretation cmdline: span_check is_valid_prepostupdown "\<lambda>t. t \<noteq> []" "\<lambda>_. True"
proof
  show "is_valid_prepostupdown m s = Some (span_str m s \<noteq> [])" if "span_ok m s" for m s
    using that by (simp add: is_valid_prepostupdown_def span_str_Nil_iff)
qed

definition is_valid_scope :: "cmem \<Rightarrow> string_span_t \<Rightarrow> bool option" where
  "is_valid_scope m s =
     (if sp_len s > 64 \<or> sp_len s = 0 then Some False
      else c_forall (\<lambda>i. do {
             c \<leftarrow> at m s i;
             Some (\<not> (\<not> is_alphabet c \<and> \<not> is_decimal c \<and> c \<noteq> CHR ''_'' \<and> c \<noteq> CHR ''='' \<and>
                      c \<noteq> CHR ''+'' \<and> c \<noteq> CHR ''.'' \<and> c \<noteq> CHR ''-'')) }) [0..<sp_len s])"

definition scope_char :: "char \<Rightarrow> bool" where
  "scope_char c \<longleftrightarrow> is_alphabet c \<or> is_decimal c \<or> c \<in> set ''_=+.-''"

definition scope_text :: "string \<Rightarrow> bool" where
  "scope_text t \<longleftrightarrow> 0 < length t \<and> length t \<le> 64 \<and> (\<forall>c\<in>set t. scope_char c)"

interpretation scope: span_check is_valid_scope scope_text "\<lambda>_. True"
proof
  show "is_valid_scope m s = Some (scope_text (span_str m s))" if ok: "span_ok m s" for m s
    using ok
    by (auto simp: is_valid_scope_def scope_text_def scope_char_def length_span_str c_forall_span
        ball_span_str [OF ok, symmetric])
qed

section \<open>Endpoints\<close>

text \<open>The loop over a bracketed address: the state is \<open>seen_scope\<close> and \<open>hostspan\<close>.\<close>

definition endpoint_step ::
  "cmem \<Rightarrow> string_span_t \<Rightarrow> bool \<times> string_span_t \<Rightarrow> nat \<Rightarrow> (bool + bool \<times> string_span_t) option" where
  "endpoint_step m s st i = (case st of (seen_scope, hostspan) \<Rightarrow> do {
     c \<leftarrow> at m s i;
     if c = CHR ''%'' then
       (if seen_scope then Some (Inl False)
        else do {
          ok \<leftarrow> is_valid_ipv6 m hostspan;
          if \<not> ok then Some (Inl False)
          else Some (Inr (True, \<lparr>sp_s = sp_s s + i + 1, sp_len = 0\<rparr>)) })
     else if c = CHR '']'' then do {
       ok \<leftarrow> (if seen_scope then is_valid_scope m hostspan else is_valid_ipv6 m hostspan);
       if \<not> ok then Some (Inl False)
       else if i = sp_len s - 1 then Some (Inl False)
       else do {
         d \<leftarrow> at m s (i + 1);
         if d \<noteq> CHR '':'' then Some (Inl False)
         else do {
           b \<leftarrow> is_valid_port m \<lparr>sp_s = sp_s s + i + 2, sp_len = sp_len s - i - 2\<rparr>;
           Some (Inl b) }}}
     else Some (Inr (seen_scope, hostspan\<lparr>sp_len := sp_len hostspan + 1\<rparr>)) })"

definition endpoint_host_port :: "cmem \<Rightarrow> string_span_t \<Rightarrow> nat \<Rightarrow> bool option" where
  "endpoint_host_port m s i = do {
     let host = \<lparr>sp_s = sp_s s, sp_len = i\<rparr>;
     let port = \<lparr>sp_s = sp_s s + i + 1, sp_len = sp_len s - i - 1\<rparr>;
     p \<leftarrow> is_valid_port m port;
     if \<not> p then Some False else do {
     v4 \<leftarrow> is_valid_ipv4 m host;
     if v4 then Some True else is_valid_hostname m host }}"

definition is_valid_endpoint :: "cmem \<Rightarrow> string_span_t \<Rightarrow> bool option" where
  "is_valid_endpoint m s =
     (if sp_len s = 0 then Some False else do {
        c0 \<leftarrow> at m s 0;
        if c0 = CHR ''['' then do {
          r \<leftarrow> c_for (endpoint_step m s) (False, \<lparr>sp_s = sp_s s + 1, sp_len = 0\<rparr>) [1..<sp_len s];
          Some (case r of Inl b \<Rightarrow> b | Inr _ \<Rightarrow> False) }
        else do {
          r \<leftarrow> c_for (search_step m s CHR '':'' (endpoint_host_port m s)) () [0..<sp_len s];
          Some (case r of Inl b \<Rightarrow> b | Inr _ \<Rightarrow> False) }})"

abbreviation port_text :: "string \<Rightarrow> bool" where
  "port_text \<equiv> uint_text False 0 65535"

text \<open>The reference: the part behind \<open>'['\<close>, with the address or scope read so far.\<close>

fun bracket_rest :: "bool \<Rightarrow> string \<Rightarrow> string \<Rightarrow> bool" where
  "bracket_rest seen h [] = False"
| "bracket_rest seen h (c # r) =
     (if c = CHR ''%'' then \<not> seen \<and> ipv6_text h \<and> bracket_rest True [] r
      else if c = CHR '']'' then
        (if seen then scope_text h else ipv6_text h) \<and> r \<noteq> [] \<and> hd r = CHR '':'' \<and> port_text (tl r)
      else bracket_rest seen (h @ [c]) r)"

definition endpoint_text :: "string \<Rightarrow> bool" where
  "endpoint_text t \<longleftrightarrow> t \<noteq> [] \<and>
     (if hd t = CHR ''['' then bracket_rest False [] (tl t)
      else CHR '':'' \<in> set t \<and> (let k = index_of CHR '':'' t in
        port_text (drop (k + 1) t) \<and> (ipv4_text (take k t) \<or> hostname_text (take k t))))"

text \<open>At the closing bracket the loop returns.\<close>

lemma endpoint_step_bracket:
  assumes ok: "span_ok m s" and i: "b \<le> i" "i < sp_len s" and c: "span_str m s ! i = CHR '']''"
  shows "endpoint_step m s (seen, \<lparr>sp_s = sp_s s + b, sp_len = i - b\<rparr>) i =
    Some (Inl (bracket_rest seen (take (i - b) (drop b (span_str m s))) (drop i (span_str m s))))"
proof -
  let ?t = "span_str m s"
  have rest: "drop i ?t = ?t ! i # drop (Suc i) ?t" using i ok by (simp add: drop_span_Cons)
  have at: "at m s i = Some (?t ! i)" using i ok by (simp add: at_span_str)
  have len: "length ?t = sp_len s" using ok by (simp add: length_span_str)
  have v6: "is_valid_ipv6 m \<lparr>sp_s = sp_s s + b, sp_len = i - b\<rparr> = Some (ipv6_text (take (i - b) (drop b ?t)))"
    using c i ok by (intro ipv6.on_sub_span) auto
  have sc: "is_valid_scope m \<lparr>sp_s = sp_s s + b, sp_len = i - b\<rparr> = Some (scope_text (take (i - b) (drop b ?t)))"
    using i ok by (intro scope.on_sub_span) auto
  have port: "is_valid_port m \<lparr>sp_s = sp_s s + i + 2, sp_len = sp_len s - i - 2\<rparr> = Some (port_text (drop (i + 2) ?t))"
    if "i \<noteq> sp_len s - 1"
    using port.on_tail_span [OF ok, of "i + 2" "sp_len s - i - 2"] that i by (simp add: add.assoc)
  have e: "(i = sp_len s - Suc 0) = (sp_len s \<le> Suc i)" using i by auto
  have nx: "hd (drop (Suc i) ?t) = ?t ! Suc i" "at m s (Suc i) = Some (?t ! Suc i)" if "\<not> sp_len s \<le> Suc i"
    using that len ok by (auto simp: hd_drop_conv_nth at_span_str)
  have tl: "tl (drop (Suc i) ?t) = drop (i + 2) ?t" by (simp add: tl_drop drop_Suc)
  show ?thesis
    using c len nx tl port by (cases "sp_len s \<le> Suc i") (simp_all add: endpoint_step_def at v6 sc e rest)
qed

lemma endpoint_loop:
  assumes ok: "span_ok m s"
  shows "b \<le> i \<Longrightarrow> i \<le> sp_len s \<Longrightarrow>
    \<exists>r. c_for (endpoint_step m s) (seen, \<lparr>sp_s = sp_s s + b, sp_len = i - b\<rparr>) [i..<sp_len s] = Some r \<and>
        (case r of Inl x \<Rightarrow> x | Inr _ \<Rightarrow> False) =
          bracket_rest seen (take (i - b) (drop b (span_str m s))) (drop i (span_str m s))"
proof (induction "sp_len s - i" arbitrary: i b seen)
  case 0
  then show ?case using ok by (simp add: length_span_str)
next
  case (Suc n)
  let ?t = "span_str m s"
  have i: "i < sp_len s" using Suc by simp
  have upt: "[i..<sp_len s] = i # [Suc i..<sp_len s]" using i by (simp add: upt_conv_Cons)
  have rest: "drop i ?t = ?t ! i # drop (Suc i) ?t" using i ok by (simp add: drop_span_Cons)
  have at: "at m s i = Some (?t ! i)" using i ok by (simp add: at_span_str)
  have len: "length ?t = sp_len s" using ok by (simp add: length_span_str)
  have v6: "is_valid_ipv6 m \<lparr>sp_s = sp_s s + b, sp_len = i - b\<rparr> = Some (ipv6_text (take (i - b) (drop b ?t)))"
    if "?t ! i \<noteq> CHR '':''"
    using that Suc.prems i ok by (intro ipv6.on_sub_span) auto
  consider "?t ! i = CHR ''%''" | "?t ! i = CHR '']''" | "?t ! i \<noteq> CHR ''%''" "?t ! i \<noteq> CHR '']''"
    by blast
  then show ?case
  proof cases
    case 1
    show ?thesis
      using Suc.hyps(1) [of "Suc i" "Suc i" True] Suc.hyps(2) 1 i
      by (auto simp: upt rest endpoint_step_def at v6)
  next
    case 2
    then show ?thesis using endpoint_step_bracket [OF ok Suc.prems(1) i] by (simp add: upt)
  next
    case 3
    have "take (i - b) (drop b ?t) @ [?t ! i] = take (Suc i - b) (drop b ?t)"
      using Suc.prems i len by (simp add: take_Suc_conv_app_nth Suc_diff_le)
    then show ?thesis
      using Suc.hyps(1) [of "Suc i" b seen] Suc.hyps(2) Suc.prems 3 i
      by (auto simp: upt rest endpoint_step_def at Suc_diff_le)
  qed
qed

lemma is_valid_endpoint_refines:
  assumes ok: "span_ok m s"
  shows "is_valid_endpoint m s = Some (endpoint_text (span_str m s))"
proof (cases "sp_len s = 0")
  case True
  then show ?thesis using ok by (simp add: is_valid_endpoint_def endpoint_text_def span_str_Nil_iff)
next
  case False
  let ?t = "span_str m s"
  have ne: "?t \<noteq> []" and h: "at m s 0 = Some (hd ?t)"
    using ok False by (auto simp: span_str_Nil_iff at_span_str hd_conv_nth)
  show ?thesis
  proof (cases "hd ?t = CHR ''[''")
    case True
    then show ?thesis
      using endpoint_loop [OF ok, of 1 1 False] False ne h
      by (auto simp: is_valid_endpoint_def endpoint_text_def drop_Suc)
  next
    case nobr: False
    have "endpoint_host_port m s k =
        Some (port_text (drop (k + 1) ?t) \<and> (ipv4_text (take k ?t) \<or> hostname_text (take k ?t)))"
      if k: "k < sp_len s" for k
      using k ipv4.on_sub_span [OF ok, of 0 k] hostname.on_sub_span [OF ok, of 0 k]
        port.on_tail_span [OF ok, of "k + 1" "sp_len s - k - 1"]
      by (simp add: endpoint_host_port_def Let_def add.assoc)
    then show ?thesis
      using nobr False ne h index_of_less [of "CHR '':''" ?t] length_span_str [OF ok]
      by (simp add: is_valid_endpoint_def endpoint_text_def c_for_search [OF ok] Let_def)
  qed
qed

interpretation endpoint: span_check is_valid_endpoint endpoint_text "\<lambda>_. True"
  by unfold_locales (rule is_valid_endpoint_refines)

section \<open>Networks\<close>

definition cidr_step :: "cmem \<Rightarrow> string_span_t \<Rightarrow> u16 \<Rightarrow> nat \<Rightarrow> (bool + u16) option" where
  "cidr_step m cidr cidrval j = do {
     c \<leftarrow> at m cidr j;
     Some (if \<not> is_decimal c then Inl False
           else Inr (word_of_int (10 * uint cidrval + c_int c - c_int CHR ''0''))) }"

definition network_cidr :: "cmem \<Rightarrow> string_span_t \<Rightarrow> nat \<Rightarrow> bool option" where
  "network_cidr m s i = do {
     let ip = \<lparr>sp_s = sp_s s, sp_len = i\<rparr>;
     let cidr = \<lparr>sp_s = sp_s s + i + 1, sp_len = sp_len s - i - 1\<rparr>;
     if sp_len cidr > 3 \<or> sp_len cidr = 0 then Some False else do {
     r \<leftarrow> c_for (cidr_step m cidr) 0 [0..<sp_len cidr];
     case r of
       Inl b \<Rightarrow> Some b
     | Inr cidrval \<Rightarrow> do {
         v4 \<leftarrow> is_valid_ipv4 m ip;
         if v4 then Some (cidrval \<le> 32) else do {
         v6 \<leftarrow> is_valid_ipv6 m ip;
         Some (if v6 then cidrval \<le> 128 else False) }}}}"

definition is_valid_network :: "cmem \<Rightarrow> string_span_t \<Rightarrow> bool option" where
  "is_valid_network m s = do {
     r \<leftarrow> c_for (search_step m s CHR ''/'' (network_cidr m s)) () [0..<sp_len s];
     case r of
       Inl b \<Rightarrow> Some b
     | Inr _ \<Rightarrow> do {
         v4 \<leftarrow> is_valid_ipv4 m s;
         if v4 then Some True else is_valid_ipv6 m s }}"

definition cidr_text :: "nat \<Rightarrow> string \<Rightarrow> bool" where
  "cidr_text mx t \<longleftrightarrow> 0 < length t \<and> length t \<le> 3 \<and> (\<forall>c\<in>set t. is_decimal c) \<and> dec_val t \<le> mx"

definition network_text :: "string \<Rightarrow> bool" where
  "network_text t \<longleftrightarrow>
     (if CHR ''/'' \<in> set t then
        (let k = index_of CHR ''/'' t; ip = take k t; cidr = drop (k + 1) t in
         if ipv4_text ip then cidr_text 32 cidr else ipv6_text ip \<and> cidr_text 128 cidr)
      else ipv4_text t \<or> ipv6_text t)"

lemma digit_word:
  "is_decimal c \<Longrightarrow> word_of_int (c_int c) - word_of_int (c_int CHR ''0'') = (of_nat (digit_val c) :: 'a::len word)"
proof -
  assume "is_decimal c"
  then have "c_int c = int (digit_val c) + c_int CHR ''0''"
    by (simp add: digit_val_def is_decimal_def)
  then show ?thesis by simp
qed

lemma cidr_loop:
  assumes ok: "span_ok m s"
  shows "n \<le> sp_len s \<Longrightarrow> c_for (cidr_step m s) 0 [0..<n] =
     Some (if \<forall>c\<in>set (take n (span_str m s)). is_decimal c
           then Inr (of_nat (dec_val (take n (span_str m s)))) else Inl False)"
proof (induction n)
  case (Suc n)
  have "take (Suc n) (span_str m s) = take n (span_str m s) @ [span_str m s ! n]"
    using Suc.prems length_span_str [OF ok] by (simp add: take_Suc_conv_app_nth)
  then show ?case
    using Suc ok by (auto simp: c_for_append cidr_step_def at_span_str digit_word)
qed simp

lemma word_cidr_small:
  assumes "\<forall>c\<in>set d. is_decimal c" "length d \<le> 3"
  shows "(of_nat (dec_val d) :: u16) \<le> 32 \<longleftrightarrow> dec_val d \<le> 32"
    and "(of_nat (dec_val d) :: u16) \<le> 128 \<longleftrightarrow> dec_val d \<le> 128"
proof -
  have "dec_val d < 10 ^ length d" by (rule dec_val_bound [OF assms(1)])
  also have "(10::nat) ^ length d \<le> 10 ^ 3" using assms(2) by (intro power_increasing) auto
  finally have "unat (of_nat (dec_val d) :: u16) = dec_val d"
    by (intro unat_of_nat_small) simp
  then show "(of_nat (dec_val d) :: u16) \<le> 32 \<longleftrightarrow> dec_val d \<le> 32"
    and "(of_nat (dec_val d) :: u16) \<le> 128 \<longleftrightarrow> dec_val d \<le> 128"
    by (simp_all add: word_le_nat_alt)
qed

lemma network_cidr_eq:
  assumes ok: "span_ok m s" and k: "k < sp_len s" and slash: "span_str m s ! k = CHR ''/''"
  shows "network_cidr m s k = Some (let ip = take k (span_str m s); cidr = drop (k + 1) (span_str m s) in
     if ipv4_text ip then cidr_text 32 cidr else ipv6_text ip \<and> cidr_text 128 cidr)"
proof -
  let ?t = "span_str m s" and ?c = "\<lparr>sp_s = sp_s s + k + 1, sp_len = sp_len s - k - 1\<rparr>"
  have c: "span_ok m ?c" "span_str m ?c = drop (k + 1) ?t" "length (drop (k + 1) ?t) = sp_len s - k - 1"
    using ok k sub_span_ok [OF ok, of "k + 1" "sp_len s - k - 1"] sub_span_str [OF ok, of "k + 1" "sp_len s - k - 1"]
    by (simp_all add: add.assoc length_span_str)
  have ips: "is_valid_ipv4 m \<lparr>sp_s = sp_s s, sp_len = k\<rparr> = Some (ipv4_text (take k ?t))"
    "is_valid_ipv6 m \<lparr>sp_s = sp_s s, sp_len = k\<rparr> = Some (ipv6_text (take k ?t))"
    using ipv4.on_sub_span [OF ok, of 0 k] ipv6.on_sub_span [OF ok, of 0 k] k slash by simp_all
  show ?thesis
  proof (cases "sp_len s - k - 1 > 3 \<or> sp_len s - k - 1 = 0 \<or> \<not> (\<forall>c\<in>set (drop (k + 1) ?t). is_decimal c)")
    case True
    then show ?thesis
      using cidr_loop [OF c(1) order_refl] c(2,3)
      by (auto simp: network_cidr_def cidr_text_def Let_def)
  next
    case False
    then show ?thesis
      using cidr_loop [OF c(1) order_refl] c(2,3) word_cidr_small [of "drop (k + 1) ?t"]
      by (auto simp: network_cidr_def cidr_text_def Let_def ips)
  qed
qed

lemma is_valid_network_refines:
  assumes ok: "span_ok m s" and nx: "span_next m s \<noteq> CHR '':''"
  shows "is_valid_network m s = Some (network_text (span_str m s))"
proof (cases "CHR ''/'' \<in> set (span_str m s)")
  case True
  then show ?thesis
    using index_of_less [OF True] nth_index_of [OF True] network_cidr_eq [OF ok] length_span_str [OF ok]
    by (simp add: is_valid_network_def network_text_def c_for_search [OF ok] Let_def)
next
  case False
  then show ?thesis
    using ok nx
    by (simp add: is_valid_network_def network_text_def c_for_search ipv4.refines ipv6.refines)
qed

interpretation network: span_check is_valid_network network_text "\<lambda>c. c \<noteq> CHR '':''"
  by unfold_locales (rule is_valid_network_refines)

end
