(* ===== verification/Span_Array.thy ===== *)
theory Span_Array
  imports Value_Validators
begin

text \<open>
  The growing array of highlight spans (\<open>highlighter.h\<close>; \<open>highlighter.c\<close>,
  \<open>realloc_array\<close> and \<open>append_highlight_span\<close>). Memory allocation is a parameter:
  \<open>alloc n\<close> tells whether \<open>realloc\<close> of \<open>n\<close> bytes succeeds.
\<close>

section \<open>Types\<close>

datatype highlight_type =
    HighlightSection | HighlightField | HighlightPrivateKey | HighlightPublicKey
  | HighlightPresharedKey | HighlightIP | HighlightCidr | HighlightHost | HighlightPort
  | HighlightMTU | HighlightKeepalive | HighlightComment | HighlightDelimiter
  | HighlightTable | HighlightFwMark | HighlightSaveConfig | HighlightCmd
  | HighlightError | HighlightEnd

record highlight_span =
  hs_type :: highlight_type
  hs_start :: nat
  hs_len :: nat

text \<open>
  \<open>a_spans\<close> is the array the pointer designates, \<open>None\<close> for the null pointer; the list
  holds the initialised slots.
\<close>

record highlight_span_array =
  a_len :: nat
  a_capacity :: nat
  a_spans :: "highlight_span list option"

definition zero_array :: highlight_span_array where
  "zero_array = \<lparr>a_len = 0, a_capacity = 0, a_spans = None\<rparr>"

section \<open>Operations\<close>

text \<open>\<open>size_t\<close> has 64 bits; \<open>sizeof(struct highlight_span)\<close> is 24.\<close>

definition SIZE_MAX :: nat where
  "SIZE_MAX = 2 ^ 64 - 1"

definition realloc_array :: "(nat \<Rightarrow> bool) \<Rightarrow> nat \<Rightarrow> nat \<Rightarrow> bool" where
  "realloc_array alloc nmemb sz =
     (if (nmemb \<ge> 2 ^ 32 \<or> sz \<ge> 2 ^ 32) \<and> nmemb > 0 \<and> SIZE_MAX div nmemb < sz then False
      else alloc (sz * nmemb mod 2 ^ 64))"

definition append_highlight_span ::
  "(nat \<Rightarrow> bool) \<Rightarrow> highlight_span_array \<Rightarrow> nat \<Rightarrow> string_span_t \<Rightarrow> highlight_type \<Rightarrow>
     (bool \<times> highlight_span_array) option" where
  "append_highlight_span alloc a ob s t =
     (if sp_len s = 0 then Some (True, a) else
      let grown =
        (if a_len a \<ge> a_capacity a then
           (let cap = (if a_capacity a \<noteq> 0 then a_capacity a * 2 mod 2 ^ 64 else 64) in
            if realloc_array alloc cap 24
            then Some (a\<lparr>a_capacity := cap,
                         a_spans := Some (case a_spans a of None \<Rightarrow> [] | Some xs \<Rightarrow> xs)\<rparr>)
            else None)
         else Some a) in
      case grown of
        None \<Rightarrow> Some (False, zero_array)
      | Some a' \<Rightarrow>
          (case a_spans a' of
             None \<Rightarrow> None
           | Some xs \<Rightarrow>
               if a_len a' < a_capacity a' \<and> a_len a' \<le> length xs then
                 Some (True, a'\<lparr>
                   a_spans := Some (take (a_len a') xs @
                     \<lparr>hs_type = t, hs_start = sp_s s - ob, hs_len = sp_len s\<rparr> #
                     drop (Suc (a_len a')) xs),
                   a_len := a_len a' + 1\<rparr>)
               else None))"

text \<open>A call whose result is discarded, as all callers in the highlighter do.\<close>

definition emit ::
  "(nat \<Rightarrow> bool) \<Rightarrow> highlight_span_array \<Rightarrow> nat \<Rightarrow> string_span_t \<Rightarrow> highlight_type \<Rightarrow>
     highlight_span_array option" where
  "emit alloc a ob s t = map_option snd (append_highlight_span alloc a ob s t)"

section \<open>The array holds a list\<close>

definition arr :: "highlight_span_array \<Rightarrow> highlight_span list \<Rightarrow> bool" where
  "arr a xs \<longleftrightarrow> a_len a = length xs \<and>
     (case a_spans a of
        None \<Rightarrow> xs = [] \<and> a_capacity a = 0
      | Some ys \<Rightarrow> ys = xs \<and> length xs \<le> a_capacity a \<and> 0 < a_capacity a \<and>
          a_capacity a \<le> 64 + 2 * length xs)"

lemma arr_zero [simp]: "arr zero_array []"
  by (simp add: arr_def zero_array_def)

lemma realloc_array_ok:
  assumes "cap \<le> 2 ^ 40" "\<forall>n. alloc n"
  shows "realloc_array alloc cap 24"
proof -
  have "\<not> SIZE_MAX div cap < 24" if "cap > 0"
  proof -
    have "24 * cap \<le> SIZE_MAX" using assms(1) by (simp add: SIZE_MAX_def)
    then show ?thesis using that by (simp add: less_eq_div_iff_mult_less_eq not_less)
  qed
  then show ?thesis using assms(2) by (auto simp: realloc_array_def)
qed

text \<open>Without an allocation failure, appending a non-empty span appends to the list.\<close>

lemma append_highlight_span_arr:
  assumes "arr a xs" "length xs \<le> 2 ^ 33" "\<forall>n. alloc n" "sp_len s \<noteq> 0"
  shows "\<exists>a'. append_highlight_span alloc a ob s t = Some (True, a') \<and>
     arr a' (xs @ [\<lparr>hs_type = t, hs_start = sp_s s - ob, hs_len = sp_len s\<rparr>])"
proof (cases "a_len a \<ge> a_capacity a")
  case True
  let ?cap = "if a_capacity a \<noteq> 0 then a_capacity a * 2 mod 2 ^ 64 else 64"
  have cap: "a_capacity a = length xs \<or> a_capacity a = 0" "a_len a = length xs"
    using assms(1) True by (auto simp: arr_def split: option.splits)
  then have eq: "?cap = (if xs = [] then 64 else 2 * length xs)"
    using assms(1,2) by (auto simp: arr_def split: option.splits)
  then have "?cap \<le> 2 ^ 40" using assms(2) by simp
  then have "realloc_array alloc ?cap 24" using assms(3) by (rule realloc_array_ok)
  then show ?thesis
    using True assms(1,4) eq
    by (auto simp: append_highlight_span_def arr_def Let_def split: option.splits)
next
  case False
  then show ?thesis
    using assms(1,4) by (auto simp: append_highlight_span_def arr_def split: option.splits)
qed

lemma append_empty [simp]: "sp_len s = 0 \<Longrightarrow> append_highlight_span alloc a ob s t = Some (True, a)"
  by (simp add: append_highlight_span_def)

text \<open>After a failed allocation the array is empty again and the spans collected so far are lost.\<close>

lemma append_highlight_span_fails:
  assumes "\<forall>n. \<not> alloc n" "a_len a \<ge> a_capacity a" "sp_len s \<noteq> 0"
  shows "append_highlight_span alloc a ob s t = Some (False, zero_array)"
  using assms by (auto simp: append_highlight_span_def realloc_array_def Let_def)

section \<open>Well-formed span lists\<close>

text \<open>Non-empty spans in ascending order, without overlap, inside the range from \<open>lo\<close> to \<open>hi\<close>.\<close>

fun spans_wf :: "nat \<Rightarrow> nat \<Rightarrow> highlight_span list \<Rightarrow> bool" where
  "spans_wf lo hi [] = (lo \<le> hi)"
| "spans_wf lo hi (x # xs) =
     (lo \<le> hs_start x \<and> 0 < hs_len x \<and> hs_type x \<noteq> HighlightEnd \<and>
      spans_wf (hs_start x + hs_len x) hi xs)"

lemma spans_wf_le: "spans_wf lo hi xs \<Longrightarrow> lo + length xs \<le> hi"
  by (induction xs arbitrary: lo) fastforce+

lemma spans_wf_mono: "spans_wf lo hi xs \<Longrightarrow> lo' \<le> lo \<Longrightarrow> hi \<le> hi' \<Longrightarrow> spans_wf lo' hi' xs"
  by (induction xs arbitrary: lo lo') auto

lemma spans_wf_append:
  "spans_wf lo mid xs \<Longrightarrow> spans_wf mid hi ys \<Longrightarrow> spans_wf lo hi (xs @ ys)"
proof (induction xs arbitrary: lo)
  case Nil
  then show ?case by (auto intro: spans_wf_mono)
qed simp

lemma spans_wf_update_last:
  "spans_wf lo hi (xs @ [x]) \<Longrightarrow> t \<noteq> HighlightEnd \<Longrightarrow> spans_wf lo hi (xs @ [x\<lparr>hs_type := t\<rparr>])"
  by (induction xs arbitrary: lo) auto

lemma spans_wf_member:
  "spans_wf lo hi xs \<Longrightarrow> x \<in> set xs \<Longrightarrow>
     lo \<le> hs_start x \<and> hs_start x + hs_len x \<le> hi \<and> 0 < hs_len x \<and> hs_type x \<noteq> HighlightEnd"
proof (induction xs arbitrary: lo)
  case (Cons y xs)
  have "hs_start y + hs_len y \<le> hi" using Cons.prems spans_wf_le by fastforce
  then show ?case using Cons by fastforce
qed simp

end
