(* ===== verification/Highlighter.thy ===== *)
theory Highlighter
  imports Span_Array
begin

text \<open>
  The highlighter proper (\<open>highlighter.c\<close>, \<open>enum field\<close> to
  \<open>highlight_config\<close>): field names and sections, the highlighting of one value, and the
  character loop over the whole configuration text with its five lexer states. Every function
  returns \<open>None\<close> exactly when the C code would access memory outside the text or outside
  the span array.
\<close>

section \<open>Fields\<close>

datatype field =
    InterfaceSection | PrivateKey | ListenPort | Address | DNS | MTU | FwMark | Table
  | PreUp | PostUp | PreDown | PostDown | SaveConfig
  | PeerSection | PublicKey | PresharedKey | AllowedIPs | Endpoint | PersistentKeepalive
  | Invalid

text \<open>The enumeration is ordered by its values.\<close>

primrec field_index :: "field \<Rightarrow> nat" where
  "field_index InterfaceSection = 0"
| "field_index PrivateKey = 1"
| "field_index ListenPort = 2"
| "field_index Address = 3"
| "field_index DNS = 4"
| "field_index MTU = 5"
| "field_index FwMark = 6"
| "field_index Table = 7"
| "field_index PreUp = 8"
| "field_index PostUp = 9"
| "field_index PreDown = 10"
| "field_index PostDown = 11"
| "field_index SaveConfig = 12"
| "field_index PeerSection = 13"
| "field_index PublicKey = 14"
| "field_index PresharedKey = 15"
| "field_index AllowedIPs = 16"
| "field_index Endpoint = 17"
| "field_index PersistentKeepalive = 18"
| "field_index Invalid = 19"

lemma field_index_inj: "field_index a = field_index b \<Longrightarrow> a = b"
  by (cases a; cases b; simp)

instantiation field :: linorder
begin

definition less_eq_field :: "field \<Rightarrow> field \<Rightarrow> bool" where
  "less_eq_field a b \<longleftrightarrow> field_index a \<le> field_index b"

definition less_field :: "field \<Rightarrow> field \<Rightarrow> bool" where
  "less_field a b \<longleftrightarrow> field_index a < field_index b"

instance
  by standard (auto simp: less_eq_field_def less_field_def dest: field_index_inj)

end

definition section_for_field :: "field \<Rightarrow> field" where
  "section_for_field t =
     (if t > InterfaceSection \<and> t < PeerSection then InterfaceSection
      else if t > PeerSection \<and> t < Invalid then PeerSection
      else Invalid)"

text \<open>The chain of \<open>check_enum\<close> tests: the first name that matches wins.\<close>

definition field_names :: "(string \<times> field) list" where
  "field_names =
     [(''PrivateKey'', PrivateKey), (''ListenPort'', ListenPort), (''Address'', Address),
      (''DNS'', DNS), (''MTU'', MTU), (''PublicKey'', PublicKey), (''PresharedKey'', PresharedKey),
      (''AllowedIPs'', AllowedIPs), (''Endpoint'', Endpoint),
      (''PersistentKeepalive'', PersistentKeepalive), (''FwMark'', FwMark), (''Table'', Table),
      (''PreUp'', PreUp), (''PostUp'', PostUp), (''PreDown'', PreDown), (''PostDown'', PostDown),
      (''SaveConfig'', SaveConfig)]"

fun check_enums :: "cmem \<Rightarrow> string_span_t \<Rightarrow> (string \<times> field) list \<Rightarrow> field option" where
  "check_enums m s [] = Some Invalid"
| "check_enums m s ((nm, t) # rest) = do {
     b \<leftarrow> is_caseless_same m s nm;
     if b then Some t else check_enums m s rest }"

definition get_field :: "cmem \<Rightarrow> string_span_t \<Rightarrow> field option" where
  "get_field m s = check_enums m s field_names"

definition get_sectiontype :: "cmem \<Rightarrow> string_span_t \<Rightarrow> field option" where
  "get_sectiontype m s = check_enums m s [(''[Peer]'', PeerSection), (''[Interface]'', InterfaceSection)]"

section \<open>Highlighting one value\<close>

definition highlight_multivalue_value ::
  "(nat \<Rightarrow> bool) \<Rightarrow> cmem \<Rightarrow> highlight_span_array \<Rightarrow> string_span_t \<Rightarrow> string_span_t \<Rightarrow> field \<Rightarrow>
     highlight_span_array option" where
  "highlight_multivalue_value alloc m ret parent s section =
     (if section = DNS then do {
        v4 \<leftarrow> is_valid_ipv4 m s;
        ip \<leftarrow> (if v4 then Some True else is_valid_ipv6 m s);
        if ip then emit alloc ret (sp_s parent) s HighlightIP
        else do {
          h \<leftarrow> is_valid_hostname m s;
          emit alloc ret (sp_s parent) s (if h then HighlightHost else HighlightError) }}
      else if section = Address \<or> section = AllowedIPs then do {
        net \<leftarrow> is_valid_network m s;
        if \<not> net then emit alloc ret (sp_s parent) s HighlightError
        else do {
          r \<leftarrow> c_for (search_step m s CHR ''/'' Some) () [0..<sp_len s];
          let slash = (case r of Inl k \<Rightarrow> k | Inr _ \<Rightarrow> sp_len s);
          if slash = sp_len s then emit alloc ret (sp_s parent) s HighlightIP
          else do {
            ret \<leftarrow> emit alloc ret (sp_s parent) \<lparr>sp_s = sp_s s, sp_len = slash\<rparr> HighlightIP;
            ret \<leftarrow> emit alloc ret (sp_s parent) \<lparr>sp_s = sp_s s + slash, sp_len = 1\<rparr> HighlightDelimiter;
            emit alloc ret (sp_s parent)
              \<lparr>sp_s = sp_s s + slash + 1, sp_len = sp_len s - slash - 1\<rparr> HighlightCidr }}}
      else emit alloc ret (sp_s parent) s HighlightError)"

record multi_state =
  mv_ret :: highlight_span_array
  mv_span :: string_span_t
  mv_last :: nat

definition multivalue_step ::
  "(nat \<Rightarrow> bool) \<Rightarrow> cmem \<Rightarrow> string_span_t \<Rightarrow> string_span_t \<Rightarrow> field \<Rightarrow>
     multi_state \<Rightarrow> nat \<Rightarrow> (unit + multi_state) option" where
  "multivalue_step alloc m parent s section st i = do {
     c \<leftarrow> at m s i;
     if c = CHR '','' then do {
       let cur = (mv_span st)\<lparr>sp_len := mv_last st\<rparr>;
       ret \<leftarrow> highlight_multivalue_value alloc m (mv_ret st) parent cur section;
       ret \<leftarrow> emit alloc ret (sp_s parent) \<lparr>sp_s = sp_s s + i, sp_len = 1\<rparr> HighlightDelimiter;
       Some (Inr \<lparr>mv_ret = ret, mv_span = \<lparr>sp_s = sp_s s + i + 1, sp_len = 0\<rparr>, mv_last = 0\<rparr>) }
     else if c = CHR '' '' \<or> c = CHR 0x09 then
       Some (Inr (if sp_s s + i = sp_s (mv_span st) \<and> sp_len (mv_span st) = 0
                  then st\<lparr>mv_span := (mv_span st)\<lparr>sp_s := sp_s (mv_span st) + 1\<rparr>\<rparr>
                  else st\<lparr>mv_span := (mv_span st)\<lparr>sp_len := sp_len (mv_span st) + 1\<rparr>\<rparr>))
     else
       Some (Inr (st\<lparr>mv_span := (mv_span st)\<lparr>sp_len := sp_len (mv_span st) + 1\<rparr>,
                     mv_last := sp_len (mv_span st) + 1\<rparr>)) }"

text \<open>The last statement of \<open>highlight_multivalue\<close>: a trailing comma becomes an error.\<close>

definition mark_trailing_delimiter :: "highlight_span_array \<Rightarrow> highlight_span_array option" where
  "mark_trailing_delimiter ret =
     (case a_spans ret of
        None \<Rightarrow> None
      | Some xs \<Rightarrow>
          if a_len ret = 0 \<or> a_len ret > length xs then None
          else let k = a_len ret - 1 in
            if hs_type (xs ! k) = HighlightDelimiter
            then Some (ret\<lparr>a_spans := Some (xs[k := (xs ! k)\<lparr>hs_type := HighlightError\<rparr>])\<rparr>)
            else Some ret)"

definition highlight_multivalue ::
  "(nat \<Rightarrow> bool) \<Rightarrow> cmem \<Rightarrow> highlight_span_array \<Rightarrow> string_span_t \<Rightarrow> string_span_t \<Rightarrow> field \<Rightarrow>
     highlight_span_array option" where
  "highlight_multivalue alloc m ret parent s section = do {
     r \<leftarrow> c_for (multivalue_step alloc m parent s section)
       \<lparr>mv_ret = ret, mv_span = \<lparr>sp_s = sp_s s, sp_len = 0\<rparr>, mv_last = 0\<rparr> [0..<sp_len s];
     case r of
       Inl _ \<Rightarrow> Some ret
     | Inr st \<Rightarrow>
         let cur = (mv_span st)\<lparr>sp_len := mv_last st\<rparr> in
         if sp_len cur \<noteq> 0 then highlight_multivalue_value alloc m (mv_ret st) parent cur section
         else mark_trailing_delimiter (mv_ret st) }"

text \<open>A value with a validator of its own: one span, marked as the type or as an error.\<close>

definition highlight_checked ::
  "(nat \<Rightarrow> bool) \<Rightarrow> highlight_span_array \<Rightarrow> string_span_t \<Rightarrow> string_span_t \<Rightarrow> bool option \<Rightarrow>
     highlight_type \<Rightarrow> highlight_span_array option" where
  "highlight_checked alloc ret parent s check t = do {
     b \<leftarrow> check;
     emit alloc ret (sp_s parent) s (if b then t else HighlightError) }"

definition highlight_endpoint ::
  "(nat \<Rightarrow> bool) \<Rightarrow> cmem \<Rightarrow> highlight_span_array \<Rightarrow> string_span_t \<Rightarrow> string_span_t \<Rightarrow>
     highlight_span_array option" where
  "highlight_endpoint alloc m ret parent s = do {
     ok \<leftarrow> is_valid_endpoint m s;
     if \<not> ok then emit alloc ret (sp_s parent) s HighlightError
     else do {
       r \<leftarrow> c_for (search_step m s CHR '':'' Some) () (rev [0..<sp_len s]);
       let colon = (case r of Inl k \<Rightarrow> k | Inr _ \<Rightarrow> SIZE_MAX);
       ret \<leftarrow> emit alloc ret (sp_s parent) \<lparr>sp_s = sp_s s, sp_len = colon\<rparr> HighlightHost;
       ret \<leftarrow> emit alloc ret (sp_s parent) \<lparr>sp_s = sp_s s + colon, sp_len = 1\<rparr> HighlightDelimiter;
       emit alloc ret (sp_s parent)
         \<lparr>sp_s = sp_s s + colon + 1, sp_len = sp_len s - colon - 1\<rparr> HighlightPort }}"

fun highlight_value ::
  "(nat \<Rightarrow> bool) \<Rightarrow> cmem \<Rightarrow> highlight_span_array \<Rightarrow> string_span_t \<Rightarrow> string_span_t \<Rightarrow> field \<Rightarrow>
     highlight_span_array option" where
  "highlight_value alloc m ret parent s PrivateKey =
     highlight_checked alloc ret parent s (is_valid_key m s) HighlightPrivateKey"
| "highlight_value alloc m ret parent s PublicKey =
     highlight_checked alloc ret parent s (is_valid_key m s) HighlightPublicKey"
| "highlight_value alloc m ret parent s PresharedKey =
     highlight_checked alloc ret parent s (is_valid_key m s) HighlightPresharedKey"
| "highlight_value alloc m ret parent s MTU =
     highlight_checked alloc ret parent s (is_valid_mtu m s) HighlightMTU"
| "highlight_value alloc m ret parent s SaveConfig =
     highlight_checked alloc ret parent s (is_valid_saveconfig m s) HighlightSaveConfig"
| "highlight_value alloc m ret parent s FwMark =
     highlight_checked alloc ret parent s (is_valid_fwmark m s) HighlightFwMark"
| "highlight_value alloc m ret parent s Table =
     highlight_checked alloc ret parent s (is_valid_table m s) HighlightTable"
| "highlight_value alloc m ret parent s PreUp =
     highlight_checked alloc ret parent s (is_valid_prepostupdown m s) HighlightCmd"
| "highlight_value alloc m ret parent s PostUp =
     highlight_checked alloc ret parent s (is_valid_prepostupdown m s) HighlightCmd"
| "highlight_value alloc m ret parent s PreDown =
     highlight_checked alloc ret parent s (is_valid_prepostupdown m s) HighlightCmd"
| "highlight_value alloc m ret parent s PostDown =
     highlight_checked alloc ret parent s (is_valid_prepostupdown m s) HighlightCmd"
| "highlight_value alloc m ret parent s ListenPort =
     highlight_checked alloc ret parent s (is_valid_port m s) HighlightPort"
| "highlight_value alloc m ret parent s PersistentKeepalive =
     highlight_checked alloc ret parent s (is_valid_persistentkeepalive m s) HighlightKeepalive"
| "highlight_value alloc m ret parent s Endpoint = highlight_endpoint alloc m ret parent s"
| "highlight_value alloc m ret parent s Address = highlight_multivalue alloc m ret parent s Address"
| "highlight_value alloc m ret parent s DNS = highlight_multivalue alloc m ret parent s DNS"
| "highlight_value alloc m ret parent s AllowedIPs = highlight_multivalue alloc m ret parent s AllowedIPs"
| "highlight_value alloc m ret parent s _ = emit alloc ret (sp_s parent) s HighlightError"

section \<open>The configuration loop\<close>

datatype lexer_state = OnNone | OnKey | OnValue | OnComment | OnSection

record hl_state =
  hl_ret :: highlight_span_array
  hl_span :: string_span_t
  hl_section :: field
  hl_field :: field
  hl_mode :: lexer_state
  hl_last :: nat
  hl_equals :: nat

text \<open>What the end of a line, of the text or the start of a comment emits for the pending token.\<close>

definition flush_token ::
  "(nat \<Rightarrow> bool) \<Rightarrow> cmem \<Rightarrow> string_span_t \<Rightarrow> hl_state \<Rightarrow> hl_state option" where
  "flush_token alloc m s st =
     (let cur = (hl_span st)\<lparr>sp_len := hl_last st\<rparr>;
          eq = \<lparr>sp_s = sp_s s + hl_equals st, sp_len = 1\<rparr> in
      case hl_mode st of
        OnKey \<Rightarrow> do {
          ret \<leftarrow> emit alloc (hl_ret st) (sp_s s) cur HighlightError;
          Some (st\<lparr>hl_ret := ret, hl_span := cur\<rparr>) }
      | OnValue \<Rightarrow>
          if sp_len (hl_span st) \<noteq> 0 then do {
            ret \<leftarrow> emit alloc (hl_ret st) (sp_s s) eq HighlightDelimiter;
            ret \<leftarrow> highlight_value alloc m ret s cur (hl_field st);
            Some (st\<lparr>hl_ret := ret, hl_span := cur\<rparr>) }
          else do {
            ret \<leftarrow> emit alloc (hl_ret st) (sp_s s) eq HighlightError;
            Some (st\<lparr>hl_ret := ret\<rparr>) }
      | OnSection \<Rightarrow> do {
          sec \<leftarrow> get_sectiontype m cur;
          ret \<leftarrow> emit alloc (hl_ret st) (sp_s s) cur
                   (if sec = Invalid then HighlightError else HighlightSection);
          Some (st\<lparr>hl_ret := ret, hl_span := cur, hl_section := sec\<rparr>) }
      | OnComment \<Rightarrow> do {
          ret \<leftarrow> emit alloc (hl_ret st) (sp_s s) (hl_span st) HighlightComment;
          Some (st\<lparr>hl_ret := ret\<rparr>) }
      | OnNone \<Rightarrow> Some st)"

definition key_done ::
  "(nat \<Rightarrow> bool) \<Rightarrow> cmem \<Rightarrow> string_span_t \<Rightarrow> hl_state \<Rightarrow> nat \<Rightarrow> hl_state option" where
  "key_done alloc m s st i = do {
     let cur = (hl_span st)\<lparr>sp_len := hl_last st\<rparr>;
     fld \<leftarrow> get_field m cur;
     let section = section_for_field fld;
     ret \<leftarrow> emit alloc (hl_ret st) (sp_s s) cur
       (if section = Invalid \<or> fld = Invalid \<or> section \<noteq> hl_section st
        then HighlightError else HighlightField);
     Some (st\<lparr>hl_ret := ret, hl_field := fld, hl_equals := i,
              hl_span := \<lparr>sp_s = sp_s s + i + 1, sp_len = 0\<rparr>, hl_mode := OnValue\<rparr>) }"

definition highlight_step ::
  "(nat \<Rightarrow> bool) \<Rightarrow> cmem \<Rightarrow> string_span_t \<Rightarrow> hl_state \<Rightarrow> nat \<Rightarrow> (hl_state + hl_state) option" where
  "highlight_step alloc m s st i =
     (if i = sp_len s then do { st \<leftarrow> flush_token alloc m s st; Some (Inl st) }
      else do {
        c \<leftarrow> at m s i;
        if c = CHR 0x0A \<or> (hl_mode st \<noteq> OnComment \<and> c = CHR ''#'') then do {
          st \<leftarrow> flush_token alloc m s st;
          let st = st\<lparr>hl_last := 0, hl_field := Invalid\<rparr>;
          Some (Inr (if c = CHR ''#''
            then st\<lparr>hl_span := \<lparr>sp_s = sp_s s + i, sp_len = 1\<rparr>, hl_mode := OnComment\<rparr>
            else st\<lparr>hl_span := \<lparr>sp_s = sp_s s + i + 1, sp_len = 0\<rparr>, hl_mode := OnNone\<rparr>)) }
        else if hl_mode st = OnComment then
          Some (Inr (st\<lparr>hl_span := (hl_span st)\<lparr>sp_len := sp_len (hl_span st) + 1\<rparr>\<rparr>))
        else if c = CHR '' '' \<or> c = CHR 0x09 then
          Some (Inr (if sp_s s + i = sp_s (hl_span st) \<and> sp_len (hl_span st) = 0
            then st\<lparr>hl_span := (hl_span st)\<lparr>sp_s := sp_s (hl_span st) + 1\<rparr>\<rparr>
            else st\<lparr>hl_span := (hl_span st)\<lparr>sp_len := sp_len (hl_span st) + 1\<rparr>\<rparr>))
        else if c = CHR ''='' \<and> hl_mode st = OnKey then do {
          st \<leftarrow> key_done alloc m s st i;
          Some (Inr st) }
        else
          Some (Inr (st\<lparr>
            hl_mode := (if hl_mode st = OnNone
                        then (if c = CHR ''['' then OnSection else OnKey) else hl_mode st),
            hl_span := (hl_span st)\<lparr>sp_len := sp_len (hl_span st) + 1\<rparr>,
            hl_last := sp_len (hl_span st) + 1\<rparr>)) })"

text \<open>The result is the span array, \<open>None\<close> inside for the null pointer.\<close>

definition highlight_config :: "(nat \<Rightarrow> bool) \<Rightarrow> cmem \<Rightarrow> highlight_span list option option" where
  "highlight_config alloc m = do {
     n \<leftarrow> c_strlen m;
     let s = \<lparr>sp_s = 0, sp_len = n\<rparr>;
     r \<leftarrow> c_for (highlight_step alloc m s)
       \<lparr>hl_ret = zero_array, hl_span = \<lparr>sp_s = 0, sp_len = 0\<rparr>, hl_section = Invalid,
        hl_field = Invalid, hl_mode = OnNone, hl_last = 0, hl_equals = 0\<rparr> [0..<n + 1];
     let st = (case r of Inl st \<Rightarrow> st | Inr st \<Rightarrow> st);
     ret \<leftarrow> emit alloc (hl_ret st) 0 \<lparr>sp_s = 0, sp_len = SIZE_MAX\<rparr> HighlightEnd;
     Some (a_spans ret) }"

end
