(* ===== verification/Endpoint_Text.thy ===== *)
theory Endpoint_Text
  imports Value_Validators
begin

text \<open>
  The endpoint reference predicate as a grammar: a host, a colon and a port, where the host is an
  IPv4 address, a host name or a bracketed IPv6 address with an optional scope. The port has no
  colon, so that the last colon of an accepted endpoint is the separator; the highlighter relies on
  this when it looks for the colon from the right.
\<close>

definition endpoint_host :: "string \<Rightarrow> bool" where
  "endpoint_host h \<longleftrightarrow> ipv4_text h \<or> hostname_text h \<or>
     (\<exists>a. h = ''['' @ a @ '']'' \<and> ipv6_text a) \<or>
     (\<exists>a sc. h = ''['' @ a @ ''%'' @ sc @ '']'' \<and> ipv6_text a \<and> scope_text sc)"

subsection \<open>Alphabets of the reference predicates\<close>

lemma ipv4_rest_chars: "ipv4_rest n t \<Longrightarrow> c \<in> set t \<Longrightarrow> is_decimal c \<or> c = CHR ''.''"
proof (induction n t rule: ipv4_rest.induct)
  case (2 n t)
  define d where "d = takeWhile is_decimal (take 3 t)"
  let ?r = "drop (length d) t"
  note dd = takeWhile_digits [where P = is_decimal and n = 3 and t = t, folded d_def]
  have t: "t = d @ ?r" using dd(3) by (metis append_take_drop_id)
  show ?case
  proof (cases "c \<in> set d")
    case False
    then have c: "c \<in> set ?r" using t 2(3) by (metis Un_iff set_append)
    then have r: "?r \<noteq> []" by auto
    then have "hd ?r = CHR ''.''" "ipv4_rest n (tl ?r)"
      using 2(2) by (auto simp: Let_def d_def split: if_splits)
    moreover have "c = hd ?r \<or> c \<in> set (tl ?r)" using c r by (cases ?r) auto
    ultimately show ?thesis
      using 2(1) [of d ?r] r by (auto simp: d_def)
  qed (use dd in auto)
qed simp

lemma ipv4_text_chars: "ipv4_text t \<Longrightarrow> c \<in> set t \<Longrightarrow> is_decimal c \<or> c = CHR ''.''"
  unfolding ipv4_text_def by (rule ipv4_rest_chars)

definition v6_char :: "char \<Rightarrow> bool" where
  "v6_char c \<longleftrightarrow> is_hexadecimal c \<or> c = CHR '':'' \<or> c = CHR ''.''"

lemma ipv6_rest_chars: "ipv6_rest i seen t \<Longrightarrow> c \<in> set t \<Longrightarrow> v6_char c"
proof (induction i seen t rule: ipv6_rest.induct)
  case (1 i seen t)
  define d where "d = takeWhile is_hexadecimal (take 4 t)"
  let ?r = "drop (length d) t"
  note dd = takeWhile_digits [where P = is_hexadecimal and n = 4 and t = t, folded d_def]
  have t: "t = d @ ?r" using dd(3) by (metis append_take_drop_id)
  have ne: "t \<noteq> []" using 1(4) by auto
  show ?case
  proof (cases "hd t = CHR '':'' \<and> \<not> seen")
    case True
    have "c = hd t \<or> c \<in> set (tl t)" using 1(4) ne by (cases t) auto
    moreover have "tl t = [] \<or> i \<noteq> 7 \<and> ipv6_rest (i + 1) True (tl t)"
      using 1(3) True ne by (subst (asm) ipv6_rest.simps) (auto split: if_splits)
    ultimately show ?thesis
      using 1(1) [OF ne True] True v6_char_def [of c] by (metis empty_iff empty_set)
  next
    case False
    have cases: "?r = [] \<or> i \<noteq> 7 \<and> (hd ?r = CHR '':'' \<and> ipv6_rest (i + 1) seen (tl ?r)
        \<or> hd ?r = CHR ''.'' \<and> ipv4_text t)" "d \<noteq> []"
      using 1(3) False ne
      by (subst (asm) ipv6_rest.simps, auto simp: d_def [symmetric] Let_def split: if_splits)+
    have v4: "ipv4_text t \<Longrightarrow> v6_char c"
      using ipv4_text_chars [of t c] 1(4) by (auto simp: v6_char_def is_hexadecimal_def)
    have "c \<in> set d \<or> c \<in> set ?r" using 1(4) t by (metis Un_iff set_append)
    then consider "c \<in> set d" | "?r \<noteq> []" "c = hd ?r" | "?r \<noteq> []" "c \<in> set (tl ?r)"
      by (cases ?r) auto
    then show ?thesis
    proof cases
      case 1
      then show ?thesis using dd(2) by (simp add: v6_char_def)
    next
      case 2
      then show ?thesis using cases by (auto simp: v6_char_def)
    next
      case 3
      then show ?thesis
        using cases 1(2) [OF ne False d_def refl] v4 by blast
    qed
  qed
qed

lemma ipv6_text_chars: "ipv6_text t \<Longrightarrow> c \<in> set t \<Longrightarrow> v6_char c"
proof -
  assume *: "ipv6_text t" "c \<in> set t"
  then have "t \<noteq> []" by auto
  then have "c = hd t \<or> c \<in> set (tl t)" "t ! 0 = hd t"
    using *(2) by (cases t, auto)+
  then show ?thesis
    using * ipv6_rest_chars [of 0 False _ c] by (auto simp: ipv6_text_def v6_char_def split: if_splits)
qed

lemma special_chars [simp]:
  "\<not> v6_char CHR ''%''" "\<not> v6_char CHR '']''" "\<not> scope_char CHR '']''" "\<not> scope_char CHR ''%''"
  "\<not> host_char CHR '':''" "\<not> is_decimal CHR '':''" "\<not> host_char CHR ''[''" "\<not> is_decimal CHR ''[''"
  by (simp_all add: v6_char_def scope_char_def host_char_def is_hexadecimal_set is_decimal_set is_alphabet_set)

subsection \<open>The grammar\<close>

lemma ex_list_split: "(\<exists>xs. P xs) \<longleftrightarrow> P [] \<or> (\<exists>x xs. P (x # xs))"
  by (metis list.exhaust)

lemma bracket_rest_scope:
  "bracket_rest True h r \<longleftrightarrow> (\<exists>sc p. r = sc @ '']:'' @ p \<and> scope_text (h @ sc) \<and> port_text p)"
proof (induction r arbitrary: h)
  case (Cons c r)
  have "(\<exists>sc p. c # r = sc @ '']:'' @ p \<and> scope_text (h @ sc) \<and> port_text p) \<longleftrightarrow>
      c = CHR '']'' \<and> scope_text h \<and> (\<exists>p. r = CHR '':'' # p \<and> port_text p) \<or>
      (\<exists>sc p. r = sc @ '']:'' @ p \<and> scope_text (h @ c # sc) \<and> port_text p)"
    by (subst ex_list_split) auto
  moreover have "\<not> scope_text (h @ CHR ''%'' # sc')" "\<not> scope_text (h @ CHR '']'' # sc')" for sc'
    by (auto simp: scope_text_def)
  moreover have "r \<noteq> [] \<and> hd r = CHR '':'' \<and> port_text (tl r) \<longleftrightarrow> (\<exists>p. r = CHR '':'' # p \<and> port_text p)"
    by (cases r) auto
  ultimately show ?case
    using Cons.IH [of "h @ [c]"] by auto
qed auto

lemma bracket_rest_addr:
  "bracket_rest False h r \<longleftrightarrow>
     (\<exists>a p. r = a @ '']:'' @ p \<and> ipv6_text (h @ a) \<and> port_text p) \<or>
     (\<exists>a sc p. r = a @ ''%'' @ sc @ '']:'' @ p \<and> ipv6_text (h @ a) \<and> scope_text sc \<and> port_text p)"
proof (induction r arbitrary: h)
  case (Cons c r)
  have "(\<exists>a p. c # r = a @ '']:'' @ p \<and> ipv6_text (h @ a) \<and> port_text p) \<longleftrightarrow>
      c = CHR '']'' \<and> ipv6_text h \<and> (\<exists>p. r = CHR '':'' # p \<and> port_text p) \<or>
      (\<exists>a p. r = a @ '']:'' @ p \<and> ipv6_text (h @ c # a) \<and> port_text p)"
    by (subst ex_list_split) auto
  moreover have "(\<exists>a sc p. c # r = a @ ''%'' @ sc @ '']:'' @ p \<and> ipv6_text (h @ a) \<and> scope_text sc \<and> port_text p) \<longleftrightarrow>
      c = CHR ''%'' \<and> ipv6_text h \<and> (\<exists>sc p. r = sc @ '']:'' @ p \<and> scope_text sc \<and> port_text p) \<or>
      (\<exists>a sc p. r = a @ ''%'' @ sc @ '']:'' @ p \<and> ipv6_text (h @ c # a) \<and> scope_text sc \<and> port_text p)"
    by (subst ex_list_split) auto
  moreover have "\<not> ipv6_text (h @ CHR ''%'' # a)" "\<not> ipv6_text (h @ CHR '']'' # a)" for a
    by (auto dest: ipv6_text_chars)
  moreover have "r \<noteq> [] \<and> hd r = CHR '':'' \<and> port_text (tl r) \<longleftrightarrow> (\<exists>p. r = CHR '':'' # p \<and> port_text p)"
    by (cases r) auto
  ultimately show ?case
    using Cons.IH [of "h @ [c]"] by (auto simp: bracket_rest_scope)
qed auto

lemma endpoint_text_bracket:
  assumes "t \<noteq> [] \<and> hd t = CHR ''[''"
  shows "endpoint_text t \<longleftrightarrow> (\<exists>h p. t = h @ '':'' @ p \<and> endpoint_host h \<and> port_text p)"
proof -
  obtain r where t: "t = CHR ''['' # r" using assms by (cases t) auto
  have nobr: "\<not> ipv4_text (CHR ''['' # x)" "\<not> hostname_text (CHR ''['' # x)" "\<not> ipv4_text []" "\<not> hostname_text []" for x
    using ipv4_text_chars [of "CHR ''['' # x" "CHR ''[''"]
    by (auto simp: hostname_text_def ipv4_text_def)
  show ?thesis
  proof
    assume "endpoint_text t"
    then have "bracket_rest False [] r" using t by (simp add: endpoint_text_def)
    then show "\<exists>h p. t = h @ '':'' @ p \<and> endpoint_host h \<and> port_text p"
      unfolding bracket_rest_addr
    proof (elim disjE exE conjE)
      fix a p assume "r = a @ '']:'' @ p" "ipv6_text ([] @ a)" "port_text p"
      then show ?thesis
        using t by (intro exI [of _ "''['' @ a @ '']''"] exI [of _ p]) (auto simp: endpoint_host_def)
    next
      fix a sc p assume "r = a @ ''%'' @ sc @ '']:'' @ p" "ipv6_text ([] @ a)" "scope_text sc" "port_text p"
      then show ?thesis
        using t by (intro exI [of _ "''['' @ a @ ''%'' @ sc @ '']''"] exI [of _ p]) (auto simp: endpoint_host_def)
    qed
  next
    assume "\<exists>h p. t = h @ '':'' @ p \<and> endpoint_host h \<and> port_text p"
    then obtain h p where hp: "t = h @ '':'' @ p" "endpoint_host h" "port_text p" by blast
    then obtain h' where "h = CHR ''['' # h'" using t nobr by (cases h) (auto simp: endpoint_host_def)
    then have "bracket_rest False [] r"
      using hp t nobr by (auto simp: endpoint_host_def bracket_rest_addr)
    then show "endpoint_text t" using t by (simp add: endpoint_text_def)
  qed
qed

lemma endpoint_text_plain:
  assumes "\<not> (t \<noteq> [] \<and> hd t = CHR ''['')"
  shows "endpoint_text t \<longleftrightarrow> (\<exists>h p. t = h @ '':'' @ p \<and> endpoint_host h \<and> port_text p)"
proof -
  have split: "CHR '':'' \<in> set t \<Longrightarrow> t = take (index_of CHR '':'' t) t @ '':'' @ drop (index_of CHR '':'' t + 1) t"
    by (simp add: index_of_less nth_index_of id_take_nth_drop [symmetric]
        Cons_nth_drop_Suc [symmetric] flip: nth_index_of)
      (metis index_of_less nth_index_of id_take_nth_drop)
  show ?thesis
  proof
    assume "endpoint_text t"
    then have "CHR '':'' \<in> set t" "port_text (drop (index_of CHR '':'' t + 1) t)"
      "ipv4_text (take (index_of CHR '':'' t) t) \<or> hostname_text (take (index_of CHR '':'' t) t)"
      using assms by (auto simp: endpoint_text_def Let_def split: if_splits)
    then show "\<exists>h p. t = h @ '':'' @ p \<and> endpoint_host h \<and> port_text p"
      using split unfolding endpoint_host_def by blast
  next
    assume "\<exists>h p. t = h @ '':'' @ p \<and> endpoint_host h \<and> port_text p"
    then obtain h p where hp: "t = h @ '':'' @ p" "endpoint_host h" "port_text p" by blast
    then have h: "ipv4_text h \<or> hostname_text h" using assms by (auto simp: endpoint_host_def)
    then have "CHR '':'' \<notin> set h"
      by (auto simp: hostname_text_def dest: ipv4_text_chars)
    then have "index_of CHR '':'' t = length h"
      unfolding index_of_def hp(1) by (subst takeWhile_append_hd) auto
    then show "endpoint_text t"
      using hp h assms by (auto simp: endpoint_text_def Let_def)
  qed
qed

lemma endpoint_text_iff:
  "endpoint_text t \<longleftrightarrow> (\<exists>h p. t = h @ '':'' @ p \<and> endpoint_host h \<and> port_text p)"
  using endpoint_text_bracket endpoint_text_plain by blast

lemma port_text_no_colon: "port_text p \<Longrightarrow> CHR '':'' \<notin> set p"
  by (auto simp: uint_text_def)

section \<open>Networks\<close>

lemma no_slash: "ipv4_text t \<or> ipv6_text t \<Longrightarrow> CHR ''/'' \<notin> set t"
  using ipv4_text_chars [of t "CHR ''/''"] ipv6_text_chars [of t "CHR ''/''"]
  by (auto simp: v6_char_def is_hexadecimal_set is_decimal_set)

lemma network_text_iff:
  "network_text t \<longleftrightarrow> (\<exists>ip cidr. (t = ip \<or> t = ip @ ''/'' @ cidr \<and>
     cidr_text (if ipv4_text ip then 32 else 128) cidr) \<and> (ipv4_text ip \<or> ipv6_text ip))"
proof (cases "CHR ''/'' \<in> set t")
  case True
  let ?k = "index_of CHR ''/'' t"
  have t: "t = take ?k t @ ''/'' @ drop (?k + 1) t"
    using index_of_less [OF True] nth_index_of [OF True] id_take_nth_drop [of ?k t] by simp
  have idx: "take ?k t = ip \<and> drop (?k + 1) t = cidr"
    if "ipv4_text ip \<or> ipv6_text ip" "t = ip @ ''/'' @ cidr" for ip cidr
  proof -
    have "?k = length ip"
      unfolding index_of_def that(2) using no_slash [OF that(1)] by (subst takeWhile_append_hd) auto
    then show ?thesis using that(2) by simp
  qed
  have "network_text t \<longleftrightarrow> (let ip = take ?k t; cidr = drop (?k + 1) t in
      cidr_text (if ipv4_text ip then 32 else 128) cidr \<and> (ipv4_text ip \<or> ipv6_text ip))"
    using True by (auto simp: network_text_def Let_def)
  then show ?thesis
    using t idx no_slash [of t] True unfolding Let_def by metis
next
  case False
  then show ?thesis by (auto simp: network_text_def)
qed

section \<open>Properties\<close>

text \<open>Claim C30: \<open>is_valid_endpoint\<close> accepts a span exactly when it is a host and a port number from 0
  to 65535 joined by a colon, where the host is an IPv4 address, a host name, or an IPv6 address
  in brackets with an optional scope; it never reads outside the text.\<close>

theorem is_valid_endpoint_decides:
  assumes "span_ok m s"
  shows "is_valid_endpoint m s =
    Some (\<exists>h p. span_str m s = h @ '':'' @ p \<and> endpoint_host h \<and> uint_text False 0 65535 p)"
  using endpoint.refines [OF assms] by (simp add: endpoint_text_iff)

lemma is_valid_endpoint_decides_witness:
  "span_ok ''[fe80::1%eth0]:51820 '' \<lparr>sp_s = 0, sp_len = 20\<rparr> \<and>
   is_valid_endpoint ''[fe80::1%eth0]:51820 '' \<lparr>sp_s = 0, sp_len = 20\<rparr> =
     Some (\<exists>h p. span_str ''[fe80::1%eth0]:51820 '' \<lparr>sp_s = 0, sp_len = 20\<rparr> = h @ '':'' @ p \<and>
       endpoint_host h \<and> uint_text False 0 65535 p)"
proof -
  have "span_ok ''[fe80::1%eth0]:51820 '' \<lparr>sp_s = 0, sp_len = 20\<rparr>" by (simp add: span_ok_def)
  with is_valid_endpoint_decides show ?thesis by blast
qed

text \<open>Claim C31: \<open>is_valid_network\<close>, on a span that is not followed by a colon, accepts exactly an IPv4
  address with an optional prefix length up to 32 or an IPv6 address with an optional prefix
  length up to 128.\<close>

theorem is_valid_network_decides:
  assumes "span_ok m s" "span_next m s \<noteq> CHR '':''"
  shows "is_valid_network m s =
    Some (\<exists>ip cidr. (span_str m s = ip \<or> span_str m s = ip @ ''/'' @ cidr \<and>
            cidr_text (if ipv4_text ip then 32 else 128) cidr) \<and> (ipv4_text ip \<or> ipv6_text ip))"
  using network.refines [OF assms] network_text_iff by simp

lemma is_valid_network_decides_witness:
  "span_ok ''10.0.0.0/33,'' \<lparr>sp_s = 0, sp_len = 11\<rparr> \<and>
   span_next ''10.0.0.0/33,'' \<lparr>sp_s = 0, sp_len = 11\<rparr> \<noteq> CHR '':'' \<and>
   is_valid_network ''10.0.0.0/33,'' \<lparr>sp_s = 0, sp_len = 11\<rparr> =
     Some (\<exists>ip cidr. (span_str ''10.0.0.0/33,'' \<lparr>sp_s = 0, sp_len = 11\<rparr> = ip \<or>
         span_str ''10.0.0.0/33,'' \<lparr>sp_s = 0, sp_len = 11\<rparr> = ip @ ''/'' @ cidr \<and>
         cidr_text (if ipv4_text ip then 32 else 128) cidr) \<and> (ipv4_text ip \<or> ipv6_text ip))"
proof -
  have "span_ok ''10.0.0.0/33,'' \<lparr>sp_s = 0, sp_len = 11\<rparr>"
    "span_next ''10.0.0.0/33,'' \<lparr>sp_s = 0, sp_len = 11\<rparr> \<noteq> CHR '':''"
    by (simp_all add: span_ok_def span_next_def)
  with is_valid_network_decides show ?thesis by blast
qed

text \<open>Claim C32: \<open>is_valid_uint\<close> decides, without wrap-around of its 64-bit accumulator, whether the
  span is a numeral of at most ten characters (decimal, or hexadecimal behind \<open>0x\<close> where
  allowed) whose value lies between the bounds.\<close>

theorem is_valid_uint_decides:
  assumes "span_ok m s"
  shows "is_valid_uint m s hex mn mx = Some (uint_text hex (unat mn) (unat mx) (span_str m s))"
  by (rule uint.refines [OF assms]) simp

lemma is_valid_uint_decides_witness:
  "span_ok ''0xFFFFFFFF;'' \<lparr>sp_s = 0, sp_len = 10\<rparr> \<and>
   is_valid_uint ''0xFFFFFFFF;'' \<lparr>sp_s = 0, sp_len = 10\<rparr> True 0 4294967295 =
     Some (uint_text True (unat (0::u64)) (unat (4294967295::u64))
       (span_str ''0xFFFFFFFF;'' \<lparr>sp_s = 0, sp_len = 10\<rparr>))"
proof -
  have "span_ok ''0xFFFFFFFF;'' \<lparr>sp_s = 0, sp_len = 10\<rparr>" by (simp add: span_ok_def)
  with is_valid_uint_decides show ?thesis by blast
qed

text \<open>The test for two adjacent dots in \<open>is_valid_hostname\<close> is behind a \<open>continue\<close> that every
  dot takes: the host name \<open>a..b\<close> is accepted.\<close>

lemma is_valid_hostname_double_dot:
  "is_valid_hostname ''a..b '' \<lparr>sp_s = 0, sp_len = 4\<rparr> = Some True"
  by code_simp

end
