(* ===== verification/Highlight_Safety.thy ===== *)
theory Highlight_Safety
  imports Highlighter Endpoint_Text
begin

text \<open>
  The invariant of the highlighter. As long as memory allocation succeeds, every function of
  \<open>Highlighter\<close> runs without an undefined access, and the array it extends stays a list of
  non-empty, ordered, non-overlapping spans, each of which is classified soundly: the text under a
  span of a given type satisfies the reference predicate of that type.

  The locale \<open>emitter\<close> is the contract between the configuration loop and the functions
  that highlight one value: an emitter only adds spans inside the value it is given.
\<close>

section \<open>Sound classification\<close>

definition span_text :: "cmem \<Rightarrow> highlight_span \<Rightarrow> string" where
  "span_text m x = take (hs_len x) (drop (hs_start x) m)"

fun type_sound :: "highlight_type \<Rightarrow> string \<Rightarrow> bool" where
  "type_sound HighlightSection t = (same_caseless t ''[Peer]'' \<or> same_caseless t ''[Interface]'')"
| "type_sound HighlightField t = (\<exists>(nm, f) \<in> set field_names. same_caseless t nm)"
| "type_sound HighlightPrivateKey t = key_text t"
| "type_sound HighlightPublicKey t = key_text t"
| "type_sound HighlightPresharedKey t = key_text t"
| "type_sound HighlightIP t = (ipv4_text t \<or> ipv6_text t)"
| "type_sound HighlightCidr t = cidr_text 128 t"
| "type_sound HighlightHost t = endpoint_host t"
| "type_sound HighlightPort t = port_text t"
| "type_sound HighlightMTU t = uint_text False 576 65535 t"
| "type_sound HighlightKeepalive t = off_or_uint False 65535 t"
| "type_sound HighlightComment t = (t \<noteq> [] \<and> hd t = CHR ''#'')"
| "type_sound HighlightDelimiter t = (t \<in> {''='', '','', ''/'', '':''})"
| "type_sound HighlightTable t = (length t < 512)"
| "type_sound HighlightFwMark t = off_or_uint True 4294967295 t"
| "type_sound HighlightSaveConfig t = (t = ''true'' \<or> t = ''false'')"
| "type_sound HighlightCmd t = (t \<noteq> [])"
| "type_sound HighlightError t = True"
| "type_sound HighlightEnd t = True"

definition span_sound :: "cmem \<Rightarrow> highlight_span \<Rightarrow> bool" where
  "span_sound m x = type_sound (hs_type x) (span_text m x)"

section \<open>Good arrays\<close>

text \<open>
  \<open>good m ne a lo\<close>: the array holds well-formed, soundly classified spans that end at or
  before \<open>lo\<close>; with \<open>ne\<close> it is not empty. The bound on \<open>lo\<close> keeps the capacity far from
  the overflow of \<open>size_t\<close>.
\<close>

definition good :: "cmem \<Rightarrow> bool \<Rightarrow> highlight_span_array \<Rightarrow> nat \<Rightarrow> bool" where
  "good m ne a lo \<longleftrightarrow> lo \<le> 2 ^ 32 \<and>
     (\<exists>xs. arr a xs \<and> spans_wf 0 lo xs \<and> (\<forall>x\<in>set xs. span_sound m x) \<and> (ne \<longrightarrow> xs \<noteq> []))"

abbreviation mem_ok :: "nat \<Rightarrow> bool" where
  "mem_ok \<equiv> \<lambda>_. True"

lemma goodI:
  "arr a xs \<Longrightarrow> spans_wf 0 lo xs \<Longrightarrow> \<forall>x\<in>set xs. span_sound m x \<Longrightarrow> (ne \<longrightarrow> xs \<noteq> []) \<Longrightarrow>
     lo \<le> 2 ^ 32 \<Longrightarrow> good m ne a lo"
  unfolding good_def by blast

lemma good_mono: "good m ne a lo \<Longrightarrow> lo \<le> lo' \<Longrightarrow> lo' \<le> 2 ^ 32 \<Longrightarrow> (ne' \<longrightarrow> ne) \<Longrightarrow> good m ne' a lo'"
  unfolding good_def by (blast intro: spans_wf_mono [OF _ order_refl])

lemma good_zero: "good m False zero_array 0"
  unfolding good_def by (intro conjI exI [of _ "[]"]) simp_all

lemma good_emit:
  assumes "good m ne a lo" "lo \<le> sp_s s" "sp_s s + sp_len s \<le> 2 ^ 32"
    and "sp_len s \<noteq> 0 \<Longrightarrow> t \<noteq> HighlightEnd \<and> type_sound t (span_str m s)"
  shows "\<exists>a'. emit mem_ok a 0 s t = Some a' \<and> good m (ne \<or> sp_len s \<noteq> 0) a' (sp_s s + sp_len s)"
proof (cases "sp_len s = 0")
  case True
  then show ?thesis
    using assms(1-3) by (auto simp: emit_def intro: good_mono)
next
  case False
  from assms(1) obtain xs where xs: "arr a xs" "spans_wf 0 lo xs" "\<forall>x\<in>set xs. span_sound m x"
    by (auto simp: good_def)
  let ?x = "\<lparr>hs_type = t, hs_start = sp_s s - 0, hs_len = sp_len s\<rparr>"
  have "length xs \<le> 2 ^ 33" using spans_wf_le [OF xs(2)] assms(2,3) by simp
  from append_highlight_span_arr [OF xs(1) this, of mem_ok s 0 t] False
  obtain a' where a': "append_highlight_span mem_ok a 0 s t = Some (True, a')" "arr a' (xs @ [?x])"
    by auto
  have "spans_wf 0 (sp_s s + sp_len s) (xs @ [?x])"
    using xs(2) assms(2,4) False by (intro spans_wf_append [of _ lo]) auto
  moreover have "span_sound m ?x"
    using assms(4) False by (simp add: span_sound_def span_text_def span_str_def)
  ultimately have "good m (ne \<or> sp_len s \<noteq> 0) a' (sp_s s + sp_len s)"
    using xs(3) assms(3) by (intro goodI [OF a'(2)]) auto
  then show ?thesis using a'(1) by (simp add: emit_def)
qed

text \<open>The same for a bound behind the span.\<close>

lemma good_emit_le:
  assumes "good m ne a lo" "lo \<le> sp_s s" "sp_s s + sp_len s \<le> hi" "hi \<le> 2 ^ 32"
    and "sp_len s \<noteq> 0 \<Longrightarrow> t \<noteq> HighlightEnd \<and> type_sound t (span_str m s)"
  shows "\<exists>a'. emit mem_ok a 0 s t = Some a' \<and> good m ne a' hi"
proof -
  have le: "sp_s s + sp_len s \<le> 2 ^ 32" using assms(3,4) by simp
  from good_emit [OF assms(1,2) le assms(5)]
  obtain a' where a': "emit mem_ok a 0 s t = Some a'" "good m (ne \<or> sp_len s \<noteq> 0) a' (sp_s s + sp_len s)"
    by blast
  from good_mono [OF a'(2) assms(3,4), of ne] a'(1) show ?thesis by simp
qed

lemma good_mark:
  assumes "good m True a lo"
  shows "\<exists>a'. mark_trailing_delimiter a = Some a' \<and> good m True a' lo"
proof -
  from assms obtain xs where xs: "arr a xs" "spans_wf 0 lo xs" "\<forall>x\<in>set xs. span_sound m x" "xs \<noteq> []"
    by (auto simp: good_def)
  then have sp: "a_spans a = Some xs" "a_len a = length xs"
    by (auto simp: arr_def split: option.splits)
  show ?thesis
  proof (cases "hs_type (last xs) = HighlightDelimiter")
    case True
    let ?ys = "butlast xs @ [(last xs)\<lparr>hs_type := HighlightError\<rparr>]"
    have upd: "xs[length xs - 1 := (xs ! (length xs - 1))\<lparr>hs_type := HighlightError\<rparr>] = ?ys"
      using xs(4) by (metis last_conv_nth last_list_update list_update_append1 append_butlast_last_id
          length_butlast list_update_length)
    have "good m True (a\<lparr>a_spans := Some ?ys\<rparr>) lo"
    proof (rule goodI)
      show "spans_wf 0 lo ?ys"
        using xs(2,4) by (intro spans_wf_update_last) auto
      show "\<forall>x\<in>set ?ys. span_sound m x"
        using xs(3) by (auto simp: span_sound_def dest: in_set_butlastD)
      show "arr (a\<lparr>a_spans := Some ?ys\<rparr>) ?ys"
        using xs(1,4) sp by (auto simp: arr_def)
      show "lo \<le> 2 ^ 32" using assms by (simp add: good_def)
    qed simp
    moreover have "mark_trailing_delimiter a = Some (a\<lparr>a_spans := Some ?ys\<rparr>)"
      using True sp xs(4) upd by (simp add: mark_trailing_delimiter_def last_conv_nth Let_def)
    ultimately show ?thesis by blast
  next
    case False
    then show ?thesis
      using assms sp xs(4) by (simp add: mark_trailing_delimiter_def last_conv_nth Let_def)
  qed
qed

section \<open>The contract of a value emitter\<close>

locale emitter =
  fixes E :: "cmem \<Rightarrow> highlight_span_array \<Rightarrow> string_span_t \<Rightarrow> highlight_span_array option"
    and ne :: bool
  assumes keeps_good:
    "good m ne a lo \<Longrightarrow> lo \<le> sp_s s \<Longrightarrow> span_ok m s \<Longrightarrow> span_next m s \<noteq> CHR '':'' \<Longrightarrow>
       length m \<le> 2 ^ 32 \<Longrightarrow> \<exists>a'. E m a s = Some a' \<and> good m ne a' (sp_s s + sp_len s)"
begin

lemma no_bad_access:
  "good m ne a lo \<Longrightarrow> lo \<le> sp_s s \<Longrightarrow> span_ok m s \<Longrightarrow> span_next m s \<noteq> CHR '':'' \<Longrightarrow>
     length m \<le> 2 ^ 32 \<Longrightarrow> E m a s \<noteq> None"
  using keeps_good by fastforce

text \<open>A value followed by a one-character separator further right.\<close>

lemma then_separator:
  assumes "good m ne a lo" "lo \<le> sp_s s" "span_ok m s" "span_next m s \<noteq> CHR '':''" "length m \<le> 2 ^ 32"
    and "sp_s s + sp_len s \<le> k" "k < length m" "[m ! k] \<in> {''='', '','', ''/'', '':''}"
  shows "\<exists>a' a''. E m a s = Some a' \<and> emit mem_ok a' 0 \<lparr>sp_s = k, sp_len = 1\<rparr> HighlightDelimiter = Some a''
     \<and> good m True a'' (k + 1)"
proof -
  from keeps_good [OF assms(1-5)] obtain a' where a': "E m a s = Some a'" "good m ne a' (sp_s s + sp_len s)"
    by blast
  have "span_str m \<lparr>sp_s = k, sp_len = 1\<rparr> = [m ! k]"
    using assms(7) by (simp add: span_str_def take_Suc hd_drop_conv_nth)
  then show ?thesis
    using a' good_emit [OF a'(2), of "\<lparr>sp_s = k, sp_len = 1\<rparr>" HighlightDelimiter] assms(5-8) by simp
qed

end

section \<open>Values with one span\<close>

lemma good_checked:
  assumes "good m ne a lo" "lo \<le> sp_s s" "span_ok m s" "length m \<le> 2 ^ 32"
    and "check = Some b" "b \<Longrightarrow> type_sound t (span_str m s)" "t \<noteq> HighlightEnd"
  shows "\<exists>a'. highlight_checked mem_ok a \<lparr>sp_s = 0, sp_len = n\<rparr> s check t = Some a' \<and>
     good m ne a' (sp_s s + sp_len s)"
  unfolding highlight_checked_def assms(5) bind.simps string_span_t.simps
  by (rule good_emit_le [OF assms(1,2) order_refl])
    (use assms in \<open>auto simp: span_ok_def split: if_splits\<close>)

section \<open>Comma-separated values\<close>

lemma network_text_parts:
  assumes "network_text t" "CHR ''/'' \<in> set t"
  shows "ipv4_text (take (index_of CHR ''/'' t) t) \<or> ipv6_text (take (index_of CHR ''/'' t) t)"
    and "cidr_text 128 (drop (index_of CHR ''/'' t + 1) t)"
  using assms by (auto simp: network_text_def cidr_text_def Let_def split: if_splits)

lemma good_network:
  assumes "good m ne a lo" "lo \<le> sp_s s" and ok: "span_ok m s" and len: "length m \<le> 2 ^ 32"
    and net: "network_text (span_str m s)" and slash: "CHR ''/'' \<in> set (span_str m s)"
  defines "k \<equiv> index_of CHR ''/'' (span_str m s)"
  shows "\<exists>a'. do {
      ret \<leftarrow> emit mem_ok a 0 \<lparr>sp_s = sp_s s, sp_len = k\<rparr> HighlightIP;
      ret \<leftarrow> emit mem_ok ret 0 \<lparr>sp_s = sp_s s + k, sp_len = 1\<rparr> HighlightDelimiter;
      emit mem_ok ret 0 \<lparr>sp_s = sp_s s + k + 1, sp_len = sp_len s - k - 1\<rparr> HighlightCidr } = Some a' \<and>
    good m ne a' (sp_s s + sp_len s)"
proof -
  let ?t = "span_str m s"
  have k: "k < sp_len s" "?t ! k = CHR ''/''"
    using index_of_less [OF slash] nth_index_of [OF slash] ok by (auto simp: k_def length_span_str)
  have bound: "sp_s s + sp_len s \<le> 2 ^ 32" using ok len by (simp add: span_ok_def)
  have s1: "span_str m \<lparr>sp_s = sp_s s, sp_len = k\<rparr> = take k ?t"
    using sub_span_str [OF ok, of 0 k] k by simp
  have s2: "span_str m \<lparr>sp_s = sp_s s + k, sp_len = 1\<rparr> = ''/''"
    using sub_span_str [OF ok, of k 1] k length_span_str [OF ok] by (simp add: take_Suc hd_drop_conv_nth)
  have s3: "span_str m \<lparr>sp_s = sp_s s + k + 1, sp_len = sp_len s - k - 1\<rparr> = drop (k + 1) ?t"
    using sub_span_str [OF ok, of "k + 1" "sp_len s - k - 1"] k length_span_str [OF ok]
    by (simp add: add.assoc)
  note parts = network_text_parts [OF net slash, folded k_def]
  from good_emit_le [OF assms(1), of "\<lparr>sp_s = sp_s s, sp_len = k\<rparr>" "sp_s s + k" HighlightIP]
  obtain a1 where a1: "emit mem_ok a 0 \<lparr>sp_s = sp_s s, sp_len = k\<rparr> HighlightIP = Some a1"
    "good m ne a1 (sp_s s + k)"
    using assms(2) bound k s1 parts by auto
  from good_emit_le [OF a1(2), of "\<lparr>sp_s = sp_s s + k, sp_len = 1\<rparr>" "sp_s s + k + 1" HighlightDelimiter]
  obtain a2 where a2: "emit mem_ok a1 0 \<lparr>sp_s = sp_s s + k, sp_len = 1\<rparr> HighlightDelimiter = Some a2"
    "good m ne a2 (sp_s s + k + 1)"
    using bound k s2 by auto
  from good_emit_le [OF a2(2), of "\<lparr>sp_s = sp_s s + k + 1, sp_len = sp_len s - k - 1\<rparr>" "sp_s s + sp_len s" HighlightCidr]
  obtain a3 where "emit mem_ok a2 0 \<lparr>sp_s = sp_s s + k + 1, sp_len = sp_len s - k - 1\<rparr> HighlightCidr = Some a3"
    "good m ne a3 (sp_s s + sp_len s)"
    using bound k s3 parts by auto
  then show ?thesis using a1 a2 by simp
qed

lemma good_multivalue_value:
  assumes "good m ne a lo" "lo \<le> sp_s s" and ok: "span_ok m s" and nx: "span_next m s \<noteq> CHR '':''"
    and len: "length m \<le> 2 ^ 32"
  shows "\<exists>a'. highlight_multivalue_value mem_ok m a \<lparr>sp_s = 0, sp_len = n\<rparr> s section = Some a' \<and>
     good m ne a' (sp_s s + sp_len s)"
proof -
  let ?t = "span_str m s"
  have bound: "sp_s s + sp_len s \<le> 2 ^ 32" using ok len by (simp add: span_ok_def)
  have one: "\<exists>a'. emit mem_ok a 0 s t = Some a' \<and> good m ne a' (sp_s s + sp_len s)"
    if "t \<noteq> HighlightEnd" "type_sound t ?t" for t
    by (rule good_emit_le [OF assms(1,2) order_refl bound]) (use that in auto)
  consider (dns) "section = DNS" | (net) "section = Address \<or> section = AllowedIPs"
    | (other) "section \<noteq> DNS" "section \<noteq> Address" "section \<noteq> AllowedIPs" by blast
  then show ?thesis
  proof cases
    case dns
    then show ?thesis
      using ok nx one [of HighlightIP] one [of HighlightHost] one [of HighlightError]
      by (auto simp: highlight_multivalue_value_def ipv4.refines ipv6.refines hostname.refines endpoint_host_def)
  next
    case net
    then have [simp]: "section \<noteq> DNS" by auto
    show ?thesis
    proof (cases "network_text ?t \<and> CHR ''/'' \<in> set ?t")
      case True
      then have "index_of CHR ''/'' ?t \<noteq> sp_len s"
        using index_of_less [of "CHR ''/''" ?t] length_span_str [OF ok] by simp
      with True net show ?thesis
        using good_network [OF assms(1,2) ok len] ok nx
        by (auto simp: highlight_multivalue_value_def network.refines c_for_search)
    next
      case False
      have "network_text ?t \<Longrightarrow> CHR ''/'' \<notin> set ?t \<Longrightarrow> type_sound HighlightIP ?t"
        by (simp add: network_text_def)
      with False net show ?thesis
        using one [of HighlightIP] one [of HighlightError] ok nx
        by (auto simp: highlight_multivalue_value_def network.refines c_for_search)
    qed
  next
    case other
    then show ?thesis
      using one [of HighlightError] by (simp add: highlight_multivalue_value_def)
  qed
qed

interpretation one_value: emitter
    "\<lambda>m a s. highlight_multivalue_value mem_ok m a \<lparr>sp_s = 0, sp_len = n\<rparr> s section" ne for n "section" ne
  by unfold_locales (rule good_multivalue_value)

text \<open>
  The token tracked by the two character loops: it starts at \<open>sp_s sp\<close>, reaches up to the
  current position \<open>pos\<close>, and everything behind its first \<open>lst\<close> characters is blank.
\<close>

definition blank :: "char \<Rightarrow> bool" where
  "blank c \<longleftrightarrow> c = CHR '' '' \<or> c = CHR 0x09"

definition token_at :: "cmem \<Rightarrow> string_span_t \<Rightarrow> nat \<Rightarrow> nat \<Rightarrow> bool" where
  "token_at m sp lst pos \<longleftrightarrow> sp_s sp + sp_len sp = pos \<and> lst \<le> sp_len sp \<and>
     (\<forall>k. lst \<le> k \<and> k < sp_len sp \<longrightarrow> blank (m ! (sp_s sp + k)))"

lemma token_span:
  assumes "token_at m sp lst pos" "pos < length m"
  shows "span_ok m (sp\<lparr>sp_len := lst\<rparr>)" "sp_s sp + lst \<le> pos"
    and "m ! pos \<noteq> CHR '':'' \<Longrightarrow> span_next m (sp\<lparr>sp_len := lst\<rparr>) \<noteq> CHR '':''"
proof -
  show "span_ok m (sp\<lparr>sp_len := lst\<rparr>)" "sp_s sp + lst \<le> pos"
    using assms by (auto simp: token_at_def span_ok_def)
  show "span_next m (sp\<lparr>sp_len := lst\<rparr>) \<noteq> CHR '':''" if "m ! pos \<noteq> CHR '':''"
  proof (cases "lst = sp_len sp")
    case True
    then show ?thesis using assms(1) that by (simp add: token_at_def span_next_def)
  next
    case False
    then have "blank (m ! (sp_s sp + lst))" using assms(1) by (auto simp: token_at_def)
    then show ?thesis by (auto simp: span_next_def blank_def)
  qed
qed

lemma token_skip: "sp_len sp = 0 \<Longrightarrow> token_at m sp 0 pos \<Longrightarrow> token_at m (sp\<lparr>sp_s := sp_s sp + 1\<rparr>) 0 (Suc pos)"
  by (simp add: token_at_def)

lemma token_blank:
  "token_at m sp lst pos \<Longrightarrow> blank (m ! pos) \<Longrightarrow> token_at m (sp\<lparr>sp_len := sp_len sp + 1\<rparr>) lst (Suc pos)"
  by (auto simp: token_at_def less_Suc_eq)

lemma token_grow: "sp_s sp + sp_len sp = pos \<Longrightarrow>
    token_at m (sp\<lparr>sp_len := sp_len sp + 1\<rparr>) (sp_len sp + 1) (Suc pos)"
  by (auto simp: token_at_def)

definition multi_inv :: "cmem \<Rightarrow> string_span_t \<Rightarrow> nat \<Rightarrow> multi_state \<Rightarrow> bool" where
  "multi_inv m s i st \<longleftrightarrow> good m True (mv_ret st) (sp_s (mv_span st)) \<and>
     sp_s s \<le> sp_s (mv_span st) \<and> token_at m (mv_span st) (mv_last st) (sp_s s + i) \<and>
     (sp_len (mv_span st) = 0 \<longrightarrow> mv_last st = 0)"

lemma multivalue_step_separator:
  assumes inv: "multi_inv m s i st" and len: "length m \<le> 2 ^ 32"
    and pos: "sp_s s + i < length m" "at m s i = Some (m ! (sp_s s + i))" and sep: "m ! (sp_s s + i) = CHR '',''"
  shows "\<exists>st'. multivalue_step mem_ok m \<lparr>sp_s = 0, sp_len = n\<rparr> s section st i = Some (Inr st') \<and>
     multi_inv m s (Suc i) st'"
proof -
  let ?pos = "sp_s s + i" and ?cur = "(mv_span st)\<lparr>sp_len := mv_last st\<rparr>"
  note inv' = inv [unfolded multi_inv_def]
  have tok: "span_ok m ?cur" "sp_s (mv_span st) + mv_last st \<le> ?pos" "span_next m ?cur \<noteq> CHR '':''"
    using token_span [of m "mv_span st" "mv_last st" ?pos] inv' pos sep by auto
  from one_value.then_separator [of m True "mv_ret st" "sp_s (mv_span st)" ?cur ?pos n "section"]
  obtain a' a'' where
    "highlight_multivalue_value mem_ok m (mv_ret st) \<lparr>sp_s = 0, sp_len = n\<rparr> ?cur section = Some a'"
    "emit mem_ok a' 0 \<lparr>sp_s = ?pos, sp_len = 1\<rparr> HighlightDelimiter = Some a''"
    "good m True a'' (?pos + 1)"
    using inv' tok len pos sep by auto
  then show ?thesis
    using sep pos inv' by (simp add: multivalue_step_def multi_inv_def token_at_def)
qed

lemma multivalue_step_inv:
  assumes inv: "multi_inv m s i st" and i: "i < sp_len s" and ok: "span_ok m s" and len: "length m \<le> 2 ^ 32"
  shows "\<exists>st'. multivalue_step mem_ok m \<lparr>sp_s = 0, sp_len = n\<rparr> s section st i = Some (Inr st') \<and>
     multi_inv m s (Suc i) st'"
proof -
  let ?pos = "sp_s s + i"
  have pos: "?pos < length m" "at m s i = Some (m ! ?pos)"
    using i ok by (auto simp: span_ok_def at_def)
  note inv' = inv [unfolded multi_inv_def]
  have eq: "sp_s (mv_span st) + sp_len (mv_span st) = ?pos" and g: "good m True (mv_ret st) (sp_s (mv_span st))"
    using inv' by (auto simp: token_at_def)
  consider (sep) "m ! ?pos = CHR '',''" | (blnk) "blank (m ! ?pos)" "m ! ?pos \<noteq> CHR '',''"
    | (other) "m ! ?pos \<noteq> CHR '',''" "\<not> blank (m ! ?pos)" by blast
  then show ?thesis
  proof cases
    case sep
    then show ?thesis by (rule multivalue_step_separator [OF inv len pos])
  next
    case blnk
    have c: "m ! ?pos \<noteq> CHR '',''" "m ! ?pos = CHR '' '' \<or> m ! ?pos = CHR 0x09"
      using blnk by (auto simp: blank_def)
    show ?thesis
    proof (cases "sp_len (mv_span st) = 0")
      case True
      have "good m True (mv_ret st) (sp_s (mv_span st) + 1)"
        by (rule good_mono [OF g]) (use True eq pos len in auto)
      moreover have "token_at m ((mv_span st)\<lparr>sp_s := sp_s (mv_span st) + 1\<rparr>) 0 (Suc ?pos)"
        using True inv' by (intro token_skip) auto
      ultimately show ?thesis
        using True c pos eq inv' by (simp add: multivalue_step_def multi_inv_def)
    next
      case False
      have "token_at m ((mv_span st)\<lparr>sp_len := sp_len (mv_span st) + 1\<rparr>) (mv_last st) (Suc ?pos)"
        using blnk inv' by (intro token_blank) auto
      with False show ?thesis
        using c pos g inv' by (simp add: multivalue_step_def multi_inv_def)
    qed
  next
    case other
    have c: "m ! ?pos \<noteq> CHR '',''" "\<not> (m ! ?pos = CHR '' '' \<or> m ! ?pos = CHR 0x09)"
      using other by (auto simp: blank_def)
    then show ?thesis
      using pos g inv' token_grow [OF eq, of m] by (simp add: multivalue_step_def multi_inv_def)
  qed
qed

lemma good_multivalue:
  assumes "good m True a lo" "lo \<le> sp_s s" and ok: "span_ok m s" and nx: "span_next m s \<noteq> CHR '':''"
    and len: "length m \<le> 2 ^ 32"
  shows "\<exists>a'. highlight_multivalue mem_ok m a \<lparr>sp_s = 0, sp_len = n\<rparr> s section = Some a' \<and>
     good m True a' (sp_s s + sp_len s)"
proof -
  let ?st0 = "\<lparr>mv_ret = a, mv_span = \<lparr>sp_s = sp_s s, sp_len = 0\<rparr>, mv_last = 0\<rparr>"
  have bound: "sp_s s + sp_len s \<le> 2 ^ 32" "sp_s s + sp_len s < length m"
    using ok len by (auto simp: span_ok_def)
  have "multi_inv m s 0 ?st0"
    using assms(1,2) bound by (auto simp: multi_inv_def token_at_def intro: good_mono)
  then have "\<exists>st. c_for (multivalue_step mem_ok m \<lparr>sp_s = 0, sp_len = n\<rparr> s section) ?st0 [0..<sp_len s] =
      Some (Inr st) \<and> multi_inv m s (sp_len s) st"
    by (rule c_for_upt_invariant) (rule multivalue_step_inv [OF _ _ ok len])
  then obtain st where st: "c_for (multivalue_step mem_ok m \<lparr>sp_s = 0, sp_len = n\<rparr> s section) ?st0 [0..<sp_len s] = Some (Inr st)"
    "multi_inv m s (sp_len s) st"
    by blast
  let ?cur = "(mv_span st)\<lparr>sp_len := mv_last st\<rparr>"
  have tok: "span_ok m ?cur" "sp_s (mv_span st) + mv_last st \<le> sp_s s + sp_len s" "span_next m ?cur \<noteq> CHR '':''"
    using token_span [of m "mv_span st" "mv_last st" "sp_s s + sp_len s"] st(2) bound nx
    by (auto simp: multi_inv_def span_next_def)
  have g: "good m True (mv_ret st) (sp_s (mv_span st))" using st(2) by (simp add: multi_inv_def)
  show ?thesis
  proof (cases "mv_last st = 0")
    case True
    then have "good m True (mv_ret st) (sp_s s + sp_len s)"
      using tok bound by (intro good_mono [OF g]) auto
    with True show ?thesis
      using st(1) by (simp add: highlight_multivalue_def good_mark)
  next
    case False
    from one_value.keeps_good [OF g, of ?cur n "section"] tok len
    obtain a' where "highlight_multivalue_value mem_ok m (mv_ret st) \<lparr>sp_s = 0, sp_len = n\<rparr> ?cur section = Some a'"
      "good m True a' (sp_s (mv_span st) + mv_last st)" by auto
    then show ?thesis
      using False st(1) tok(2) bound by (auto simp: highlight_multivalue_def intro: good_mono)
  qed
qed

interpretation multivalue: emitter
    "\<lambda>m a s. highlight_multivalue mem_ok m a \<lparr>sp_s = 0, sp_len = n\<rparr> s section" True for n "section"
  by unfold_locales (rule good_multivalue)

section \<open>Endpoints\<close>

lemma search_misses:
  "span_ok m s \<Longrightarrow> \<forall>i\<in>set is. i < sp_len s \<and> span_str m s ! i \<noteq> x \<Longrightarrow>
     c_for (search_step m s x F) () is = Some (Inr ())"
  by (induction "is") (auto simp: search_step_def at_span_str)

lemma search_from_right:
  assumes ok: "span_ok m s" and t: "span_str m s = h @ x # p" and x: "x \<notin> set p"
  shows "c_for (search_step m s x Some) () (rev [0..<sp_len s]) = Some (Inl (length h))"
proof -
  let ?k = "length h"
  have len: "sp_len s = ?k + Suc (length p)" using t length_span_str [OF ok] by simp
  have "[0..<sp_len s] = [0..<?k] @ ?k # [Suc ?k..<sp_len s]"
    using len by (intro upt_split_at) simp
  then have rev: "rev [0..<sp_len s] = rev [Suc ?k..<sp_len s] @ ?k # rev [0..<?k]" by simp
  have "span_str m s ! i \<noteq> x" if "Suc ?k \<le> i" "i < sp_len s" for i
    using that x len t by (auto simp: nth_append nth_Cons' in_set_conv_nth)
  then have "c_for (search_step m s x Some) () (rev [Suc ?k..<sp_len s]) = Some (Inr ())"
    using ok by (intro search_misses) auto
  moreover have "at m s ?k = Some x" using ok t len by (simp add: at_span_str)
  ultimately show ?thesis
    unfolding rev by (simp add: c_for_append search_step_def)
qed

lemma good_endpoint:
  assumes "good m ne a lo" "lo \<le> sp_s s" and ok: "span_ok m s" and len: "length m \<le> 2 ^ 32"
  shows "\<exists>a'. highlight_endpoint mem_ok m a \<lparr>sp_s = 0, sp_len = n\<rparr> s = Some a' \<and>
     good m ne a' (sp_s s + sp_len s)"
proof (cases "endpoint_text (span_str m s)")
  case False
  have "\<exists>a'. emit mem_ok a 0 s HighlightError = Some a' \<and> good m ne a' (sp_s s + sp_len s)"
    by (rule good_emit_le [OF assms(1,2) order_refl]) (use ok len in \<open>auto simp: span_ok_def\<close>)
  with False show ?thesis
    using ok by (simp add: highlight_endpoint_def endpoint.refines)
next
  case True
  let ?t = "span_str m s"
  from True obtain h p where hp: "?t = h @ CHR '':'' # p" "endpoint_host h" "port_text p"
    by (auto simp: endpoint_text_iff)
  let ?k = "length h"
  have k: "sp_len s = ?k + 1 + length p" using hp(1) length_span_str [OF ok] by simp
  have bound: "sp_s s + sp_len s \<le> 2 ^ 32" using ok len by (simp add: span_ok_def)
  have search: "c_for (search_step m s CHR '':'' Some) () (rev [0..<sp_len s]) = Some (Inl ?k)"
    using search_from_right [OF ok hp(1)] port_text_no_colon [OF hp(3)] by simp
  have s1: "span_str m \<lparr>sp_s = sp_s s, sp_len = ?k\<rparr> = h"
    using sub_span_str [OF ok, of 0 ?k] k hp(1) by simp
  have s2: "span_str m \<lparr>sp_s = sp_s s + ?k, sp_len = 1\<rparr> = '':''"
    using sub_span_str [OF ok, of ?k 1] k hp(1) by simp
  have s3: "span_str m \<lparr>sp_s = sp_s s + ?k + 1, sp_len = sp_len s - ?k - 1\<rparr> = p"
    using sub_span_str [OF ok, of "?k + 1" "length p"] k hp(1) by (simp add: add.assoc)
  from good_emit_le [OF assms(1), of "\<lparr>sp_s = sp_s s, sp_len = ?k\<rparr>" "sp_s s + ?k" HighlightHost]
  obtain a1 where a1: "emit mem_ok a 0 \<lparr>sp_s = sp_s s, sp_len = ?k\<rparr> HighlightHost = Some a1"
    "good m ne a1 (sp_s s + ?k)"
    using assms(2) bound k s1 hp(2) by auto
  from good_emit_le [OF a1(2), of "\<lparr>sp_s = sp_s s + ?k, sp_len = 1\<rparr>" "sp_s s + ?k + 1" HighlightDelimiter]
  obtain a2 where a2: "emit mem_ok a1 0 \<lparr>sp_s = sp_s s + ?k, sp_len = 1\<rparr> HighlightDelimiter = Some a2"
    "good m ne a2 (sp_s s + ?k + 1)"
    using bound k s2 by auto
  from good_emit_le [OF a2(2), of "\<lparr>sp_s = sp_s s + ?k + 1, sp_len = sp_len s - ?k - 1\<rparr>" "sp_s s + sp_len s" HighlightPort]
  obtain a3 where "emit mem_ok a2 0 \<lparr>sp_s = sp_s s + ?k + 1, sp_len = sp_len s - ?k - 1\<rparr> HighlightPort = Some a3"
    "good m ne a3 (sp_s s + sp_len s)"
    using bound k s3 hp(3) by auto
  with a1 a2 show ?thesis
    using True ok search by (simp add: highlight_endpoint_def endpoint.refines)
qed

section \<open>Any value\<close>

lemma good_value:
  assumes "good m True a lo" "lo \<le> sp_s s" and ok: "span_ok m s" and "span_next m s \<noteq> CHR '':''"
    and "length m \<le> 2 ^ 32"
  shows "\<exists>a'. highlight_value mem_ok m a \<lparr>sp_s = 0, sp_len = n\<rparr> s f = Some a' \<and>
     good m True a' (sp_s s + sp_len s)"
proof -
  have one: "\<exists>a'. emit mem_ok a 0 s HighlightError = Some a' \<and> good m True a' (sp_s s + sp_len s)"
    by (rule good_emit_le [OF assms(1,2) order_refl]) (use ok assms(5) in \<open>auto simp: span_ok_def\<close>)
  note checked = good_checked [OF assms(1,2) ok assms(5)]
  show ?thesis
    by (cases f)
      (use assms one in \<open>auto intro!: good_multivalue good_endpoint
        checked [OF key.refines] checked [OF mtu.refines] checked [OF saveconfig.refines]
        checked [OF fwmark.refines] checked [OF table.refines] checked [OF cmdline.refines]
        checked [OF port.refines] checked [OF keepalive.refines]\<close>)
qed

interpretation any_value: emitter "\<lambda>m a s. highlight_value mem_ok m a \<lparr>sp_s = 0, sp_len = n\<rparr> s f" True for n f
  by unfold_locales (rule good_value)

end
