(* ===== verification/Highlight_Config.thy ===== *)
theory Highlight_Config
  imports Highlight_Safety
begin

text \<open>
  The character loop of \<open>highlight_config\<close>: its invariant, and the theorem that the whole
  highlighter returns a well-formed, soundly classified span list closed by \<open>HighlightEnd\<close>.
\<close>

section \<open>Names\<close>

fun lookup_name :: "string \<Rightarrow> (string \<times> field) list \<Rightarrow> field" where
  "lookup_name t [] = Invalid"
| "lookup_name t ((nm, f) # rest) = (if same_caseless t nm then f else lookup_name t rest)"

lemma check_enums_eq: "span_ok m s \<Longrightarrow> check_enums m s ts = Some (lookup_name (span_str m s) ts)"
  by (induction ts) (auto simp: caseless.refines)

lemma lookup_name_sound:
  "lookup_name t ts \<noteq> Invalid \<Longrightarrow> \<exists>(nm, f) \<in> set ts. same_caseless t nm"
  by (induction ts) (auto split: if_splits)

lemma same_caseless_upper: "same_caseless t c \<longleftrightarrow> map ascii_upper t = map ascii_upper c"
  by (simp add: same_caseless_def fold_case_upper cong: map_cong)

text \<open>A table whose names differ and whose entries are not \<open>Invalid\<close> is searched exactly.\<close>

lemma lookup_name_exact:
  assumes "distinct (map (\<lambda>(nm, f). map ascii_upper nm) ts)" "Invalid \<notin> snd ` set ts"
  shows "lookup_name t ts = f \<longleftrightarrow>
    (if f = Invalid then \<forall>(nm, g)\<in>set ts. map ascii_upper t \<noteq> map ascii_upper nm
     else \<exists>nm. (nm, f) \<in> set ts \<and> map ascii_upper t = map ascii_upper nm)"
  using assms
proof (induction ts)
  case (Cons e ts)
  obtain nm g where e: "e = (nm, g)" by (cases e)
  have g: "g \<noteq> Invalid" and new: "\<And>nm' h. (nm', h) \<in> set ts \<Longrightarrow> map ascii_upper nm' \<noteq> map ascii_upper nm"
    using Cons.prems by (auto simp: e image_iff split: prod.splits)
  show ?case
  proof (cases "same_caseless t nm")
    case True
    then have "map ascii_upper t = map ascii_upper nm" by (simp add: same_caseless_upper)
    moreover have "f = g \<longleftrightarrow> (\<exists>nm'. (nm', f) \<in> set (e # ts) \<and> map ascii_upper nm = map ascii_upper nm')"
      using new by (metis e list.set_intros(1) prod.inject set_ConsD)
    ultimately show ?thesis using True g by (auto simp: e simp del: map_map)
  next
    case False
    then have "map ascii_upper t \<noteq> map ascii_upper nm" by (simp add: same_caseless_upper)
    then show ?thesis using False Cons by (auto simp: e)
  qed
qed simp

lemma lookup_field_names:
  "lookup_name t field_names = f \<longleftrightarrow>
    (if f = Invalid then \<forall>(nm, g)\<in>set field_names. map ascii_upper t \<noteq> map ascii_upper nm
     else \<exists>nm. (nm, f) \<in> set field_names \<and> map ascii_upper t = map ascii_upper nm)"
proof (rule lookup_name_exact)
  show "distinct (map (\<lambda>(nm, f). map ascii_upper nm) field_names)" by code_simp
  show "Invalid \<notin> snd ` set field_names" by code_simp
qed

section \<open>The loop invariant\<close>

definition hl_inv :: "cmem \<Rightarrow> nat \<Rightarrow> hl_state \<Rightarrow> bool" where
  "hl_inv m i st \<longleftrightarrow> sp_s (hl_span st) + sp_len (hl_span st) = i \<and>
     (case hl_mode st of
        OnNone \<Rightarrow> good m False (hl_ret st) (sp_s (hl_span st)) \<and> sp_len (hl_span st) = 0
      | OnComment \<Rightarrow> good m False (hl_ret st) (sp_s (hl_span st)) \<and> 0 < sp_len (hl_span st) \<and>
          m ! sp_s (hl_span st) = CHR ''#''
      | OnValue \<Rightarrow> good m False (hl_ret st) (hl_equals st) \<and> hl_equals st < sp_s (hl_span st) \<and>
          m ! hl_equals st = CHR ''='' \<and>
          (sp_len (hl_span st) = 0 \<or> token_at m (hl_span st) (hl_last st) i)
      | _ \<Rightarrow> good m False (hl_ret st) (sp_s (hl_span st)) \<and> token_at m (hl_span st) (hl_last st) i)"

lemma single_span_str: "k < length m \<Longrightarrow> span_str m \<lparr>sp_s = k, sp_len = 1\<rparr> = [m ! k]"
  by (simp add: span_str_def take_Suc hd_drop_conv_nth)

lemma good_cur:
  assumes "good m False a (sp_s sp)" "token_at m sp lst i" "i < length m" "length m \<le> 2 ^ 32"
    and "t \<noteq> HighlightEnd" "type_sound t (span_str m (sp\<lparr>sp_len := lst\<rparr>))"
  shows "\<exists>a'. emit mem_ok a 0 (sp\<lparr>sp_len := lst\<rparr>) t = Some a' \<and> good m False a' i"
  by (rule good_emit_le [OF assms(1)]) (use assms token_span(2) [OF assms(2,3)] in auto)

lemma flush_key:
  assumes inv: "hl_inv m i st" and i: "i < length m" and len: "length m \<le> 2 ^ 32" and "hl_mode st = OnKey"
  shows "\<exists>st'. flush_token mem_ok m \<lparr>sp_s = 0, sp_len = n\<rparr> st = Some st' \<and> good m False (hl_ret st') i"
  using good_cur [of m "hl_ret st" "hl_span st" "hl_last st" i HighlightError] assms
  by (auto simp: hl_inv_def flush_token_def Let_def)

lemma flush_section:
  assumes inv: "hl_inv m i st" and i: "i < length m" and len: "length m \<le> 2 ^ 32" and mode: "hl_mode st = OnSection"
  shows "\<exists>st'. flush_token mem_ok m \<lparr>sp_s = 0, sp_len = n\<rparr> st = Some st' \<and> good m False (hl_ret st') i"
proof -
  let ?cur = "(hl_span st)\<lparr>sp_len := hl_last st\<rparr>"
  let ?sec = "lookup_name (span_str m ?cur) [(''[Peer]'', PeerSection), (''[Interface]'', InterfaceSection)]"
  have tok: "token_at m (hl_span st) (hl_last st) i" and g: "good m False (hl_ret st) (sp_s (hl_span st))"
    using inv mode by (auto simp: hl_inv_def)
  have sec: "get_sectiontype m ?cur = Some ?sec"
    unfolding get_sectiontype_def by (rule check_enums_eq [OF token_span(1) [OF tok i]])
  have "\<exists>a'. emit mem_ok (hl_ret st) 0 ?cur (if ?sec = Invalid then HighlightError else HighlightSection) = Some a'
      \<and> good m False a' i"
    by (rule good_cur [OF g tok i len]) auto
  then show ?thesis
    using mode sec by (auto simp: flush_token_def Let_def simp del: lookup_name.simps)
qed

lemma flush_comment:
  assumes inv: "hl_inv m i st" and i: "i < length m" and len: "length m \<le> 2 ^ 32" and mode: "hl_mode st = OnComment"
  shows "\<exists>st'. flush_token mem_ok m \<lparr>sp_s = 0, sp_len = n\<rparr> st = Some st' \<and> good m False (hl_ret st') i"
proof -
  let ?sp = "hl_span st"
  have sp: "sp_s ?sp + sp_len ?sp = i" "0 < sp_len ?sp" "m ! sp_s ?sp = CHR ''#''"
    "good m False (hl_ret st) (sp_s ?sp)"
    using inv mode by (auto simp: hl_inv_def)
  have "hd (span_str m ?sp) = m ! sp_s ?sp" "span_str m ?sp \<noteq> []"
    using sp i by (auto simp: span_str_def hd_drop_conv_nth)
  then have "\<exists>a'. emit mem_ok (hl_ret st) 0 ?sp HighlightComment = Some a' \<and> good m False a' i"
    using sp i len by (intro good_emit_le [OF sp(4)]) auto
  then show ?thesis
    using mode by (auto simp: flush_token_def Let_def)
qed

lemma flush_value:
  assumes inv: "hl_inv m i st" and i: "i < length m" and len: "length m \<le> 2 ^ 32" and mode: "hl_mode st = OnValue"
    and nx: "m ! i \<noteq> CHR '':''"
  shows "\<exists>st'. flush_token mem_ok m \<lparr>sp_s = 0, sp_len = n\<rparr> st = Some st' \<and> good m False (hl_ret st') i"
proof -
  let ?e = "hl_equals st" and ?sp = "hl_span st"
  let ?eq = "\<lparr>sp_s = ?e, sp_len = 1\<rparr>" and ?cur = "?sp\<lparr>sp_len := hl_last st\<rparr>"
  have sp: "sp_s ?sp + sp_len ?sp = i" "?e < sp_s ?sp" "m ! ?e = CHR ''=''" "good m False (hl_ret st) ?e"
    using inv mode by (auto simp: hl_inv_def)
  have str: "span_str m ?eq = ''=''"
    using sp i by (subst single_span_str) auto
  show ?thesis
  proof (cases "sp_len ?sp = 0")
    case True
    have "\<exists>a'. emit mem_ok (hl_ret st) 0 ?eq HighlightError = Some a' \<and> good m False a' i"
      using sp i len by (intro good_emit_le [OF sp(4)]) auto
    with True show ?thesis using mode by (auto simp: flush_token_def Let_def)
  next
    case False
    then have tok: "token_at m ?sp (hl_last st) i" using inv mode by (auto simp: hl_inv_def)
    note ts = token_span [OF tok i]
    obtain a1 where a1: "emit mem_ok (hl_ret st) 0 ?eq HighlightDelimiter = Some a1" "good m True a1 (?e + 1)"
      using good_emit [OF sp(4), of ?eq HighlightDelimiter] str sp i len by auto
    from any_value.keeps_good [OF a1(2), of ?cur n "hl_field st"] ts nx sp len
    obtain a2 where a2: "highlight_value mem_ok m a1 \<lparr>sp_s = 0, sp_len = n\<rparr> ?cur (hl_field st) = Some a2"
      "good m True a2 (sp_s ?sp + hl_last st)" by auto
    have "good m False a2 i" by (rule good_mono [OF a2(2)]) (use ts i len in auto)
    with a1 a2 False show ?thesis
      using mode by (auto simp: flush_token_def Let_def)
  qed
qed

lemma flush_good:
  assumes "hl_inv m i st" "i < length m" "length m \<le> 2 ^ 32" "m ! i \<noteq> CHR '':''"
  shows "\<exists>st'. flush_token mem_ok m \<lparr>sp_s = 0, sp_len = n\<rparr> st = Some st' \<and> good m False (hl_ret st') i"
proof (cases "hl_mode st")
  case OnNone
  then show ?thesis using assms(1) by (auto simp: flush_token_def hl_inv_def Let_def)
qed (use assms flush_key flush_section flush_comment flush_value in blast)+

lemma key_done_inv:
  assumes inv: "hl_inv m i st" and i: "i < length m" and len: "length m \<le> 2 ^ 32"
    and mode: "hl_mode st = OnKey" and eq: "m ! i = CHR ''=''"
  shows "\<exists>st'. key_done mem_ok m \<lparr>sp_s = 0, sp_len = n\<rparr> st i = Some st' \<and> hl_inv m (Suc i) st'"
proof -
  let ?cur = "(hl_span st)\<lparr>sp_len := hl_last st\<rparr>"
  let ?f = "lookup_name (span_str m ?cur) field_names"
  let ?t = "if section_for_field ?f = Invalid \<or> ?f = Invalid \<or> section_for_field ?f \<noteq> hl_section st
            then HighlightError else HighlightField"
  have tok: "token_at m (hl_span st) (hl_last st) i" and g: "good m False (hl_ret st) (sp_s (hl_span st))"
    using inv mode by (auto simp: hl_inv_def)
  have f: "get_field m ?cur = Some ?f"
    unfolding get_field_def by (rule check_enums_eq [OF token_span(1) [OF tok i]])
  have "type_sound ?t (span_str m ?cur)" "?t \<noteq> HighlightEnd"
    using lookup_name_sound [of "span_str m ?cur" field_names] by simp_all
  then obtain a' where a': "emit mem_ok (hl_ret st) 0 ?cur ?t = Some a'" "good m False a' i"
    using good_cur [OF g tok i len] by blast
  let ?st' = "st\<lparr>hl_ret := a', hl_field := ?f, hl_equals := i,
    hl_span := \<lparr>sp_s = i + 1, sp_len = 0\<rparr>, hl_mode := OnValue\<rparr>"
  have "key_done mem_ok m \<lparr>sp_s = 0, sp_len = n\<rparr> st i = Some ?st'"
    using f a'(1) by (simp add: key_done_def Let_def)
  moreover have "hl_inv m (Suc i) ?st'"
    using a'(2) eq by (simp add: hl_inv_def)
  ultimately show ?thesis by blast
qed

lemma skip_blank_inv:
  assumes inv: "hl_inv m i st" and i: "i < length m" and len: "length m \<le> 2 ^ 32"
    and mode: "hl_mode st \<noteq> OnComment" and b: "blank (m ! i)"
  shows "hl_inv m (Suc i) (if i = sp_s (hl_span st) \<and> sp_len (hl_span st) = 0
            then st\<lparr>hl_span := (hl_span st)\<lparr>sp_s := sp_s (hl_span st) + 1\<rparr>\<rparr>
            else st\<lparr>hl_span := (hl_span st)\<lparr>sp_len := sp_len (hl_span st) + 1\<rparr>\<rparr>)"
proof -
  have pos: "sp_s (hl_span st) + sp_len (hl_span st) = i" using inv by (simp add: hl_inv_def)
  have up: "good m False (hl_ret st) (Suc i)" if "good m False (hl_ret st) i"
    by (rule good_mono [OF that]) (use i len in auto)
  note blank' = token_blank [of m "hl_span st" "hl_last st" i, OF _ b]
  note skip' = token_skip [of "hl_span st" m i]
  show ?thesis
  proof (cases "sp_len (hl_span st) = 0")
    case True
    have "hl_last st = 0" if "token_at m (hl_span st) (hl_last st) i"
      using that True by (simp add: token_at_def)
    with True show ?thesis
      using inv mode pos up skip' by (cases "hl_mode st") (auto simp: hl_inv_def)
  next
    case False
    then show ?thesis
      using inv mode pos blank' by (cases "hl_mode st") (auto simp: hl_inv_def)
  qed
qed

lemma grow_inv:
  assumes inv: "hl_inv m i st" and mode: "hl_mode st \<noteq> OnComment"
  shows "hl_inv m (Suc i) (st\<lparr>
            hl_mode := (if hl_mode st = OnNone then (if c then OnSection else OnKey) else hl_mode st),
            hl_span := (hl_span st)\<lparr>sp_len := sp_len (hl_span st) + 1\<rparr>,
            hl_last := sp_len (hl_span st) + 1\<rparr>)"
proof -
  have "sp_s (hl_span st) + sp_len (hl_span st) = i" using inv by (simp add: hl_inv_def)
  from token_grow [OF this, of m] show ?thesis
    using inv mode by (cases "hl_mode st") (auto simp: hl_inv_def)
qed

lemma highlight_step_inv:
  assumes inv: "hl_inv m i st" and i: "i < n" and n: "n < length m" and len: "length m \<le> 2 ^ 32"
  shows "\<exists>st'. highlight_step mem_ok m \<lparr>sp_s = 0, sp_len = n\<rparr> st i = Some (Inr st') \<and> hl_inv m (Suc i) st'"
proof -
  let ?c = "m ! i"
  have il: "i < length m" and at: "at m \<lparr>sp_s = 0, sp_len = n\<rparr> i = Some ?c" using i n by (auto simp: at_def)
  note unf = highlight_step_def at
  consider (line) "?c = CHR 0x0A \<or> hl_mode st \<noteq> OnComment \<and> ?c = CHR ''#''"
    | (comm) "\<not> (?c = CHR 0x0A \<or> hl_mode st \<noteq> OnComment \<and> ?c = CHR ''#'')" "hl_mode st = OnComment"
    | (blnk) "?c \<noteq> CHR 0x0A" "?c \<noteq> CHR ''#''" "hl_mode st \<noteq> OnComment" "blank ?c"
    | (key) "hl_mode st = OnKey" "?c = CHR ''=''"
    | (rest) "?c \<noteq> CHR 0x0A" "?c \<noteq> CHR ''#''" "hl_mode st \<noteq> OnComment" "\<not> blank ?c"
        "\<not> (?c = CHR ''='' \<and> hl_mode st = OnKey)"
    by blast
  then show ?thesis
  proof cases
    case line
    then obtain st' where st': "flush_token mem_ok m \<lparr>sp_s = 0, sp_len = n\<rparr> st = Some st'" "good m False (hl_ret st') i"
      using flush_good [OF inv il len, of n] by auto
    have "good m False (hl_ret st') (Suc i)" by (rule good_mono [OF st'(2)]) (use il len in auto)
    with line st' i show ?thesis by (auto simp: unf hl_inv_def Let_def)
  next
    case comm
    then show ?thesis using inv i by (auto simp: unf hl_inv_def)
  next
    case blnk
    then show ?thesis
      using skip_blank_inv [OF inv il len] i by (auto simp: unf blank_def)
  next
    case key
    then obtain st' where "key_done mem_ok m \<lparr>sp_s = 0, sp_len = n\<rparr> st i = Some st'" "hl_inv m (Suc i) st'"
      using key_done_inv [OF inv il len, of n] by auto
    with key i show ?thesis by (auto simp: unf)
  next
    case rest
    then show ?thesis
      using grow_inv [OF inv] i by (auto simp: unf blank_def)
  qed
qed

section \<open>The whole highlighter\<close>

definition end_span :: highlight_span where
  "end_span = \<lparr>hs_type = HighlightEnd, hs_start = 0, hs_len = SIZE_MAX\<rparr>"

text \<open>
  For every NUL-terminated text of at most four gigabytes the highlighter returns, without an
  undefined access, the well-formed, soundly classified spans of the text, closed by the end marker.
\<close>

lemma highlight_config_good:
  assumes nul: "c_strlen m = Some n" and len: "length m \<le> 2 ^ 32"
  shows "\<exists>xs. highlight_config mem_ok m = Some (Some (xs @ [end_span])) \<and> spans_wf 0 n xs \<and>
     (\<forall>x\<in>set xs. span_sound m x)"
proof -
  let ?s = "\<lparr>sp_s = 0, sp_len = n\<rparr>"
  let ?st0 = "\<lparr>hl_ret = zero_array, hl_span = \<lparr>sp_s = 0, sp_len = 0\<rparr>, hl_section = Invalid,
        hl_field = Invalid, hl_mode = OnNone, hl_last = 0, hl_equals = 0\<rparr>"
  have n: "n < length m" "m ! n = CHR 0x00"
    using nul index_of_less nth_index_of by (auto simp: c_strlen_def split: if_splits)
  have "hl_inv m 0 ?st0" by (simp add: hl_inv_def good_zero)
  then have "\<exists>st. c_for (highlight_step mem_ok m ?s) ?st0 [0..<n] = Some (Inr st) \<and> hl_inv m n st"
    by (rule c_for_upt_invariant) (rule highlight_step_inv [OF _ _ n(1) len])
  then obtain st where st: "c_for (highlight_step mem_ok m ?s) ?st0 [0..<n] = Some (Inr st)" "hl_inv m n st"
    by blast
  from flush_good [OF st(2) n(1) len, of n] n(2)
  obtain st' where st': "flush_token mem_ok m ?s st = Some st'" "good m False (hl_ret st') n" by auto
  have loop: "c_for (highlight_step mem_ok m ?s) ?st0 [0..<n + 1] = Some (Inl st')"
    using st(1) st'(1) by (simp add: c_for_append highlight_step_def)
  from st'(2) obtain xs where xs: "arr (hl_ret st') xs" "spans_wf 0 n xs" "\<forall>x\<in>set xs. span_sound m x"
    by (auto simp: good_def)
  have "length xs \<le> 2 ^ 33" using spans_wf_le [OF xs(2)] n(1) len by simp
  from append_highlight_span_arr [OF xs(1) this, of mem_ok "\<lparr>sp_s = 0, sp_len = SIZE_MAX\<rparr>" 0 HighlightEnd]
  obtain a where a: "append_highlight_span mem_ok (hl_ret st') 0 \<lparr>sp_s = 0, sp_len = SIZE_MAX\<rparr> HighlightEnd = Some (True, a)"
    "arr a (xs @ [end_span])" by (auto simp: SIZE_MAX_def end_span_def)
  then have "a_spans a = Some (xs @ [end_span])" by (auto simp: arr_def split: option.splits)
  with a(1) loop have "highlight_config mem_ok m = Some (Some (xs @ [end_span]))"
    using nul by (simp add: highlight_config_def emit_def)
  with xs show ?thesis by blast
qed

section \<open>Properties\<close>

text \<open>Claim C2: for every NUL-terminated text of at most four gigabytes, and as long as allocation
  succeeds, \<open>highlight_config\<close> performs no undefined access and returns a list of non-empty,
  ordered, non-overlapping spans inside the text, closed by \<open>HighlightEnd\<close>; the text under
  every span belongs to the language of its type (a span marked as a key is a key, a span marked as
  an address is an address, and so on).\<close>

theorem highlight_config_correct:
  assumes "c_strlen m = Some n" "length m \<le> 2 ^ 32"
  shows "\<exists>xs. highlight_config (\<lambda>_. True) m = Some (Some (xs @ [end_span])) \<and> spans_wf 0 n xs \<and>
     (\<forall>x\<in>set xs. type_sound (hs_type x) (take (hs_len x) (drop (hs_start x) m)))"
  using highlight_config_good [OF assms] by (simp add: span_sound_def span_text_def)

definition sample_config :: cmem where
  "sample_config = ''[Peer]'' @ [CHR 0x0A] @ ''AllowedIPs = 10.0.0.0/8,#x'' @ [CHR 0x00]"

lemma highlight_config_correct_witness:
  "c_strlen sample_config = Some 33 \<and> length sample_config \<le> 2 ^ 32 \<and>
   (\<exists>xs. highlight_config (\<lambda>_. True) sample_config = Some (Some (xs @ [end_span])) \<and> spans_wf 0 33 xs \<and>
     (\<forall>x\<in>set xs. type_sound (hs_type x) (take (hs_len x) (drop (hs_start x) sample_config))))"
proof -
  have "c_strlen sample_config = Some 33" by code_simp
  moreover have "length sample_config \<le> 2 ^ 32" by (simp add: sample_config_def)
  ultimately show ?thesis using highlight_config_correct by blast
qed

text \<open>\<open>get_field\<close> finds a field exactly by its name, without regard to case: the result is the
  field whose name has the same upper-case form as the span, and \<open>Invalid\<close> when there is none.\<close>

lemma get_field_decides:
  assumes "span_ok m s"
  shows "get_field m s = Some f \<longleftrightarrow>
    (if f = Invalid then \<forall>(nm, g)\<in>set field_names. map ascii_upper (span_str m s) \<noteq> map ascii_upper nm
     else \<exists>nm. (nm, f) \<in> set field_names \<and> map ascii_upper (span_str m s) = map ascii_upper nm)"
proof -
  have "get_field m s = Some (lookup_name (span_str m s) field_names)"
    unfolding get_field_def by (rule check_enums_eq [OF assms])
  then show ?thesis using lookup_field_names [of "span_str m s" f] by simp
qed

lemma get_field_decides_witness:
  "span_ok ''allowedips='' \<lparr>sp_s = 0, sp_len = 10\<rparr> \<and>
   (get_field ''allowedips='' \<lparr>sp_s = 0, sp_len = 10\<rparr> = Some AllowedIPs \<longleftrightarrow>
    (if AllowedIPs = Invalid
     then \<forall>(nm, g)\<in>set field_names.
       map ascii_upper (span_str ''allowedips='' \<lparr>sp_s = 0, sp_len = 10\<rparr>) \<noteq> map ascii_upper nm
     else \<exists>nm. (nm, AllowedIPs) \<in> set field_names \<and>
       map ascii_upper (span_str ''allowedips='' \<lparr>sp_s = 0, sp_len = 10\<rparr>) = map ascii_upper nm))"
proof -
  have "span_ok ''allowedips='' \<lparr>sp_s = 0, sp_len = 10\<rparr>" by (simp add: span_ok_def)
  with get_field_decides show ?thesis by blast
qed

text \<open>When the span array cannot be allocated, a multi-valued field that ends in a comma makes
  \<open>highlight_multivalue\<close> read the element before the start of a null array: a concrete run.\<close>

lemma highlight_config_out_of_memory:
  "highlight_config (\<lambda>_. False) (''[Interface]'' @ [CHR 0x0A] @ ''DNS=,'' @ [CHR 0x00]) = None"
  by code_simp

end
