(* ===== verification/Highlight_Main.thy ===== *)
theory Highlight_Main
  imports Highlight_Config
begin

text \<open>
  The two programs around the highlighter: the terminal colouriser (\<open>highlight.c\<close>) and the
  fuzz target (\<open>fuzz.c\<close>). Standard output is a list of chunks, with the terminal escapes of
  \<open>fputs\<close> kept apart from the input bytes that \<open>fwrite\<close> copies.
\<close>

section \<open>The colour map\<close>

definition esc :: "string \<Rightarrow> string" where
  "esc code = CHR 0x1B # CHR ''['' # code @ ''m''"

definition TERMINAL_BOLD :: string where "TERMINAL_BOLD = esc ''1''"
definition TERMINAL_UNDERLINE :: string where "TERMINAL_UNDERLINE = esc ''4''"
definition TERMINAL_RESET :: string where "TERMINAL_RESET = esc ''0''"

text \<open>There is no entry for \<open>HighlightEnd\<close>: reading it is out of range.\<close>

fun colormap :: "highlight_type \<Rightarrow> string option" where
  "colormap HighlightSection = Some (esc ''30'' @ TERMINAL_BOLD)"
| "colormap HighlightField = Some (esc ''34'' @ TERMINAL_BOLD)"
| "colormap HighlightPrivateKey = Some (esc ''33'' @ TERMINAL_BOLD)"
| "colormap HighlightPublicKey = Some (esc ''33'' @ TERMINAL_BOLD)"
| "colormap HighlightPresharedKey = Some (esc ''33'' @ TERMINAL_BOLD)"
| "colormap HighlightIP = Some (esc ''32'')"
| "colormap HighlightCidr = Some (esc ''33'')"
| "colormap HighlightHost = Some (esc ''32'' @ TERMINAL_BOLD)"
| "colormap HighlightPort = Some (esc ''35'')"
| "colormap HighlightMTU = Some (esc ''34'')"
| "colormap HighlightKeepalive = Some (esc ''34'')"
| "colormap HighlightComment = Some (esc ''36'')"
| "colormap HighlightDelimiter = Some (esc ''36'')"
| "colormap HighlightTable = Some (esc ''34'')"
| "colormap HighlightFwMark = Some (esc ''34'')"
| "colormap HighlightSaveConfig = Some (esc ''34'')"
| "colormap HighlightCmd = Some (esc ''37'')"
| "colormap HighlightError = Some (esc ''31'' @ TERMINAL_UNDERLINE)"
| "colormap HighlightEnd = None"

lemma colormap_defined: "t \<noteq> HighlightEnd \<Longrightarrow> \<exists>e. colormap t = Some e"
  by (cases t) auto

section \<open>The colouriser\<close>

datatype chunk = Ctl string | Raw string

text \<open>Subtraction of \<open>size_t\<close> values wraps around.\<close>

definition size_sub :: "nat \<Rightarrow> nat \<Rightarrow> nat" where
  "size_sub a b = nat ((int a - int b) mod 2 ^ 64)"

fun render :: "cmem \<Rightarrow> highlight_span list \<Rightarrow> nat \<Rightarrow> (chunk list \<times> nat) option" where
  "render m [] last_pos = None"
| "render m (x # xs) last_pos =
     (if hs_type x = HighlightEnd then Some ([], last_pos)
      else do {
        gap \<leftarrow> rd_block m last_pos (size_sub (hs_start x) last_pos);
        color \<leftarrow> colormap (hs_type x);
        text \<leftarrow> rd_block m (hs_start x) (hs_len x);
        (out, l) \<leftarrow> render m xs (hs_start x + hs_len x);
        Some (Raw gap # Ctl color # Raw text # Ctl TERMINAL_RESET # out, l) })"

definition INPUT_SIZE :: nat where
  "INPUT_SIZE = 1024 * 1024"

text \<open>\<open>main\<close> of \<open>highlight.c\<close>: the bytes of standard input to the chunks of standard output.\<close>

definition highlight_main :: "(nat \<Rightarrow> bool) \<Rightarrow> string \<Rightarrow> chunk list option" where
  "highlight_main alloc stdin_bytes = do {
     let total_len = min (INPUT_SIZE - 1) (length stdin_bytes);
     let input = take total_len stdin_bytes @ [CHR 0x00];
     spans \<leftarrow> highlight_config alloc input;
     spans \<leftarrow> spans;
     (out, l) \<leftarrow> render input spans 0;
     rest \<leftarrow> rd_block input l (size_sub total_len l);
     Some (Ctl TERMINAL_RESET # out @ [Raw rest]) }"

fun raw_text :: "chunk list \<Rightarrow> string" where
  "raw_text [] = []"
| "raw_text (Ctl e # cs) = raw_text cs"
| "raw_text (Raw t # cs) = t @ raw_text cs"

lemma raw_text_append [simp]: "raw_text (a @ b) = raw_text a @ raw_text b"
  by (induction a rule: raw_text.induct) auto

lemma size_sub_le:
  assumes "b \<le> a" "a < 2 ^ 64"
  shows "size_sub a b = a - b"
proof -
  have "int a - int b = int (a - b)" using assms(1) by simp
  moreover have "int (a - b) < 2 ^ 64" using assms by simp
  ultimately show ?thesis by (simp only: size_sub_def mod_pos_pos_trivial of_nat_0_le_iff nat_int)
qed

text \<open>Rendering well-formed spans copies the text from the current position to the end reached.\<close>

lemma render_wf:
  assumes "n \<le> length m" "length m < 2 ^ 64"
  shows "spans_wf lo n xs \<Longrightarrow>
    \<exists>out l. render m (xs @ [end_span]) lo = Some (out, l) \<and> lo \<le> l \<and> l \<le> n \<and>
      raw_text out = take (l - lo) (drop lo m)"
proof (induction xs arbitrary: lo)
  case Nil
  then show ?case by (simp add: end_span_def)
next
  case (Cons x xs)
  let ?s = "hs_start x" and ?e = "hs_start x + hs_len x"
  have wf: "lo \<le> ?s" "hs_type x \<noteq> HighlightEnd" "spans_wf ?e n xs" using Cons.prems by auto
  have e: "?e \<le> n" using spans_wf_le [OF wf(3)] by simp
  from Cons.IH [OF wf(3)] obtain out l where
    IH: "render m (xs @ [end_span]) ?e = Some (out, l)" "?e \<le> l" "l \<le> n"
      "raw_text out = take (l - ?e) (drop ?e m)" by blast
  obtain c where c: "colormap (hs_type x) = Some c" using colormap_defined wf(2) by blast
  have gap: "size_sub ?s lo = ?s - lo" using wf(1) e assms by (intro size_sub_le) auto
  have "render m ((x # xs) @ [end_span]) lo =
      Some (Raw (take (?s - lo) (drop lo m)) # Ctl c # Raw (take (hs_len x) (drop ?s m)) # Ctl TERMINAL_RESET # out, l)"
    using wf e assms IH(1) c by (simp add: gap)
  moreover have "take (?s - lo) (drop lo m) @ take (hs_len x) (drop ?s m) @ take (l - ?e) (drop ?e m) =
      take (l - lo) (drop lo m)"
  proof -
    have "l - lo = (?s - lo) + (hs_len x + (l - ?e))" using wf(1) IH(2) by simp
    moreover have "drop (?s - lo) (drop lo m) = drop ?s m" "drop (hs_len x) (drop ?s m) = drop ?e m"
      using wf(1) by (simp_all add: add.commute)
    ultimately show ?thesis by (simp only: take_add)
  qed
  ultimately show ?case
    using IH wf(1) by auto
qed

section \<open>The fuzz target\<close>


text \<open>
  The allocated blocks of the process, with their addresses and contents. A new block gets an
  address that no live block has; releasing or reading an address that is not live is \<open>None\<close>.
\<close>

datatype block = Chars string | Spans "highlight_span list"

type_synonym blocks = "(nat \<times> block) list"

definition new_address :: "blocks \<Rightarrow> nat" where
  "new_address h = fold max (map fst h) 0 + 1"

definition c_free :: "nat \<Rightarrow> blocks \<Rightarrow> blocks option" where
  "c_free p h = (case map_of h p of None \<Rightarrow> None | Some b \<Rightarrow> Some (filter (\<lambda>(q, b). q \<noteq> p) h))"

definition load_chars :: "nat \<Rightarrow> blocks \<Rightarrow> string option" where
  "load_chars p h = (case map_of h p of Some (Chars s) \<Rightarrow> Some s | _ \<Rightarrow> None)"

definition load_spans :: "nat \<Rightarrow> blocks \<Rightarrow> highlight_span list option" where
  "load_spans p h = (case map_of h p of Some (Spans xs) \<Rightarrow> Some xs | _ \<Rightarrow> None)"




lemma fold_max_ge: "x \<in> set xs \<or> x = a \<Longrightarrow> x \<le> fold max xs (a :: nat)"
proof (induction xs arbitrary: a x)
  case (Cons y xs)
  have "max y a \<le> fold max xs (max y a)" using Cons.IH by blast
  then show ?case using Cons.IH [of x] Cons.prems by (auto intro: order_trans [rotated])
qed simp

lemma new_address_new: "new_address h \<notin> fst ` set h"
proof
  assume "new_address h \<in> fst ` set h"
  then have "new_address h \<le> fold max (map fst h) 0" by (intro fold_max_ge) simp
  then show False by (simp add: new_address_def)
qed

lemma c_free_new [simp]: "c_free (new_address h) ((new_address h, b) # h) = Some h"
proof -
  have "filter (\<lambda>(q, b). q \<noteq> new_address h) h = h"
    using new_address_new [of h] by (force simp: filter_id_conv)
  then show ?thesis by (simp add: c_free_def)
qed

lemma load_new [simp]:
  "load_chars p ((p, Chars s) # h) = Some s" "load_spans p ((p, Spans xs) # h) = Some xs"
  by (simp_all add: load_chars_def load_spans_def)


lemma highlight_terminated:
  assumes "length s < 2 ^ 32"
  shows "\<exists>xs. highlight_config mem_ok (s @ [CHR 0x00]) = Some (Some (xs @ [end_span])) \<and>
    spans_wf 0 (length (takeWhile (\<lambda>c. c \<noteq> CHR 0x00) s)) xs"
  using highlight_config_good [OF c_strlen_terminated, of s] assms by auto

section \<open>Properties\<close>

text \<open>Claim C24: the colouriser loses and invents nothing: with the terminal escapes removed, what it
  writes is the input, up to the size of its buffer.\<close>

theorem highlight_main_copies_input:
  "\<exists>out. highlight_main mem_ok inp = Some out \<and> raw_text out = take (INPUT_SIZE - 1) inp"
proof -
  let ?n = "min (INPUT_SIZE - 1) (length inp)"
  let ?s = "take ?n inp" and ?nul = "[CHR 0x00]"
  let ?m = "?s @ ?nul"
  let ?k = "length (takeWhile (\<lambda>c. c \<noteq> CHR 0x00) ?s)"
  have n: "length ?s = ?n" "?n < 2 ^ 32" by (simp_all add: INPUT_SIZE_def)
  then obtain xs where xs: "highlight_config mem_ok ?m = Some (Some (xs @ [end_span]))" "spans_wf 0 ?k xs"
    using highlight_terminated [of ?s] by auto
  have k: "?k \<le> ?n" using length_takeWhile_le [of _ ?s] n(1) by metis
  have m: "?k \<le> length ?m" "length ?m < 2 ^ 64"
    by (simp only: length_append n(1), rule trans_le_add1 [OF k]) (simp add: INPUT_SIZE_def)
  obtain out l where out: "render ?m (xs @ [end_span]) 0 = Some (out, l)" "l \<le> ?k" "raw_text out = take l ?m"
    using render_wf [OF m xs(2)] by (auto simp only: drop_0 diff_zero)
  have l: "l \<le> ?n" "size_sub ?n l = ?n - l" using out(2) k n(2) by (auto intro!: size_sub_le)
  have "rd_block ?m l (?n - l) = Some (drop l ?s)" using l(1) n(1) by (simp add: rd_block_def)
  then have "highlight_main mem_ok inp = Some (Ctl TERMINAL_RESET # out @ [Raw (drop l ?s)])"
    using xs(1) out(1) l by (simp add: highlight_main_def Let_def)
  moreover have "take l ?m @ drop l ?s = take (INPUT_SIZE - 1) inp"
  proof -
    have "take l ?m = take l ?s" using l(1) n(1) by (simp only: take_append) simp
    moreover have "?s = take (INPUT_SIZE - 1) inp" by (simp add: min_def)
    ultimately show ?thesis by (metis append_take_drop_id)
  qed
  ultimately show ?thesis using out(3) by auto
qed




end
