(* ===== verification/Highlight_Gui.thy ===== *)
theory Highlight_Gui
  imports Highlight_Config
begin

text \<open>
  The graphical highlighter (\<open>gui/highlight.cpp\<close>): the handler of \<open>textChanged\<close>, the button that
  randomises the colours, and the event loop that calls them. The handler is a function from the text, a
  list of UTF-16 units, to the operations it performs on the text cursor. What Qt does is a parameter:
  \<open>latin\<close> stands for \<open>toLatin1\<close>, \<open>plain\<close> for \<open>toPlainText\<close>, \<open>put\<close> for \<open>setPlainText\<close> and \<open>act\<close> for the
  operations of the cursor; what is used of them are the hypotheses \<open>latin1_codec\<close> and \<open>text_document\<close>.
  Nothing is assumed of \<open>setPlainText\<close>, which may normalise its argument.
\<close>

section \<open>Colours\<close>

datatype colour = Rgb string | Hsl nat nat nat

fun gui_colormap :: "highlight_type \<Rightarrow> colour option" where
  "gui_colormap HighlightSection = Some (Rgb ''#ababab'')"
| "gui_colormap HighlightField = Some (Rgb ''#70c0b1'')"
| "gui_colormap HighlightPrivateKey = Some (Rgb ''#7aa6da'')"
| "gui_colormap HighlightPublicKey = Some (Rgb ''#7aa6da'')"
| "gui_colormap HighlightPresharedKey = Some (Rgb ''#7aa6da'')"
| "gui_colormap HighlightIP = Some (Rgb ''#b9ca4a'')"
| "gui_colormap HighlightCidr = Some (Rgb ''#e78c45'')"
| "gui_colormap HighlightHost = Some (Rgb ''#b9ca4a'')"
| "gui_colormap HighlightPort = Some (Rgb ''#e78c45'')"
| "gui_colormap HighlightMTU = Some (Rgb ''#c397d8'')"
| "gui_colormap HighlightKeepalive = Some (Rgb ''#c397d8'')"
| "gui_colormap HighlightComment = Some (Rgb ''#969896'')"
| "gui_colormap HighlightDelimiter = Some (Rgb ''#7aa6da'')"
| "gui_colormap HighlightTable = Some (Rgb ''#c397d8'')"
| "gui_colormap HighlightFwMark = Some (Rgb ''#c397d8'')"
| "gui_colormap HighlightSaveConfig = Some (Rgb ''#c397d8'')"
| "gui_colormap HighlightCmd = Some (Rgb ''#969896'')"
| "gui_colormap HighlightError = Some (Rgb ''#d54e53'')"
| "gui_colormap HighlightEnd = None"

text \<open>The indices of the array, in the order of the enumeration.\<close>

definition gui_types :: "highlight_type list" where
  "gui_types = [HighlightSection, HighlightField, HighlightPrivateKey, HighlightPublicKey, HighlightPresharedKey, HighlightIP,
     HighlightCidr, HighlightHost, HighlightPort, HighlightMTU, HighlightKeepalive, HighlightComment, HighlightDelimiter,
     HighlightTable, HighlightFwMark, HighlightSaveConfig, HighlightCmd, HighlightError]"

text \<open>
  The loop of the button over the array; \<open>qrand\<close> is the sequence of random numbers. The order in
  which the three arguments of \<open>fromHsl\<close> draw them is not fixed by the language.
\<close>

definition randomize_colors :: "(nat \<Rightarrow> nat) \<Rightarrow> (highlight_type \<Rightarrow> colour option) \<Rightarrow> highlight_type \<Rightarrow> colour option" where
  "randomize_colors qrand cm = fold (\<lambda>i cm. cm(gui_types ! i :=
     Some (Hsl (qrand (3 * i) mod 360) (qrand (3 * i + 1) mod 192 + 64) (qrand (3 * i + 2) mod 128 + 128)))) [0..<length gui_types] cm"

section \<open>The handler\<close>

text \<open>Moves of the cursor with or without the anchor, and \<open>mergeCharFormat\<close> with the foreground and the underline.\<close>

datatype cursor_op = Begin_Edit | End_Edit | To_Start | To_End_Keep | Next_Move nat | Next_Keep nat | Merge_Format colour bool

definition text_colour :: colour where
  "text_colour = Rgb ''#eaeaea''"

fun format_spans :: "(highlight_type \<Rightarrow> colour option) \<Rightarrow> highlight_span list \<Rightarrow> cursor_op list option" where
  "format_spans cm [] = None"
| "format_spans cm (x # xs) =
     (if hs_type x = HighlightEnd then Some []
      else do {
        c \<leftarrow> cm (hs_type x);
        ops \<leftarrow> format_spans cm xs;
        Some ([To_Start, Next_Move (hs_start x), Next_Keep (hs_len x), Merge_Format c (hs_type x = HighlightError)] @ ops) })"

text \<open>
  Closing the edit block changes the text and calls the handler again; \<open>guard\<close> makes that call
  return at once.
\<close>

type_synonym qstring = "16 word list"

function text_changed ::
  "(nat \<Rightarrow> bool) \<Rightarrow> (qstring \<Rightarrow> string) \<Rightarrow> (highlight_type \<Rightarrow> colour option) \<Rightarrow> bool \<Rightarrow> qstring \<Rightarrow> cursor_op list option" where
  "text_changed alloc latin cm guard t =
     (if guard then Some []
      else do {
        spans \<leftarrow> highlight_config alloc (latin t @ [CHR 0x00]);
        case spans of
          None \<Rightarrow> Some []
        | Some spans \<Rightarrow> do {
            ops \<leftarrow> format_spans cm spans;
            nested \<leftarrow> text_changed alloc latin cm True t;
            Some ([Begin_Edit, To_Start, To_End_Keep, Merge_Format text_colour False] @ ops @ [End_Edit] @ nested) } })"
  by pat_completeness auto
termination
  by (relation "measure (\<lambda>(alloc, latin, cm, guard, t). if guard then 0 else 1)") auto

declare text_changed.simps [simp del]

section \<open>The event loop\<close>

text \<open>
  What the user does: an edit, which leaves some document, or a click on the button. Qt then emits
  \<open>textChanged\<close>; the click makes it do so with \<open>setPlainText\<close>. \<open>put d s\<close> is the document after
  the text has been set to \<open>s\<close>, \<open>act d op\<close> the one after an operation of the cursor.
\<close>

datatype 'd gui_event = Edit 'd | Click "nat \<Rightarrow> nat"

record 'd gui =
  gu_colormap :: "highlight_type \<Rightarrow> colour option"
  gu_document :: 'd

definition gui_changed ::
  "(nat \<Rightarrow> bool) \<Rightarrow> (qstring \<Rightarrow> string) \<Rightarrow> ('d \<Rightarrow> qstring) \<Rightarrow> ('d \<Rightarrow> cursor_op \<Rightarrow> 'd) \<Rightarrow> 'd gui \<Rightarrow> 'd gui option" where
  "gui_changed alloc latin plain act g = do {
     ops \<leftarrow> text_changed alloc latin (gu_colormap g) False (plain (gu_document g));
     Some (g\<lparr>gu_document := foldl act (gu_document g) ops\<rparr>) }"

fun gui_step ::
  "(nat \<Rightarrow> bool) \<Rightarrow> (qstring \<Rightarrow> string) \<Rightarrow> ('d \<Rightarrow> qstring) \<Rightarrow> ('d \<Rightarrow> qstring \<Rightarrow> 'd) \<Rightarrow> ('d \<Rightarrow> cursor_op \<Rightarrow> 'd) \<Rightarrow>
     'd gui \<Rightarrow> 'd gui_event \<Rightarrow> 'd gui option" where
  "gui_step alloc latin plain put act g (Edit d) = gui_changed alloc latin plain act (g\<lparr>gu_document := d\<rparr>)"
| "gui_step alloc latin plain put act g (Click qrand) =
     (let g = g\<lparr>gu_colormap := randomize_colors qrand (gu_colormap g)\<rparr> in
      gui_changed alloc latin plain act (g\<lparr>gu_document := put (gu_document g) (plain (gu_document g))\<rparr>))"

fun gui_run ::
  "(nat \<Rightarrow> bool) \<Rightarrow> (qstring \<Rightarrow> string) \<Rightarrow> ('d \<Rightarrow> qstring) \<Rightarrow> ('d \<Rightarrow> qstring \<Rightarrow> 'd) \<Rightarrow> ('d \<Rightarrow> cursor_op \<Rightarrow> 'd) \<Rightarrow>
     'd gui \<Rightarrow> 'd gui_event list \<Rightarrow> 'd gui option" where
  "gui_run alloc latin plain put act g [] = Some g"
| "gui_run alloc latin plain put act g (e # es) = do {
     g \<leftarrow> gui_step alloc latin plain put act g e;
     gui_run alloc latin plain put act g es }"

section \<open>What the operations do\<close>

text \<open>
  The conversion keeps the characters of Latin-1 and replaces or suppresses each of the others, as Qt's
  documentation of \<open>toLatin1\<close> says.
\<close>

definition latin_char :: "16 word \<Rightarrow> char" where
  "latin_char u = char_of (unat u)"

definition latin1_codec :: "(qstring \<Rightarrow> string) \<Rightarrow> bool" where
  "latin1_codec latin \<longleftrightarrow> (\<forall>s. length (latin s) \<le> length s \<and> ((\<forall>u\<in>set s. u < 256) \<longrightarrow> latin s = map latin_char s))"

text \<open>
  A text in which each unit is a character of Latin-1 for the cursor too: \<open>NextCharacter\<close> moves by
  grapheme clusters, and a carriage return joins the line feed behind it.
\<close>

definition single_units :: "qstring \<Rightarrow> bool" where
  "single_units s \<longleftrightarrow> (\<forall>u\<in>set s. u < 256 \<and> u \<noteq> 13)"

text \<open>
  The documented behaviour of the document and its cursor: \<open>sel\<close> gives anchor and position, \<open>fmt\<close> the
  foreground and underline of a character; formats and moves do not change the text. The length of a
  \<open>QString\<close> is a non-negative \<open>int\<close>.
\<close>

definition text_document ::
  "('d \<Rightarrow> qstring) \<Rightarrow> ('d \<Rightarrow> cursor_op \<Rightarrow> 'd) \<Rightarrow> ('d \<Rightarrow> nat \<times> nat) \<Rightarrow> ('d \<Rightarrow> nat \<Rightarrow> colour \<times> bool) \<Rightarrow> bool" where
  "text_document plain act sel fmt \<longleftrightarrow> (\<forall>d.
     length (plain d) < 2 ^ 31 \<and> (\<forall>op. plain (act d op) = plain d) \<and>
     sel (act d To_Start) = (0, 0) \<and> sel (act d To_End_Keep) = (fst (sel d), length (plain d)) \<and>
     (\<forall>k. single_units (plain d) \<and> snd (sel d) + k \<le> length (plain d) \<longrightarrow>
        sel (act d (Next_Move k)) = (snd (sel d) + k, snd (sel d) + k) \<and>
        sel (act d (Next_Keep k)) = (fst (sel d), snd (sel d) + k)) \<and>
     (\<forall>c u i. fmt (act d (Merge_Format c u)) i = (if fst (sel d) \<le> i \<and> i < snd (sel d) then (c, u) else fmt d i)) \<and>
     (\<forall>op. (\<forall>c u. op \<noteq> Merge_Format c u) \<longrightarrow> fmt (act d op) = fmt d))"

text \<open>The span over a character decides its format.\<close>

definition span_at :: "highlight_span list \<Rightarrow> nat \<Rightarrow> highlight_span option" where
  "span_at xs i = List.find (\<lambda>x. hs_start x \<le> i \<and> i < hs_start x + hs_len x) xs"

definition shown_format :: "(highlight_type \<Rightarrow> colour option) \<Rightarrow> colour \<times> bool \<Rightarrow> highlight_span option \<Rightarrow> colour \<times> bool" where
  "shown_format cm def x = (case x of None \<Rightarrow> def | Some x \<Rightarrow> (the (cm (hs_type x)), hs_type x = HighlightError))"

definition total_map :: "(highlight_type \<Rightarrow> colour option) \<Rightarrow> bool" where
  "total_map cm \<longleftrightarrow> (\<forall>t. t \<noteq> HighlightEnd \<longrightarrow> cm t \<noteq> None)"

lemma span_at_before: "spans_wf lo n xs \<Longrightarrow> i < lo \<Longrightarrow> span_at xs i = None"
  by (induction xs arbitrary: lo) (auto simp: span_at_def)

lemma plain_ops: "text_document plain act sel fmt \<Longrightarrow> plain (foldl act d ops) = plain d"
  by (induction ops arbitrary: d) (simp_all add: text_document_def)

lemma mark_span:
  assumes "text_document plain act sel fmt" "single_units (plain d)" "s + l \<le> length (plain d)"
  shows "fmt (foldl act d [To_Start, Next_Move s, Next_Keep l, Merge_Format c u]) i = (if s \<le> i \<and> i < s + l then (c, u) else fmt d i)"
proof -
  note doc = assms(1) [unfolded text_document_def, rule_format]
  let ?a = "act d To_Start" let ?b = "act ?a (Next_Move s)" let ?c = "act ?b (Next_Keep l)"
  have same: "plain ?a = plain d" "plain ?b = plain d" using doc by simp_all
  have a: "sel ?a = (0, 0)" using doc [of d] by simp
  have b: "sel ?b = (s, s)" using doc [of ?a] a assms(2,3) same by simp
  have c: "sel ?c = (s, s + l)" using doc [of ?b] b assms(2,3) same by simp
  have "fmt ?c = fmt d" using doc [of d] doc [of ?a] doc [of ?b] by simp
  then show ?thesis using doc [of ?c] c by simp
qed

lemma format_spans_shows:
  assumes doc: "text_document plain act sel fmt" and cm: "total_map cm"
  shows "spans_wf lo n xs \<Longrightarrow> \<exists>ops. format_spans cm (xs @ [end_span]) = Some ops \<and>
    (\<forall>d i. single_units (plain d) \<and> n \<le> length (plain d) \<longrightarrow> fmt (foldl act d ops) i = shown_format cm (fmt d i) (span_at xs i))"
proof (induction xs arbitrary: lo)
  case Nil
  then show ?case by (simp add: end_span_def span_at_def shown_format_def)
next
  case (Cons x xs)
  let ?s = "hs_start x" and ?e = "hs_start x + hs_len x"
  have wf: "hs_type x \<noteq> HighlightEnd" "spans_wf ?e n xs" using Cons.prems by auto
  have e: "?e \<le> n" using spans_wf_le [OF wf(2)] by simp
  obtain c where c: "cm (hs_type x) = Some c" using cm wf(1) by (auto simp: total_map_def)
  let ?m = "[To_Start, Next_Move ?s, Next_Keep (hs_len x), Merge_Format c (hs_type x = HighlightError)]"
  from Cons.IH [OF wf(2)] obtain ops where ops: "format_spans cm (xs @ [end_span]) = Some ops"
    "\<And>d i. single_units (plain d) \<Longrightarrow> n \<le> length (plain d) \<Longrightarrow> fmt (foldl act d ops) i = shown_format cm (fmt d i) (span_at xs i)" by blast
  have "format_spans cm ((x # xs) @ [end_span]) = Some (?m @ ops)" using wf(1) c ops(1) by simp
  moreover have "fmt (foldl act d (?m @ ops)) i = shown_format cm (fmt d i) (span_at (x # xs) i)"
    if u: "single_units (plain d)" and n: "n \<le> length (plain d)" for d i
  proof -
    have "single_units (plain (foldl act d ?m))" "n \<le> length (plain (foldl act d ?m))"
      using u n plain_ops [OF doc] by metis+
    note rest = ops(2) [OF this] and mark = mark_span [OF doc u le_trans [OF e n]]
    show ?thesis
    proof (cases "?s \<le> i \<and> i < ?e")
      case True
      then have "span_at xs i = None" "span_at (x # xs) i = Some x" using span_at_before [OF wf(2)] by (auto simp: span_at_def)
      then show ?thesis unfolding foldl_append rest mark using True c by (simp add: shown_format_def)
    next
      case False
      then have "span_at (x # xs) i = span_at xs i" by (auto simp: span_at_def)
      then show ?thesis unfolding foldl_append rest mark using False by auto
    qed
  qed
  ultimately show ?case by blast
qed

lemma gui_types_all: "t \<noteq> HighlightEnd \<Longrightarrow> t \<in> set gui_types"
  by (cases t) (simp_all add: gui_types_def)

lemma fold_upd_total: "total_map cm \<Longrightarrow> total_map (fold (\<lambda>i cm. cm(ts ! i := Some (f i))) is cm)"
  by (induction "is" arbitrary: cm) (auto simp: total_map_def)

lemma maps_total: "total_map gui_colormap" "total_map cm \<Longrightarrow> total_map (randomize_colors qrand cm)"
proof -
  show "total_map gui_colormap" unfolding total_map_def by (intro allI impI, rename_tac t, case_tac t) simp_all
  show "total_map cm \<Longrightarrow> total_map (randomize_colors qrand cm)" unfolding randomize_colors_def by (rule fold_upd_total)
qed

text \<open>The random colours are in the ranges that keep them readable: saturation from 64 and lightness from 128.\<close>

lemma fold_upd_hit: "i \<in> set is \<Longrightarrow> \<exists>j\<in>set is. fold (\<lambda>i cm. cm(ts ! i := Some (f i))) is cm (ts ! i) = Some (f j)"
  by (induction "is" rule: rev_induct) auto

lemma randomize_colors_range:
  assumes "t \<noteq> HighlightEnd"
  shows "\<exists>h s l. randomize_colors qrand cm t = Some (Hsl h s l) \<and> h < 360 \<and> s \<in> {64..<256} \<and> l \<in> {128..<256}"
proof -
  obtain i where i: "i < length gui_types" "gui_types ! i = t" using gui_types_all [OF assms] by (metis in_set_conv_nth)
  let ?f = "\<lambda>i. Hsl (qrand (3 * i) mod 360) (qrand (3 * i + 1) mod 192 + 64) (qrand (3 * i + 2) mod 128 + 128)"
  obtain j where "randomize_colors qrand cm (gui_types ! i) = Some (?f j)"
    using fold_upd_hit [of i "[0..<length gui_types]" gui_types ?f cm] i(1) unfolding randomize_colors_def by auto
  then show ?thesis using i(2) mod_less_divisor [of 192 "qrand (3 * j + 1)"] mod_less_divisor [of 128 "qrand (3 * j + 2)"] by simp
qed

text \<open>
  What the handler establishes: the characters of a text of single units have the formats of their spans.
\<close>

definition formatted :: "(qstring \<Rightarrow> string) \<Rightarrow> ('d \<Rightarrow> qstring) \<Rightarrow> ('d \<Rightarrow> nat \<Rightarrow> colour \<times> bool) \<Rightarrow> 'd gui \<Rightarrow> bool" where
  "formatted latin plain fmt g \<longleftrightarrow>
     (\<exists>xs. highlight_config (\<lambda>_. True) (latin (plain (gu_document g)) @ [CHR 0x00]) = Some (Some (xs @ [end_span])) \<and>
        (single_units (plain (gu_document g)) \<longrightarrow>
           (\<forall>i<length (plain (gu_document g)). fmt (gu_document g) i =
              shown_format (gu_colormap g) (text_colour, False) (span_at xs i))))"

lemma latin_units: "latin1_codec latin \<Longrightarrow> single_units s \<Longrightarrow> latin s = map latin_char s"
  by (auto simp: latin1_codec_def single_units_def)

lemma gui_changed_formats:
  assumes doc: "text_document plain act sel fmt" and codec: "latin1_codec latin" and cm: "total_map (gu_colormap g)"
  shows "\<exists>g'. gui_changed (\<lambda>_. True) latin plain act g = Some g' \<and> gu_colormap g' = gu_colormap g \<and>
    plain (gu_document g') = plain (gu_document g) \<and> formatted latin plain fmt g'"
proof -
  let ?d = "gu_document g" and ?cm = "gu_colormap g"
  let ?s = "plain ?d" and ?l = "latin (plain ?d)"
  let ?n = "length (takeWhile (\<lambda>c. c \<noteq> CHR 0x00) ?l)"
  note law = doc [unfolded text_document_def, rule_format]
  have "length ?l \<le> length ?s" "length ?s < 2 ^ 31" using codec law by (simp_all add: latin1_codec_def)
  then obtain xs where xs: "highlight_config (\<lambda>_. True) (?l @ [CHR 0x00]) = Some (Some (xs @ [end_span]))" "spans_wf 0 ?n xs"
    using highlight_config_good [OF c_strlen_terminated, of ?l] by auto
  obtain ops where ops: "format_spans ?cm (xs @ [end_span]) = Some ops"
    "\<And>d i. single_units (plain d) \<Longrightarrow> ?n \<le> length (plain d) \<Longrightarrow>
       fmt (foldl act d ops) i = shown_format ?cm (fmt d i) (span_at xs i)"
    using format_spans_shows [OF doc cm xs(2)] by blast
  let ?all = "[Begin_Edit, To_Start, To_End_Keep, Merge_Format text_colour False] @ ops @ [End_Edit]"
  have run: "text_changed (\<lambda>_. True) latin ?cm False ?s = Some ?all"
    by (subst text_changed.simps) (simp add: xs(1) ops(1) text_changed.simps [of _ _ _ True])
  let ?a = "act (act ?d Begin_Edit) To_Start" let ?b = "act ?a To_End_Keep" let ?c = "act ?b (Merge_Format text_colour False)"
  have same: "plain ?b = ?s" "plain ?c = ?s" using law by simp_all
  have "fmt (foldl act ?d ?all) i = shown_format ?cm (text_colour, False) (span_at xs i)"
    if units: "single_units ?s" and i: "i < length ?s" for i
  proof -
    have "sel ?a = (0, 0)" using law by simp
    then have "sel ?b = (0, length ?s)" using law by simp
    then have "fmt ?c i = (text_colour, False)" using law [of ?b] i by simp
    moreover have "fmt (act (foldl act ?c ops) End_Edit) = fmt (foldl act ?c ops)" using law by simp
    moreover have "?n \<le> length (plain ?c)"
      using length_takeWhile_le [of _ ?l] unfolding same latin_units [OF codec units] by simp
    ultimately show ?thesis using ops(2) [of ?c i] units unfolding same by simp
  qed
  moreover have "plain (foldl act ?d ?all) = ?s" by (rule plain_ops [OF doc])
  ultimately have "formatted latin plain fmt (g\<lparr>gu_document := foldl act ?d ?all\<rparr>)"
    using xs(1) unfolding formatted_def by (auto simp del: foldl_append foldl_Cons)
  then show ?thesis using run \<open>plain (foldl act ?d ?all) = ?s\<close> by (simp add: gui_changed_def)
qed

text \<open>The document that an event leaves before the handler runs, and the colours after it.\<close>

fun event_document :: "('d \<Rightarrow> qstring) \<Rightarrow> ('d \<Rightarrow> qstring \<Rightarrow> 'd) \<Rightarrow> 'd \<Rightarrow> 'd gui_event \<Rightarrow> 'd" where
  "event_document plain put d0 (Edit d) = d"
| "event_document plain put d0 (Click q) = put d0 (plain d0)"

fun event_colors :: "(highlight_type \<Rightarrow> colour option) \<Rightarrow> 'd gui_event \<Rightarrow> highlight_type \<Rightarrow> colour option" where
  "event_colors cm (Edit d) = cm"
| "event_colors cm (Click q) = randomize_colors q cm"

lemma event_colors_total: "total_map cm \<Longrightarrow> total_map (event_colors cm e)"
  by (cases e) (simp_all add: maps_total(2))

lemma gui_step_formats:
  assumes doc: "text_document plain act sel fmt" and codec: "latin1_codec latin" and cm: "total_map (gu_colormap g)"
  shows "\<exists>g'. gui_step (\<lambda>_. True) latin plain put act g e = Some g' \<and> gu_colormap g' = event_colors (gu_colormap g) e \<and>
    plain (gu_document g') = plain (event_document plain put (gu_document g) e) \<and> formatted latin plain fmt g'"
proof (cases e)
  case (Edit d)
  then show ?thesis
    using gui_changed_formats [OF doc codec, of "g\<lparr>gu_document := d\<rparr>"] cm by simp
next
  case (Click q)
  then show ?thesis
    using gui_changed_formats [OF doc codec, of "g\<lparr>gu_colormap := randomize_colors q (gu_colormap g),
        gu_document := put (gu_document g) (plain (gu_document g))\<rparr>"] maps_total(2) [OF cm] by simp
qed

lemma gui_run_total:
  assumes doc: "text_document plain act sel fmt" and codec: "latin1_codec latin"
  shows "total_map (gu_colormap g) \<Longrightarrow>
    \<exists>g'. gui_run (\<lambda>_. True) latin plain put act g es = Some g' \<and> gu_colormap g' = foldl event_colors (gu_colormap g) es"
proof (induction es arbitrary: g)
  case (Cons e es)
  obtain g1 where g1: "gui_step (\<lambda>_. True) latin plain put act g e = Some g1" "gu_colormap g1 = event_colors (gu_colormap g) e"
    using gui_step_formats [OF doc codec Cons.prems] by blast
  then show ?case using Cons.IH [of g1] event_colors_total [OF Cons.prems, of e] by simp
qed simp

lemma foldl_event_colors_total: "total_map cm \<Longrightarrow> total_map (foldl event_colors cm es)"
  by (induction es arbitrary: cm) (simp_all add: event_colors_total)

lemma gui_run_snoc:
  "gui_run alloc latin plain put act g (es @ [e]) =
     do { g \<leftarrow> gui_run alloc latin plain put act g es; gui_step alloc latin plain put act g e }"
proof (induction es arbitrary: g)
  case Nil
  then show ?case by (cases "gui_step alloc latin plain put act g e") simp_all
next
  case (Cons x es)
  then show ?case by (cases "gui_step alloc latin plain put act g x") simp_all
qed

section \<open>Properties\<close>

text \<open>Claim C23: whatever the user types, in whatever order, and however often the colours are randomised, the program
  goes on, and the handler keeps the text that the last event left. When that text consists of Latin-1
  characters and has no carriage return, each of its characters has exactly the colour that the current
  map gives to the span which the highlighter puts over it, errors underlined, and the default colour where
  there is no span. Allocation is assumed to succeed.\<close>

theorem gui_run_highlights:
  assumes "text_document plain act sel fmt" "latin1_codec latin"
  shows "\<exists>g0 g xs.
    gui_run (\<lambda>_. True) latin plain put act \<lparr>gu_colormap = gui_colormap, gu_document = doc\<rparr> es = Some g0 \<and>
    gui_run (\<lambda>_. True) latin plain put act \<lparr>gu_colormap = gui_colormap, gu_document = doc\<rparr> (es @ [e]) = Some g \<and>
    plain (gu_document g) = plain (event_document plain put (gu_document g0) e) \<and>
    gu_colormap g = foldl event_colors gui_colormap (es @ [e]) \<and>
    highlight_config (\<lambda>_. True) (latin (plain (gu_document g)) @ [CHR 0x00]) = Some (Some (xs @ [end_span])) \<and>
    (single_units (plain (gu_document g)) \<longrightarrow>
       latin (plain (gu_document g)) = map latin_char (plain (gu_document g)) \<and>
       (\<forall>i<length (plain (gu_document g)). fmt (gu_document g) i =
          (case span_at xs i of
             None \<Rightarrow> (text_colour, False)
           | Some x \<Rightarrow> (the (gu_colormap g (hs_type x)), hs_type x = HighlightError))))"
proof -
  let ?g = "\<lparr>gu_colormap = gui_colormap, gu_document = doc\<rparr>"
  obtain g0 where g0: "gui_run (\<lambda>_. True) latin plain put act ?g es = Some g0"
    "gu_colormap g0 = foldl event_colors gui_colormap es"
    using gui_run_total [OF assms, of ?g put es] maps_total(1) by auto
  have "total_map (gu_colormap g0)" using foldl_event_colors_total [OF maps_total(1)] unfolding g0(2) .
  then obtain g where g: "gui_step (\<lambda>_. True) latin plain put act g0 e = Some g"
    "gu_colormap g = event_colors (gu_colormap g0) e"
    "plain (gu_document g) = plain (event_document plain put (gu_document g0) e)" "formatted latin plain fmt g"
    using gui_step_formats [OF assms] by blast
  have run: "gui_run (\<lambda>_. True) latin plain put act ?g (es @ [e]) = Some g" using g0(1) g(1) by (simp add: gui_run_snoc)
  have colours: "gu_colormap g = foldl event_colors gui_colormap (es @ [e])" using g(2) g0(2) by simp
  note latin = latin_units [OF assms(2), of "plain (gu_document g)"]
  from g(4) obtain xs where xs:
    "highlight_config (\<lambda>_. True) (latin (plain (gu_document g)) @ [CHR 0x00]) = Some (Some (xs @ [end_span]))"
    "single_units (plain (gu_document g)) \<Longrightarrow> \<forall>i<length (plain (gu_document g)). fmt (gu_document g) i =
       shown_format (gu_colormap g) (text_colour, False) (span_at xs i)"
    unfolding formatted_def by blast
  show ?thesis
    by (intro exI [of _ g0] exI [of _ g] exI [of _ xs] conjI impI g0(1) run g(3) colours xs(1) latin
        xs(2) [unfolded shown_format_def])
qed

text \<open>
  A document that is its text, its selection and its formats, and a conversion that writes a question
  mark for what Latin-1 does not have; setting the text turns no-break spaces into spaces.
\<close>

record plain_document =
  pd_text :: qstring
  pd_sel :: "nat \<times> nat"
  pd_fmt :: "nat \<Rightarrow> colour \<times> bool"

definition pd_plain :: "plain_document \<Rightarrow> qstring" where
  "pd_plain d = take (2 ^ 31 - 1) (pd_text d)"

fun plain_act :: "plain_document \<Rightarrow> cursor_op \<Rightarrow> plain_document" where
  "plain_act d To_Start = d\<lparr>pd_sel := (0, 0)\<rparr>"
| "plain_act d To_End_Keep = d\<lparr>pd_sel := (fst (pd_sel d), length (pd_plain d))\<rparr>"
| "plain_act d (Next_Move k) = (let p = min (length (pd_plain d)) (snd (pd_sel d) + k) in d\<lparr>pd_sel := (p, p)\<rparr>)"
| "plain_act d (Next_Keep k) = (let p = min (length (pd_plain d)) (snd (pd_sel d) + k) in d\<lparr>pd_sel := (fst (pd_sel d), p)\<rparr>)"
| "plain_act d (Merge_Format c u) = d\<lparr>pd_fmt := (\<lambda>i. if fst (pd_sel d) \<le> i \<and> i < snd (pd_sel d) then (c, u) else pd_fmt d i)\<rparr>"
| "plain_act d Begin_Edit = d"
| "plain_act d End_Edit = d"

definition plain_put :: "plain_document \<Rightarrow> qstring \<Rightarrow> plain_document" where
  "plain_put d s = d\<lparr>pd_text := map (\<lambda>u. if u = 160 then 32 else u) s\<rparr>"

definition question_latin :: "qstring \<Rightarrow> string" where
  "question_latin = map (\<lambda>u. if u < 256 then latin_char u else CHR ''?'')"

lemma plain_document: "text_document pd_plain plain_act pd_sel pd_fmt"
  unfolding text_document_def
proof (intro allI conjI impI)
  fix d :: plain_document and op
  show "pd_plain (plain_act d op) = pd_plain d" by (cases op) (simp_all add: Let_def pd_plain_def)
  have "length (pd_plain d) \<le> 2 ^ 31 - 1" unfolding pd_plain_def by (simp only: length_take min.cobounded2)
  then show "length (pd_plain d) < 2 ^ 31" by simp
  assume "\<forall>c u. op \<noteq> Merge_Format c u"
  then show "pd_fmt (plain_act d op) = pd_fmt d" by (cases op) (auto simp: Let_def)
qed (simp_all add: Let_def)

lemma question_latin: "latin1_codec question_latin"
  by (auto simp: latin1_codec_def question_latin_def)

text \<open>The text \<open>[Peer]\<close>.\<close>

definition peer_units :: qstring where
  "peer_units = [0x5B, 0x50, 0x65, 0x65, 0x72, 0x5D]"

lemma gui_run_highlights_witness:
  "\<exists>g. gui_run (\<lambda>_. True) question_latin pd_plain plain_put plain_act
      \<lparr>gu_colormap = gui_colormap, gu_document = \<lparr>pd_text = [], pd_sel = (0, 0), pd_fmt = (\<lambda>_. (Rgb ''#000000'', True))\<rparr>\<rparr>
      [Edit \<lparr>pd_text = [0x3A9, 0xA0], pd_sel = (1, 1), pd_fmt = (\<lambda>_. (Rgb ''#000000'', True))\<rparr>,
       Edit \<lparr>pd_text = peer_units, pd_sel = (1, 1), pd_fmt = (\<lambda>_. (Rgb ''#000000'', True))\<rparr>] = Some g \<and>
    pd_plain (gu_document g) = peer_units \<and> pd_fmt (gu_document g) 3 = (Rgb ''#ababab'', False)"
proof -
  let ?d = "\<lambda>s p. \<lparr>pd_text = s, pd_sel = p, pd_fmt = (\<lambda>_. (Rgb ''#000000'', True))\<rparr>"
  have spans: "highlight_config (\<lambda>_. True) (question_latin peer_units @ [CHR 0x00]) =
      Some (Some ([\<lparr>hs_type = HighlightSection, hs_start = 0, hs_len = 6\<rparr>] @ [end_span]))" by code_simp
  have at: "span_at [\<lparr>hs_type = HighlightSection, hs_start = 0, hs_len = 6\<rparr>] 3 = Some \<lparr>hs_type = HighlightSection, hs_start = 0, hs_len = 6\<rparr>"
    by (simp add: span_at_def)
  have plain: "pd_plain (?d peer_units (1, 1)) = peer_units" and units: "single_units peer_units" and three: "3 < length peer_units"
    by (simp_all add: pd_plain_def peer_units_def single_units_def)
  have cm: "foldl event_colors gui_colormap ([Edit (?d [0x3A9, 0xA0] (1, 1))] @ [Edit (?d peer_units (1, 1))]) = gui_colormap"
    by simp
  show ?thesis
    using gui_run_highlights [OF plain_document question_latin, of plain_put "?d [] (0, 0)"
        "[Edit (?d [0x3A9, 0xA0] (1, 1))]" "Edit (?d peer_units (1, 1))"]
    unfolding event_document.simps plain cm append_Cons append_Nil using spans at units three
    by (elim exE conjE) (auto simp del: gui_run.simps)
qed

end
