(* ===== verification/Address_Grammar.thy ===== *)
theory Address_Grammar
  imports Value_Validators
begin

text \<open>
  Grammars of the addresses that the validators accept. The reference predicates of
  \<open>Validators\<close> read their text from left to right, as the code does; here they are shown
  equivalent to declarative grammars: dotted decimal notation, and colon-separated groups with at
  most one compressed run of zero groups and an optional dotted decimal tail.
\<close>

section \<open>Joining with a separator\<close>

definition pre :: "char \<Rightarrow> string list \<Rightarrow> string" where
  "pre sep gs = concat (map (\<lambda>g. g @ [sep]) gs)"

fun join :: "char \<Rightarrow> string list \<Rightarrow> string" where
  "join sep [] = []"
| "join sep [g] = g"
| "join sep (g # gs) = g @ sep # join sep gs"

lemma pre_simps [simp]:
  "pre sep [] = []" "pre sep (g # gs) = g @ sep # pre sep gs" "pre sep (gs @ hs) = pre sep gs @ pre sep hs"
  by (simp_all add: pre_def)

lemma join_snoc: "join sep (gs @ [g]) = pre sep gs @ g"
proof (induction gs)
  case (Cons h gs)
  then show ?case by (cases gs) auto
qed simp

section \<open>Decimal numerals\<close>

text \<open>The decimal numeral of a number below 1000, without leading zeros.\<close>

definition digit_char :: "nat \<Rightarrow> char" where
  "digit_char n = char_of (48 + n)"

definition dec_string :: "nat \<Rightarrow> string" where
  "dec_string n =
     (if n < 10 then [digit_char n]
      else if n < 100 then [digit_char (n div 10), digit_char (n mod 10)]
      else [digit_char (n div 100), digit_char (n div 10 mod 10), digit_char (n mod 10)])"

lemma digit_char_facts:
  assumes "k < 10"
  shows "is_decimal (digit_char k)" "digit_val (digit_char k) = k" "digit_char k = CHR ''0'' \<longleftrightarrow> k = 0"
proof -
  have "\<forall>k\<in>{0..<10}. is_decimal (digit_char k) \<and> digit_val (digit_char k) = k \<and>
      (digit_char k = CHR ''0'' \<longleftrightarrow> k = 0)" by code_simp
  then show "is_decimal (digit_char k)" "digit_val (digit_char k) = k" "digit_char k = CHR ''0'' \<longleftrightarrow> k = 0"
    using assms by auto
qed

lemma dec_string_octet:
  assumes "n \<le> 255"
  shows "octet_text (dec_string n)" "dec_val (dec_string n) = n"
proof -
  have "n div 100 < 10" using assms by simp
  moreover have "n div 100 = n div 10 div 10" by (simp add: div_mult2_eq [symmetric])
  moreover have "n div 10 div 10 * 10 + n div 10 mod 10 = n div 10" "n div 10 * 10 + n mod 10 = n" by simp_all
  ultimately have "100 * (n div 100) + 10 * (n div 10 mod 10) + n mod 10 = n" by linarith
  with \<open>n div 100 < 10\<close> show v: "dec_val (dec_string n) = n"
    by (simp add: dec_string_def dec_val_def digit_char_facts)
  with assms show "octet_text (dec_string n)"
    using \<open>n div 100 < 10\<close> unfolding octet_text_def by (auto simp: dec_string_def digit_char_facts)
qed

lemma digit_char_val: "is_decimal c \<Longrightarrow> digit_char (digit_val c) = c"
proof -
  have "\<forall>c\<in>set ''0123456789''. digit_char (digit_val c) = c" by code_simp
  then show "is_decimal c \<Longrightarrow> digit_char (digit_val c) = c" unfolding is_decimal_set by blast
qed

lemma digit_val_zero: "is_decimal c \<Longrightarrow> digit_val c = 0 \<Longrightarrow> c = CHR ''0''"
  using digit_char_val [of c] digit_char_facts(3) [of 0] by simp

lemma octet_dec_string:
  assumes "octet_text d"
  shows "d = dec_string (dec_val d)"
proof -
  from assms have ne: "d \<noteq> []" "length d \<le> 3" "\<forall>c\<in>set d. is_decimal c"
    and lead: "length d > 1 \<Longrightarrow> hd d \<noteq> CHR ''0''" by (auto simp: octet_text_def)
  note facts = digit_char_val digit_val_less dec_val_def dec_string_def
  from ne(1,2) consider a where "d = [a]" | a b where "d = [a, b]" | a b c where "d = [a, b, c]"
    by (auto simp: neq_Nil_conv le_Suc_eq length_Suc_conv numeral_3_eq_3)
  then show ?thesis
  proof cases
    case 1
    then show ?thesis using ne(3) by (simp add: facts)
  next
    case (2 a b)
    then have "digit_val a \<noteq> 0" "digit_val a < 10" "digit_val b < 10"
      using ne(3) lead digit_val_zero digit_val_less by auto
    moreover have "10 * digit_val a + digit_val b < 100" using calculation by simp
    ultimately show ?thesis using 2 ne(3) by (simp add: facts)
  next
    case (3 a b c)
    then have nz: "digit_val a \<noteq> 0" "digit_val a < 10" "digit_val b < 10" "digit_val c < 10"
      using ne(3) lead digit_val_zero digit_val_less by auto
    let ?n = "100 * digit_val a + 10 * digit_val b + digit_val c"
    have n10: "?n div 10 = 10 * digit_val a + digit_val b" using nz by simp
    then have "?n div 10 div 10 = digit_val a" using nz by simp
    then have "?n div 100 = digit_val a" by (simp add: div_mult2_eq [symmetric])
    moreover have "?n = 10 * (10 * digit_val a + digit_val b) + digit_val c" by simp
    then have "?n mod 10 = digit_val c" using nz(4) by (simp only: mod_mult_self4 mod_less)
    moreover have "?n div 10 mod 10 = digit_val b" "100 \<le> ?n"
      using nz unfolding n10 by simp_all
    moreover have "dec_val d = ?n" using 3 by (simp add: dec_val_def)
    ultimately show ?thesis using 3 ne(3) by (simp add: facts)
  qed
qed

lemma octet_text_iff: "octet_text d \<longleftrightarrow> (\<exists>n\<le>255. d = dec_string n)"
  using dec_string_octet octet_dec_string by (force simp: octet_text_def)

lemma ex_octet: "(\<exists>d. octet_text d \<and> P d) \<longleftrightarrow> (\<exists>n\<le>255. P (dec_string n))"
  unfolding octet_text_iff by blast

section \<open>IPv4\<close>

lemma octet_first:
  assumes "octet_text d" "r = [] \<or> hd r = CHR ''.''"
  shows "takeWhile is_decimal (take 3 (d @ r)) = d"
proof -
  have "take 3 (d @ r) = d @ take (3 - length d) r" using assms(1) by (simp add: octet_text_def)
  then show ?thesis
    using assms by (cases r; cases "3 - length d") (auto simp: octet_text_def intro!: takeWhile_append_hd)
qed

lemma ipv4_rest_iff:
  "ipv4_rest n t \<longleftrightarrow> n \<noteq> 0 \<and> (\<exists>ds. length ds = n \<and> (\<forall>d\<in>set ds. octet_text d) \<and> t = join CHR ''.'' ds)"
proof (induction n t rule: ipv4_rest.induct)
  case (2 n t)
  define d where "d = takeWhile is_decimal (take 3 t)"
  define r where "r = drop (length d) t"
  have t: "t = d @ r"
    using takeWhile_digits(3) [of is_decimal 3 t] unfolding d_def r_def by (metis append_take_drop_id)
  have IH: "ipv4_rest n (tl r) \<longleftrightarrow> n \<noteq> 0 \<and>
      (\<exists>ds. length ds = n \<and> (\<forall>d\<in>set ds. octet_text d) \<and> tl r = join CHR ''.'' ds)"
    if "octet_text d" "r \<noteq> []" "hd r = CHR ''.''"
    using 2 that by (simp add: d_def r_def)
  have unf: "ipv4_rest (Suc n) t \<longleftrightarrow> octet_text d \<and>
      (if r = [] then n = 0 else hd r = CHR ''.'' \<and> ipv4_rest n (tl r))"
    by (simp add: Let_def d_def r_def)
  show ?case
  proof
    assume L: "ipv4_rest (Suc n) t"
    show "Suc n \<noteq> 0 \<and> (\<exists>ds. length ds = Suc n \<and> (\<forall>d\<in>set ds. octet_text d) \<and> t = join CHR ''.'' ds)"
    proof (cases "r = []")
      case True
      then show ?thesis using L t unf by (intro conjI exI [of _ "[d]"]) auto
    next
      case False
      with L unf IH obtain ds where ds: "octet_text d" "hd r = CHR ''.''" "n \<noteq> 0" "length ds = n"
        "\<forall>d\<in>set ds. octet_text d" "tl r = join CHR ''.'' ds" by auto
      then have "t = join CHR ''.'' (d # ds)" using t False by (cases ds; cases r) auto
      then show ?thesis using ds by (intro conjI exI [of _ "d # ds"]) auto
    qed
  next
    assume "Suc n \<noteq> 0 \<and> (\<exists>ds. length ds = Suc n \<and> (\<forall>d\<in>set ds. octet_text d) \<and> t = join CHR ''.'' ds)"
    then obtain x ds where ds: "length ds = n" "octet_text x" "\<forall>d\<in>set ds. octet_text d"
      "t = join CHR ''.'' (x # ds)" by (auto simp: length_Suc_conv)
    define q where "q = (if ds = [] then [] else CHR ''.'' # join CHR ''.'' ds)"
    have tq: "t = x @ q" using ds(4) by (cases ds) (auto simp: q_def)
    then have "d = x" using octet_first [OF ds(2), of q] by (auto simp: d_def q_def)
    then have "r = q" using tq by (simp add: r_def)
    then show "ipv4_rest (Suc n) t"
      using ds \<open>d = x\<close> IH unf by (auto simp: q_def)
  qed
qed simp

definition dotted :: "nat \<Rightarrow> nat \<Rightarrow> nat \<Rightarrow> nat \<Rightarrow> string" where
  "dotted a b c d = dec_string a @ ''.'' @ dec_string b @ ''.'' @ dec_string c @ ''.'' @ dec_string d"

lemma ipv4_text_iff: "ipv4_text t \<longleftrightarrow> (\<exists>a\<le>255. \<exists>b\<le>255. \<exists>c\<le>255. \<exists>d\<le>255. t = dotted a b c d)"
proof -
  have "ipv4_text t \<longleftrightarrow> (\<exists>ds. length ds = 4 \<and> (\<forall>d\<in>set ds. octet_text d) \<and> t = join CHR ''.'' ds)"
    by (simp add: ipv4_text_def ipv4_rest_iff del: ipv4_rest.simps)
  also have "\<dots> \<longleftrightarrow> (\<exists>a. octet_text a \<and> (\<exists>b. octet_text b \<and> (\<exists>c. octet_text c \<and>
      (\<exists>d. octet_text d \<and> t = a @ ''.'' @ b @ ''.'' @ c @ ''.'' @ d))))"
    by (simp add: length_Suc_conv numeral_eq_Suc ex_simps [symmetric] conj_assoc del: ex_simps)
  also have "\<dots> \<longleftrightarrow> (\<exists>a\<le>255. \<exists>b\<le>255. \<exists>c\<le>255. \<exists>d\<le>255. t = dotted a b c d)"
    unfolding ex_octet dotted_def ..
  finally show ?thesis .
qed

section \<open>IPv6\<close>

definition hextet :: "string \<Rightarrow> bool" where
  "hextet d \<longleftrightarrow> d \<noteq> [] \<and> length d \<le> 4 \<and> (\<forall>c\<in>set d. is_hexadecimal c)"

lemma hextet_first:
  assumes "hextet d" "r = [] \<or> \<not> is_hexadecimal (hd r)"
  shows "takeWhile is_hexadecimal (take 4 (d @ r)) = d"
proof -
  have "take 4 (d @ r) = d @ take (4 - length d) r" using assms(1) by (simp add: hextet_def)
  then show ?thesis
    using assms by (cases r; cases "4 - length d") (auto simp: hextet_def intro!: takeWhile_append_hd)
qed

lemma hextet_ends: "hextet d \<Longrightarrow> d \<noteq> [] \<and> hd d \<noteq> CHR '':'' \<and> last d \<noteq> CHR '':''"
proof -
  assume "hextet d"
  then have "d \<noteq> []" "\<forall>c\<in>set d. is_hexadecimal c" by (auto simp: hextet_def)
  then show ?thesis using not_hexadecimal_colon(1) hd_in_set last_in_set by metis
qed

lemma hextet_hd: "hextet d \<Longrightarrow> d \<noteq> [] \<and> hd (d @ r) \<noteq> CHR '':''"
  by (cases d) (auto simp: hextet_def)

lemma decimal_hexadecimal: "is_decimal c \<Longrightarrow> is_hexadecimal c"
  by (simp add: is_hexadecimal_def)

lemma octet_hextet: "octet_text d \<Longrightarrow> hextet d"
  by (auto simp: octet_text_def hextet_def decimal_hexadecimal)

lemma ipv4_text_split:
  assumes "ipv4_text t"
  shows "\<exists>d r. t = d @ CHR ''.'' # r \<and> hextet d"
proof -
  from assms obtain a b c d where "a \<le> 255" "t = dotted a b c d" by (auto simp: ipv4_text_iff)
  then show ?thesis
    using dec_string_octet(1) octet_hextet unfolding dotted_def by fastforce
qed

text \<open>What may follow the last complete group at index \<open>i\<close>.\<close>

definition ipv6_tail :: "nat \<Rightarrow> bool \<Rightarrow> string \<Rightarrow> bool" where
  "ipv6_tail i seen t \<longleftrightarrow> t = [] \<or> hextet t \<and> (seen \<or> i = 7) \<or>
     ipv4_text t \<and> i \<noteq> 7 \<and> (i \<ge> 6 \<or> seen) \<or>
     \<not> seen \<and> (\<exists>u. t = CHR '':'' # u \<and> (u = [] \<or> i \<noteq> 7 \<and> ipv6_rest (i + 1) True u))"

lemma ipv6_rest_group:
  assumes "hextet g"
  shows "ipv6_rest i seen (g @ CHR '':'' # r) \<longleftrightarrow> i \<noteq> 7 \<and> ipv6_rest (i + 1) seen r"
  using hextet_first [OF assms, of "CHR '':'' # r"] hextet_hd [OF assms, of "CHR '':'' # r"]
  by (subst ipv6_rest.simps) (auto simp: Let_def)

lemma ipv6_tail_rest:
  assumes "ipv6_tail i seen t"
  shows "ipv6_rest i seen t"
proof -
  from assms consider (nil) "t = []" | (grp) "hextet t" "seen \<or> i = 7"
    | (v4) "ipv4_text t" "i \<noteq> 7" "i \<ge> 6 \<or> seen"
    | (col) u where "\<not> seen" "t = CHR '':'' # u" "u = [] \<or> i \<noteq> 7 \<and> ipv6_rest (i + 1) True u"
    unfolding ipv6_tail_def by blast
  then show ?thesis
  proof cases
    case nil
    then show ?thesis by (subst ipv6_rest.simps) simp
  next
    case grp
    then show ?thesis
      using hextet_first [of t "[]"] hextet_hd [of t "[]"] by (subst ipv6_rest.simps) (auto simp: Let_def)
  next
    case v4
    from ipv4_text_split [OF v4(1)] obtain d r where t: "t = d @ CHR ''.'' # r" "hextet d" by blast
    have "takeWhile is_hexadecimal (take 4 t) = d" "d \<noteq> []" "hd t \<noteq> CHR '':''"
      using hextet_first [of d "CHR ''.'' # r"] hextet_hd [of d "CHR ''.'' # r"] t by auto
    then show ?thesis using v4 t(1) by (subst ipv6_rest.simps) (auto simp: Let_def)
  next
    case col
    then show ?thesis by (subst ipv6_rest.simps) auto
  qed
qed

text \<open>Some complete groups, each followed by a colon, and a tail.\<close>

lemma ipv6_rest_split:
  "i \<le> 7 \<Longrightarrow> ipv6_rest i seen t \<Longrightarrow>
     \<exists>gs u. (\<forall>g\<in>set gs. hextet g) \<and> i + length gs \<le> 7 \<and> t = pre CHR '':'' gs @ u \<and>
        ipv6_tail (i + length gs) seen u"
proof (induction "length t" arbitrary: i t rule: less_induct)
  case less
  define d where "d = takeWhile is_hexadecimal (take 4 t)"
  define r where "r = drop (length d) t"
  have t: "t = d @ r" and d4: "length d \<le> 4" and dh: "\<forall>c\<in>set d. is_hexadecimal c"
    using takeWhile_digits [where P = is_hexadecimal and n = 4 and t = t] unfolding d_def r_def
    by (metis append_take_drop_id)+
  have unf: "t = [] \<or> hd t = CHR '':'' \<and> \<not> seen \<and> (tl t = [] \<or> i \<noteq> 7 \<and> ipv6_rest (i + 1) True (tl t)) \<or>
      d \<noteq> [] \<and> (r = [] \<and> (seen \<or> i = 7) \<or> r \<noteq> [] \<and> i \<noteq> 7 \<and>
        (hd r = CHR '':'' \<and> ipv6_rest (i + 1) seen (tl r) \<or> (i \<ge> 6 \<or> seen) \<and> ipv4_text t))"
    using less.prems(2) by (subst (asm) ipv6_rest.simps) (auto simp: Let_def d_def r_def split: if_splits)
  show ?case
  proof (cases "d \<noteq> [] \<and> r \<noteq> [] \<and> i \<noteq> 7 \<and> hd r = CHR '':'' \<and> ipv6_rest (i + 1) seen (tl r)")
    case True
    then have "length (tl r) < length t" "i + 1 \<le> 7" using t less.prems(1) by (cases r; auto)+
    from less.hyps [OF this] True obtain gs u where gs: "\<forall>g\<in>set gs. hextet g" "i + 1 + length gs \<le> 7"
      "tl r = pre CHR '':'' gs @ u" "ipv6_tail (i + 1 + length gs) seen u" by blast
    have "r = CHR '':'' # tl r" using True by (cases r) auto
    then have "t = pre CHR '':'' (d # gs) @ u" using t gs(3) by simp
    then show ?thesis
      using gs d4 dh True by (intro exI [of _ "d # gs"] exI [of _ u]) (auto simp: hextet_def)
  next
    case False
    have "hextet t" if "d \<noteq> []" "r = []" using that t d4 dh by (simp add: hextet_def)
    moreover have "t = CHR '':'' # tl t" if "t \<noteq> []" "hd t = CHR '':''" using that by (cases t) auto
    ultimately have "ipv6_tail i seen t" using unf False unfolding ipv6_tail_def by metis
    then show ?thesis using less.prems(1) by (intro exI [of _ "[]"] exI [of _ t]) auto
  qed
qed

lemma ipv6_rest_iff:
  "i \<le> 7 \<Longrightarrow> ipv6_rest i seen t \<longleftrightarrow>
     (\<exists>gs u. (\<forall>g\<in>set gs. hextet g) \<and> i + length gs \<le> 7 \<and> t = pre CHR '':'' gs @ u \<and>
        ipv6_tail (i + length gs) seen u)"
proof
  assume "i \<le> 7" "ipv6_rest i seen t"
  then show "\<exists>gs u. (\<forall>g\<in>set gs. hextet g) \<and> i + length gs \<le> 7 \<and> t = pre CHR '':'' gs @ u \<and>
      ipv6_tail (i + length gs) seen u"
    by (rule ipv6_rest_split)
next
  assume "\<exists>gs u. (\<forall>g\<in>set gs. hextet g) \<and> i + length gs \<le> 7 \<and> t = pre CHR '':'' gs @ u \<and>
      ipv6_tail (i + length gs) seen u"
  then obtain gs u where "\<forall>g\<in>set gs. hextet g" "i + length gs \<le> 7" "t = pre CHR '':'' gs @ u"
    "ipv6_tail (i + length gs) seen u" by blast
  then show "ipv6_rest i seen t"
  proof (induction gs arbitrary: i t)
    case Nil
    then show ?case by (simp add: ipv6_tail_rest)
  next
    case (Cons g gs)
    then show ?case by (simp add: ipv6_rest_group)
  qed
qed

text \<open>A text that ends in a colon which no other colon precedes.\<close>

definition colon_end :: "string \<Rightarrow> bool" where
  "colon_end t \<longleftrightarrow> (\<exists>p c. t = p @ [c, CHR '':''] \<and> c \<noteq> CHR '':'')"

lemma colon_end_nth:
  assumes "length t \<ge> 2"
  shows "colon_end t \<longleftrightarrow> t ! (length t - 1) = CHR '':'' \<and> t ! (length t - 2) \<noteq> CHR '':''"
proof -
  obtain p c e where t: "t = p @ [c, e]"
    using assms by (cases t rule: rev_cases; cases "butlast t" rule: rev_cases) auto
  then show ?thesis by (auto simp: colon_end_def nth_append)
qed

lemma colon_end_append: "colon_end w \<Longrightarrow> colon_end (p @ w)"
  unfolding colon_end_def by (metis append.assoc)

lemma colon_end_pre: "hextet h \<Longrightarrow> colon_end (p @ h @ '':'')"
  by (cases h rule: rev_cases) (auto simp: hextet_def colon_end_def)

lemma not_colon_end [simp]: "\<not> colon_end (p @ ''::'')"
  by (auto simp: colon_end_def)

lemma last_not_colon: "t \<noteq> [] \<Longrightarrow> last t \<noteq> CHR '':'' \<Longrightarrow> \<not> colon_end (p @ t)"
  by (cases t rule: rev_cases) (auto simp: colon_end_def)

lemma hextet_end: "hextet d \<Longrightarrow> \<not> colon_end (p @ d)"
  by (rule last_not_colon) (simp_all add: hextet_ends)

lemma ipv4_end: "ipv4_text v \<Longrightarrow> v \<noteq> [] \<and> hd v \<noteq> CHR '':'' \<and> \<not> colon_end (p @ v)"
proof -
  assume "ipv4_text v"
  then obtain a b c d where v: "a \<le> 255" "d \<le> 255" "v = dotted a b c d" by (auto simp: ipv4_text_iff)
  then have "hextet (dec_string a)" "hextet (dec_string d)" by (auto simp: dec_string_octet octet_hextet)
  then have "\<not> colon_end ((p @ dec_string a @ ''.'' @ dec_string b @ ''.'' @ dec_string c @ ''.'') @ dec_string d)"
    "hd v \<noteq> CHR '':''" "v \<noteq> []"
    using hextet_end hextet_hd [of "dec_string a" "[]"] v by (simp only: not_False_eq_True, auto simp: dotted_def)
  then show ?thesis using v by (simp add: dotted_def)
qed

abbreviation hextets :: "string list \<Rightarrow> bool" where
  "hextets gs \<equiv> \<forall>g\<in>set gs. hextet g"

text \<open>The part behind the double colon.\<close>

definition compressed :: "nat \<Rightarrow> string \<Rightarrow> bool" where
  "compressed n w \<longleftrightarrow> (\<exists>hs. hextets hs \<and> length hs \<le> n \<and> w = join CHR '':'' hs) \<or>
     (\<exists>hs v. hextets hs \<and> length hs + 2 \<le> n \<and> ipv4_text v \<and> w = join CHR '':'' (hs @ [v]))"

lemma compressed_end:
  assumes "compressed n w"
  shows "\<not> colon_end (p @ ''::'' @ w)"
proof -
  from assms consider (hex) hs where "hextets hs" "w = join CHR '':'' hs"
    | (v4) hs v where "ipv4_text v" "w = pre CHR '':'' hs @ v"
    unfolding compressed_def join_snoc by blast
  then show ?thesis
  proof cases
    case hex
    then show ?thesis
      using hextet_end [of _ "p @ ''::'' @ pre CHR '':'' (butlast hs)"]
      by (cases hs rule: rev_cases) (auto simp: join_snoc)
  next
    case v4
    then show ?thesis using ipv4_end [of v "p @ ''::'' @ pre CHR '':'' hs"] by simp
  qed
qed

lemma ipv6_rest_compressed:
  assumes "k \<le> 7" "\<not> colon_end w"
  shows "ipv6_rest k True w \<longleftrightarrow> compressed (8 - k) w"
proof
  assume "ipv6_rest k True w"
  then obtain gs u where gs: "hextets gs" "k + length gs \<le> 7" "w = pre CHR '':'' gs @ u"
    "ipv6_tail (k + length gs) True u" using ipv6_rest_iff [OF assms(1)] by blast
  then consider "u = []" | "hextet u" | "ipv4_text u" "k + length gs \<noteq> 7" by (auto simp: ipv6_tail_def)
  then show "compressed (8 - k) w"
  proof cases
    case 1
    then have "gs = []"
      using gs(1,3) assms(2) colon_end_pre by (cases gs rule: rev_cases) auto
    then show ?thesis using gs 1 unfolding compressed_def by (intro disjI1 exI [of _ "[]"]) auto
  next
    case 2
    then show ?thesis
      using gs unfolding compressed_def by (intro disjI1 exI [of _ "gs @ [u]"]) (auto simp: join_snoc)
  next
    case 3
    then show ?thesis
      using gs unfolding compressed_def by (intro disjI2 exI [of _ gs] exI [of _ u]) (auto simp: join_snoc)
  qed
next
  assume "compressed (8 - k) w"
  then consider (nil) "w = []" | (hex) hs d where "hextets hs" "hextet d" "length hs + 1 \<le> 8 - k" "w = pre CHR '':'' hs @ d"
    | (v4) hs v where "hextets hs" "ipv4_text v" "length hs + 2 \<le> 8 - k" "w = pre CHR '':'' hs @ v"
    unfolding compressed_def
  proof (elim disjE exE conjE, goal_cases)
    case (1 hs)
    then show ?case by (cases hs rule: rev_cases) (auto simp: join_snoc)
  qed (auto simp: join_snoc)
  then have "\<exists>gs u. hextets gs \<and> k + length gs \<le> 7 \<and> w = pre CHR '':'' gs @ u \<and> ipv6_tail (k + length gs) True u"
  proof cases
    case nil
    then show ?thesis using assms(1) by (intro exI [of _ "[]"]) (auto simp: ipv6_tail_def)
  next
    case hex
    then show ?thesis by (intro exI [of _ hs] exI [of _ d]) (auto simp: ipv6_tail_def)
  next
    case v4
    then show ?thesis by (intro exI [of _ hs] exI [of _ v]) (auto simp: ipv6_tail_def)
  qed
  then show "ipv6_rest k True w" using ipv6_rest_iff [OF assms(1)] by blast
qed

text \<open>
  The grammar: eight groups; six groups and a dotted decimal tail; or two lists of groups around a
  double colon that leave room for at least one zero group, the second one with or without a
  dotted decimal tail.
\<close>

definition ipv6_grammar :: "string \<Rightarrow> bool" where
  "ipv6_grammar t \<longleftrightarrow>
     (\<exists>gs. hextets gs \<and> length gs = 8 \<and> t = join CHR '':'' gs) \<or>
     (\<exists>gs v. hextets gs \<and> length gs = 6 \<and> ipv4_text v \<and> t = join CHR '':'' (gs @ [v])) \<or>
     (\<exists>gs w. hextets gs \<and> length gs \<le> 7 \<and> compressed (7 - length gs) w \<and> t = join CHR '':'' gs @ ''::'' @ w)"

lemma pre_join: "gs \<noteq> [] \<Longrightarrow> pre CHR '':'' gs = join CHR '':'' gs @ '':''"
  by (cases gs rule: rev_cases) (auto simp: join_snoc)

lemma compressed_Nil: "compressed n []"
  unfolding compressed_def by (intro disjI1 exI [of _ "[]"]) auto

lemma compressed_0: "compressed 0 w \<Longrightarrow> w = []"
  by (auto simp: compressed_def)

lemma hd_pre: "hextets gs \<Longrightarrow> gs \<noteq> [] \<Longrightarrow> hd (pre CHR '':'' gs @ u) \<noteq> CHR '':''"
  by (cases gs) (auto dest: hextet_ends)

text \<open>Reading from the start, for a text that does not begin with a colon.\<close>

text \<open>Both directions of the reading from the start of an address.\<close>

lemma ipv6_rest_sound:
  assumes "\<not> colon_end t" "t \<noteq> []" "hd t \<noteq> CHR '':''" "ipv6_rest 0 False t"
  shows "ipv6_grammar t"
proof -
  obtain gs u where gs: "hextets gs" "length gs \<le> 7" "t = pre CHR '':'' gs @ u" "ipv6_tail (length gs) False u"
    using ipv6_rest_iff [of 0 False t] assms(4) by auto
  have "u \<noteq> []" using gs(1,3) assms(1,2) colon_end_pre by (cases gs rule: rev_cases) auto
  with gs(4) consider (grp) "hextet u" "length gs = 7" | (v4) "ipv4_text u" "length gs = 6"
    | (col) w where "u = CHR '':'' # w" "w = [] \<or> length gs \<noteq> 7 \<and> ipv6_rest (length gs + 1) True w"
    using gs(2) unfolding ipv6_tail_def by fastforce
  then show ?thesis
  proof cases
    case grp
    then show ?thesis using gs unfolding ipv6_grammar_def
      by (intro disjI1 exI [of _ "gs @ [u]"]) (auto simp: join_snoc)
  next
    case v4
    then show ?thesis using gs unfolding ipv6_grammar_def
      by (intro disjI2 disjI1 exI [of _ gs] exI [of _ u]) (auto simp: join_snoc)
  next
    case col
    then have ne: "gs \<noteq> []" using gs(3) assms(3) by auto
    then have t: "t = join CHR '':'' gs @ ''::'' @ w" using gs(3) col(1) by (simp add: pre_join)
    have "\<not> colon_end w" using assms(1) colon_end_append [of w "join CHR '':'' gs @ ''::''"] by (auto simp: t)
    then have "compressed (7 - length gs) w"
      using col(2) gs(2) ipv6_rest_compressed [of "length gs + 1" w] by (auto simp: compressed_Nil)
    then show ?thesis using gs(1,2) t unfolding ipv6_grammar_def by blast
  qed
qed

lemma ipv6_rest_complete:
  assumes "\<not> colon_end t" "hd t \<noteq> CHR '':''" "ipv6_grammar t"
  shows "ipv6_rest 0 False t"
proof -
  consider (grp) gs where "hextets gs" "length gs = 8" "t = join CHR '':'' gs"
    | (v4) gs v where "hextets gs" "length gs = 6" "ipv4_text v" "t = pre CHR '':'' gs @ v"
    | (col) gs w where "hextets gs" "length gs \<le> 7" "compressed (7 - length gs) w" "t = join CHR '':'' gs @ ''::'' @ w"
    using assms(3) unfolding ipv6_grammar_def join_snoc by blast
  then have "\<exists>gs u. hextets gs \<and> 0 + length gs \<le> 7 \<and> t = pre CHR '':'' gs @ u \<and> ipv6_tail (0 + length gs) False u"
  proof cases
    case grp
    then obtain hs d where "gs = hs @ [d]" by (cases gs rule: rev_cases) auto
    then show ?thesis using grp by (intro exI [of _ hs] exI [of _ d]) (auto simp: ipv6_tail_def join_snoc)
  next
    case v4
    then show ?thesis by (intro exI [of _ gs] exI [of _ v]) (auto simp: ipv6_tail_def)
  next
    case col
    have "gs \<noteq> []" using col(4) assms(2) by auto
    moreover have "\<not> colon_end w" using assms(1) colon_end_append [of w "join CHR '':'' gs @ ''::''"] by (auto simp: col(4))
    then have "w = [] \<or> length gs \<noteq> 7 \<and> ipv6_rest (length gs + 1) True w"
      using col(2,3) compressed_0 ipv6_rest_compressed [of "length gs + 1" w] by (cases "length gs = 7") auto
    ultimately show ?thesis
      using col by (intro exI [of _ gs] exI [of _ "CHR '':'' # w"]) (auto simp: ipv6_tail_def pre_join)
  qed
  then show ?thesis using ipv6_rest_iff [of 0 False t] by blast
qed

lemma ipv6_rest_start:
  assumes "\<not> colon_end t" "t \<noteq> []" "hd t \<noteq> CHR '':''"
  shows "ipv6_rest 0 False t \<longleftrightarrow> ipv6_grammar t"
  using ipv6_rest_sound [OF assms] ipv6_rest_complete [OF assms(1,3)] by blast

lemma ipv6_grammar_colon: "ipv6_grammar (''::'' @ w) \<longleftrightarrow> compressed 7 w"
proof
  assume G: "ipv6_grammar (''::'' @ w)"
  have no: "hd (join CHR '':'' (gs @ [x]) @ y) \<noteq> CHR '':''" if "hextets gs" "x \<noteq> []" "hd x \<noteq> CHR '':''" for gs x y
    using that hd_pre [of gs "x @ y"] unfolding join_snoc by (cases gs) (auto simp: hd_append)
  have no1: "hd (join CHR '':'' gs @ y) \<noteq> CHR '':''" if "hextets gs" "gs \<noteq> []" for gs y
    using that no [of "butlast gs" "last gs" y] by (cases gs rule: rev_cases) (auto dest: hextet_ends)
  from G consider (grp) gs where "hextets gs" "length gs = 8" "''::'' @ w = join CHR '':'' gs @ []"
    | (v4) gs v where "hextets gs" "ipv4_text v" "''::'' @ w = join CHR '':'' (gs @ [v]) @ []"
    | (col) gs u where "hextets gs" "compressed (7 - length gs) u" "''::'' @ w = join CHR '':'' gs @ ''::'' @ u"
    unfolding ipv6_grammar_def by auto
  then show "compressed 7 w"
  proof cases
    case grp
    then have "gs \<noteq> []" by auto
    then show ?thesis using no1 [of gs "[]"] grp by (metis append_Cons list.sel(1))
  next
    case v4
    then show ?thesis using no [of gs v "[]"] ipv4_end [of v] by (metis append_Cons list.sel(1))
  next
    case col
    then have "gs = []" using no1 [of gs "''::'' @ u"] by (metis append_Cons list.sel(1))
    then show ?thesis using col by simp
  qed
next
  assume "compressed 7 w"
  then show "ipv6_grammar (''::'' @ w)" unfolding ipv6_grammar_def by (intro disjI2 exI [of _ "[]"] exI [of _ w]) auto
qed

lemma ipv6_grammar_shape:
  assumes "ipv6_grammar t"
  shows "\<not> colon_end t \<and> length t \<ge> 2 \<and> (hd t = CHR '':'' \<longrightarrow> t ! 1 = CHR '':'')"
proof -
  from assms consider (grp) gs where "hextets gs" "length gs = 8" "t = join CHR '':'' gs"
    | (v4) gs v where "hextets gs" "length gs = 6" "ipv4_text v" "t = pre CHR '':'' gs @ v"
    | (col) gs w where "hextets gs" "compressed (7 - length gs) w" "t = join CHR '':'' gs @ ''::'' @ w"
    unfolding ipv6_grammar_def join_snoc by blast
  then show ?thesis
  proof cases
    case grp
    then obtain g hs d where "gs = (g # hs) @ [d]"
      by (cases gs rule: rev_cases; cases "butlast gs") auto
    then have "t = pre CHR '':'' (g # hs) @ d" "hextets (g # hs)" "hextet d"
      using grp join_snoc [of "CHR '':''" "g # hs" d] by auto
    then show ?thesis
      using hextet_end [of d "pre CHR '':'' (g # hs)"] hd_pre [of "g # hs" d] hextet_ends [of g]
      by (auto simp: Suc_le_eq)
  next
    case v4
    then show ?thesis
      using ipv4_end [of v "pre CHR '':'' gs"] hd_pre [of gs v] by (cases gs) (auto simp: Suc_le_eq)
  next
    case col
    then show ?thesis
      using compressed_end [of _ w "join CHR '':'' gs"] hextet_ends
      by (cases gs; cases "tl gs") auto
  qed
qed

lemma ipv6_text_iff: "ipv6_text t \<longleftrightarrow> ipv6_grammar t"
proof (cases "length t \<ge> 2 \<and> \<not> colon_end t \<and> (t ! 0 = CHR '':'' \<longrightarrow> t ! 1 = CHR '':'')")
  case True
  then have eq: "ipv6_text t \<longleftrightarrow> ipv6_rest 0 False (if t ! 0 = CHR '':'' then tl t else t)"
    using colon_end_nth [of t] by (auto simp: ipv6_text_def)
  have hd0: "hd t = t ! 0" and ne: "t \<noteq> []" using True by (cases t; auto)+
  show ?thesis
  proof (cases "t ! 0 = CHR '':''")
    case colon: True
    then obtain w where w: "t = ''::'' @ w" using True by (cases t; cases "tl t") auto
    have "\<not> colon_end w" using True colon_end_append [of w "''::''"] w by auto
    moreover have "ipv6_rest 0 False (CHR '':'' # w) \<longleftrightarrow> w = [] \<or> ipv6_rest 1 True w"
      by (subst ipv6_rest.simps) simp
    ultimately have "ipv6_text t \<longleftrightarrow> compressed 7 w"
      using eq w ipv6_rest_compressed [of 1 w] by (auto simp: compressed_Nil)
    then show ?thesis using w ipv6_grammar_colon by simp
  next
    case False
    then show ?thesis using eq True hd0 ne ipv6_rest_start [of t] by simp
  qed
next
  case False
  then have "\<not> ipv6_grammar t"
    using ipv6_grammar_shape [of t] hd_conv_nth [of t] by fastforce
  moreover have "\<not> ipv6_text t" using False colon_end_nth [of t] by (auto simp: ipv6_text_def)
  ultimately show ?thesis by blast
qed

section \<open>Properties\<close>

text \<open>Claim C28: \<open>is_valid_ipv4\<close> reads no byte outside the text and accepts a span exactly when it
  holds four decimal numerals from 0 to 255, without leading zeros, separated by dots; the byte
  it may inspect behind the span has no influence.\<close>

theorem is_valid_ipv4_decides:
  assumes "span_ok m s"
  shows "is_valid_ipv4 m s =
    Some (\<exists>a\<le>255. \<exists>b\<le>255. \<exists>c\<le>255. \<exists>d\<le>255. span_str m s = dotted a b c d)"
  using ipv4.refines [OF assms] by (simp add: ipv4_text_iff)

lemma is_valid_ipv4_decides_witness:
  "span_ok ''192.168.0.255.'' \<lparr>sp_s = 0, sp_len = 13\<rparr> \<and>
   is_valid_ipv4 ''192.168.0.255.'' \<lparr>sp_s = 0, sp_len = 13\<rparr> =
     Some (\<exists>a\<le>255. \<exists>b\<le>255. \<exists>c\<le>255. \<exists>d\<le>255.
       span_str ''192.168.0.255.'' \<lparr>sp_s = 0, sp_len = 13\<rparr> = dotted a b c d)"
proof -
  have "span_ok ''192.168.0.255.'' \<lparr>sp_s = 0, sp_len = 13\<rparr>" by (simp add: span_ok_def)
  with is_valid_ipv4_decides show ?thesis by blast
qed

text \<open>Claim C29: \<open>is_valid_ipv6\<close>, on a span that is not followed by a colon, reads no byte outside the
  text and accepts exactly the texts of the address grammar: eight groups of one to four
  hexadecimal digits, six groups and an IPv4 address, or a double colon between two lists of
  groups that leave room for at least one zero group, with an optional IPv4 tail.\<close>

theorem is_valid_ipv6_decides:
  assumes "span_ok m s" "span_next m s \<noteq> CHR '':''"
  shows "is_valid_ipv6 m s = Some (ipv6_grammar (span_str m s))"
  using ipv6.refines [OF assms] by (simp add: ipv6_text_iff)

lemma is_valid_ipv6_decides_witness:
  "span_ok ''2001:db8::10.0.0.1/64'' \<lparr>sp_s = 0, sp_len = 18\<rparr> \<and>
   span_next ''2001:db8::10.0.0.1/64'' \<lparr>sp_s = 0, sp_len = 18\<rparr> \<noteq> CHR '':'' \<and>
   is_valid_ipv6 ''2001:db8::10.0.0.1/64'' \<lparr>sp_s = 0, sp_len = 18\<rparr> =
     Some (ipv6_grammar (span_str ''2001:db8::10.0.0.1/64'' \<lparr>sp_s = 0, sp_len = 18\<rparr>))"
proof -
  have "span_ok ''2001:db8::10.0.0.1/64'' \<lparr>sp_s = 0, sp_len = 18\<rparr>"
    "span_next ''2001:db8::10.0.0.1/64'' \<lparr>sp_s = 0, sp_len = 18\<rparr> \<noteq> CHR '':''"
    by (simp_all add: span_ok_def span_next_def)
  with is_valid_ipv6_decides show ?thesis by blast
qed

text \<open>Without that condition \<open>is_valid_ipv6\<close> looks at the byte behind the span: the three
  groups of the span \<open>1:2:3\<close> are accepted when a colon follows them and rejected otherwise.\<close>

theorem is_valid_ipv6_reads_behind:
  "is_valid_ipv6 ''1:2:3: '' \<lparr>sp_s = 0, sp_len = 5\<rparr> = Some True \<and>
   is_valid_ipv6 ''1:2:3  '' \<lparr>sp_s = 0, sp_len = 5\<rparr> = Some False"
  by code_simp

end
