(* ===== verification/Nat_Punch_Server.thy ===== *)
theory Nat_Punch_Server
  imports Prelude
begin

text \<open>
  The rendezvous server for NAT hole punching (\<open>nat-punch-server.c\<close>): a table of the addresses
  from which public keys were last seen, filled as a ring, and the handling of one datagram. The
  socket calls are the boundary of the model: a datagram comes in with its source address, a reply
  goes out. The locale \<open>registry\<close> is the contract of the table.
\<close>

section \<open>State\<close>

record entry =
  en_pubkey :: "u8 list"
  en_ip :: u32
  en_port :: u16

definition MAX_ENTRIES :: nat where
  "MAX_ENTRIES = 65536"

record server =
  srv_entries :: "entry list"
  srv_next :: u32

definition zero_pubkey :: "u8 list" where
  "zero_pubkey = replicate 32 0"

text \<open>Static storage starts out as zero.\<close>

definition server_start :: server where
  "server_start = \<lparr>srv_entries = replicate MAX_ENTRIES \<lparr>en_pubkey = zero_pubkey, en_ip = 0, en_port = 0\<rparr>, srv_next = 0\<rparr>"

section \<open>Operations\<close>

text \<open>A pointer to an entry is its index, the null pointer \<open>None\<close>.\<close>

definition find_entry :: "server \<Rightarrow> u8 list \<Rightarrow> nat option" where
  "find_entry st key = List.find (\<lambda>i. en_pubkey (srv_entries st ! i) = key) [0..<MAX_ENTRIES]"

definition set_entry :: "nat \<Rightarrow> (entry \<Rightarrow> entry) \<Rightarrow> server \<Rightarrow> server" where
  "set_entry i f st = st\<lparr>srv_entries := (srv_entries st)[i := f (srv_entries st ! i)]\<rparr>"

definition find_or_insert_entry :: "server \<Rightarrow> u8 list \<Rightarrow> nat \<times> server" where
  "find_or_insert_entry st key =
     (case find_entry st key of
        Some i \<Rightarrow> (i, st)
      | None \<Rightarrow>
          let i = unat (srv_next st mod of_nat MAX_ENTRIES);
              st = st\<lparr>srv_next := srv_next st + 1\<rparr> in
          (i, set_entry i (en_pubkey_update (\<lambda>_. key)) st))"

record dgram =
  dg_data :: "u8 list"
  dg_ip :: u32
  dg_port :: u16

datatype reply = Address_Reply u32 u16 | Empty_Reply

text \<open>The bytes that \<open>sendto\<close> is given: the packed structure, or nothing.\<close>

fun reply_data :: "reply \<Rightarrow> u8 list" where
  "reply_data (Address_Reply ip port) = le_bytes 4 (unat ip) @ le_bytes 2 (unat port)"
| "reply_data Empty_Reply = []"

text \<open>
  One turn of the loop in \<open>main\<close>. \<open>recvfrom\<close> delivers at most the 64 bytes of the packet
  structure; a shorter datagram is reported and dropped.
\<close>

definition server_step :: "server \<Rightarrow> dgram \<Rightarrow> server \<times> reply option" where
  "server_step st dg =
     (let packet = take 64 (dg_data dg) in
      if length packet \<noteq> 64 then (st, None)
      else
        let my_pubkey = take 32 packet; their_pubkey = drop 32 packet;
            (i, st) = find_or_insert_entry st my_pubkey;
            st = set_entry i (\<lambda>e. e\<lparr>en_ip := dg_ip dg, en_port := dg_port dg\<rparr>) st in
        (st, Some (case find_entry st their_pubkey of
                     Some j \<Rightarrow> Address_Reply (en_ip (srv_entries st ! j)) (en_port (srv_entries st ! j))
                   | None \<Rightarrow> Empty_Reply)))"

text \<open>The loop over a sequence of datagrams, and the replies it sends.\<close>

fun server_run :: "server \<Rightarrow> dgram list \<Rightarrow> server \<times> reply option list" where
  "server_run st [] = (st, [])"
| "server_run st (dg # dgs) =
     (let (st, r) = server_step st dg; (st, rs) = server_run st dgs in (st, r # rs))"

text \<open>
  The program: the error numbers of the calls that set up the socket, \<open>bind\<close> given its address and
  port; then the loop, which never ends, over the datagrams that arrive.
\<close>

definition SERVER_PORT :: u16 where
  "SERVER_PORT = 49918"

definition server_main ::
  "int option \<Rightarrow> int option \<Rightarrow> (u32 \<Rightarrow> u16 \<Rightarrow> int option) \<Rightarrow> dgram list \<Rightarrow> int + server \<times> reply option list" where
  "server_main sys_socket sys_setsockopt sys_bind dgs =
     (case sys_socket of
        Some e \<Rightarrow> Inl e
      | None \<Rightarrow>
          (case sys_setsockopt of
             Some e \<Rightarrow> Inl e
           | None \<Rightarrow>
               (case sys_bind 0 SERVER_PORT of
                  Some e \<Rightarrow> Inl e
                | None \<Rightarrow> Inr (server_run server_start dgs))))"

section \<open>Finding entries\<close>

lemma find_upt_Some:
  "List.find P [0..<n] = Some i \<longleftrightarrow> i < n \<and> P i \<and> (\<forall>j<i. \<not> P j)"
  by (auto simp: find_Some_iff)

lemma find_entry_Some:
  "find_entry st key = Some i \<longleftrightarrow> i < MAX_ENTRIES \<and> en_pubkey (srv_entries st ! i) = key \<and>
     (\<forall>j<i. en_pubkey (srv_entries st ! j) \<noteq> key)"
  by (simp add: find_entry_def find_upt_Some)

lemma find_entry_None:
  "find_entry st key = None \<longleftrightarrow> (\<forall>i<MAX_ENTRIES. en_pubkey (srv_entries st ! i) \<noteq> key)"
  by (auto simp: find_entry_def find_None_iff)

lemma next_slot: "unat (n mod of_nat MAX_ENTRIES :: u32) = unat n mod MAX_ENTRIES"
  by (simp add: MAX_ENTRIES_def unat_mod)

text \<open>The slot handed out always exists and holds the key, and no other slot changes.\<close>

lemma find_or_insert_entry_slot:
  assumes "length (srv_entries st) = MAX_ENTRIES" "find_or_insert_entry st key = (i, st')"
  shows "i < MAX_ENTRIES" "en_pubkey (srv_entries st' ! i) = key" "length (srv_entries st') = MAX_ENTRIES"
    "\<forall>j. j \<noteq> i \<longrightarrow> srv_entries st' ! j = srv_entries st ! j"
proof -
  have pos: "unat (srv_next st mod of_nat MAX_ENTRIES) < MAX_ENTRIES"
    unfolding next_slot by (simp add: MAX_ENTRIES_def)
  show "i < MAX_ENTRIES" "en_pubkey (srv_entries st' ! i) = key" "length (srv_entries st') = MAX_ENTRIES"
    "\<forall>j. j \<noteq> i \<longrightarrow> srv_entries st' ! j = srv_entries st ! j"
    using assms pos find_entry_Some [of st key]
    by (auto simp: find_or_insert_entry_def set_entry_def Let_def split: option.splits)
qed

section \<open>Uniqueness\<close>

text \<open>No key other than the zero key of unused slots occurs twice.\<close>

definition unique_keys :: "server \<Rightarrow> bool" where
  "unique_keys st \<longleftrightarrow> length (srv_entries st) = MAX_ENTRIES \<and>
     (\<forall>i<MAX_ENTRIES. \<forall>j<MAX_ENTRIES. i \<noteq> j \<longrightarrow>
        en_pubkey (srv_entries st ! i) = en_pubkey (srv_entries st ! j) \<longrightarrow> en_pubkey (srv_entries st ! i) = zero_pubkey)"

lemma unique_keys_start: "unique_keys server_start"
  by (simp add: unique_keys_def server_start_def)

lemma unique_keys_insert:
  assumes "unique_keys st" "find_or_insert_entry st key = (i, st')"
  shows "unique_keys st'"
proof (cases "find_entry st key")
  case None
  have len: "length (srv_entries st) = MAX_ENTRIES" using assms(1) by (simp add: unique_keys_def)
  note slot = find_or_insert_entry_slot [OF len assms(2)]
  have other: "en_pubkey (srv_entries st' ! j) \<noteq> key" if "j < MAX_ENTRIES" "j \<noteq> i" for j
    using None that slot(4) by (simp add: find_entry_None)
  show ?thesis
    unfolding unique_keys_def
  proof (intro conjI allI impI)
    fix a b
    assume ab: "a < MAX_ENTRIES" "b < MAX_ENTRIES" "a \<noteq> b"
      "en_pubkey (srv_entries st' ! a) = en_pubkey (srv_entries st' ! b)"
    then have "a \<noteq> i" "b \<noteq> i" using other slot(2) by metis+
    then show "en_pubkey (srv_entries st' ! a) = zero_pubkey"
      using ab assms(1) slot(4) by (simp add: unique_keys_def)
  qed (rule slot(3))
next
  case (Some k)
  then show ?thesis using assms by (simp add: find_or_insert_entry_def)
qed

lemma unique_keys_address:
  assumes "unique_keys st"
  shows "unique_keys (set_entry i (\<lambda>e. e\<lparr>en_ip := ip, en_port := port\<rparr>) st)"
proof -
  have "en_pubkey ((srv_entries st)[i := (srv_entries st ! i)\<lparr>en_ip := ip, en_port := port\<rparr>] ! j) =
      en_pubkey (srv_entries st ! j)" for j
    by (cases "i < length (srv_entries st)") (auto simp: nth_list_update list_update_beyond)
  then show ?thesis using assms by (simp add: unique_keys_def set_entry_def)
qed

lemma unique_keys_step: "unique_keys st \<Longrightarrow> unique_keys (fst (server_step st dg))"
  by (auto simp: server_step_def Let_def unique_keys_address unique_keys_insert split: prod.splits)

lemma unique_keys_run: "unique_keys st \<Longrightarrow> unique_keys (fst (server_run st dgs))"
proof (induction dgs arbitrary: st)
  case (Cons dg dgs)
  then show ?case using unique_keys_step [of st dg] by (auto simp: Let_def case_prod_unfold)
qed simp

section \<open>The contract of a registry\<close>

lemma room_left:
  assumes "distinct ks" "finite S" "k \<in> S" "card (set ks \<union> S) \<le> n"
  shows "k \<in> set ks \<or> length ks < n"
proof (rule ccontr)
  assume full: "\<not> (k \<in> set ks \<or> length ks < n)"
  then have "card (insert k (set ks)) = Suc (length ks)" using assms(1) by (simp add: distinct_card)
  moreover have "card (insert k (set ks)) \<le> card (set ks \<union> S)"
    by (rule card_mono) (use assms in auto)
  ultimately show False using full assms(4) by simp
qed

text \<open>
  A store of the last value registered for a key. \<open>room\<close> tells whether a key can be
  registered without losing another one.
\<close>

locale registry =
  fixes register :: "'k \<Rightarrow> 'a \<Rightarrow> 's \<Rightarrow> 's" and lookup :: "'s \<Rightarrow> 'k \<Rightarrow> 'a option"
    and inv :: "'k list \<Rightarrow> 's \<Rightarrow> bool" and key_ok :: "'k \<Rightarrow> bool" and capacity :: nat
  assumes inv_register:
      "inv ks s \<Longrightarrow> key_ok k \<Longrightarrow> k \<in> set ks \<or> length ks < capacity \<Longrightarrow>
       inv (if k \<in> set ks then ks else ks @ [k]) (register k a s)"
    and lookup_register:
      "inv ks s \<Longrightarrow> key_ok k \<Longrightarrow> k \<in> set ks \<or> length ks < capacity \<Longrightarrow> key_ok k' \<Longrightarrow>
       lookup (register k a s) k' = (if k' = k then Some a else lookup s k')"
begin

text \<open>A sequence of registrations that fits is remembered exactly.\<close>

lemma lookup_sequence:
  assumes "inv ks s" "\<forall>(k, a) \<in> set rs. key_ok k" "card (set ks \<union> fst ` set rs) \<le> capacity"
    and "distinct ks" "key_ok k'"
  shows "lookup (fold (\<lambda>(k, a). register k a) rs s) k' =
    (case map_of (rev rs) k' of Some a \<Rightarrow> Some a | None \<Rightarrow> lookup s k')"
  using assms
proof (induction rs arbitrary: ks s)
  case (Cons r rs)
  obtain k a where r: "r = (k, a)" by (cases r)
  let ?ks = "if k \<in> set ks then ks else ks @ [k]"
  have k: "key_ok k" using Cons.prems(2) by (simp add: r)
  have card: "card (set ks \<union> fst ` set (r # rs)) \<le> capacity" by (rule Cons.prems(3))
  have room: "k \<in> set ks \<or> length ks < capacity"
    by (rule room_left [OF Cons.prems(4) _ _ card]) (auto simp: r)
  have "set ?ks \<union> fst ` set rs = set ks \<union> fst ` set (r # rs)" by (auto simp: r)
  then have "lookup (fold (\<lambda>(k, a). register k a) rs (register k a s)) k' =
      (case map_of (rev rs) k' of Some a \<Rightarrow> Some a | None \<Rightarrow> lookup (register k a s) k')"
    using Cons.prems by (intro Cons.IH [OF inv_register [OF Cons.prems(1) k room]]) (auto simp: r)
  then show ?case
    using lookup_register [OF Cons.prems(1) k room Cons.prems(5)]
    by (auto simp: r map_add_def split: option.splits)
qed simp

end

section \<open>The table as a registry\<close>

definition server_lookup :: "server \<Rightarrow> u8 list \<Rightarrow> (u32 \<times> u16) option" where
  "server_lookup st key =
     map_option (\<lambda>i. (en_ip (srv_entries st ! i), en_port (srv_entries st ! i))) (find_entry st key)"

definition server_register :: "u8 list \<Rightarrow> u32 \<times> u16 \<Rightarrow> server \<Rightarrow> server" where
  "server_register key addr st =
     (case find_or_insert_entry st key of
        (i, st) \<Rightarrow> set_entry i (\<lambda>e. e\<lparr>en_ip := fst addr, en_port := snd addr\<rparr>) st)"

text \<open>The first slots hold the registered keys in their order, the others are unused.\<close>

definition filled :: "u8 list list \<Rightarrow> server \<Rightarrow> bool" where
  "filled ks st \<longleftrightarrow> length (srv_entries st) = MAX_ENTRIES \<and> length ks \<le> MAX_ENTRIES \<and> distinct ks \<and>
     zero_pubkey \<notin> set ks \<and> srv_next st = of_nat (length ks) \<and>
     (\<forall>i<length ks. en_pubkey (srv_entries st ! i) = ks ! i) \<and>
     (\<forall>i. length ks \<le> i \<and> i < MAX_ENTRIES \<longrightarrow> en_pubkey (srv_entries st ! i) = zero_pubkey)"

lemma filled_start: "filled [] server_start"
  by (simp add: filled_def server_start_def)

lemma filled_find:
  assumes "filled ks st" "key \<noteq> zero_pubkey"
  shows "find_entry st key = Some i \<longleftrightarrow> i < length ks \<and> ks ! i = key"
proof
  assume "find_entry st key = Some i"
  then show "i < length ks \<and> ks ! i = key"
    using assms unfolding find_entry_Some filled_def by (metis not_le)
next
  assume i: "i < length ks \<and> ks ! i = key"
  then have "\<forall>j<i. ks ! j \<noteq> key" using assms(1) by (auto simp: filled_def nth_eq_iff_index_eq)
  then show "find_entry st key = Some i" using i assms(1) unfolding find_entry_Some filled_def by auto
qed

lemma filled_find_None:
  assumes "filled ks st" "key \<noteq> zero_pubkey"
  shows "find_entry st key = None \<longleftrightarrow> key \<notin> set ks"
proof -
  have "(\<exists>i. find_entry st key = Some i) \<longleftrightarrow> key \<in> set ks"
    unfolding filled_find [OF assms] by (auto simp: in_set_conv_nth)
  then show ?thesis by (metis option.exhaust option.distinct(1))
qed

lemma set_address_pubkey [simp]:
  "en_pubkey (srv_entries (set_entry i (\<lambda>e. e\<lparr>en_ip := ip, en_port := port\<rparr>) st) ! j) = en_pubkey (srv_entries st ! j)"
  by (cases "i < length (srv_entries st)") (auto simp: set_entry_def nth_list_update list_update_beyond)

lemma set_entry_fields [simp]:
  "length (srv_entries (set_entry i f st)) = length (srv_entries st)" "srv_next (set_entry i f st) = srv_next st"
  by (simp_all add: set_entry_def)

lemma filled_set_address:
  "filled ks (set_entry i (\<lambda>e. e\<lparr>en_ip := ip, en_port := port\<rparr>) st) \<longleftrightarrow> filled ks st"
  by (simp add: filled_def)

text \<open>The slot of a key, and the state after it has been looked up or inserted.\<close>

lemma filled_slot:
  assumes f: "filled ks st" and key: "key \<noteq> zero_pubkey" and room: "key \<in> set ks \<or> length ks < MAX_ENTRIES"
    and run: "find_or_insert_entry st key = (i, st')"
  defines "ks' \<equiv> if key \<in> set ks then ks else ks @ [key]"
  shows "filled ks' st'" "i < length ks'" "ks' ! i = key" "\<forall>j<length ks. j \<noteq> i \<longrightarrow> srv_entries st' ! j = srv_entries st ! j"
proof -
  have len: "length (srv_entries st) = MAX_ENTRIES" using f by (simp add: filled_def)
  note slot = find_or_insert_entry_slot [OF len run]
  show "\<forall>j<length ks. j \<noteq> i \<longrightarrow> srv_entries st' ! j = srv_entries st ! j" using slot(4) by blast
  show "filled ks' st'" "i < length ks'" "ks' ! i = key"
  proof (atomize (full), cases "key \<in> set ks")
    case True
    then obtain k where "find_entry st key = Some k" using filled_find_None [OF f key] by fastforce
    then show "filled ks' st' \<and> i < length ks' \<and> ks' ! i = key"
      using True run f filled_find [OF f key, of k] by (simp add: find_or_insert_entry_def ks'_def)
  next
    case False
    then have lt: "length ks < MAX_ENTRIES" using room by simp
    have none: "find_entry st key = None" using False filled_find_None [OF f key] by simp
    have "srv_next st = of_nat (length ks)" using f by (simp add: filled_def)
    then have "unat (srv_next st mod of_nat MAX_ENTRIES) = length ks"
      using lt unfolding next_slot by (simp add: unat_of_nat MAX_ENTRIES_def)
    then have i: "i = length ks" and st': "srv_next st' = srv_next st + 1"
      using run none by (auto simp: find_or_insert_entry_def Let_def)
    have "filled (ks @ [key]) st'"
      unfolding filled_def
    proof (intro conjI allI impI)
      fix j assume "j < length (ks @ [key])"
      then show "en_pubkey (srv_entries st' ! j) = (ks @ [key]) ! j"
        using f slot(2,4) i by (cases "j = length ks") (auto simp: filled_def nth_append)
    next
      fix j assume "length (ks @ [key]) \<le> j \<and> j < MAX_ENTRIES"
      then show "en_pubkey (srv_entries st' ! j) = zero_pubkey" using f slot(4) i by (simp add: filled_def)
    qed (use f slot(3) lt False key st' in \<open>auto simp: filled_def\<close>)
    then show "filled ks' st' \<and> i < length ks' \<and> ks' ! i = key" using False i by (simp add: ks'_def)
  qed
qed

lemma filled_register:
  assumes f: "filled ks st" and key: "key \<noteq> zero_pubkey" and room: "key \<in> set ks \<or> length ks < MAX_ENTRIES"
  shows "filled (if key \<in> set ks then ks else ks @ [key]) (server_register key addr st)"
    and "k' \<noteq> zero_pubkey \<Longrightarrow> server_lookup (server_register key addr st) k' =
      (if k' = key then Some addr else server_lookup st k')"
proof -
  let ?ks = "if key \<in> set ks then ks else ks @ [key]"
  obtain i st' where run: "find_or_insert_entry st key = (i, st')" by fastforce
  note slot = filled_slot [OF f key room run]
  let ?st = "set_entry i (\<lambda>e. e\<lparr>en_ip := fst addr, en_port := snd addr\<rparr>) st'"
  have reg: "server_register key addr st = ?st" by (simp add: server_register_def run)
  show fl: "filled ?ks (server_register key addr st)" unfolding reg filled_set_address using slot(1) by simp
  have len: "length (srv_entries st') = MAX_ENTRIES" "length ?ks \<le> MAX_ENTRIES" using slot(1) by (simp_all add: filled_def)
  assume k': "k' \<noteq> zero_pubkey"
  note find' = filled_find [OF fl k', unfolded reg]
  show "server_lookup (server_register key addr st) k' = (if k' = key then Some addr else server_lookup st k')"
  proof (cases "k' = key")
    case True
    then have "find_entry ?st k' = Some i" using find' slot(2,3) by simp
    then show ?thesis using True slot(2) len by (simp add: server_lookup_def reg set_entry_def)
  next
    case False
    have eq: "find_entry ?st k' = find_entry st k'"
    proof (cases "find_entry st k'")
      case (Some j)
      then have "j < length ?ks \<and> ?ks ! j = k'" using filled_find [OF f k'] by (auto simp: nth_append)
      then show ?thesis using Some find' by simp
    next
      case None
      then have "k' \<notin> set ?ks" using filled_find_None [OF f k'] False by auto
      then show ?thesis using None filled_find_None [OF fl k', unfolded reg] by simp
    qed
    show ?thesis
    proof (cases "find_entry st k'")
      case (Some j)
      then have j: "j < length ks" "ks ! j = k'" using filled_find [OF f k'] by auto
      then have "j \<noteq> i" using slot(3) False by (auto simp: nth_append split: if_splits)
      then show ?thesis using Some eq False j slot(4) by (simp add: server_lookup_def reg set_entry_def)
    next
      case None
      then show ?thesis using eq False by (simp add: server_lookup_def reg)
    qed
  qed
qed

text \<open>
  Without any bound on the keys: a key that has just been registered is found with its address, and
  registering it again with the same address changes nothing.
\<close>

lemma find_registered:
  assumes "length (srv_entries st) = MAX_ENTRIES" "find_or_insert_entry st key = (i, st')"
  shows "find_entry (server_register key addr st) key = Some i"
proof -
  note slot = find_or_insert_entry_slot [OF assms]
  have "en_pubkey (srv_entries st' ! j) \<noteq> key" if "j < i" for j
  proof (cases "find_entry st key")
    case None
    then show ?thesis using that slot(1,4) by (simp add: find_entry_None)
  next
    case (Some k)
    then show ?thesis using that assms(2) find_entry_Some [of st key k] by (simp add: find_or_insert_entry_def)
  qed
  then show ?thesis using slot(1,2) by (simp add: find_entry_Some server_register_def assms(2))
qed

lemma server_register_length:
  "length (srv_entries st) = MAX_ENTRIES \<Longrightarrow> length (srv_entries (server_register key addr st)) = MAX_ENTRIES"
  using find_or_insert_entry_slot(3) [of st key] by (auto simp: server_register_def split: prod.split)

lemma server_register_idem:
  assumes "length (srv_entries st) = MAX_ENTRIES"
  shows "server_register key addr (server_register key addr st) = server_register key addr st"
proof -
  obtain i st' where run: "find_or_insert_entry st key = (i, st')" by fastforce
  have i: "i < length (srv_entries st')" using find_or_insert_entry_slot(1,3) [OF assms run] by simp
  have again: "find_or_insert_entry (server_register key addr st) key = (i, server_register key addr st)"
    unfolding find_or_insert_entry_def find_registered [OF assms run] by simp
  have "set_entry i (\<lambda>e. e\<lparr>en_ip := fst addr, en_port := snd addr\<rparr>) (server_register key addr st) = server_register key addr st"
    using i by (simp add: server_register_def run set_entry_def)
  then show ?thesis by (subst server_register_def) (simp add: again)
qed

interpretation table: registry server_register server_lookup filled "\<lambda>k. k \<noteq> zero_pubkey" MAX_ENTRIES
  by unfold_locales (use filled_register in blast)+

section \<open>Refinement\<close>

text \<open>
  The abstract server keeps a map from keys to addresses: a well-sized datagram registers its
  sender and is answered with the address of the other key.
\<close>

definition spec_step ::
  "(u8 list \<rightharpoonup> u32 \<times> u16) \<Rightarrow> dgram \<Rightarrow> (u8 list \<rightharpoonup> u32 \<times> u16) \<times> reply option" where
  "spec_step m dg =
     (if length (dg_data dg) < 64 then (m, None)
      else
        let m = m(take 32 (dg_data dg) \<mapsto> (dg_ip dg, dg_port dg)) in
        (m, Some (case m (take 32 (drop 32 (dg_data dg))) of
                    Some (ip, port) \<Rightarrow> Address_Reply ip port
                  | None \<Rightarrow> Empty_Reply)))"

fun spec_run ::
  "(u8 list \<rightharpoonup> u32 \<times> u16) \<Rightarrow> dgram list \<Rightarrow> (u8 list \<rightharpoonup> u32 \<times> u16) \<times> reply option list" where
  "spec_run m [] = (m, [])"
| "spec_run m (dg # dgs) = (let (m, r) = spec_step m dg; (m, rs) = spec_run m dgs in (m, r # rs))"

definition dg_keys_ok :: "dgram \<Rightarrow> bool" where
  "dg_keys_ok dg \<longleftrightarrow> 64 \<le> length (dg_data dg) \<longrightarrow>
     take 32 (dg_data dg) \<noteq> zero_pubkey \<and> take 32 (drop 32 (dg_data dg)) \<noteq> zero_pubkey"

definition senders :: "dgram list \<Rightarrow> u8 list set" where
  "senders dgs = {take 32 (dg_data dg) | dg. dg \<in> set dgs \<and> 64 \<le> length (dg_data dg)}"

definition simulates :: "u8 list list \<Rightarrow> server \<Rightarrow> (u8 list \<rightharpoonup> u32 \<times> u16) \<Rightarrow> bool" where
  "simulates ks st m \<longleftrightarrow> filled ks st \<and> (\<forall>k. k \<noteq> zero_pubkey \<longrightarrow> m k = server_lookup st k)"

lemma server_step_register:
  assumes "64 \<le> length (dg_data dg)"
  shows "server_step st dg =
    (let st = server_register (take 32 (dg_data dg)) (dg_ip dg, dg_port dg) st in
     (st, Some (case server_lookup st (take 32 (drop 32 (dg_data dg))) of
                  Some (ip, port) \<Rightarrow> Address_Reply ip port
                | None \<Rightarrow> Empty_Reply)))"
  using assms
  by (simp add: server_step_def server_register_def server_lookup_def Let_def drop_take min_def split: prod.splits option.splits)

lemma step_simulates:
  assumes sim: "simulates ks st m" and ok: "dg_keys_ok dg" and long: "64 \<le> length (dg_data dg)"
    and room: "take 32 (dg_data dg) \<in> set ks \<or> length ks < MAX_ENTRIES"
  shows "\<exists>st' m' r. server_step st dg = (st', r) \<and> spec_step m dg = (m', r) \<and>
    simulates (if take 32 (dg_data dg) \<in> set ks then ks else ks @ [take 32 (dg_data dg)]) st' m'"
proof -
  let ?my = "take 32 (dg_data dg)" and ?their = "take 32 (drop 32 (dg_data dg))"
  let ?st = "server_register ?my (dg_ip dg, dg_port dg) st" and ?m = "m(?my \<mapsto> (dg_ip dg, dg_port dg))"
  have k: "?my \<noteq> zero_pubkey" "?their \<noteq> zero_pubkey" using ok long by (auto simp: dg_keys_ok_def)
  have f: "filled ks st" using sim by (simp add: simulates_def)
  have m: "?m k' = server_lookup ?st k'" if "k' \<noteq> zero_pubkey" for k'
    using table.lookup_register [OF f k(1) room that] sim that by (simp add: simulates_def)
  have "simulates (if ?my \<in> set ks then ks else ks @ [?my]) ?st ?m"
    using m table.inv_register [OF f k(1) room] by (simp add: simulates_def)
  moreover have "spec_step m dg = (?m, Some (case ?m ?their of Some (ip, port) \<Rightarrow> Address_Reply ip port | None \<Rightarrow> Empty_Reply))"
    using long by (simp add: spec_step_def Let_def)
  moreover have "server_step st dg =
      (?st, Some (case server_lookup ?st ?their of Some (ip, port) \<Rightarrow> Address_Reply ip port | None \<Rightarrow> Empty_Reply))"
    by (simp add: server_step_register [OF long] Let_def)
  ultimately show ?thesis using m [OF k(2)] by metis
qed

lemma run_simulates:
  "simulates ks st m \<Longrightarrow> \<forall>dg\<in>set dgs. dg_keys_ok dg \<Longrightarrow> card (set ks \<union> senders dgs) \<le> MAX_ENTRIES \<Longrightarrow>
     snd (server_run st dgs) = snd (spec_run m dgs) \<and>
     (\<exists>ks'. set ks' = set ks \<union> senders dgs \<and> simulates ks' (fst (server_run st dgs)) (fst (spec_run m dgs)))"
proof (induction dgs arbitrary: ks st m)
  case (Cons dg dgs)
  show ?case
  proof (cases "64 \<le> length (dg_data dg)")
    case True
    let ?my = "take 32 (dg_data dg)"
    let ?ks = "if ?my \<in> set ks then ks else ks @ [?my]"
    have s: "senders (dg # dgs) = insert ?my (senders dgs)" using True by (auto simp: senders_def)
    have fin: "finite (senders dgs)" by (simp add: senders_def)
    have d: "distinct ks" using Cons.prems(1) by (simp add: simulates_def filled_def)
    have room: "?my \<in> set ks \<or> length ks < MAX_ENTRIES"
      by (rule room_left [OF d _ _ Cons.prems(3)]) (auto simp: s fin)
    have ok: "dg_keys_ok dg" using Cons.prems(2) by simp
    obtain st' m' r where st': "server_step st dg = (st', r)" "spec_step m dg = (m', r)" "simulates ?ks st' m'"
      using step_simulates [OF Cons.prems(1) ok True room] by blast
    have "set ?ks \<union> senders dgs = set ks \<union> senders (dg # dgs)" by (auto simp: s)
    then show ?thesis
      using Cons.IH [OF st'(3)] Cons.prems(2,3) st'(1,2) by (simp add: case_prod_unfold Let_def)
  next
    case False
    have "set ks \<union> senders dgs = set ks \<union> senders (dg # dgs)" using False by (auto simp: senders_def)
    then show ?thesis
      using Cons.IH [OF Cons.prems(1)] Cons.prems(2,3) False
      by (simp add: server_step_def spec_step_def case_prod_unfold Let_def)
  qed
qed (auto simp: senders_def)

lemma simulates_start: "simulates [] server_start Map.empty"
proof -
  have "find_entry server_start k = None" if "k \<noteq> zero_pubkey" for k
    using that filled_find_None [OF filled_start] by simp
  then show ?thesis using filled_start by (simp add: simulates_def server_lookup_def)
qed

section \<open>Properties\<close>

text \<open>Claim C16: as long as no more than \<open>MAX_ENTRIES\<close> different keys send datagrams, and the zero key is
  neither sent nor asked for, the server's replies are those of the abstract server, which remembers
  for every key the address it was last seen from.\<close>

theorem server_refines_map:
  assumes "\<forall>dg\<in>set dgs. dg_keys_ok dg" "card (senders dgs) \<le> MAX_ENTRIES"
  shows "snd (server_run server_start dgs) = snd (spec_run Map.empty dgs)"
  using run_simulates [OF simulates_start assms(1)] assms(2) by simp

definition sample_dgram :: dgram where
  "sample_dgram = \<lparr>dg_data = replicate 32 1 @ replicate 32 2, dg_ip = 1, dg_port = 2\<rparr>"

lemma server_refines_map_witness:
  "dg_keys_ok sample_dgram \<and> card (senders [sample_dgram]) \<le> MAX_ENTRIES \<and>
   snd (server_run server_start [sample_dgram]) = snd (spec_run Map.empty [sample_dgram])"
proof -
  have ok: "\<forall>dg\<in>set [sample_dgram]. dg_keys_ok dg"
    by (simp add: dg_keys_ok_def sample_dgram_def zero_pubkey_def)
  have "senders [sample_dgram] = {replicate 32 1}" by (auto simp: senders_def sample_dgram_def)
  then have "card (senders [sample_dgram]) \<le> MAX_ENTRIES" by (simp add: MAX_ENTRIES_def)
  with ok server_refines_map [OF ok] show ?thesis by simp
qed

text \<open>Claim C34: whatever datagrams arrive, however many keys there are and even when the 32-bit counter
  wraps around, the table keeps its size and no key but the zero key of unused slots is in it twice.\<close>

theorem server_table_invariant:
  "unique_keys (fst (server_run server_start dgs))"
  by (rule unique_keys_run [OF unique_keys_start])

text \<open>A request for the zero key is answered with the contents of an unused slot as long as the
  table is not full, instead of the empty reply.\<close>

lemma server_zero_key_reply:
  assumes "length (dg_data dg) = 64" "take 32 (dg_data dg) \<noteq> zero_pubkey" "drop 32 (dg_data dg) = zero_pubkey"
  shows "snd (server_step server_start dg) = Some (Address_Reply 0 0)"
proof -
  let ?my = "take 32 (dg_data dg)"
  let ?st = "server_register ?my (dg_ip dg, dg_port dg) server_start"
  obtain i st' where run: "find_or_insert_entry server_start ?my = (i, st')" by fastforce
  have room: "?my \<in> set [] \<or> length ([] :: u8 list list) < MAX_ENTRIES" by (simp add: MAX_ENTRIES_def)
  note slot = filled_slot [OF filled_start assms(2) room run]
  have i: "i = 0" and f: "filled [?my] ?st"
    using slot(2) filled_register(1) [OF filled_start assms(2) room] by simp_all
  have "length (srv_entries server_start) = MAX_ENTRIES" by (simp add: server_start_def)
  note keep = find_or_insert_entry_slot(4) [OF this run]
  have "1 < MAX_ENTRIES" by (simp add: MAX_ENTRIES_def)
  then have e1: "srv_entries ?st ! 1 = \<lparr>en_pubkey = zero_pubkey, en_ip = 0, en_port = 0\<rparr>"
    using keep i run by (simp add: server_register_def set_entry_def server_start_def)
  have "find_entry ?st zero_pubkey = Some 1"
    using f e1 assms(2) \<open>1 < MAX_ENTRIES\<close> unfolding find_entry_Some filled_def by simp
  then have "server_lookup ?st zero_pubkey = Some (0, 0)" using e1 by (simp add: server_lookup_def)
  moreover have "take 32 zero_pubkey = zero_pubkey" by (simp add: zero_pubkey_def)
  ultimately show ?thesis using assms by (simp add: server_step_register Let_def)
qed

lemma server_zero_key_reply_witness:
  "length (replicate 32 1 @ replicate 32 0 :: u8 list) = 64 \<and>
   snd (server_step server_start \<lparr>dg_data = replicate 32 1 @ replicate 32 0, dg_ip = 1, dg_port = 2\<rparr>) = Some (Address_Reply 0 0)"
  using server_zero_key_reply [of "\<lparr>dg_data = replicate 32 1 @ replicate 32 0, dg_ip = 1, dg_port = 2\<rparr>"]
  by (simp add: zero_pubkey_def)

end
