(* ===== verification/C_Stdio.thy ===== *)
theory C_Stdio
  imports Prelude
begin

text \<open>
  What the programs use of \<open>stdio\<close>: reading lines of a stream and printing numbers. A stream is
  the characters that are left of it.
\<close>

abbreviation newline :: char where
  "newline \<equiv> CHR 0x0A"

text \<open>\<open>fgets\<close>: at most \<open>n - 1\<close> characters, up to and including a newline; the rest of the stream.\<close>

definition c_fgets :: "nat \<Rightarrow> string \<Rightarrow> (string \<times> string) option" where
  "c_fgets n s =
     (if s = [] then None
      else
        let k = length (takeWhile (\<lambda>c. c \<noteq> newline) s) + 1; got = take (min k (n - 1)) s in
        Some (got, drop (length got) s))"

text \<open>\<open>strlen\<close> of a buffer that \<open>fgets\<close> has filled: an embedded NUL ends the string.\<close>

definition buf_len :: "string \<Rightarrow> nat" where
  "buf_len got = length (takeWhile (\<lambda>c. c \<noteq> CHR 0x00) got)"

lemma c_fgets_shrinks: "c_fgets n s = Some (got, rest) \<Longrightarrow> 2 \<le> n \<Longrightarrow> length rest < length s"
  by (auto simp: c_fgets_def Let_def split: if_splits)

text \<open>The decimal digits of \<open>%u\<close>, the sign of \<open>%d\<close>, and hexadecimal digits of a fixed number.\<close>

fun dec_digits :: "nat \<Rightarrow> string" where
  "dec_digits n = (if n < 10 then [char_of (48 + n)] else dec_digits (n div 10) @ [char_of (48 + n mod 10)])"

declare dec_digits.simps [simp del]

definition dec_int :: "int \<Rightarrow> string" where
  "dec_int i = (if i < 0 then ''-'' @ dec_digits (nat (- i)) else dec_digits (nat i))"

definition hex_digit :: "nat \<Rightarrow> char" where
  "hex_digit d = (if d < 10 then char_of (48 + d) else char_of (87 + d))"

primrec hex_digits :: "nat \<Rightarrow> nat \<Rightarrow> string" where
  "hex_digits 0 x = []"
| "hex_digits (Suc n) x = hex_digits n (x div 16) @ [hex_digit (x mod 16)]"

lemma length_hex_digits [simp]: "length (hex_digits n x) = n"
  by (induction n arbitrary: x) simp_all

end
