(* ===== verification/Nat_Punch_Client.thy ===== *)
theory Nat_Punch_Client
  imports Nat_Punch_Server Spans C_Stdio
begin

text \<open>
  The hole punching client (\<open>nat-punch-client.c\<close>): reading the peers from the output of
  \<open>wg show\<close>, the packet filter of its raw socket, and the loop that asks the server for every
  peer until it knows all addresses. The shell (\<open>popen\<close>), \<open>b64_pton\<close>, the resolver and
  the network are parameters. A call of \<open>exit\<close> or a \<open>return\<close> of \<open>main\<close> with an error is
  \<open>Inl\<close> of its code, an undefined access (a null pointer, the end of an array) is \<open>None\<close>.
\<close>

section \<open>Commands\<close>

definition cmd :: "(string \<Rightarrow> int + string) \<Rightarrow> string \<Rightarrow> int + string option" where
  "cmd popen line =
     (case popen (take 2046 line) of
        Inl e \<Rightarrow> Inl e
      | Inr out \<Rightarrow> Inr
          (case c_fgets 2048 out of
             None \<Rightarrow> None
           | Some (buf, _) \<Rightarrow>
               let len = buf_len buf in
               if len = 0 then None
               else if buf ! (len - 1) = newline then Some (take (len - 1) buf)
               else Some (take len buf)))"

section \<open>Peers\<close>

record peer =
  pr_key :: string
  pr_seen :: bool

definition MAX_PEERS :: nat where
  "MAX_PEERS = 65536"

text \<open>
  The loop of \<open>read_peers\<close>; the number of peers is the length of the list. \<open>fgets\<close> writes
  through \<open>peers[total_peers]\<close> unless the stream is at its end.
\<close>

function read_peers_loop :: "string \<Rightarrow> peer list \<Rightarrow> peer list option" where
  "read_peers_loop s ps =
     (case c_fgets 45 s of
        None \<Rightarrow> Some ps
      | Some (got, rest) \<Rightarrow>
          if length ps \<ge> MAX_PEERS then None
          else
            let len = buf_len got in
            if len \<noteq> 44 \<and> len \<noteq> 45 then read_peers_loop rest ps
            else
              let key = (if got ! (len - 1) = newline then take (len - 1) got else take len got) in
              read_peers_loop rest (ps @ [\<lparr>pr_key = key, pr_seen = False\<rparr>]))"
  by pat_completeness auto
termination
  by (relation "measure (\<lambda>(s, ps). length s)") (auto dest: c_fgets_shrinks)

declare read_peers_loop.simps [simp del]

definition read_peers :: "(string \<Rightarrow> int + string) \<Rightarrow> string \<Rightarrow> int + peer list option" where
  "read_peers popen interface =
     (case popen (take 2046 (''wg show '' @ interface @ '' peers'')) of
        Inl e \<Rightarrow> Inl e
      | Inr out \<Rightarrow> Inr (read_peers_loop out []))"

definition EINVAL_code :: int where "EINVAL_code = 22"
definition EPERM_code :: int where "EPERM_code = 1"

definition unbase64 :: "(string \<Rightarrow> u8 list option) \<Rightarrow> string \<Rightarrow> int + u8 list" where
  "unbase64 b64_pton srckey =
     (case b64_pton srckey of
        Some buf \<Rightarrow> if length buf \<noteq> 32 then Inl EINVAL_code else Inr buf
      | None \<Rightarrow> Inl EINVAL_code)"

section \<open>The packet filter\<close>

text \<open>The four instructions of the classic packet filter language that the program uses.\<close>

datatype sock_filter = LD_W_ABS nat | LD_H_ABS nat | JEQ_K u32 nat nat | RET_K u32

definition PORT :: u16 where
  "PORT = 49918"

definition bpf_filter :: "u16 \<Rightarrow> u32 \<Rightarrow> sock_filter list" where
  "bpf_filter port ip =
     [LD_W_ABS 12,
      JEQ_K ip 0 5,
      LD_H_ABS 20,
      JEQ_K (ucast PORT) 0 3,
      LD_H_ABS 22,
      JEQ_K (ucast port) 0 1,
      RET_K (- 1),
      RET_K 0]"

definition be16 :: "u8 list \<Rightarrow> nat \<Rightarrow> u16" where
  "be16 pkt k = push_bit 8 (ucast (pkt ! k)) OR ucast (pkt ! (k + 1))"

definition be32 :: "u8 list \<Rightarrow> nat \<Rightarrow> u32" where
  "be32 pkt k = push_bit 16 (ucast (be16 pkt k)) OR ucast (be16 pkt (k + 2))"

text \<open>Words are loaded in network order; a load outside the packet drops it.\<close>

function bpf_run :: "sock_filter list \<Rightarrow> u8 list \<Rightarrow> nat \<Rightarrow> u32 \<Rightarrow> u32" where
  "bpf_run prog pkt pc a =
     (if pc < length prog then
        (case prog ! pc of
           LD_W_ABS k \<Rightarrow> if k + 4 \<le> length pkt then bpf_run prog pkt (pc + 1) (be32 pkt k) else 0
         | LD_H_ABS k \<Rightarrow> if k + 2 \<le> length pkt then bpf_run prog pkt (pc + 1) (ucast (be16 pkt k)) else 0
         | JEQ_K k jt jf \<Rightarrow> bpf_run prog pkt (pc + 1 + (if a = k then jt else jf)) a
         | RET_K k \<Rightarrow> k)
      else 0)"
  by pat_completeness auto
termination
  by (relation "measure (\<lambda>(prog, pkt, pc, a). length prog - pc)") auto

declare bpf_run.simps [simp del]

section \<open>Asking the server\<close>

text \<open>\<open>ntohs\<close> and \<open>htons\<close> swap two bytes.\<close>

definition ntohs :: "u16 \<Rightarrow> u16" where
  "ntohs x = push_bit 8 x OR drop_bit 8 x"

text \<open>
  The request as it lies in memory: the UDP header with the source and destination port, the length
  and the checksum, then the two keys. \<open>packet_start\<close> is what it holds before the loop.
\<close>

definition packet_size :: nat where
  "packet_size = 8 + 32 + 32"

definition udphdr :: "u16 \<Rightarrow> u16 \<Rightarrow> u16 \<Rightarrow> u8 list" where
  "udphdr source dest len =
     le_bytes 2 (unat source) @ le_bytes 2 (unat dest) @ le_bytes 2 (unat len) @ le_bytes 2 0"

definition packet_start :: "u16 \<Rightarrow> u8 list \<Rightarrow> u8 list" where
  "packet_start source my_pubkey =
     udphdr source (ntohs PORT) (ntohs (of_nat packet_size)) @ my_pubkey @ replicate 32 0"

text \<open>
  What \<open>sendto\<close> and \<open>recv\<close> come to: an error of one of them, a datagram that passed the filter,
  or none, so that \<open>recv\<close> does not return.
\<close>

datatype answer = Send_Error int | Recv_Error int | Received "u8 list" | Blocked

text \<open>\<open>sizeof(reply)\<close>: the IP and UDP headers and the packed address and port; the two fields.\<close>

definition reply_size :: nat where
  "reply_size = 20 + 8 + 6"

definition reply_ip :: "u8 list \<Rightarrow> u32" where
  "reply_ip rep = of_nat (le_nat (take 4 (drop 28 rep)))"

definition reply_port :: "u8 list \<Rightarrow> u16" where
  "reply_port rep = of_nat (le_nat (take 2 (drop 32 rep)))"

record 'n client =
  cl_peers :: "peer list"
  cl_net :: 'n
  cl_repeat :: bool
  cl_cmds :: "string list"

text \<open>\<open>inet_ntoa\<close> prints the four bytes of the address in memory order.\<close>

definition inet_ntoa :: "u32 \<Rightarrow> string" where
  "inet_ntoa ip =
     dec_digits (unat (ip AND 255)) @ ''.'' @ dec_digits (unat (drop_bit 8 ip AND 255)) @ ''.'' @
     dec_digits (unat (drop_bit 16 ip AND 255)) @ ''.'' @ dec_digits (unat (drop_bit 24 ip AND 255))"

text \<open>The command of line 198 as it is run: \<open>vsnprintf\<close> in \<open>cmd\<close> keeps its first 2046 characters.\<close>

definition set_endpoint_line :: "string \<Rightarrow> string \<Rightarrow> u32 \<Rightarrow> u16 \<Rightarrow> string" where
  "set_endpoint_line interface key ip port =
     take 2046 (''wg set '' @ interface @ '' peer '' @ key @ '' persistent-keepalive 25 endpoint '' @
       inet_ntoa ip @ '':'' @ dec_digits (unat (ntohs port)))"

text \<open>
  The body of the loop over the peers. The key of the peer is written into the last 32 bytes of the
  packet, which is sent; what has been received, no more than \<open>sizeof(reply)\<close> bytes of it, decides
  whether the endpoint is set or the peer is asked for again. The loop does not return when \<open>recv\<close>
  does not. \<open>ask\<close> stands for the raw socket and what is behind it, with a state of its own, so that
  the datagram received need not be the answer to the packet just sent: it may be one that was queued
  before. \<open>cl_cmds\<close> is the history of the commands run; what the program prints on the way (lines
  179, 193 and 196) is left out.
\<close>

definition client_request :: "(string \<Rightarrow> u8 list option) \<Rightarrow> u8 list \<Rightarrow> peer \<Rightarrow> int + u8 list" where
  "client_request b64_pton packet p =
     (case unbase64 b64_pton (pr_key p) of
        Inl e \<Rightarrow> Inl e
      | Inr their_pubkey \<Rightarrow> Inr (take 40 packet @ their_pubkey))"

definition client_receive ::
  "(string \<Rightarrow> int + string) \<Rightarrow> string \<Rightarrow> 'n client \<Rightarrow> nat \<Rightarrow> u8 list \<Rightarrow> int + 'n client" where
  "client_receive popen interface st i datagram =
     (let p = cl_peers st ! i; rep = take reply_size datagram in
      if length rep \<noteq> reply_size then Inr (st\<lparr>cl_repeat := True\<rparr>)
      else
        let line = set_endpoint_line interface (pr_key p) (reply_ip rep) (reply_port rep) in
        case cmd popen line of
          Inl e \<Rightarrow> Inl e
        | Inr _ \<Rightarrow> Inr (st\<lparr>cl_peers := (cl_peers st)[i := p\<lparr>pr_seen := True\<rparr>], cl_cmds := cl_cmds st @ [line]\<rparr>))"

definition client_step ::
  "(string \<Rightarrow> int + string) \<Rightarrow> (string \<Rightarrow> u8 list option) \<Rightarrow> ('n \<Rightarrow> u8 list \<Rightarrow> 'n \<times> answer) \<Rightarrow>
     string \<Rightarrow> u8 list \<Rightarrow> 'n client \<Rightarrow> nat \<Rightarrow> (int + 'n client) option" where
  "client_step popen b64_pton ask interface packet st i =
     (if pr_seen (cl_peers st ! i) then Some (Inr st)
      else
        case client_request b64_pton packet (cl_peers st ! i) of
          Inl e \<Rightarrow> Some (Inl e)
        | Inr packet \<Rightarrow>
            (case ask (cl_net st) packet of
               (net, Send_Error e) \<Rightarrow> Some (Inl e)
             | (net, Recv_Error e) \<Rightarrow> Some (Inl e)
             | (net, Blocked) \<Rightarrow> None
             | (net, Received datagram) \<Rightarrow>
                 Some (client_receive popen interface (st\<lparr>cl_net := net\<rparr>) i datagram)))"

text \<open>From \<open>check_again\<close> to the test of \<open>repeat\<close>.\<close>

definition client_pass ::
  "(string \<Rightarrow> int + string) \<Rightarrow> (string \<Rightarrow> u8 list option) \<Rightarrow> ('n \<Rightarrow> u8 list \<Rightarrow> 'n \<times> answer) \<Rightarrow>
     string \<Rightarrow> u8 list \<Rightarrow> 'n client \<Rightarrow> (int + 'n client) option" where
  "client_pass popen b64_pton ask interface packet st =
     c_for (client_step popen b64_pton ask interface packet) (st\<lparr>cl_repeat := False\<rparr>)
       [0..<length (cl_peers st)]"

text \<open>The passes repeat until no peer is missing; \<open>None\<close> means that it never returns or the fuel ran out.\<close>

fun client_loop ::
  "nat \<Rightarrow> (string \<Rightarrow> int + string) \<Rightarrow> (string \<Rightarrow> u8 list option) \<Rightarrow> ('n \<Rightarrow> u8 list \<Rightarrow> 'n \<times> answer) \<Rightarrow>
     string \<Rightarrow> u8 list \<Rightarrow> 'n client \<Rightarrow> (int + 'n client) option" where
  "client_loop 0 popen b64_pton ask interface packet st = None"
| "client_loop (Suc n) popen b64_pton ask interface packet st = do {
     r \<leftarrow> client_pass popen b64_pton ask interface packet st;
     case r of
       Inl e \<Rightarrow> Some (Inl e)
     | Inr st \<Rightarrow> if cl_repeat st then client_loop n popen b64_pton ask interface packet st else Some (Inr st) }"

section \<open>The program\<close>

text \<open>A null result of \<open>cmd\<close> or \<open>read_peers\<close> that is dereferenced.\<close>

definition deref :: "'e + 'a option \<Rightarrow> ('e + 'a) option" where
  "deref r = (case r of Inl e \<Rightarrow> Some (Inl e) | Inr None \<Rightarrow> None | Inr (Some x) \<Rightarrow> Some (Inr x))"

lemma deref_simps [simp]:
  "deref (Inl e) = Some (Inl e)" "deref (Inr None) = None" "deref (Inr (Some x)) = Some (Inr x)"
  by (simp_all add: deref_def)

text \<open>\<open>atoi\<close>: blanks, a sign, digits; a value outside the range of \<open>int\<close> is undefined.\<close>

definition atoi :: "string \<Rightarrow> int option" where
  "atoi str =
     (let s = dropWhile (\<lambda>c. c = CHR '' '' \<or> c \<in> {CHR 0x09, CHR 0x0A, CHR 0x0B, CHR 0x0C, CHR 0x0D}) str;
          neg = (s \<noteq> [] \<and> hd s = CHR ''-'');
          s = (if s \<noteq> [] \<and> (hd s = CHR ''-'' \<or> hd s = CHR ''+'') then tl s else s);
          ds = takeWhile (\<lambda>c. is_decimal c) s;
          v = foldl (\<lambda>v c. v * 10 + (c_int c - 48)) 0 ds;
          r = (if neg then - v else v) in
      if - (2 ^ 31) \<le> r \<and> r < 2 ^ 31 then Some r else None)"

text \<open>
  The environment of the program: the identity of the user, the resolver, the creation of the raw
  socket and the attachment of the filter (an error number when they fail). Addresses and ports are in
  network order where the source has them so; \<open>ntohl\<close> reverses the four bytes.
\<close>

record environment =
  env_uid :: nat
  env_resolve :: "string \<Rightarrow> int + u32"
  env_socket :: "int option"
  env_attach :: "sock_filter list \<Rightarrow> int option"

definition ntohl :: "u32 \<Rightarrow> u32" where
  "ntohl x = push_bit 24 x OR (push_bit 8 x AND 0xff0000) OR (drop_bit 8 x AND 0xff00) OR drop_bit 24 x"

text \<open>\<open>apply_bpf\<close> builds the filter and attaches it; the filter of the socket is its result.\<close>

definition apply_bpf :: "environment \<Rightarrow> u16 \<Rightarrow> u32 \<Rightarrow> int + sock_filter list" where
  "apply_bpf env port ip =
     (let prog = bpf_filter port ip in
      case env_attach env prog of Some e \<Rightarrow> Inl e | None \<Rightarrow> Inr prog)"

record client_conf =
  su_interface :: string
  su_addr :: u32
  su_pubkey :: "u8 list"
  su_source :: u16
  su_filter :: "sock_filter list"
  su_peers :: "peer list"

text \<open>
  Everything before \<open>check_again\<close>. \<open>argv\<close> is closed by a null pointer; \<open>argv[2]\<close> is
  read before \<open>argc\<close> is looked at.
\<close>

definition client_setup ::
  "(string \<Rightarrow> int + string) \<Rightarrow> (string \<Rightarrow> u8 list option) \<Rightarrow> environment \<Rightarrow> string list \<Rightarrow> (int + client_conf) option" where
  "client_setup popen b64_pton env argv = do {
     _ \<leftarrow> rd (map Some argv @ [None]) 1;
     _ \<leftarrow> rd (map Some argv @ [None]) 2;
     if length argv < 3 then Some (Inl EINVAL_code)
     else if env_uid env \<noteq> 0 then Some (Inl EPERM_code)
     else
       let interface = argv ! 2 in
       and_then (Some (env_resolve env (argv ! 1))) (\<lambda>addr.
       and_then (deref (read_peers popen interface)) (\<lambda>peers.
       and_then (Some (cmd popen (''ip link set '' @ interface @ '' up''))) (\<lambda>_.
       and_then (deref (cmd popen (''wg show '' @ interface @ '' public-key''))) (\<lambda>key.
       and_then (Some (unbase64 b64_pton key)) (\<lambda>my_pubkey.
       and_then (deref (cmd popen (''wg show '' @ interface @ '' listen-port''))) (\<lambda>port_text. do {
         port \<leftarrow> atoi port_text;
         let source = ntohs (word_of_int port);
         case env_socket env of
           Some e \<Rightarrow> Some (Inl e)
         | None \<Rightarrow>
             (case apply_bpf env (ntohs source) (ntohl addr) of
                Inl e \<Rightarrow> Some (Inl e)
              | Inr prog \<Rightarrow> Some (Inr \<lparr>su_interface = interface, su_addr = addr, su_pubkey = my_pubkey,
                                   su_source = source, su_filter = prog, su_peers = peers\<rparr>)) })))))) }"

text \<open>\<open>ask\<close> sends a packet to the server's address and receives a datagram that passes the filter.\<close>

definition client_main ::
  "nat \<Rightarrow> (string \<Rightarrow> int + string) \<Rightarrow> (string \<Rightarrow> u8 list option) \<Rightarrow> environment \<Rightarrow>
     (sock_filter list \<Rightarrow> u32 \<Rightarrow> 'n \<Rightarrow> u8 list \<Rightarrow> 'n \<times> answer) \<Rightarrow> 'n \<Rightarrow> string list \<Rightarrow> (int + 'n client) option" where
  "client_main fuel popen b64_pton env ask net argv =
     and_then (client_setup popen b64_pton env argv) (\<lambda>su.
       client_loop fuel popen b64_pton (ask (su_filter su) (su_addr su)) (su_interface su)
         (packet_start (su_source su) (su_pubkey su))
         \<lparr>cl_peers = su_peers su, cl_net = net, cl_repeat = False, cl_cmds = []\<rparr>)"

section \<open>Reading the peers\<close>

lemma fgets_key:
  assumes "length k = 44" "newline \<notin> set k"
  shows "c_fgets 45 (k @ newline # s) = Some (k, newline # s)"
proof -
  have "takeWhile (\<lambda>c. c \<noteq> newline) (k @ newline # s) = k"
    by (rule takeWhile_append_hd) (use assms(2) in auto)
  then show ?thesis using assms(1) by (auto simp: c_fgets_def)
qed

lemma fgets_newline: "c_fgets 45 (newline # s) = Some ([newline], s)"
  by (simp add: c_fgets_def)

definition unseen :: "string \<Rightarrow> peer" where
  "unseen k = \<lparr>pr_key = k, pr_seen = False\<rparr>"

definition key_line :: "string \<Rightarrow> bool" where
  "key_line k \<longleftrightarrow> length k = 44 \<and> newline \<notin> set k \<and> CHR 0x00 \<notin> set k"

lemma buf_len_key: "CHR 0x00 \<notin> set k \<Longrightarrow> buf_len k = length k"
  unfolding buf_len_def by (induction k) auto

lemma read_peers_one:
  assumes "key_line k"
  shows "read_peers_loop (k @ newline # s) ps =
    (if length ps + 1 < MAX_PEERS then read_peers_loop s (ps @ [unseen k]) else None)"
proof -
  have k: "length k = 44" "newline \<notin> set k" "CHR 0x00 \<notin> set k" using assms by (simp_all add: key_line_def)
  have "k ! 43 \<in> set k" using k(1) by simp
  then have "k ! 43 \<noteq> newline" using k(2) by metis
  then have step: "read_peers_loop (k @ newline # s) ps =
      (if length ps \<ge> MAX_PEERS then None else read_peers_loop (newline # s) (ps @ [unseen k]))"
    using k by (subst read_peers_loop.simps) (simp add: fgets_key buf_len_key unseen_def)
  have "buf_len [newline] = 1" by (simp add: buf_len_def)
  then have "read_peers_loop (newline # s) qs = (if length qs \<ge> MAX_PEERS then None else read_peers_loop s qs)" for qs
    by (subst read_peers_loop.simps) (simp add: fgets_newline)
  then show ?thesis using step by simp
qed

lemma read_peers_lines:
  "\<forall>k\<in>set keys. key_line k \<Longrightarrow>
   read_peers_loop (concat (map (\<lambda>k. k @ [newline]) keys)) ps =
     (if keys = [] \<or> length ps + length keys < MAX_PEERS then Some (ps @ map unseen keys) else None)"
proof (induction keys arbitrary: ps)
  case Nil
  show ?case by (subst read_peers_loop.simps) (simp add: c_fgets_def)
next
  case (Cons k keys)
  then show ?case by (auto simp: read_peers_one)
qed

section \<open>The filter\<close>

lemma ucast_inj16: "(ucast x :: u32) = ucast y \<longleftrightarrow> x = y" for x y :: u16
proof
  assume "(ucast x :: u32) = ucast y"
  then have "uint (ucast x :: u32) = uint (ucast y :: u32)" by simp
  then show "x = y" by (simp add: uint_up_ucast is_up word_uint_eq_iff)
qed simp

lemma bpf_filter_accepts_aux:
  "bpf_run (bpf_filter port ip) pkt 0 a =
    (if 24 \<le> length pkt \<and> be32 pkt 12 = ip \<and> be16 pkt 20 = PORT \<and> be16 pkt 22 = port then - 1 else 0)"
  by (simp add: bpf_filter_def bpf_run.simps ucast_inj16)

section \<open>Bytes on the wire\<close>

lemma le_bytes_word: "le_bytes (Suc n) (unat x) = ucast x # le_bytes n (unat (drop_bit 8 x))"
  by (simp add: unat_drop_bit_eq drop_bit_eq_div [where 'a = nat])

lemma le_bytes_16: "le_bytes 2 (unat x) = [ucast x, ucast (drop_bit 8 x)]" for x :: u16
  unfolding numeral_2_eq_2 le_bytes_word by simp

lemma le_bytes_32:
  "le_bytes 4 (unat x) = [ucast x, ucast (drop_bit 8 x), ucast (drop_bit 16 x), ucast (drop_bit 24 x)]" for x :: u32
proof -
  have "le_bytes 4 (unat x) = le_bytes (Suc (Suc (Suc (Suc 0)))) (unat x)" by (simp only: eval_nat_numeral BitM.simps)
  then show ?thesis unfolding le_bytes_word by (simp add: drop_bit_drop_bit)
qed

lemma has_nth: "has m k bs \<Longrightarrow> i < length bs \<Longrightarrow> m ! (k + i) = bs ! i"
  unfolding has_def by (metis add_leD1 nth_drop nth_take)

lemma be16_bytes:
  assumes "has pkt k (le_bytes 2 (unat x))"
  shows "be16 pkt k = ntohs x"
proof -
  have b: "pkt ! k = ucast x" "pkt ! (k + 1) = ucast (drop_bit 8 x)"
    using has_nth [OF assms, of 0] has_nth [OF assms, of 1] by (simp_all add: le_bytes_16)
  show ?thesis
    unfolding be16_def ntohs_def b by (rule bit_word_eqI) (auto simp: bit_simps dest: bit_imp_le_length)
qed

lemma be32_bytes:
  assumes "has pkt k (le_bytes 4 (unat x))"
  shows "be32 pkt k = ntohl x"
proof -
  have b: "pkt ! k = ucast x" "pkt ! (k + 1) = ucast (drop_bit 8 x)" "pkt ! (k + 2) = ucast (drop_bit 16 x)"
    "pkt ! (k + 2 + 1) = ucast (drop_bit 24 x)"
    using has_nth [OF assms, of 0] has_nth [OF assms, of 1] has_nth [OF assms, of 2] has_nth [OF assms, of 3]
    by (simp_all add: le_bytes_32 numeral_3_eq_3)
  have masks: "0xff0000 = (push_bit 16 (mask 8) :: u32)" "0xff00 = (push_bit 8 (mask 8) :: u32)"
    by (simp_all add: mask_eq_exp_minus_1)
  have "bit (be32 pkt k) n = bit (ntohl x) n" if n: "n < 32" for n
  proof -
    have small: "\<not> bit x j" if "32 \<le> j" for j using that by (auto dest: bit_imp_le_length)
    have "n mod 8 < 8" "n = n mod 8 \<or> n = 8 + n mod 8 \<or> n = 16 + n mod 8 \<or> n = 24 + n mod 8"
      using n by presburger+
    then obtain j where "j < 8" "n = j \<or> n = 8 + j \<or> n = 16 + j \<or> n = 24 + j" by blast
    then show ?thesis
      unfolding be32_def be16_def ntohl_def b masks by (elim disjE; hypsubst; simp add: bit_simps small)
  qed
  then show ?thesis by (intro bit_word_eqI) simp
qed

lemma ntohs_ntohs [simp]: "ntohs (ntohs x) = x"
  by (auto simp: ntohs_def bit_eq_iff bit_simps)

section \<open>Properties\<close>

text \<open>The packet filter of the raw socket accepts exactly the packets that come from the
  server's address and port and go to the port of the interface; a packet too short to have them is
  dropped.\<close>

theorem bpf_filter_accepts:
  "bpf_run (bpf_filter port ip) pkt 0 a \<noteq> 0 \<longleftrightarrow>
     24 \<le> length pkt \<and> be32 pkt 12 = ip \<and> be16 pkt 20 = 49918 \<and> be16 pkt 22 = port"
  by (simp add: bpf_filter_accepts_aux PORT_def)

text \<open>\<open>read_peers\<close> reads exactly the keys that \<open>wg show\<close> prints, one per line, in
  their order and as unseen peers, as long as there are fewer than \<open>MAX_PEERS\<close> of them.\<close>

theorem read_peers_reads_keys:
  assumes "popen (take 2046 (''wg show '' @ interface @ '' peers'')) = Inr (concat (map (\<lambda>k. k @ [newline]) keys))"
    and "\<forall>k\<in>set keys. length k = 44 \<and> newline \<notin> set k \<and> CHR 0x00 \<notin> set k" "length keys < MAX_PEERS"
  shows "read_peers popen interface = Inr (Some (map (\<lambda>k. \<lparr>pr_key = k, pr_seen = False\<rparr>) keys))"
proof -
  have "\<forall>k\<in>set keys. key_line k" using assms(2) by (simp add: key_line_def)
  then have "read_peers_loop (concat (map (\<lambda>k. k @ [newline]) keys)) [] = Some (map unseen keys)"
    using read_peers_lines assms(3) by simp
  then show ?thesis using assms(1) by (simp add: read_peers_def unseen_def [abs_def])
qed

lemma read_peers_reads_keys_witness:
  "read_peers (\<lambda>_. Inr (replicate 44 CHR ''A'' @ [newline] @ replicate 44 CHR ''B'' @ [newline])) ''wg0'' =
     Inr (Some [\<lparr>pr_key = replicate 44 CHR ''A'', pr_seen = False\<rparr>, \<lparr>pr_key = replicate 44 CHR ''B'', pr_seen = False\<rparr>])"
  using read_peers_reads_keys [of "\<lambda>_. Inr (replicate 44 CHR ''A'' @ [newline] @ replicate 44 CHR ''B'' @ [newline])"
      "''wg0''" "[replicate 44 CHR ''A'', replicate 44 CHR ''B'']"]
  by (simp add: MAX_PEERS_def)

text \<open>Nothing stops \<open>read_peers\<close> at the end of the array: with \<open>MAX_PEERS\<close> keys or more it
  writes behind it.\<close>

lemma read_peers_overflows:
  assumes "popen (take 2046 (''wg show '' @ interface @ '' peers'')) = Inr (concat (map (\<lambda>k. k @ [newline]) keys))"
    and "\<forall>k\<in>set keys. length k = 44 \<and> newline \<notin> set k \<and> CHR 0x00 \<notin> set k" "MAX_PEERS \<le> length keys"
  shows "read_peers popen interface = Inr None"
proof -
  have "\<forall>k\<in>set keys. key_line k" using assms(2) by (simp add: key_line_def)
  moreover have "keys \<noteq> []" using assms(3) by (auto simp: MAX_PEERS_def)
  ultimately have "read_peers_loop (concat (map (\<lambda>k. k @ [newline]) keys)) [] = None"
    using read_peers_lines [of keys "[]"] assms(3) by simp
  then show ?thesis using assms(1) by (simp add: read_peers_def)
qed

lemma read_peers_overflows_witness:
  "read_peers (\<lambda>_. Inr (concat (map (\<lambda>k. k @ [newline]) (replicate MAX_PEERS (replicate 44 CHR ''A''))))) ''wg0'' = Inr None"
  by (rule read_peers_overflows [OF refl]) simp_all

text \<open>The checks at the start of the program: with one argument it returns \<open>EINVAL\<close>, for a user
  other than root \<open>EPERM\<close>, and an address that cannot be resolved ends it with the resolver's error, in
  all cases before any command is run. Without arguments, \<open>argv[2]\<close> is read behind the null pointer that
  closes the array.\<close>

lemma client_main_checks:
  "client_main fuel popen b64_pton env ask net [prog, server] = Some (Inl 22) \<and>
   client_main fuel popen b64_pton env ask net [prog] = None \<and>
   client_main fuel popen b64_pton (env\<lparr>env_uid := Suc uid\<rparr>) ask net (prog # server # interface # args) = Some (Inl 1) \<and>
   client_main fuel popen b64_pton (env\<lparr>env_uid := 0, env_resolve := \<lambda>_. Inl e\<rparr>) ask net (prog # server # interface # args) =
     Some (Inl e)"
  by (simp add: client_main_def client_setup_def EINVAL_code_def EPERM_code_def rd_def)

end
