(* ===== verification/Nat_Punching.thy ===== *)
theory Nat_Punching
  imports Nat_Punch_Client
begin

text \<open>
  The client and the server together: the requests of a client are datagrams of the server, and what
  a pass over the peers achieves is expressed with the abstract server, the map of the addresses
  seen. Two clients that know each other's keys find each other after three passes.
\<close>

section \<open>A network without loss\<close>

text \<open>
  What lies between a client and the server: the address of the server and the client's own one, the
  public address and port that the NAT gives to the client, and the first twelve bytes of the IP header
  of a packet that is delivered to the client. The NAT keeps the port of the client in the reply.
\<close>

record network =
  nw_server :: u32
  nw_local :: u32
  nw_ip :: u32
  nw_port :: u16
  nw_header :: "u8 list"

definition reply_packet :: "network \<Rightarrow> u8 list \<Rightarrow> u8 list \<Rightarrow> u8 list" where
  "reply_packet nw packet payload =
     nw_header nw @ le_bytes 4 (unat (nw_server nw)) @ le_bytes 4 (unat (nw_local nw)) @
     udphdr (ntohs SERVER_PORT) (of_nat (le_nat (take 2 packet))) (ntohs (of_nat (8 + length payload))) @ payload"

text \<open>
  A packet reaches the server when address and port are the server's, which gets as many bytes as the
  length in the UDP header says; its reply is delivered when it passes the filter of the raw socket.
\<close>

definition to_server :: "network \<Rightarrow> u32 \<Rightarrow> u8 list \<Rightarrow> dgram option" where
  "to_server nw addr packet =
     (if addr \<noteq> nw_server nw \<or> be16 packet 2 \<noteq> SERVER_PORT then None
      else Some \<lparr>dg_data = take (unat (be16 packet 4) - 8) (drop 8 packet), dg_ip = nw_ip nw, dg_port = nw_port nw\<rparr>)"

definition to_client :: "network \<Rightarrow> sock_filter list \<Rightarrow> u8 list \<Rightarrow> reply option \<Rightarrow> u8 list option" where
  "to_client nw prog packet r =
     (case r of
        None \<Rightarrow> None
      | Some r \<Rightarrow>
          let pkt = reply_packet nw packet (reply_data r) in
          if bpf_run prog pkt 0 0 = 0 then None else Some pkt)"

definition server_ask :: "network \<Rightarrow> sock_filter list \<Rightarrow> u32 \<Rightarrow> server \<Rightarrow> u8 list \<Rightarrow> server \<times> answer" where
  "server_ask nw prog addr st packet =
     (case to_server nw addr packet of
        None \<Rightarrow> (st, Blocked)
      | Some dg \<Rightarrow>
          (case server_step st dg of
             (st, r) \<Rightarrow>
               (st, case to_client nw prog packet r of None \<Rightarrow> Blocked | Some pkt \<Rightarrow> Received pkt)))"

text \<open>The socket of a client that has resolved the server's address and attached its filter.\<close>

definition client_ask :: "network \<Rightarrow> u16 \<Rightarrow> server \<Rightarrow> u8 list \<Rightarrow> server \<times> answer" where
  "client_ask nw source = server_ask nw (bpf_filter (ntohs source) (ntohl (nw_server nw))) (nw_server nw)"

text \<open>The request for a key: the keys are where the server looks for them.\<close>

lemma request_fields:
  fixes source :: u16
  assumes "length my = 32" "length their = 32"
  defines "packet \<equiv> take 40 (packet_start source my) @ their"
  shows "be16 packet 2 = SERVER_PORT" "take (unat (be16 packet 4) - 8) (drop 8 packet) = my @ their"
    "of_nat (le_nat (take 2 packet)) = source"
proof -
  have packet: "packet = udphdr source (ntohs PORT) (ntohs 72) @ my @ their"
    using assms(1) by (simp add: packet_def packet_start_def packet_size_def udphdr_def)
  have "has packet 2 (le_bytes 2 (unat (ntohs PORT)))" "has packet 4 (le_bytes 2 (unat (ntohs 72)))"
    unfolding packet udphdr_def by (simp_all add: has_def)
  then have "be16 packet 2 = PORT" "be16 packet 4 = 72" by (simp_all add: be16_bytes)
  then show "be16 packet 2 = SERVER_PORT" "take (unat (be16 packet 4) - 8) (drop 8 packet) = my @ their"
    using assms(1,2) by (simp_all add: PORT_def SERVER_PORT_def packet udphdr_def)
  have "le_nat (le_bytes 2 (unat source)) = unat source"
    using unsigned_less [of source, where ?'a = nat] by (simp add: le_nat_bytes)
  then show "of_nat (le_nat (take 2 packet)) = source" unfolding packet udphdr_def by simp
qed

text \<open>The reply passes the filter, and the client reads from it what the server has sent.\<close>

lemma reply_passes:
  assumes "length (nw_header nw) = 12" "of_nat (le_nat (take 2 packet)) = source"
  shows "bpf_run (bpf_filter (ntohs source) (ntohl (nw_server nw))) (reply_packet nw packet payload) 0 0 \<noteq> 0"
proof -
  let ?pkt = "reply_packet nw packet payload"
  have "has ?pkt 12 (le_bytes 4 (unat (nw_server nw)))" "has ?pkt 20 (le_bytes 2 (unat (ntohs SERVER_PORT)))"
    "has ?pkt 22 (le_bytes 2 (unat source))"
    unfolding reply_packet_def udphdr_def assms(2) by (simp_all add: has_def assms(1))
  then have "be32 ?pkt 12 = ntohl (nw_server nw)" "be16 ?pkt 20 = PORT" "be16 ?pkt 22 = ntohs source"
    by (simp_all add: be32_bytes be16_bytes PORT_def SERVER_PORT_def)
  moreover have "24 \<le> length ?pkt" by (simp add: reply_packet_def udphdr_def assms(1))
  ultimately show ?thesis by (simp add: bpf_filter_accepts_aux)
qed

lemma reply_read:
  fixes nw :: network and packet :: "u8 list" and ip :: u32 and port :: u16
  assumes "length (nw_header nw) = 12"
  defines "pkt \<equiv> reply_packet nw packet (reply_data (Address_Reply ip port))"
  shows "length pkt = reply_size" "reply_ip pkt = ip" "reply_port pkt = port"
proof -
  have pkt: "drop 28 pkt = le_bytes 4 (unat ip) @ le_bytes 2 (unat port)" "length pkt = 34"
    unfolding pkt_def reply_packet_def udphdr_def by (simp_all add: assms(1))
  then have "drop 32 pkt = le_bytes 2 (unat port)" using drop_drop [of 4 28 pkt] by simp
  then show "length pkt = reply_size" "reply_ip pkt = ip" "reply_port pkt = port"
    using pkt unsigned_less [of ip, where ?'a = nat] unsigned_less [of port, where ?'a = nat]
    by (simp_all add: reply_size_def reply_ip_def reply_port_def le_nat_bytes)
qed

lemma empty_reply_length: "length (nw_header nw) = 12 \<Longrightarrow> length (reply_packet nw packet (reply_data Empty_Reply)) = 28"
  by (simp add: reply_packet_def udphdr_def)

definition good_key :: "u8 list \<Rightarrow> bool" where
  "good_key k \<longleftrightarrow> length k = 32 \<and> k \<noteq> zero_pubkey"

definition add_key :: "'a \<Rightarrow> 'a list \<Rightarrow> 'a list" where
  "add_key k ks = (if k \<in> set ks then ks else ks @ [k])"

text \<open>A request registers the client, and the reply is what the table then has for the other key.\<close>

lemma client_ask_registers:
  fixes nw :: network and st :: server and my their :: "u8 list"
  assumes len: "length my = 32" "length their = 32" and hdr: "length (nw_header nw) = 12"
  defines "st' \<equiv> server_register my (nw_ip nw, nw_port nw) st"
  shows "\<exists>pkt. client_ask nw source st (take 40 (packet_start source my) @ their) = (st', Received pkt) \<and>
    (case server_lookup st' their of
       Some (a, q) \<Rightarrow> length pkt = reply_size \<and> reply_ip pkt = a \<and> reply_port pkt = q
     | None \<Rightarrow> length pkt < reply_size)"
proof -
  let ?dg = "\<lparr>dg_data = my @ their, dg_ip = nw_ip nw, dg_port = nw_port nw\<rparr>"
  let ?packet = "take 40 (packet_start source my) @ their"
  let ?r = "case server_lookup st' their of Some (a, q) \<Rightarrow> Address_Reply a q | None \<Rightarrow> Empty_Reply"
  note fields = request_fields [OF len, of source]
  have step: "server_step st ?dg = (st', Some ?r)"
    using server_step_register [of ?dg st] len by (simp add: st'_def Let_def)
  let ?pkt = "reply_packet nw ?packet (reply_data ?r)"
  have "client_ask nw source st ?packet = (st', Received ?pkt)"
    unfolding client_ask_def server_ask_def to_server_def fields(1,2)
    using step reply_passes [OF hdr fields(3)] by (simp add: to_client_def Let_def)
  moreover have "case server_lookup st' their of
       Some (a, q) \<Rightarrow> length ?pkt = reply_size \<and> reply_ip ?pkt = a \<and> reply_port ?pkt = q
     | None \<Rightarrow> length ?pkt < reply_size"
    using reply_read [OF hdr] empty_reply_length [OF hdr]
    by (auto simp: reply_size_def simp del: reply_data.simps split: option.split)
  ultimately show ?thesis by blast
qed

section \<open>A pass over the peers\<close>

text \<open>What a pass makes of a peer and which commands it runs, given the addresses known to the server.\<close>

definition peer_after :: "(string \<Rightarrow> u8 list) \<Rightarrow> (u8 list \<rightharpoonup> u32 \<times> u16) \<Rightarrow> peer \<Rightarrow> peer" where
  "peer_after dec m p = p\<lparr>pr_seen := (pr_seen p \<or> dec (pr_key p) \<in> dom m)\<rparr>"

definition peer_lines :: "(string \<Rightarrow> u8 list) \<Rightarrow> (u8 list \<rightharpoonup> u32 \<times> u16) \<Rightarrow> string \<Rightarrow> peer \<Rightarrow> string list" where
  "peer_lines dec m interface p =
     (if pr_seen p then []
      else case m (dec (pr_key p)) of
             None \<Rightarrow> []
           | Some (a, q) \<Rightarrow> [set_endpoint_line interface (pr_key p) a q])"

definition missing :: "(string \<Rightarrow> u8 list) \<Rightarrow> (u8 list \<rightharpoonup> u32 \<times> u16) \<Rightarrow> peer \<Rightarrow> bool" where
  "missing dec m p \<longleftrightarrow> \<not> pr_seen p \<and> dec (pr_key p) \<notin> dom m"

text \<open>The commands can be run and the keys can be decoded.\<close>

definition peers_ok :: "(string \<Rightarrow> int + string) \<Rightarrow> (string \<Rightarrow> u8 list option) \<Rightarrow> (string \<Rightarrow> u8 list) \<Rightarrow> peer list \<Rightarrow> bool" where
  "peers_ok popen b64_pton dec ps \<longleftrightarrow> (\<forall>line. \<exists>out. popen line = Inr out) \<and>
     (\<forall>p\<in>set ps. b64_pton (pr_key p) = Some (dec (pr_key p)) \<and> length (dec (pr_key p)) = 32)"

lemma cmd_runs: "\<forall>line. \<exists>out. popen line = Inr out \<Longrightarrow> \<exists>out. cmd popen line = Inr out"
  unfolding cmd_def by (metis (no_types, lifting) old.sum.simps(6))

text \<open>One turn of the loop for a peer that has not been seen.\<close>

lemma client_step_registers:
  fixes nw :: network and st :: "server client" and my :: "u8 list"
  assumes "peers_ok popen b64_pton dec ps" "p \<in> set ps" "cl_peers st ! i = p" "\<not> pr_seen p"
    and "length my = 32" "length (nw_header nw) = 12"
  defines "net \<equiv> server_register my (nw_ip nw, nw_port nw) (cl_net st)"
  defines "m \<equiv> server_lookup net"
  shows "client_step popen b64_pton (client_ask nw source) interface (packet_start source my) st i =
      Some (Inr (st\<lparr>cl_net := net, cl_repeat := (cl_repeat st \<or> missing dec m p),
        cl_peers := (cl_peers st)[i := peer_after dec m p],
        cl_cmds := cl_cmds st @ peer_lines dec m interface p\<rparr>))"
proof -
  have key: "b64_pton (pr_key p) = Some (dec (pr_key p))" "length (dec (pr_key p)) = 32"
    and popen: "\<forall>line. \<exists>out. popen line = Inr out"
    using assms(1,2) by (auto simp: peers_ok_def)
  have dec: "unbase64 b64_pton (pr_key p) = Inr (dec (pr_key p))"
    using key by (simp add: unbase64_def)
  obtain pkt where net: "client_ask nw source (cl_net st) (take 40 (packet_start source my) @ dec (pr_key p)) = (net, Received pkt)"
    "case m (dec (pr_key p)) of
       Some (a, q) \<Rightarrow> length pkt = reply_size \<and> reply_ip pkt = a \<and> reply_port pkt = q
     | None \<Rightarrow> length pkt < reply_size"
    using client_ask_registers [OF assms(5) key(2) assms(6), of source "cl_net st"] unfolding m_def net_def by blast
  show ?thesis
  proof (cases "m (dec (pr_key p))")
    case None
    have p: "peer_after dec m p = p" using None by (simp add: peer_after_def domIff)
    have "(cl_peers st)[i := p] = cl_peers st" using assms(3) by (metis list_update_id)
    then show ?thesis using None dec net assms(3,4) p
      by (auto simp: client_step_def client_request_def client_receive_def missing_def peer_lines_def domIff reply_size_def)
  next
    case (Some aq)
    obtain a q where aq: "aq = (a, q)" by (cases aq)
    obtain out where "cmd popen (set_endpoint_line interface (pr_key p) a q) = Inr out"
      using cmd_runs [OF popen] by blast
    then show ?thesis using Some aq dec net assms(3,4)
      by (auto simp: client_step_def client_request_def client_receive_def missing_def peer_lines_def peer_after_def domIff Let_def)
  qed
qed

text \<open>The whole pass; a client whose peers have all been seen does not talk to the server.\<close>

definition pass_inv ::
  "(string \<Rightarrow> u8 list) \<Rightarrow> string \<Rightarrow> server \<Rightarrow> server \<Rightarrow> peer list \<Rightarrow> string list \<Rightarrow> nat \<Rightarrow> server client \<Rightarrow> bool" where
  "pass_inv dec interface net net' ps cs i st \<longleftrightarrow>
     cl_peers st = map (peer_after dec (server_lookup net')) (take i ps) @ drop i ps \<and>
     cl_cmds st = cs @ concat (map (peer_lines dec (server_lookup net') interface) (take i ps)) \<and>
     cl_repeat st = (\<exists>p\<in>set (take i ps). missing dec (server_lookup net') p) \<and>
     cl_net st = (if \<forall>p\<in>set (take i ps). pr_seen p then net else net')"

lemma peer_after_seen: "pr_seen p \<Longrightarrow> peer_after dec m p = p"
  by (simp add: peer_after_def)

lemma pass_inv_step:
  fixes net :: server
  assumes ok: "peers_ok popen b64_pton dec ps" and my: "length my = 32" and i: "i < length ps"
    and inv: "pass_inv dec interface net net' ps cs i st" and net': "net' = server_register my (nw_ip nw, nw_port nw) net"
    and full: "length (srv_entries net) = MAX_ENTRIES" and hdr: "length (nw_header nw) = 12"
  shows "\<exists>st'. client_step popen b64_pton (client_ask nw source) interface (packet_start source my) st i = Some (Inr st') \<and>
    pass_inv dec interface net net' ps cs (Suc i) st'"
proof -
  let ?p = "ps ! i" and ?m = "server_lookup net'"
  have p: "cl_peers st ! i = ?p" "?p \<in> set ps" "take (Suc i) ps = take i ps @ [?p]"
    and tail: "drop i ps = ?p # drop (Suc i) ps"
    using inv i by (auto simp: pass_inv_def nth_append take_Suc_conv_app_nth Cons_nth_drop_Suc)
  show ?thesis
  proof (cases "pr_seen ?p")
    case True
    then have "client_step popen b64_pton (client_ask nw source) interface (packet_start source my) st i = Some (Inr st)"
      using p(1) by (simp add: client_step_def)
    then show ?thesis
      using True inv unfolding pass_inv_def p(3) tail by (auto simp: peer_after_seen peer_lines_def missing_def)
  next
    case False
    have "server_register my (nw_ip nw, nw_port nw) (cl_net st) = net'"
      using inv server_register_idem [OF full] by (auto simp: pass_inv_def net')
    note step = client_step_registers [OF ok p(2,1) False my hdr, of source interface, unfolded this]
    have "(map (peer_after dec ?m) (take i ps) @ drop i ps)[i := peer_after dec ?m ?p] =
        map (peer_after dec ?m) (take (Suc i) ps) @ drop (Suc i) ps"
      using i by (simp add: list_update_append tail p(3) min_def)
    then have "pass_inv dec interface net net' ps cs (Suc i)
      (st\<lparr>cl_net := net', cl_repeat := (cl_repeat st \<or> missing dec ?m ?p),
        cl_peers := (cl_peers st)[i := peer_after dec ?m ?p],
        cl_cmds := cl_cmds st @ peer_lines dec ?m interface ?p\<rparr>)"
      using inv False unfolding pass_inv_def p(3) by auto
    then show ?thesis using step by blast
  qed
qed

lemma client_pass_registers:
  assumes "peers_ok popen b64_pton dec (cl_peers st)" "length my = 32" "length (srv_entries (cl_net st)) = MAX_ENTRIES"
    and net': "net' = server_register my (nw_ip nw, nw_port nw) (cl_net st)" and hdr: "length (nw_header nw) = 12"
  shows "\<exists>st'. client_pass popen b64_pton (client_ask nw source) interface (packet_start source my) st = Some (Inr st') \<and>
    pass_inv dec interface (cl_net st) net' (cl_peers st) (cl_cmds st) (length (cl_peers st)) st'"
  unfolding client_pass_def
proof (rule c_for_upt_invariant [where I = "pass_inv dec interface (cl_net st) net' (cl_peers st) (cl_cmds st)"])
  show "pass_inv dec interface (cl_net st) net' (cl_peers st) (cl_cmds st) 0 (st\<lparr>cl_repeat := False\<rparr>)"
    by (simp add: pass_inv_def)
qed (rule pass_inv_step [OF assms(1,2) _ _ net' assms(3) hdr])

section \<open>A client with one peer\<close>

lemma simulates_dom: "simulates ks st m \<Longrightarrow> k \<noteq> zero_pubkey \<Longrightarrow> k \<in> dom m \<longleftrightarrow> k \<in> set ks"
  using filled_find_None [of ks st k] by (auto simp: simulates_def server_lookup_def domIff)

lemma single_pass:
  assumes "\<forall>line. \<exists>out. popen line = Inr out" "b64_pton k = Some K" "good_key K" "good_key my"
    and hdr: "length (nw_header nw) = 12"
    and "simulates ks (cl_net st) m" "my \<in> set ks \<or> length ks < MAX_ENTRIES" "cl_peers st = [unseen k]"
    and m': "m' = m(my \<mapsto> (nw_ip nw, nw_port nw))"
  shows "\<exists>st'. client_pass popen b64_pton (client_ask nw source) interface (packet_start source my) st = Some (Inr st') \<and>
    cl_peers st' = [\<lparr>pr_key = k, pr_seen = K \<in> dom m'\<rparr>] \<and> cl_repeat st' = (K \<notin> dom m') \<and>
    cl_cmds st' = cl_cmds st @ (case m' K of None \<Rightarrow> [] | Some (a, q) \<Rightarrow> [set_endpoint_line interface k a q]) \<and>
    simulates (add_key my ks) (cl_net st') m'"
proof -
  let ?net = "server_register my (nw_ip nw, nw_port nw) (cl_net st)"
  have ok: "peers_ok popen b64_pton (\<lambda>_. K) (cl_peers st)" "length my = 32"
    using assms(1,2,3,4,8) by (simp_all add: peers_ok_def unseen_def good_key_def)
  have f: "filled ks (cl_net st)" and keys: "my \<noteq> zero_pubkey" "K \<noteq> zero_pubkey"
    using assms(3,4,6) by (simp_all add: simulates_def good_key_def)
  have lookup: "server_lookup ?net k' = m' k'" if "k' \<noteq> zero_pubkey" for k'
    using table.lookup_register [OF f keys(1) assms(7) that] assms(6) that by (simp add: simulates_def m')
  have sim: "simulates (add_key my ks) ?net m'"
    using table.inv_register [OF f keys(1) assms(7)] lookup by (simp add: simulates_def add_key_def)
  have "length (srv_entries (cl_net st)) = MAX_ENTRIES" using f by (simp add: filled_def)
  from client_pass_registers [OF ok this refl hdr, of source interface] show ?thesis
    using assms(8) sim lookup [OF keys(2)]
    by (cases "m' K") (auto simp: pass_inv_def unseen_def peer_after_def peer_lines_def missing_def)
qed

lemma loop_one_pass:
  "client_pass popen b64_pton ask interface my st = Some (Inr st') \<Longrightarrow> \<not> cl_repeat st' \<Longrightarrow>
   client_loop 1 popen b64_pton ask interface my st = Some (Inr st')"
  by simp

section \<open>The loop ends only when all peers are known\<close>

lemma client_receive_keys:
  "client_receive popen interface st i pkt = Inr st' \<Longrightarrow> map pr_key (cl_peers st') = map pr_key (cl_peers st)"
proof -
  have keys: "map pr_key ((cl_peers st)[i := (cl_peers st ! i)\<lparr>pr_seen := True\<rparr>]) = map pr_key (cl_peers st)"
    by (simp add: map_update) (metis list_update_id map_update)
  assume "client_receive popen interface st i pkt = Inr st'"
  then show ?thesis
    using keys unfolding client_receive_def Let_def by (auto simp del: map_update length_take split: if_splits sum.splits)
qed

lemma client_step_result:
  assumes "client_step popen b64_pton ask interface my st i = Some (Inr st')" "i < length (cl_peers st)"
  shows "length (cl_peers st') = length (cl_peers st) \<and>
    (\<forall>j. pr_seen (cl_peers st ! j) \<longrightarrow> pr_seen (cl_peers st' ! j)) \<and>
    (cl_repeat st \<longrightarrow> cl_repeat st') \<and> (pr_seen (cl_peers st' ! i) \<or> cl_repeat st')"
  using assms
  by (auto simp: client_step_def client_request_def client_receive_def Let_def nth_list_update
      split: if_splits sum.splits prod.splits answer.splits)

lemma client_step_keys:
  "client_step popen b64_pton ask interface my st i = Some (Inr st') \<Longrightarrow>
     map pr_key (cl_peers st') = map pr_key (cl_peers st)"
  by (auto simp: client_step_def dest: client_receive_keys split: if_splits sum.splits prod.splits answer.splits)

lemma client_pass_result:
  assumes "client_pass popen b64_pton ask interface my st = Some (Inr st')"
  shows "map pr_key (cl_peers st') = map pr_key (cl_peers st) \<and> ((\<forall>p\<in>set (cl_peers st'). pr_seen p) \<or> cl_repeat st')"
proof -
  let ?n = "length (cl_peers st)"
  let ?I = "\<lambda>i st'. length (cl_peers st') = ?n \<and> map pr_key (cl_peers st') = map pr_key (cl_peers st) \<and>
    ((\<forall>j<i. pr_seen (cl_peers st' ! j)) \<or> cl_repeat st')"
  have "?I ?n st'"
  proof (rule c_for_upt_result [where I = ?I, OF _ _ assms [unfolded client_pass_def]])
    fix i st1 st2
    assume "i < ?n" "?I i st1" and step: "client_step popen b64_pton ask interface my st1 i = Some (Inr st2)"
    then show "?I (Suc i) st2"
      using client_step_result [OF step] client_step_keys [OF step] by (auto simp: less_Suc_eq)
  qed simp
  then show ?thesis by (auto simp: in_set_conv_nth)
qed

lemma client_loop_result:
  "client_loop fuel popen b64_pton ask interface my st = Some (Inr st') \<Longrightarrow>
     map pr_key (cl_peers st') = map pr_key (cl_peers st) \<and> (\<forall>p\<in>set (cl_peers st'). pr_seen p)"
proof (induction fuel arbitrary: st)
  case (Suc n)
  then obtain r where r: "client_pass popen b64_pton ask interface my st = Some r"
    by (auto split: Option.bind_splits)
  then obtain st1 where st1: "r = Inr st1" using Suc.prems by (cases r) auto
  show ?case
    using client_pass_result [OF r [unfolded st1]] Suc r st1 by (auto split: if_splits)
qed simp

section \<open>Properties\<close>

text \<open>Claim C17: after every history of datagrams, whatever keys were in them and however many, a pass of the
  client over its peers marks exactly those peers as seen that are in the server's table once the client
  has registered itself, runs for each of them the command that sets the endpoint to the address in the
  table, and asks for another pass exactly when a peer is not there. As long as the zero key is not used
  and no more than \<open>MAX_ENTRIES\<close> keys take part, so that the ring has not overwritten a peer, the table holds
  for every key the address it was last seen from.\<close>

theorem client_pass_learns:
  fixes nw :: network and dgs :: "dgram list" and my :: "u8 list"
  defines "net \<equiv> fst (server_run server_start dgs)"
  defines "m \<equiv> server_lookup (server_register my (nw_ip nw, nw_port nw) net)"
  assumes "\<forall>line. \<exists>out. popen line = Inr out"
    and "\<forall>p\<in>set (cl_peers st). b64_pton (pr_key p) = Some (dec (pr_key p)) \<and> length (dec (pr_key p)) = 32"
    and "length my = 32" "cl_net st = net" "length (nw_header nw) = 12"
  shows "(\<exists>st'. client_pass popen b64_pton (client_ask nw source) interface (packet_start source my) st = Some (Inr st') \<and>
      cl_peers st' = map (peer_after dec m) (cl_peers st) \<and>
      cl_cmds st' = cl_cmds st @ concat (map (peer_lines dec m interface) (cl_peers st)) \<and>
      (cl_repeat st' \<longleftrightarrow> (\<exists>p\<in>set (cl_peers st). missing dec m p))) \<and>
    (my \<noteq> zero_pubkey \<and> (\<forall>dg\<in>set dgs. dg_keys_ok dg) \<and> card (insert my (senders dgs)) \<le> MAX_ENTRIES \<longrightarrow>
      (\<forall>k. k \<noteq> zero_pubkey \<longrightarrow> m k = ((fst (spec_run Map.empty dgs))(my \<mapsto> (nw_ip nw, nw_port nw))) k))"
proof (intro conjI impI allI)
  have ok: "peers_ok popen b64_pton dec (cl_peers st)" using assms(3,4) by (simp add: peers_ok_def)
  have "length (srv_entries (cl_net st)) = MAX_ENTRIES"
    using unique_keys_run [OF unique_keys_start, of dgs] assms(6) by (simp add: unique_keys_def net_def)
  from client_pass_registers [OF ok assms(5) this refl assms(7), of source interface] show
    "\<exists>st'. client_pass popen b64_pton (client_ask nw source) interface (packet_start source my) st = Some (Inr st') \<and>
      cl_peers st' = map (peer_after dec m) (cl_peers st) \<and>
      cl_cmds st' = cl_cmds st @ concat (map (peer_lines dec m interface) (cl_peers st)) \<and>
      (cl_repeat st' \<longleftrightarrow> (\<exists>p\<in>set (cl_peers st). missing dec m p))"
    by (auto simp: pass_inv_def m_def assms(6))
next
  fix k
  assume few: "my \<noteq> zero_pubkey \<and> (\<forall>dg\<in>set dgs. dg_keys_ok dg) \<and> card (insert my (senders dgs)) \<le> MAX_ENTRIES"
    and k: "k \<noteq> zero_pubkey"
  have "card (senders dgs) \<le> MAX_ENTRIES" using few card_insert_le [of "senders dgs" my] by linarith
  then obtain ks where ks: "set ks = senders dgs" "simulates ks net (fst (spec_run Map.empty dgs))"
    using run_simulates [OF simulates_start, of dgs] few by (auto simp: net_def)
  have f: "filled ks net" "distinct ks" using ks(2) by (simp_all add: simulates_def filled_def)
  have "my \<in> set ks \<or> length ks < MAX_ENTRIES"
    by (rule room_left [OF f(2), of "insert my (senders dgs)"]) (use few ks(1) in \<open>auto simp: insert_absorb senders_def\<close>)
  from table.lookup_register [OF f(1) _ this k] few show "m k = ((fst (spec_run Map.empty dgs))(my \<mapsto> (nw_ip nw, nw_port nw))) k"
    using ks(2) k by (simp add: m_def simulates_def)
qed

definition sample_network :: "u32 \<Rightarrow> u16 \<Rightarrow> network" where
  "sample_network ip port =
     \<lparr>nw_server = 0x01020304, nw_local = 0x0100A8C0, nw_ip = ip, nw_port = port, nw_header = 0x45 # replicate 11 0\<rparr>"

lemma client_pass_learns_witness:
  "\<exists>st'. client_pass (\<lambda>_. Inr []) (\<lambda>_. Some (replicate 32 2)) (client_ask (sample_network 1 2) 51820) ''wg0'' (packet_start 51820 (replicate 32 1))
      \<lparr>cl_peers = [\<lparr>pr_key = ''K'', pr_seen = False\<rparr>], cl_net = server_start, cl_repeat = False, cl_cmds = []\<rparr> = Some (Inr st') \<and>
    cl_peers st' = [\<lparr>pr_key = ''K'', pr_seen = False\<rparr>] \<and> cl_cmds st' = [] \<and> cl_repeat st'"
proof -
  let ?my = "replicate 32 1 :: u8 list" and ?K = "replicate 32 2 :: u8 list"
  let ?st = "\<lparr>cl_peers = [\<lparr>pr_key = ''K'', pr_seen = False\<rparr>], cl_net = server_start, cl_repeat = False, cl_cmds = []\<rparr>"
  let ?m = "server_lookup (server_register ?my (nw_ip (sample_network 1 2), nw_port (sample_network 1 2)) (fst (server_run server_start [])))"
  note learns = client_pass_learns [of "\<lambda>_. Inr []" ?st "\<lambda>_. Some ?K" "\<lambda>_. ?K" ?my "[]" "sample_network 1 2" 51820 "''wg0''"]
  have ne: "?K \<noteq> ?my" "?K \<noteq> zero_pubkey" "?my \<noteq> zero_pubkey" by (simp_all add: zero_pubkey_def)
  have "?m ?K = None"
    using learns ne by (auto simp: sample_network_def senders_def MAX_ENTRIES_def)
  then show ?thesis
    using learns by (auto simp: sample_network_def peer_after_def peer_lines_def missing_def domIff)
qed

text \<open>Whatever the server answers, when the loop ends the client has an address for every one of
  its peers; no peer is lost.\<close>

theorem client_loop_complete:
  assumes "client_loop fuel popen b64_pton ask interface my st = Some (Inr st')"
  shows "map pr_key (cl_peers st') = map pr_key (cl_peers st) \<and> (\<forall>p\<in>set (cl_peers st'). pr_seen p)"
  by (rule client_loop_result [OF assms])

lemma client_loop_complete_witness:
  "client_loop 1 (\<lambda>_. Inr []) (\<lambda>_. Some (replicate 32 2)) (\<lambda>net _. (net, Received (replicate 28 0 @ [1, 0, 0, 0, 2, 0]))) ''wg0'' (replicate 32 1)
     \<lparr>cl_peers = [\<lparr>pr_key = ''K'', pr_seen = False\<rparr>], cl_net = (), cl_repeat = False, cl_cmds = []\<rparr> =
   Some (Inr \<lparr>cl_peers = [\<lparr>pr_key = ''K'', pr_seen = True\<rparr>], cl_net = (), cl_repeat = False,
     cl_cmds = [set_endpoint_line ''wg0'' ''K'' 1 2]\<rparr>) \<and>
   list_all pr_seen [\<lparr>pr_key = ''K'', pr_seen = True\<rparr>]"
proof -
  have run: "client_loop 1 (\<lambda>_. Inr []) (\<lambda>_. Some (replicate 32 2)) (\<lambda>net _. (net, Received (replicate 28 0 @ [1, 0, 0, 0, 2, 0]))) ''wg0'' (replicate 32 1)
     \<lparr>cl_peers = [\<lparr>pr_key = ''K'', pr_seen = False\<rparr>], cl_net = (), cl_repeat = False, cl_cmds = []\<rparr> =
   Some (Inr \<lparr>cl_peers = [\<lparr>pr_key = ''K'', pr_seen = True\<rparr>], cl_net = (), cl_repeat = False,
     cl_cmds = [set_endpoint_line ''wg0'' ''K'' 1 2]\<rparr>)"
    by (simp add: client_pass_def client_step_def client_request_def client_receive_def unbase64_def cmd_def c_fgets_def reply_size_def reply_ip_def reply_port_def)
  show ?thesis using client_loop_complete [OF run] run by (simp add: list_all_iff)
qed

text \<open>Claim C6: two clients that have each other as peer find each other through the server: the second one
  after its first pass, the first one after its second pass. Each then runs the command that sets the endpoint
  of its peer to the address the peer's request came from.\<close>

theorem rendezvous:
  assumes "\<forall>line. \<exists>out. popen line = Inr out" "b64_pton ka = Some A" "b64_pton kb = Some B"
    and "good_key A" "good_key B" "A \<noteq> B" "\<forall>dg\<in>set dgs. dg_keys_ok dg"
    and "card ({A, B} \<union> senders dgs) \<le> MAX_ENTRIES" "B \<notin> senders dgs"
    and "length (nw_header nwA) = 12" "length (nw_header nwB) = 12"
  shows "\<exists>a b a'.
    client_pass popen b64_pton (client_ask nwA sourceA) ifA (packet_start sourceA A)
      \<lparr>cl_peers = [unseen kb], cl_net = fst (server_run server_start dgs), cl_repeat = False, cl_cmds = []\<rparr> = Some (Inr a) \<and>
    cl_repeat a \<and> cl_cmds a = [] \<and>
    client_loop 1 popen b64_pton (client_ask nwB sourceB) ifB (packet_start sourceB B)
      \<lparr>cl_peers = [unseen ka], cl_net = cl_net a, cl_repeat = False, cl_cmds = []\<rparr> = Some (Inr b) \<and>
    cl_cmds b = [set_endpoint_line ifB ka (nw_ip nwA) (nw_port nwA)] \<and>
    client_loop 1 popen b64_pton (client_ask nwA sourceA) ifA (packet_start sourceA A) (a\<lparr>cl_net := cl_net b\<rparr>) = Some (Inr a') \<and>
    cl_cmds a' = [set_endpoint_line ifA kb (nw_ip nwB) (nw_port nwB)]"
proof -
  let ?m = "fst (spec_run Map.empty dgs)" and ?net = "fst (server_run server_start dgs)"
  let ?start = "\<lambda>k net. \<lparr>cl_peers = [unseen k], cl_net = net, cl_repeat = False, cl_cmds = []\<rparr>"
  have fin: "finite (senders dgs)" by (simp add: senders_def)
  have "card (senders dgs) \<le> card ({A, B} \<union> senders dgs)" by (rule card_mono) (use fin in auto)
  then obtain ks where ks: "set ks = senders dgs" "simulates ks ?net ?m"
    using run_simulates [OF simulates_start assms(7)] assms(8) by auto
  have d: "distinct ks'" if "simulates ks' st m" for ks' st m
    using that by (simp add: simulates_def filled_def)
  have room: "A \<in> set ks \<or> length ks < MAX_ENTRIES"
    by (rule room_left [OF d [OF ks(2)], of "{A, B} \<union> senders dgs"]) (use assms(8) ks(1) fin in \<open>auto simp: Un_ac\<close>)
  let ?m1 = "?m(A \<mapsto> (nw_ip nwA, nw_port nwA))" and ?ks1 = "add_key A ks"
  have "B \<notin> dom ?m" using simulates_dom [OF ks(2), of B] assms(5,9) ks(1) by (simp add: good_key_def)
  then have B: "?m1 B = None" using assms(6) by (cases "?m B") auto
  obtain a where a: "client_pass popen b64_pton (client_ask nwA sourceA) ifA (packet_start sourceA A) (?start kb ?net) = Some (Inr a)"
    "cl_peers a = [\<lparr>pr_key = kb, pr_seen = False\<rparr>]" "cl_repeat a" "cl_cmds a = []" "simulates ?ks1 (cl_net a) ?m1"
    using single_pass [of popen b64_pton kb B A, OF assms(1,3,5,4,10), of ks "?start kb ?net" ?m ?m1 sourceA ifA] ks(2) room
    unfolding B domIff by auto
  have room1: "B \<in> set ?ks1 \<or> length ?ks1 < MAX_ENTRIES"
    by (rule room_left [OF d [OF a(5)], of "{A, B} \<union> senders dgs"])
      (use assms(8) ks(1) fin in \<open>auto simp: add_key_def insert_absorb Un_ac insert_commute\<close>)
  let ?m2 = "?m1(B \<mapsto> (nw_ip nwB, nw_port nwB))" and ?ks2 = "add_key B ?ks1"
  obtain b where b: "client_pass popen b64_pton (client_ask nwB sourceB) ifB (packet_start sourceB B) (?start ka (cl_net a)) = Some (Inr b)"
    "\<not> cl_repeat b" "cl_cmds b = [set_endpoint_line ifB ka (nw_ip nwA) (nw_port nwA)]" "simulates ?ks2 (cl_net b) ?m2"
    using single_pass [of popen b64_pton ka A B, OF assms(1,2,4,5,11), of ?ks1 "?start ka (cl_net a)" ?m1 ?m2 sourceB ifB] a(5) room1 assms(6)
    by auto
  have room2: "A \<in> set ?ks2 \<or> length ?ks2 < MAX_ENTRIES" by (simp add: add_key_def)
  obtain a' where a': "client_pass popen b64_pton (client_ask nwA sourceA) ifA (packet_start sourceA A) (a\<lparr>cl_net := cl_net b\<rparr>) = Some (Inr a')"
    "\<not> cl_repeat a'" "cl_cmds a' = [set_endpoint_line ifA kb (nw_ip nwB) (nw_port nwB)]"
    using single_pass [of popen b64_pton kb B A, OF assms(1,3,5,4,10), of ?ks2 "a\<lparr>cl_net := cl_net b\<rparr>" ?m2 "?m2(A \<mapsto> (nw_ip nwA, nw_port nwA))" sourceA ifA]
      b(4) room2 assms(6) a(2,4) by (auto simp: unseen_def)
  show ?thesis
    using a(1,3,4) b(3) a'(3) loop_one_pass [OF b(1,2)] loop_one_pass [OF a'(1,2)] by blast
qed

lemma rendezvous_witness:
  "\<exists>a b a'.
    client_pass (\<lambda>_. Inr []) (\<lambda>k. Some (replicate 32 (if k = ''A'' then 1 else 2))) (client_ask (sample_network 10 11) 1) ''wg0'' (packet_start 1 (replicate 32 1))
      \<lparr>cl_peers = [unseen ''B''], cl_net = server_start, cl_repeat = False, cl_cmds = []\<rparr> = Some (Inr a) \<and>
    cl_repeat a \<and> cl_cmds a = [] \<and>
    client_loop 1 (\<lambda>_. Inr []) (\<lambda>k. Some (replicate 32 (if k = ''A'' then 1 else 2))) (client_ask (sample_network 20 21) 2) ''wg1'' (packet_start 2 (replicate 32 2))
      \<lparr>cl_peers = [unseen ''A''], cl_net = cl_net a, cl_repeat = False, cl_cmds = []\<rparr> = Some (Inr b) \<and>
    cl_cmds b = [set_endpoint_line ''wg1'' ''A'' 10 11] \<and>
    client_loop 1 (\<lambda>_. Inr []) (\<lambda>k. Some (replicate 32 (if k = ''A'' then 1 else 2))) (client_ask (sample_network 10 11) 1) ''wg0'' (packet_start 1 (replicate 32 1))
      (a\<lparr>cl_net := cl_net b\<rparr>) = Some (Inr a') \<and>
    cl_cmds a' = [set_endpoint_line ''wg0'' ''B'' 20 21]"
proof -
  let ?A = "replicate 32 1 :: u8 list" and ?B = "replicate 32 2 :: u8 list"
  have "?A \<noteq> ?B" "good_key ?A" "good_key ?B" by (simp_all add: good_key_def zero_pubkey_def)
  moreover have "card ({?A, ?B} \<union> senders []) \<le> MAX_ENTRIES" "?B \<notin> senders []"
    by (simp_all add: senders_def MAX_ENTRIES_def)
  ultimately show ?thesis
    using rendezvous [of "\<lambda>_. Inr []" "\<lambda>k. Some (replicate 32 (if k = ''A'' then 1 else 2))" "''A''" ?A "''B''" ?B "[]"
      "sample_network 10 11" "sample_network 20 21" 1 "''wg0''" 2 "''wg1''"]
    by (simp add: sample_network_def del: client_loop.simps One_nat_def)
qed

end
