(* ===== verification/Nat_System.thy ===== *)
theory Nat_System
  imports Nat_Punching
begin

text \<open>
  Hole punching as a distributed system: the server, any number of clients that run at the same time, and
  strangers who send datagrams to the server and packets to the clients. The steps of the clients, of
  the server and of the strangers interleave in any order, and packets may be lost. The invariant of the
  reachable worlds gives the safety of the endpoints that the clients set.

  The network is an honest one in what concerns the server's replies: it may lose them, but it neither
  duplicates nor forges them, and a client that waits gets the reply to its own request or a packet that
  is not from the server. A reply does not say which key it is for, so that without this assumption a
  late or repeated reply would be taken for the address of the next peer. The queue of the raw socket
  before the filter is attached is not represented either.
\<close>

section \<open>Worlds\<close>

text \<open>
  Where a client is in its loop: at the top of the body, in \<open>recv\<close> with its request under way,
  in \<open>recv\<close> with a datagram in the queue of its socket, or stopped: because of an error, or because a
  packet was lost and \<open>recv\<close> does not return.
\<close>

datatype phase = Ready | Sent "u8 list" | Answered "u8 list" | Stopped

record node =
  nd_conf :: client_conf
  nd_network :: network
  nd_client :: "unit client"
  nd_next :: nat
  nd_phase :: phase

definition nd_start :: "client_conf \<Rightarrow> network \<Rightarrow> node" where
  "nd_start su nw =
     \<lparr>nd_conf = su, nd_network = nw,
      nd_client = \<lparr>cl_peers = su_peers su, cl_net = (), cl_repeat = False, cl_cmds = []\<rparr>,
      nd_next = 0, nd_phase = Ready\<rparr>"

definition nd_packet :: "node \<Rightarrow> u8 list" where
  "nd_packet nd = packet_start (su_source (nd_conf nd)) (su_pubkey (nd_conf nd))"

definition nd_peer :: "node \<Rightarrow> peer" where
  "nd_peer nd = cl_peers (nd_client nd) ! nd_next nd"

text \<open>The log of the datagrams that the server has received is not part of the program.\<close>

record world =
  w_server :: server
  w_log :: "dgram list"
  w_nodes :: "node list"

section \<open>Steps\<close>

text \<open>
  The steps a client makes by itself. A packet that is not from the server reaches the client
  only when the filter of its socket lets it pass.
\<close>

inductive node_step :: "(string \<Rightarrow> int + string) \<Rightarrow> (string \<Rightarrow> u8 list option) \<Rightarrow> node \<Rightarrow> node \<Rightarrow> bool"
  for popen b64_pton where
  skip_seen:
    "nd_phase nd = Ready \<Longrightarrow> nd_next nd < length (cl_peers (nd_client nd)) \<Longrightarrow> pr_seen (nd_peer nd) \<Longrightarrow>
     node_step popen b64_pton nd (nd\<lparr>nd_next := nd_next nd + 1\<rparr>)"
| send:
    "nd_phase nd = Ready \<Longrightarrow> nd_next nd < length (cl_peers (nd_client nd)) \<Longrightarrow> \<not> pr_seen (nd_peer nd) \<Longrightarrow>
     client_request b64_pton (nd_packet nd) (nd_peer nd) = Inr packet \<Longrightarrow>
     node_step popen b64_pton nd (nd\<lparr>nd_phase := Sent packet\<rparr>)"
| bad_key:
    "nd_phase nd = Ready \<Longrightarrow> nd_next nd < length (cl_peers (nd_client nd)) \<Longrightarrow> \<not> pr_seen (nd_peer nd) \<Longrightarrow>
     client_request b64_pton (nd_packet nd) (nd_peer nd) = Inl e \<Longrightarrow>
     node_step popen b64_pton nd (nd\<lparr>nd_phase := Stopped\<rparr>)"
| lose:
    "nd_phase nd = Sent packet \<or> nd_phase nd = Answered packet \<Longrightarrow>
     node_step popen b64_pton nd (nd\<lparr>nd_phase := Stopped\<rparr>)"
| noise:
    "nd_phase nd = Sent packet \<Longrightarrow>
     be32 pkt 12 \<noteq> ntohl (nw_server (nd_network nd)) \<or> be16 pkt 20 \<noteq> SERVER_PORT \<Longrightarrow>
     bpf_run (su_filter (nd_conf nd)) pkt 0 0 \<noteq> 0 \<Longrightarrow>
     node_step popen b64_pton nd (nd\<lparr>nd_phase := Answered pkt\<rparr>)"
| receive:
    "nd_phase nd = Answered pkt \<Longrightarrow>
     client_receive popen (su_interface (nd_conf nd)) (nd_client nd) (nd_next nd) pkt = Inr st \<Longrightarrow>
     node_step popen b64_pton nd (nd\<lparr>nd_client := st, nd_next := nd_next nd + 1, nd_phase := Ready\<rparr>)"
| fail:
    "nd_phase nd = Answered pkt \<Longrightarrow>
     client_receive popen (su_interface (nd_conf nd)) (nd_client nd) (nd_next nd) pkt = Inl e \<Longrightarrow>
     node_step popen b64_pton nd (nd\<lparr>nd_phase := Stopped\<rparr>)"
| check_again:
    "nd_phase nd = Ready \<Longrightarrow> nd_next nd = length (cl_peers (nd_client nd)) \<Longrightarrow> cl_repeat (nd_client nd) \<Longrightarrow>
     node_step popen b64_pton nd (nd\<lparr>nd_client := (nd_client nd)\<lparr>cl_repeat := False\<rparr>, nd_next := 0\<rparr>)"

text \<open>A turn of the server, for the request of a client or for a datagram of a stranger.\<close>

definition nd_answer :: "node \<Rightarrow> u8 list \<Rightarrow> reply option \<Rightarrow> node" where
  "nd_answer nd packet r =
     nd\<lparr>nd_phase := (case to_client (nd_network nd) (su_filter (nd_conf nd)) packet r of
                       None \<Rightarrow> Stopped
                     | Some pkt \<Rightarrow> Answered pkt)\<rparr>"

inductive world_step ::
  "(string \<Rightarrow> int + string) \<Rightarrow> (string \<Rightarrow> u8 list option) \<Rightarrow> (dgram \<Rightarrow> bool) \<Rightarrow> world \<Rightarrow> world \<Rightarrow> bool"
  for popen b64_pton stranger where
  client_moves:
    "n < length (w_nodes w) \<Longrightarrow> node_step popen b64_pton (w_nodes w ! n) nd \<Longrightarrow>
     world_step popen b64_pton stranger w (w\<lparr>w_nodes := (w_nodes w)[n := nd]\<rparr>)"
| server_answers:
    "n < length (w_nodes w) \<Longrightarrow> nd = w_nodes w ! n \<Longrightarrow> nd_phase nd = Sent packet \<Longrightarrow>
     to_server (nd_network nd) (su_addr (nd_conf nd)) packet = Some dg \<Longrightarrow> server_step (w_server w) dg = (st, r) \<Longrightarrow>
     world_step popen b64_pton stranger w
       (w\<lparr>w_server := st, w_log := w_log w @ [dg], w_nodes := (w_nodes w)[n := nd_answer nd packet r]\<rparr>)"
| stranger_sends:
    "stranger dg \<Longrightarrow> server_step (w_server w) dg = (st, r) \<Longrightarrow>
     world_step popen b64_pton stranger w (w\<lparr>w_server := st, w_log := w_log w @ [dg]\<rparr>)"

text \<open>
  The start: every client has gone through its set-up with the commands and the decoder of the system,
  the resolver has given it the server's address, and no peer has the zero key.
\<close>

definition node_starts :: "(string \<Rightarrow> int + string) \<Rightarrow> (string \<Rightarrow> u8 list option) \<Rightarrow> node \<Rightarrow> bool" where
  "node_starts popen b64_pton nd \<longleftrightarrow>
     (\<exists>env argv. client_setup popen b64_pton env argv = Some (Inr (nd_conf nd))) \<and>
     nd = nd_start (nd_conf nd) (nd_network nd) \<and>
     su_addr (nd_conf nd) = nw_server (nd_network nd) \<and> length (nw_header (nd_network nd)) = 12 \<and>
     (\<forall>p\<in>set (su_peers (nd_conf nd)). unbase64 b64_pton (pr_key p) \<noteq> Inr zero_pubkey)"

inductive reachable ::
  "(string \<Rightarrow> int + string) \<Rightarrow> (string \<Rightarrow> u8 list option) \<Rightarrow> (dgram \<Rightarrow> bool) \<Rightarrow> node list \<Rightarrow> world \<Rightarrow> bool"
  for popen b64_pton stranger nodes where
  start:
    "\<forall>nd\<in>set nodes. node_starts popen b64_pton nd \<Longrightarrow>
     reachable popen b64_pton stranger nodes \<lparr>w_server = server_start, w_log = [], w_nodes = nodes\<rparr>"
| step:
    "reachable popen b64_pton stranger nodes w \<Longrightarrow> world_step popen b64_pton stranger w w' \<Longrightarrow>
     reachable popen b64_pton stranger nodes w'"

inductive_cases node_stepE: "node_step popen b64_pton nd nd'"
inductive_cases world_stepE: "world_step popen b64_pton stranger w w'"

section \<open>What the server remembers has been sent\<close>

definition seen_at :: "dgram list \<Rightarrow> u8 list \<Rightarrow> u32 \<Rightarrow> u16 \<Rightarrow> bool" where
  "seen_at log key ip port \<longleftrightarrow>
     (\<exists>dg\<in>set log. 64 \<le> length (dg_data dg) \<and> take 32 (dg_data dg) = key \<and> dg_ip dg = ip \<and> dg_port dg = port)"

lemma seen_at_later: "seen_at log key ip port \<Longrightarrow> seen_at (log @ dgs) key ip port"
  by (auto simp: seen_at_def)

definition table_ok :: "dgram list \<Rightarrow> server \<Rightarrow> bool" where
  "table_ok log st \<longleftrightarrow> length (srv_entries st) = MAX_ENTRIES \<and>
     (\<forall>e\<in>set (srv_entries st). en_pubkey e \<noteq> zero_pubkey \<longrightarrow> seen_at log (en_pubkey e) (en_ip e) (en_port e))"

lemma table_ok_start: "table_ok [] server_start"
  by (simp add: table_ok_def server_start_def)

lemma table_ok_register:
  assumes ok: "table_ok log st" and dg: "64 \<le> length (dg_data dg)"
  shows "table_ok (log @ [dg]) (server_register (take 32 (dg_data dg)) (dg_ip dg, dg_port dg) st)"
proof -
  let ?key = "take 32 (dg_data dg)" and ?log = "log @ [dg]"
  have len: "length (srv_entries st) = MAX_ENTRIES" using ok by (simp add: table_ok_def)
  obtain i st' where run: "find_or_insert_entry st ?key = (i, st')" by fastforce
  note slot = find_or_insert_entry_slot [OF len run]
  let ?e = "(srv_entries st' ! i)\<lparr>en_ip := dg_ip dg, en_port := dg_port dg\<rparr>"
  have st: "srv_entries (server_register ?key (dg_ip dg, dg_port dg) st) = (srv_entries st')[i := ?e]"
    by (simp add: server_register_def run set_entry_def)
  have "seen_at ?log (en_pubkey e) (en_ip e) (en_port e)"
    if "j < MAX_ENTRIES" "e = (srv_entries st')[i := ?e] ! j" "en_pubkey e \<noteq> zero_pubkey" for e j
  proof (cases "j = i")
    case True
    then show ?thesis using that slot(1,2,3) dg by (auto simp: seen_at_def)
  next
    case False
    then have "e = srv_entries st ! j" using that slot(4) by simp
    then have "e \<in> set (srv_entries st)" using that(1) len by simp
    then show ?thesis using ok that(3) by (simp add: table_ok_def seen_at_later)
  qed
  then show ?thesis
    unfolding table_ok_def st by (auto simp: slot(3) in_set_conv_nth)
qed

lemma table_ok_lookup:
  assumes "table_ok log st" "server_lookup st key = Some (a, q)" "key \<noteq> zero_pubkey"
  shows "seen_at log key a q"
proof -
  obtain i where i: "find_entry st key = Some i" "a = en_ip (srv_entries st ! i)" "q = en_port (srv_entries st ! i)"
    using assms(2) by (auto simp: server_lookup_def)
  then have "i < MAX_ENTRIES" "en_pubkey (srv_entries st ! i) = key" by (simp_all add: find_entry_Some)
  then show ?thesis using assms(1,3) i by (metis nth_mem table_ok_def)
qed

lemma server_step_table:
  assumes "table_ok log st" "server_step st dg = (st', r)"
  shows "table_ok (log @ [dg]) st'"
    and "r = Some (Address_Reply a q) \<Longrightarrow> take 32 (drop 32 (dg_data dg)) \<noteq> zero_pubkey \<Longrightarrow>
      seen_at (log @ [dg]) (take 32 (drop 32 (dg_data dg))) a q"
proof -
  have later: "table_ok (log @ [dg]) st" using assms(1) by (auto simp: table_ok_def seen_at_later)
  have short: "st' = st \<and> r = None" if "\<not> 64 \<le> length (dg_data dg)"
    using that assms(2) by (auto simp: server_step_def)
  note reg = table_ok_register [OF assms(1), of dg]
  show "table_ok (log @ [dg]) st'"
    using later short reg assms(2) by (cases "64 \<le> length (dg_data dg)") (auto simp: server_step_register Let_def)
  assume r: "r = Some (Address_Reply a q)" and key: "take 32 (drop 32 (dg_data dg)) \<noteq> zero_pubkey"
  then have long: "64 \<le> length (dg_data dg)" using short by blast
  have "server_lookup st' (take 32 (drop 32 (dg_data dg))) = Some (a, q)"
    using assms(2) r unfolding server_step_register [OF long] Let_def by (auto split: option.splits)
  then show "seen_at (log @ [dg]) (take 32 (drop 32 (dg_data dg))) a q"
    using table_ok_lookup [OF \<open>table_ok (log @ [dg]) st'\<close> _ key] by blast
qed

section \<open>The invariant\<close>

text \<open>The set-up of a client: an unseen peer for every key, a key of 32 bytes and the filter for the server.\<close>

lemma read_peers_loop_unseen:
  "read_peers_loop s ps = Some qs \<Longrightarrow> \<forall>p\<in>set ps. \<not> pr_seen p \<Longrightarrow> \<forall>p\<in>set qs. \<not> pr_seen p"
proof (induction s ps rule: read_peers_loop.induct)
  case (1 s ps)
  show ?case
  proof (cases "c_fgets 45 s")
    case (Some got_rest)
    obtain got rest where g: "(got, rest) = got_rest" by (cases got_rest) simp
    let ?len = "buf_len got"
    let ?key = "if got ! (?len - 1) = newline then take (?len - 1) got else take ?len got"
    have run: "read_peers_loop s ps = (if length ps \<ge> MAX_PEERS then None
        else if ?len \<noteq> 44 \<and> ?len \<noteq> 45 then read_peers_loop rest ps
        else read_peers_loop rest (ps @ [\<lparr>pr_key = ?key, pr_seen = False\<rparr>]))"
      by (subst read_peers_loop.simps) (simp add: Some g [symmetric] Let_def)
    have room: "\<not> MAX_PEERS \<le> length ps" using 1(3) run by (auto split: if_splits)
    note IH = 1(1) [OF Some g room refl] 1(2) [OF Some g room refl _ refl]
    show ?thesis
    proof (cases "?len \<noteq> 44 \<and> ?len \<noteq> 45")
      case True
      then show ?thesis using IH(1) 1(3,4) run room by simp
    next
      case False
      show ?thesis by (rule IH(2) [OF False]) (use 1(3,4) run room False in auto)
    qed
  qed (use 1(3,4) in \<open>auto simp: read_peers_loop.simps [of s]\<close>)
qed

lemma and_then_Inr: "and_then m f = Some (Inr y) \<longleftrightarrow> (\<exists>x. m = Some (Inr x) \<and> f x = Some (Inr y))"
  by (auto simp: and_then_def split: option.splits sum.splits)

lemma deref_Inr: "deref r = Some (Inr x) \<longleftrightarrow> r = Inr (Some x)"
  by (auto simp: deref_def split: sum.splits option.splits)

lemma read_peers_unseen: "read_peers popen interface = Inr (Some ps) \<Longrightarrow> \<forall>p\<in>set ps. \<not> pr_seen p"
  by (auto simp: read_peers_def dest: read_peers_loop_unseen split: sum.splits)

lemma unbase64_Inr: "unbase64 b64_pton k = Inr key \<longleftrightarrow> b64_pton k = Some key \<and> length key = 32"
  by (auto simp: unbase64_def split: option.splits)

lemma apply_bpf_Inr: "apply_bpf env port ip = Inr prog \<longleftrightarrow> prog = bpf_filter port ip \<and> env_attach env prog = None"
  by (auto simp: apply_bpf_def Let_def split: option.splits)

lemma client_setup_conf:
  assumes "client_setup popen b64_pton env argv = Some (Inr su)"
  shows "su_filter su = bpf_filter (ntohs (su_source su)) (ntohl (su_addr su)) \<and> length (su_pubkey su) = 32 \<and>
    (\<forall>p\<in>set (su_peers su). \<not> pr_seen p)"
  using assms
  by (auto simp: client_setup_def and_then_Inr deref_Inr unbase64_Inr apply_bpf_Inr bind_eq_Some_conv Let_def
      dest: read_peers_unseen split: if_splits option.splits sum.splits)

definition node_ok :: "(string \<Rightarrow> u8 list option) \<Rightarrow> node \<Rightarrow> bool" where
  "node_ok b64_pton nd \<longleftrightarrow>
     su_filter (nd_conf nd) = bpf_filter (ntohs (su_source (nd_conf nd))) (ntohl (su_addr (nd_conf nd))) \<and>
     length (su_pubkey (nd_conf nd)) = 32 \<and> su_addr (nd_conf nd) = nw_server (nd_network nd) \<and>
     length (nw_header (nd_network nd)) = 12 \<and>
     (\<forall>p\<in>set (cl_peers (nd_client nd)). unbase64 b64_pton (pr_key p) \<noteq> Inr zero_pubkey)"

text \<open>
  What is under way belongs to the peer that the client waits for, and every endpoint that has been set
  is an address from which the key of the peer was seen.
\<close>

definition waits_for :: "(string \<Rightarrow> u8 list option) \<Rightarrow> node \<Rightarrow> u8 list \<Rightarrow> bool" where
  "waits_for b64_pton nd key \<longleftrightarrow>
     nd_next nd < length (cl_peers (nd_client nd)) \<and> unbase64 b64_pton (pr_key (nd_peer nd)) = Inr key"

fun phase_ok :: "(string \<Rightarrow> u8 list option) \<Rightarrow> dgram list \<Rightarrow> node \<Rightarrow> phase \<Rightarrow> bool" where
  "phase_ok b64_pton log nd Ready = True"
| "phase_ok b64_pton log nd Stopped = True"
| "phase_ok b64_pton log nd (Sent packet) = (\<exists>key. waits_for b64_pton nd key \<and> packet = take 40 (nd_packet nd) @ key)"
| "phase_ok b64_pton log nd (Answered pkt) =
     (\<exists>key. waits_for b64_pton nd key \<and>
        (let rep = take reply_size pkt in
         length rep = reply_size \<longrightarrow> seen_at log key (reply_ip rep) (reply_port rep)))"

definition learned :: "(string \<Rightarrow> u8 list option) \<Rightarrow> dgram list \<Rightarrow> string \<Rightarrow> peer \<Rightarrow> string \<Rightarrow> bool" where
  "learned b64_pton log interface p line \<longleftrightarrow>
     (\<exists>key ip port. unbase64 b64_pton (pr_key p) = Inr key \<and> seen_at log key ip port \<and>
        line = set_endpoint_line interface (pr_key p) ip port)"

definition found_ok :: "(string \<Rightarrow> u8 list option) \<Rightarrow> dgram list \<Rightarrow> string \<Rightarrow> 'n client \<Rightarrow> bool" where
  "found_ok b64_pton log interface st \<longleftrightarrow>
     (\<forall>p\<in>set (cl_peers st). pr_seen p \<longrightarrow> (\<exists>line\<in>set (cl_cmds st). learned b64_pton log interface p line)) \<and>
     (\<forall>line\<in>set (cl_cmds st). \<exists>p\<in>set (cl_peers st). pr_seen p \<and> learned b64_pton log interface p line)"

definition node_inv :: "(string \<Rightarrow> u8 list option) \<Rightarrow> dgram list \<Rightarrow> node \<Rightarrow> bool" where
  "node_inv b64_pton log nd \<longleftrightarrow> node_ok b64_pton nd \<and> phase_ok b64_pton log nd (nd_phase nd) \<and>
     found_ok b64_pton log (su_interface (nd_conf nd)) (nd_client nd)"

lemma learned_later: "learned b64_pton log interface p line \<Longrightarrow> learned b64_pton (log @ dgs) interface p line"
  unfolding learned_def using seen_at_later by blast

lemma node_inv_later: "node_inv b64_pton log nd \<Longrightarrow> node_inv b64_pton (log @ dgs) nd"
  by (cases "nd_phase nd") (auto simp: node_inv_def found_ok_def Let_def intro: learned_later seen_at_later; blast intro: learned_later seen_at_later)+

lemma node_inv_start: "node_starts popen b64_pton nd \<Longrightarrow> node_inv b64_pton [] nd"
  by (cases nd) (auto simp: node_starts_def node_inv_def node_ok_def nd_start_def found_ok_def dest: client_setup_conf)

text \<open>The filter keeps out what is not from the server.\<close>

lemma filter_blocks:
  assumes "node_ok b64_pton nd" "bpf_run (su_filter (nd_conf nd)) pkt 0 0 \<noteq> 0"
  shows "be32 pkt 12 = ntohl (nw_server (nd_network nd)) \<and> be16 pkt 20 = SERVER_PORT"
  using assms by (auto simp: node_ok_def bpf_filter_accepts_aux PORT_def SERVER_PORT_def split: if_splits)

text \<open>A received datagram sets the endpoint of the peer that was asked for.\<close>

lemma client_receive_found:
  assumes ok: "found_ok b64_pton log interface st" and i: "i < length (cl_peers st)"
    and run: "client_receive popen interface st i pkt = Inr st'"
    and key: "unbase64 b64_pton (pr_key (cl_peers st ! i)) = Inr key"
    and seen: "let rep = take reply_size pkt in
      length rep = reply_size \<longrightarrow> seen_at log key (reply_ip rep) (reply_port rep)"
  shows "found_ok b64_pton log interface st'"
proof (cases "length (take reply_size pkt) = reply_size")
  case True
  let ?p = "cl_peers st ! i" and ?rep = "take reply_size pkt"
  let ?line = "set_endpoint_line interface (pr_key ?p) (reply_ip ?rep) (reply_port ?rep)"
  have st': "cl_peers st' = (cl_peers st)[i := ?p\<lparr>pr_seen := True\<rparr>]" "cl_cmds st' = cl_cmds st @ [?line]"
    using run True by (auto simp: client_receive_def Let_def split: sum.splits)
  have new: "learned b64_pton log interface (?p\<lparr>pr_seen := True\<rparr>) ?line"
    using key seen True by (auto simp: learned_def Let_def)
  have old: "p \<in> set (cl_peers st') \<or> p = ?p" if "p \<in> set (cl_peers st)" for p
    using that i unfolding st'(1) by (metis in_set_conv_nth length_list_update nth_list_update_neq)
  have p': "?p\<lparr>pr_seen := True\<rparr> \<in> set (cl_peers st')" "pr_seen (?p\<lparr>pr_seen := True\<rparr>)"
    using i by (simp_all add: st'(1) set_update_memI)
  have same: "learned b64_pton log interface (?p\<lparr>pr_seen := True\<rparr>) line" if "learned b64_pton log interface ?p line" for line
    using that by (simp add: learned_def)
  have "\<exists>p\<in>set (cl_peers st'). pr_seen p \<and> learned b64_pton log interface p line"
    if line: "line \<in> set (cl_cmds st')" for line
  proof (cases "line = ?line")
    case False
    then obtain p where "p \<in> set (cl_peers st)" "pr_seen p" "learned b64_pton log interface p line"
      using line ok unfolding found_ok_def st'(2) by auto
    then show ?thesis using old p' same by blast
  qed (use new p' in blast)
  moreover have "\<exists>line\<in>set (cl_cmds st'). learned b64_pton log interface p line"
    if "p \<in> set (cl_peers st')" "pr_seen p" for p
  proof (cases "p = ?p\<lparr>pr_seen := True\<rparr>")
    case False
    then have "p \<in> set (cl_peers st)" using that(1) set_update_subset_insert [of "cl_peers st" i] unfolding st'(1) by auto
    then show ?thesis using ok that(2) unfolding found_ok_def st'(2) by auto
  qed (use new in \<open>simp add: st'(2)\<close>)
  ultimately show ?thesis unfolding found_ok_def by blast
next
  case False
  then have "st' = st\<lparr>cl_repeat := True\<rparr>" using run unfolding client_receive_def Let_def if_P [OF False] by simp
  then show ?thesis using ok by (simp add: found_ok_def)
qed

text \<open>Every step of a client keeps its invariant.\<close>

lemma node_inv_step:
  assumes inv: "node_inv b64_pton log nd" and step: "node_step popen b64_pton nd nd'"
  shows "node_inv b64_pton log nd'"
  using step
proof cases
  case (send packet)
  then show ?thesis
    using inv by (auto simp: node_inv_def node_ok_def waits_for_def client_request_def nd_peer_def nd_packet_def split: sum.splits)
next
  case (noise packet pkt)
  then show ?thesis using inv filter_blocks [of b64_pton nd pkt] by (auto simp: node_inv_def)
next
  case (receive pkt st)
  obtain key where "nd_next nd < length (cl_peers (nd_client nd))" "unbase64 b64_pton (pr_key (nd_peer nd)) = Inr key"
    "let rep = take reply_size pkt in length rep = reply_size \<longrightarrow> seen_at log key (reply_ip rep) (reply_port rep)"
    using inv receive(2) by (auto simp: node_inv_def waits_for_def)
  then have "found_ok b64_pton log (su_interface (nd_conf nd)) st"
    using client_receive_found receive(3) inv by (metis nd_peer_def node_inv_def)
  moreover have "pr_key ` set (cl_peers st) = pr_key ` set (cl_peers (nd_client nd))"
    using client_receive_keys [OF receive(3)] by (metis list.set_map)
  then have "\<forall>p\<in>set (cl_peers st). unbase64 b64_pton (pr_key p) \<noteq> Inr zero_pubkey"
    using inv unfolding node_inv_def node_ok_def by (metis imageE imageI)
  ultimately show ?thesis using inv receive(1) by (simp add: node_inv_def node_ok_def)
qed (use inv in \<open>simp_all add: node_inv_def node_ok_def found_ok_def\<close>)

text \<open>So does an answer of the server.\<close>

lemma node_inv_answer:
  assumes inv: "node_inv b64_pton log nd" and sent: "nd_phase nd = Sent packet"
    and dg: "to_server (nd_network nd) (su_addr (nd_conf nd)) packet = Some dg"
    and table: "table_ok log st" and run: "server_step st dg = (st', r)"
  shows "node_inv b64_pton (log @ [dg]) (nd_answer nd packet r)"
    and "take 32 (dg_data dg) = su_pubkey (nd_conf nd) \<and> dg_ip dg = nw_ip (nd_network nd) \<and> dg_port dg = nw_port (nd_network nd)"
proof -
  obtain key where key: "waits_for b64_pton nd key" "packet = take 40 (nd_packet nd) @ key"
    using inv sent by (auto simp: node_inv_def)
  have ok: "node_ok b64_pton nd" using inv by (simp add: node_inv_def)
  then have hdr: "length (nw_header (nd_network nd)) = 12" and my: "length (su_pubkey (nd_conf nd)) = 32"
    by (simp_all add: node_ok_def)
  have their: "length key = 32" "key \<noteq> zero_pubkey"
    using key(1) ok by (auto simp: waits_for_def unbase64_Inr node_ok_def nd_peer_def)
  note fields = request_fields [OF my their(1), of "su_source (nd_conf nd)", folded nd_packet_def, folded key(2)]
  have data: "dg = \<lparr>dg_data = su_pubkey (nd_conf nd) @ key, dg_ip = nw_ip (nd_network nd), dg_port = nw_port (nd_network nd)\<rparr>"
    using dg fields(2) by (auto simp: to_server_def split: if_splits)
  then show "take 32 (dg_data dg) = su_pubkey (nd_conf nd) \<and> dg_ip dg = nw_ip (nd_network nd) \<and> dg_port dg = nw_port (nd_network nd)"
    using my by simp
  have peer: "take 32 (drop 32 (dg_data dg)) = key" using data my their(1) by simp
  have seen: "seen_at (log @ [dg]) key a q" if "r = Some (Address_Reply a q)" for a q
    using server_step_table(2) [OF table run that] their(2) unfolding peer by simp
  have "phase_ok b64_pton (log @ [dg]) nd (Answered (reply_packet (nd_network nd) packet (reply_data rep)))"
    if "r = Some rep" for rep
  proof (cases rep)
    case (Address_Reply a q)
    then show ?thesis
      using key(1) seen that reply_read [OF hdr, of packet a q] by (auto simp: Let_def simp del: reply_data.simps)
  next
    case Empty_Reply
    then show ?thesis
      using key(1) empty_reply_length [OF hdr, of packet] by (auto simp: Let_def reply_size_def simp del: reply_data.simps)
  qed
  moreover have "phase_ok b64_pton l (nd_answer nd packet r) ph = phase_ok b64_pton l nd ph" for l ph
    by (cases ph) (simp_all add: nd_answer_def waits_for_def nd_peer_def nd_packet_def)
  ultimately have "phase_ok b64_pton (log @ [dg]) (nd_answer nd packet r) (nd_phase (nd_answer nd packet r))"
    by (cases r) (auto simp: nd_answer_def to_client_def Let_def)
  then show "node_inv b64_pton (log @ [dg]) (nd_answer nd packet r)"
    using node_inv_later [OF inv, of "[dg]"] by (simp add: node_inv_def node_ok_def nd_answer_def)
qed

section \<open>Reachable worlds\<close>

text \<open>A datagram of the log is a stranger's, or carries the key and the public address of a client.\<close>

definition from_node :: "dgram \<Rightarrow> node \<Rightarrow> bool" where
  "from_node dg nd \<longleftrightarrow> take 32 (dg_data dg) = su_pubkey (nd_conf nd) \<and>
     dg_ip dg = nw_ip (nd_network nd) \<and> dg_port dg = nw_port (nd_network nd)"

definition nd_static :: "node \<Rightarrow> client_conf \<times> network" where
  "nd_static nd = (nd_conf nd, nd_network nd)"

lemma node_step_static: "node_step popen b64_pton nd nd' \<Longrightarrow> nd_static nd' = nd_static nd"
  by (induction rule: node_step.induct) (simp_all add: nd_static_def)

lemma nd_answer_static: "nd_static (nd_answer nd packet r) = nd_static nd"
  by (simp add: nd_static_def nd_answer_def)

definition world_inv :: "(string \<Rightarrow> u8 list option) \<Rightarrow> (dgram \<Rightarrow> bool) \<Rightarrow> node list \<Rightarrow> world \<Rightarrow> bool" where
  "world_inv b64_pton stranger nodes w \<longleftrightarrow> table_ok (w_log w) (w_server w) \<and>
     (\<forall>nd\<in>set (w_nodes w). node_inv b64_pton (w_log w) nd) \<and>
     map nd_static (w_nodes w) = map nd_static nodes \<and>
     (\<forall>dg\<in>set (w_log w). stranger dg \<or> (\<exists>nd\<in>set nodes. from_node dg nd))"

lemma map_update_same: "n < length xs \<Longrightarrow> f x = f (xs ! n) \<Longrightarrow> map f (xs[n := x]) = map f xs"
  by (metis list_update_id map_update)

lemma set_update_all: "\<forall>x\<in>set xs. P x \<Longrightarrow> P y \<Longrightarrow> \<forall>x\<in>set (xs[n := y]). P x"
  using set_update_subset_insert [of xs n y] by blast

lemma from_node_static: "map nd_static nds = map nd_static nodes \<Longrightarrow> nd \<in> set nds \<Longrightarrow> from_node dg nd \<Longrightarrow>
   \<exists>nd'\<in>set nodes. from_node dg nd'"
proof -
  assume same: "map nd_static nds = map nd_static nodes" and nd: "nd \<in> set nds" and dg: "from_node dg nd"
  have "nd_static nd \<in> nd_static ` set nodes" using nd same by (metis image_eqI list.set_map)
  then show ?thesis using dg by (auto simp: from_node_def nd_static_def)
qed

lemma world_inv_step:
  assumes inv: "world_inv b64_pton stranger nodes w" and step: "world_step popen b64_pton stranger w w'"
  shows "world_inv b64_pton stranger nodes w'"
  using step
proof cases
  case (client_moves n nd)
  let ?nd = "w_nodes w ! n"
  have "node_inv b64_pton (w_log w) ?nd" using inv client_moves(2) by (simp add: world_inv_def)
  then have "node_inv b64_pton (w_log w) nd" using client_moves(3) by (rule node_inv_step)
  then have "\<forall>nd\<in>set ((w_nodes w)[n := nd]). node_inv b64_pton (w_log w) nd"
    using inv by (intro set_update_all) (simp_all add: world_inv_def)
  then show ?thesis
    using inv map_update_same [OF client_moves(2) node_step_static [OF client_moves(3)]] client_moves(1)
    by (simp add: world_inv_def)
next
  case (server_answers n nd packet dg st r)
  have nd: "nd \<in> set (w_nodes w)" using server_answers(2,3) by simp
  then have ndi: "node_inv b64_pton (w_log w) nd" using inv by (simp add: world_inv_def)
  have table: "table_ok (w_log w) (w_server w)" using inv by (simp add: world_inv_def)
  note ans = node_inv_answer [OF ndi server_answers(4,5) table server_answers(6)]
  have "from_node dg nd" using ans(2) by (simp add: from_node_def)
  then have origin: "\<exists>nd\<in>set nodes. from_node dg nd"
    using from_node_static [OF _ nd] inv by (simp add: world_inv_def)
  have "\<forall>nd\<in>set ((w_nodes w)[n := nd_answer nd packet r]). node_inv b64_pton (w_log w @ [dg]) nd"
    using inv ans(1) by (intro set_update_all) (simp_all add: world_inv_def node_inv_later)
  moreover have "map nd_static ((w_nodes w)[n := nd_answer nd packet r]) = map nd_static (w_nodes w)"
    using server_answers(2,3) by (intro map_update_same) (simp_all add: nd_answer_static)
  ultimately show ?thesis
    using inv origin server_step_table(1) [OF table server_answers(6)] server_answers(1) by (auto simp: world_inv_def)
next
  case (stranger_sends dg st r)
  have "table_ok (w_log w) (w_server w)" using inv by (simp add: world_inv_def)
  then show ?thesis
    using inv stranger_sends server_step_table(1) [OF _ stranger_sends(3)] by (auto simp: world_inv_def node_inv_later)
qed

lemma world_inv_reachable: "reachable popen b64_pton stranger nodes w \<Longrightarrow> world_inv b64_pton stranger nodes w"
proof (induction rule: reachable.induct)
  case start
  then show ?case by (auto simp: world_inv_def table_ok_start node_inv_start)
next
  case (step w w')
  then show ?case using world_inv_step by blast
qed

section \<open>Progress\<close>

text \<open>The request of a client reaches the server, whose answer passes the filter.\<close>

lemma request_answered:
  assumes inv: "node_inv b64_pton log nd" and sent: "nd_phase nd = Sent packet"
  shows "\<exists>dg st' r pkt. to_server (nd_network nd) (su_addr (nd_conf nd)) packet = Some dg \<and> server_step st dg = (st', r) \<and>
    to_client (nd_network nd) (su_filter (nd_conf nd)) packet r = Some pkt"
proof -
  obtain key where key: "waits_for b64_pton nd key" "packet = take 40 (nd_packet nd) @ key"
    using inv sent by (auto simp: node_inv_def)
  have ok: "node_ok b64_pton nd" using inv by (simp add: node_inv_def)
  then have hdr: "length (nw_header (nd_network nd)) = 12" and my: "length (su_pubkey (nd_conf nd)) = 32"
    and addr: "su_addr (nd_conf nd) = nw_server (nd_network nd)"
    and prog: "su_filter (nd_conf nd) = bpf_filter (ntohs (su_source (nd_conf nd))) (ntohl (nw_server (nd_network nd)))"
    by (simp_all add: node_ok_def)
  have "length key = 32" using key(1) by (simp add: waits_for_def unbase64_Inr)
  note fields = request_fields [OF my this, of "su_source (nd_conf nd)", folded nd_packet_def, folded key(2)]
  let ?dg = "\<lparr>dg_data = su_pubkey (nd_conf nd) @ key, dg_ip = nw_ip (nd_network nd), dg_port = nw_port (nd_network nd)\<rparr>"
  have dg: "to_server (nd_network nd) (su_addr (nd_conf nd)) packet = Some ?dg"
    unfolding to_server_def fields(1,2) by (simp add: addr)
  have "64 \<le> length (dg_data ?dg)" using my \<open>length key = 32\<close> by simp
  from server_step_register [OF this, of st] obtain st' rep where "server_step st ?dg = (st', Some rep)"
    unfolding Let_def by blast
  then show ?thesis
    using dg reply_passes [OF hdr fields(3)] prog by (auto simp: to_client_def Let_def)
qed

lemma client_receive_runs:
  assumes "\<forall>line. \<exists>out. popen line = Inr out" "i < length (cl_peers st)"
  shows "\<exists>st'. client_receive popen interface st i pkt = Inr st' \<and> length (cl_peers st') = length (cl_peers st) \<and>
    (pr_seen (cl_peers st' ! i) \<or> cl_repeat st')"
proof (cases "length (take reply_size pkt) = reply_size")
  case True
  obtain out where "cmd popen (set_endpoint_line interface (pr_key (cl_peers st ! i)) (reply_ip (take reply_size pkt))
      (reply_port (take reply_size pkt))) = Inr out"
    using cmd_runs [OF assms(1)] by blast
  then show ?thesis using True assms(2) unfolding client_receive_def Let_def by simp
next
  case False
  then show ?thesis unfolding client_receive_def Let_def if_P [OF False] by simp
qed

section \<open>Runs of the program are runs of the system\<close>

text \<open>The client of the program talks to the server directly; in the system the server is apart.\<close>

definition strip :: "'n client \<Rightarrow> unit client" where
  "strip st = \<lparr>cl_peers = cl_peers st, cl_net = (), cl_repeat = cl_repeat st, cl_cmds = cl_cmds st\<rparr>"

lemma strip_fields [simp]:
  "cl_peers (strip st) = cl_peers st" "cl_repeat (strip st) = cl_repeat st" "cl_cmds (strip st) = cl_cmds st"
  "strip (st\<lparr>cl_net := net\<rparr>) = strip st" "strip (st\<lparr>cl_repeat := r\<rparr>) = (strip st)\<lparr>cl_repeat := r\<rparr>"
  by (simp_all add: strip_def)

lemma client_receive_strip:
  "client_receive popen interface st i pkt = Inr st' \<Longrightarrow>
     client_receive popen interface (strip st) i pkt = Inr (strip st') \<and> cl_net st' = cl_net st"
  unfolding client_receive_def Let_def
  by (auto simp: strip_def simp del: length_take split: if_splits sum.splits)

lemma client_receive_strip_error:
  "client_receive popen interface st i pkt = Inl e \<Longrightarrow> client_receive popen interface (strip st) i pkt = Inl e"
  unfolding client_receive_def Let_def
  by (auto simp: strip_def simp del: length_take split: if_splits sum.splits)

text \<open>The world in which the client \<open>n\<close> has come to a state of the program.\<close>

definition moved :: "world \<Rightarrow> nat \<Rightarrow> dgram list \<Rightarrow> server client \<Rightarrow> nat \<Rightarrow> world" where
  "moved w n log st i =
     w\<lparr>w_server := cl_net st, w_log := w_log w @ log,
       w_nodes := (w_nodes w)[n := (w_nodes w ! n)\<lparr>nd_client := strip st, nd_next := i\<rparr>]\<rparr>"

definition nd_ask :: "node \<Rightarrow> server \<Rightarrow> u8 list \<Rightarrow> server \<times> answer" where
  "nd_ask nd = server_ask (nd_network nd) (su_filter (nd_conf nd)) (su_addr (nd_conf nd))"

lemma client_round_answered:
  assumes n: "n < length (w_nodes w)" and nd: "nd = w_nodes w ! n" and ready: "nd_phase nd = Ready" "nd_next nd < length (cl_peers (nd_client nd))"
    and reach: "reachable popen b64_pton stranger nodes w" and unseen: "\<not> pr_seen (nd_peer nd)"
    and req: "client_request b64_pton (nd_packet nd) (nd_peer nd) = Inr packet"
  shows "\<exists>dg net r pkt. to_server (nd_network nd) (su_addr (nd_conf nd)) packet = Some dg \<and> server_step (w_server w) dg = (net, r) \<and>
    to_client (nd_network nd) (su_filter (nd_conf nd)) packet r = Some pkt \<and>
    reachable popen b64_pton stranger nodes (w\<lparr>w_server := net, w_log := w_log w @ [dg],
      w_nodes := (w_nodes w)[n := nd\<lparr>nd_phase := Answered pkt\<rparr>]\<rparr>)"
proof -
  let ?w1 = "w\<lparr>w_nodes := (w_nodes w)[n := nd\<lparr>nd_phase := Sent packet\<rparr>]\<rparr>"
  have "node_step popen b64_pton (w_nodes w ! n) (nd\<lparr>nd_phase := Sent packet\<rparr>)"
    unfolding nd [symmetric] using send [OF ready unseen req] .
  from reachable.step [OF reach world_step.client_moves [OF n this]]
  have w1: "reachable popen b64_pton stranger nodes ?w1" .
  have at: "w_nodes ?w1 ! n = nd\<lparr>nd_phase := Sent packet\<rparr>" "n < length (w_nodes ?w1)" using n by simp_all
  have "node_inv b64_pton (w_log ?w1) (nd\<lparr>nd_phase := Sent packet\<rparr>)"
    using world_inv_reachable [OF w1] nth_mem [OF at(2)] unfolding at(1) world_inv_def by blast
  from request_answered [OF this, of packet "w_server w"] obtain dg net r pkt where
    dg: "to_server (nd_network nd) (su_addr (nd_conf nd)) packet = Some dg" "server_step (w_server w) dg = (net, r)"
      "to_client (nd_network nd) (su_filter (nd_conf nd)) packet r = Some pkt" by auto
  let ?w2 = "w\<lparr>w_server := net, w_log := w_log w @ [dg], w_nodes := (w_nodes w)[n := nd\<lparr>nd_phase := Answered pkt\<rparr>]\<rparr>"
  have "world_step popen b64_pton stranger ?w1 ?w2"
    using server_answers [of n ?w1 "nd\<lparr>nd_phase := Sent packet\<rparr>" packet dg net r popen b64_pton stranger] n dg
    by (simp add: nd_answer_def)
  with w1 have "reachable popen b64_pton stranger nodes ?w2" by (rule reachable.step)
  then show ?thesis using dg by blast
qed

text \<open>An error of the program stops the client in the system.\<close>

definition stops ::
  "(string \<Rightarrow> int + string) \<Rightarrow> (string \<Rightarrow> u8 list option) \<Rightarrow> (dgram \<Rightarrow> bool) \<Rightarrow> node list \<Rightarrow> world \<Rightarrow> nat \<Rightarrow> bool" where
  "stops popen b64_pton stranger nodes w n \<longleftrightarrow>
     (\<exists>srv log nd. nd_static nd = nd_static (w_nodes w ! n) \<and> nd_phase nd = Stopped \<and>
        reachable popen b64_pton stranger nodes (w\<lparr>w_server := srv, w_log := w_log w @ log, w_nodes := (w_nodes w)[n := nd]\<rparr>))"

lemma stops_moved:
  assumes "stops popen b64_pton stranger nodes (moved w n log st i) n" "n < length (w_nodes w)"
  shows "stops popen b64_pton stranger nodes w n"
proof -
  obtain srv log' nd where "nd_static nd = nd_static (w_nodes (moved w n log st i) ! n)" "nd_phase nd = Stopped"
    "reachable popen b64_pton stranger nodes ((moved w n log st i)\<lparr>w_server := srv,
       w_log := w_log (moved w n log st i) @ log', w_nodes := (w_nodes (moved w n log st i))[n := nd]\<rparr>)"
    using assms(1) unfolding stops_def by blast
  then show ?thesis
    unfolding stops_def using assms(2)
    by (intro exI [of _ srv] exI [of _ "log @ log'"] exI [of _ nd]) (simp add: moved_def nd_static_def)
qed

lemma step_stops:
  assumes "reachable popen b64_pton stranger nodes (w\<lparr>w_server := srv, w_log := w_log w @ log, w_nodes := (w_nodes w)[n := nd]\<rparr>)"
    and "n < length (w_nodes w)" "nd_static nd = nd_static (w_nodes w ! n)"
    and "node_step popen b64_pton nd (nd\<lparr>nd_phase := Stopped\<rparr>)"
  shows "stops popen b64_pton stranger nodes w n"
proof -
  let ?w = "w\<lparr>w_server := srv, w_log := w_log w @ log, w_nodes := (w_nodes w)[n := nd]\<rparr>"
  have at: "n < length (w_nodes ?w)" "w_nodes ?w ! n = nd" using assms(2) by simp_all
  from reachable.step [OF assms(1) world_step.client_moves [OF at(1)]] assms(4)
  have "reachable popen b64_pton stranger nodes (?w\<lparr>w_nodes := (w_nodes ?w)[n := nd\<lparr>nd_phase := Stopped\<rparr>]\<rparr>)"
    unfolding at(2) by blast
  then show ?thesis
    unfolding stops_def using assms(3)
    by (intro exI [of _ srv] exI [of _ log] exI [of _ "nd\<lparr>nd_phase := Stopped\<rparr>"]) (simp add: nd_static_def)
qed

lemma receive_moves:
  assumes reach: "reachable popen b64_pton stranger nodes (w\<lparr>w_server := net, w_log := log,
      w_nodes := (w_nodes w)[n := nd\<lparr>nd_phase := Answered pkt\<rparr>]\<rparr>)" and n: "n < length (w_nodes w)" and ready: "nd_phase nd = Ready"
    and rcv: "client_receive popen (su_interface (nd_conf nd)) (nd_client nd) (nd_next nd) pkt = Inr st'"
  shows "reachable popen b64_pton stranger nodes (w\<lparr>w_server := net, w_log := log,
    w_nodes := (w_nodes w)[n := nd\<lparr>nd_client := st', nd_next := Suc (nd_next nd)\<rparr>]\<rparr>)"
proof -
  let ?w = "w\<lparr>w_server := net, w_log := log, w_nodes := (w_nodes w)[n := nd\<lparr>nd_phase := Answered pkt\<rparr>]\<rparr>"
  have at: "n < length (w_nodes ?w)" "w_nodes ?w ! n = nd\<lparr>nd_phase := Answered pkt\<rparr>" using n by simp_all
  have "node_step popen b64_pton (w_nodes ?w ! n) (nd\<lparr>nd_client := st', nd_next := Suc (nd_next nd), nd_phase := Ready\<rparr>)"
    unfolding at(2) using receive [of "nd\<lparr>nd_phase := Answered pkt\<rparr>" pkt popen st' b64_pton] rcv by simp
  from reachable.step [OF reach world_step.client_moves [OF at(1) this]] show ?thesis
    using ready by (cases nd) simp
qed

lemma client_step_moves:
  assumes n: "n < length (w_nodes w)" and nd: "nd = w_nodes w ! n" and ready: "nd_phase nd = Ready"
    and reach: "reachable popen b64_pton stranger nodes (moved w n log st i)"
    and i: "i < length (cl_peers st)"
  defines "run \<equiv> client_step popen b64_pton (nd_ask nd) (su_interface (nd_conf nd)) (nd_packet nd) st i"
  shows "(\<exists>e. run = Some (Inl e) \<and> stops popen b64_pton stranger nodes w n) \<or>
    (\<exists>st'. run = Some (Inr st') \<and> (\<exists>log'. reachable popen b64_pton stranger nodes (moved w n log' st' (Suc i))))"
proof -
  let ?w = "moved w n log st i" and ?nd = "nd\<lparr>nd_client := strip st, nd_next := i\<rparr>"
  have at: "n < length (w_nodes ?w)" "w_nodes ?w ! n = ?nd" "?nd = w_nodes ?w ! n" using n nd by (simp_all add: moved_def)
  have peer: "nd_peer ?nd = cl_peers st ! i" "nd_packet ?nd = nd_packet nd" "nd_phase ?nd = Ready"
    "nd_next ?nd < length (cl_peers (nd_client ?nd))"
    using ready i by (simp_all add: nd_peer_def nd_packet_def)
  show ?thesis
  proof (cases "pr_seen (cl_peers st ! i)")
    case True
    then have "run = Some (Inr st)" by (simp add: run_def client_step_def)
    moreover have "node_step popen b64_pton (w_nodes ?w ! n) (?nd\<lparr>nd_next := Suc i\<rparr>)"
      unfolding at(2) using skip_seen [of ?nd popen b64_pton] peer True by simp
    from reachable.step [OF reach world_step.client_moves [OF at(1) this]]
    have "reachable popen b64_pton stranger nodes (moved w n log st (Suc i))"
      by (simp add: moved_def nd)
    ultimately show ?thesis by blast
  next
    case unseen: False
    show ?thesis
    proof (cases "client_request b64_pton (nd_packet nd) (cl_peers st ! i)")
      case (Inl e)
      have same: "?w\<lparr>w_server := w_server ?w, w_log := w_log ?w @ [], w_nodes := (w_nodes ?w)[n := ?nd]\<rparr> = ?w"
        by (simp add: at(3))
      have "node_step popen b64_pton ?nd (?nd\<lparr>nd_phase := Stopped\<rparr>)"
        using bad_key [OF peer(3,4), of b64_pton e popen] unseen Inl peer(1,2) by simp
      then have "stops popen b64_pton stranger nodes ?w n"
        by (intro step_stops [where w = ?w and srv = "w_server ?w" and log = "[]" and nd = ?nd and n = n, unfolded same, OF reach at(1)])
          (simp_all add: at(2))
      then show ?thesis using Inl unseen stops_moved [OF _ n] by (auto simp: run_def client_step_def)
    next
      case (Inr packet)
      obtain dg net r pkt where dg: "to_server (nd_network nd) (su_addr (nd_conf nd)) packet = Some dg"
          "server_step (cl_net st) dg = (net, r)" "to_client (nd_network nd) (su_filter (nd_conf nd)) packet r = Some pkt"
        and answered: "reachable popen b64_pton stranger nodes (?w\<lparr>w_server := net, w_log := w_log ?w @ [dg],
          w_nodes := (w_nodes ?w)[n := ?nd\<lparr>nd_phase := Answered pkt\<rparr>]\<rparr>)"
        using client_round_answered [OF at(1,3) peer(3,4) reach, of packet] unseen Inr peer(1,2) by (auto simp: moved_def)
      have run: "run = Some (client_receive popen (su_interface (nd_conf nd)) (st\<lparr>cl_net := net\<rparr>) i pkt)"
        using unseen Inr dg by (simp add: run_def client_step_def nd_ask_def server_ask_def)
      show ?thesis
      proof (cases "client_receive popen (su_interface (nd_conf nd)) (st\<lparr>cl_net := net\<rparr>) i pkt")
        case (Inl e)
        have "node_step popen b64_pton (?nd\<lparr>nd_phase := Answered pkt\<rparr>) (?nd\<lparr>nd_phase := Stopped\<rparr>)"
          using fail [of "?nd\<lparr>nd_phase := Answered pkt\<rparr>" pkt popen e b64_pton] client_receive_strip_error [OF Inl] by simp
        then have "stops popen b64_pton stranger nodes ?w n"
          by (intro step_stops [OF answered at(1)]) (simp_all add: at(2) nd_static_def)
        then show ?thesis using Inl run stops_moved [OF _ n] by simp
      next
        case (Inr st')
        then have "client_receive popen (su_interface (nd_conf ?nd)) (nd_client ?nd) (nd_next ?nd) pkt = Inr (strip st')" "cl_net st' = net"
          using client_receive_strip [OF Inr] by simp_all
        then have "reachable popen b64_pton stranger nodes (moved w n (log @ [dg]) st' (Suc i))"
          using receive_moves [OF answered at(1) peer(3)] by (simp add: moved_def nd [symmetric])
        then show ?thesis using run Inr by auto
      qed
    qed
  qed
qed

text \<open>At the end of a pass that is to be repeated, a peer is missing.\<close>

definition asking :: "'n client \<Rightarrow> nat \<Rightarrow> bool" where
  "asking st i \<longleftrightarrow> (cl_repeat st \<longrightarrow> (\<exists>j<i. \<not> pr_seen (cl_peers st ! j)))"

lemma client_step_asking:
  assumes "client_step popen b64_pton ask interface my st i = Some (Inr st')" "asking st i" "i < length (cl_peers st)"
  shows "asking st' (Suc i)"
  using assms
  by (auto simp: client_step_def client_request_def client_receive_def asking_def Let_def less_Suc_eq nth_list_update
      split: if_splits sum.splits prod.splits answer.splits)

lemma client_pass_moves:
  assumes n: "n < length (w_nodes w)" and nd: "nd = w_nodes w ! n" and ready: "nd_phase nd = Ready"
    and reach: "reachable popen b64_pton stranger nodes (moved w n log (st\<lparr>cl_repeat := False\<rparr>) 0)"
  defines "run \<equiv> client_pass popen b64_pton (nd_ask nd) (su_interface (nd_conf nd)) (nd_packet nd) st"
  shows "(\<exists>e. run = Some (Inl e) \<and> stops popen b64_pton stranger nodes w n) \<or>
    (\<exists>st'. run = Some (Inr st') \<and> map pr_key (cl_peers st') = map pr_key (cl_peers st) \<and> asking st' (length (cl_peers st')) \<and>
      (\<exists>log'. reachable popen b64_pton stranger nodes (moved w n log' st' (length (cl_peers st')))))"
proof -
  let ?I = "\<lambda>i st1. map pr_key (cl_peers st1) = map pr_key (cl_peers st) \<and> length (cl_peers st1) = length (cl_peers st) \<and>
    asking st1 i \<and> (\<exists>log'. reachable popen b64_pton stranger nodes (moved w n log' st1 i))"
  have "(\<exists>e. run = Some (Inl e) \<and> stops popen b64_pton stranger nodes w n) \<or>
    (\<exists>st'. run = Some (Inr st') \<and> ?I (length (cl_peers st)) st')"
    unfolding run_def client_pass_def
  proof (rule c_for_upt_outcomes [where I = ?I])
    show "?I 0 (st\<lparr>cl_repeat := False\<rparr>)" using reach by (auto simp: asking_def)
    fix i st1
    let ?step = "client_step popen b64_pton (nd_ask nd) (su_interface (nd_conf nd)) (nd_packet nd) st1 i"
    assume "i < length (cl_peers st)" and I: "?I i st1"
    then have i: "i < length (cl_peers st1)" by simp
    obtain log1 where "reachable popen b64_pton stranger nodes (moved w n log1 st1 i)" using I by blast
    from client_step_moves [OF n nd ready this i] show "(\<exists>e. ?step = Some (Inl e) \<and> stops popen b64_pton stranger nodes w n) \<or>
        (\<exists>st2. ?step = Some (Inr st2) \<and> ?I (Suc i) st2)"
    proof
      assume "\<exists>st2. ?step = Some (Inr st2) \<and> (\<exists>log'. reachable popen b64_pton stranger nodes (moved w n log' st2 (Suc i)))"
      then obtain st2 where step: "?step = Some (Inr st2)"
        and reach2: "\<exists>log'. reachable popen b64_pton stranger nodes (moved w n log' st2 (Suc i))" by blast
      have "asking st2 (Suc i)" "length (cl_peers st2) = length (cl_peers st1)"
        using client_step_asking [OF step _ i] client_step_result [OF step i] I by blast+
      then show ?thesis using step reach2 client_step_keys [OF step] I by auto
    qed blast
  qed
  then show ?thesis by metis
qed

lemma client_loop_moves:
  assumes n: "n < length (w_nodes w)" and nd: "nd = w_nodes w ! n" and ready: "nd_phase nd = Ready"
  shows "reachable popen b64_pton stranger nodes (moved w n log (st\<lparr>cl_repeat := False\<rparr>) 0) \<Longrightarrow>
    case client_loop (Suc fuel) popen b64_pton (nd_ask nd) (su_interface (nd_conf nd)) (nd_packet nd) st of
      Some (Inr st') \<Rightarrow> (\<exists>log'. reachable popen b64_pton stranger nodes (moved w n log' st' (length (cl_peers st'))))
    | Some (Inl e) \<Rightarrow> stops popen b64_pton stranger nodes w n
    | None \<Rightarrow> (\<exists>log' st'. reachable popen b64_pton stranger nodes (moved w n log' st' (length (cl_peers st'))) \<and>
        map pr_key (cl_peers st') = map pr_key (cl_peers st) \<and> cl_repeat st' \<and> asking st' (length (cl_peers st')))"
proof (induction fuel arbitrary: log st)
  case (0 log st)
  from client_pass_moves [OF n nd ready 0] show ?case
    by (elim disjE exE conjE) (auto simp: if_splits)
next
  case (Suc fuel log st)
  let ?loop = "\<lambda>k. client_loop k popen b64_pton (nd_ask nd) (su_interface (nd_conf nd)) (nd_packet nd)"
  from client_pass_moves [OF n nd ready Suc.prems] show ?case
  proof (elim disjE exE conjE)
    fix st1 log1
    assume pass: "client_pass popen b64_pton (nd_ask nd) (su_interface (nd_conf nd)) (nd_packet nd) st = Some (Inr st1)"
      and keys: "map pr_key (cl_peers st1) = map pr_key (cl_peers st)"
      and reach: "reachable popen b64_pton stranger nodes (moved w n log1 st1 (length (cl_peers st1)))"
    let ?w = "moved w n log1 st1 (length (cl_peers st1))"
    let ?nd = "nd\<lparr>nd_client := strip st1, nd_next := length (cl_peers st1)\<rparr>"
    have at: "n < length (w_nodes ?w)" "w_nodes ?w ! n = ?nd" using n nd by (simp_all add: moved_def)
    show ?thesis
    proof (cases "cl_repeat st1")
      case True
      have "node_step popen b64_pton (w_nodes ?w ! n) (?nd\<lparr>nd_client := (strip st1)\<lparr>cl_repeat := False\<rparr>, nd_next := 0\<rparr>)"
        unfolding at(2) using check_again [of ?nd popen b64_pton] True ready by simp
      from reachable.step [OF reach world_step.client_moves [OF at(1) this]]
      have "reachable popen b64_pton stranger nodes (moved w n log1 (st1\<lparr>cl_repeat := False\<rparr>) 0)"
        by (simp add: moved_def nd)
      note IH = Suc.IH [OF this]
      have "?loop (Suc (Suc fuel)) st = ?loop (Suc fuel) st1"
        by (subst client_loop.simps(2)) (simp only: pass True if_True bind.bind_lunit sum.case)
      then show ?thesis using IH unfolding keys by (simp only:)
    next
      case False
      then have "?loop (Suc (Suc fuel)) st = Some (Inr st1)" using pass by simp
      then show ?thesis using reach by auto
    qed
  qed simp
qed

lemma moved_start:
  assumes "w_nodes w ! n = nd_start su nw" "cl_peers st = su_peers su" "cl_net st = w_server w" "\<not> cl_repeat st" "cl_cmds st = []"
  shows "moved w n [] st 0 = w"
proof -
  have "(nd_start su nw)\<lparr>nd_client := strip st, nd_next := 0\<rparr> = nd_start su nw"
    using assms(2,4,5) by (simp add: nd_start_def strip_def)
  then have "(w_nodes w)[n := (w_nodes w ! n)\<lparr>nd_client := strip st, nd_next := 0\<rparr>] = w_nodes w"
    using assms(1) by (metis list_update_id)
  then show ?thesis using assms(3) by (simp add: moved_def)
qed

lemma client_main_moves:
  assumes "reachable popen b64_pton stranger nodes w" "n < length (w_nodes w)" "w_nodes w ! n = nd_start su nw"
    and "client_setup popen b64_pton env argv = Some (Inr su)"
  shows "case client_main (Suc fuel) popen b64_pton env (server_ask nw) (w_server w) argv of
      Some (Inr st) \<Rightarrow> (\<exists>log. reachable popen b64_pton stranger nodes (moved w n log st (length (cl_peers st)))) \<and>
        map pr_key (cl_peers st) = map pr_key (su_peers su) \<and> (\<forall>p\<in>set (cl_peers st). pr_seen p)
    | Some (Inl e) \<Rightarrow> stops popen b64_pton stranger nodes w n
    | None \<Rightarrow> (\<exists>log st. reachable popen b64_pton stranger nodes (moved w n log st (length (cl_peers st))) \<and>
        map pr_key (cl_peers st) = map pr_key (su_peers su) \<and> cl_repeat st \<and> asking st (length (cl_peers st)))"
proof -
  let ?st = "\<lparr>cl_peers = su_peers su, cl_net = w_server w, cl_repeat = False, cl_cmds = []\<rparr>"
  let ?nd = "w_nodes w ! n"
  let ?loop = "client_loop (Suc fuel) popen b64_pton (nd_ask ?nd) (su_interface (nd_conf ?nd)) (nd_packet ?nd) ?st"
  have run: "client_main (Suc fuel) popen b64_pton env (server_ask nw) (w_server w) argv = ?loop"
    using assms(4) by (simp add: client_main_def assms(3) nd_ask_def nd_packet_def nd_start_def del: client_loop.simps)
  have "reachable popen b64_pton stranger nodes (moved w n [] (?st\<lparr>cl_repeat := False\<rparr>) 0)"
    using assms(1) moved_start [OF assms(3), of ?st] by simp
  moreover have "nd_phase ?nd = Ready" by (simp add: assms(3) nd_start_def)
  ultimately have moves: "case ?loop of
      Some (Inr st') \<Rightarrow> (\<exists>log'. reachable popen b64_pton stranger nodes (moved w n log' st' (length (cl_peers st'))))
    | Some (Inl e) \<Rightarrow> stops popen b64_pton stranger nodes w n
    | None \<Rightarrow> (\<exists>log' st'. reachable popen b64_pton stranger nodes (moved w n log' st' (length (cl_peers st'))) \<and>
        map pr_key (cl_peers st') = map pr_key (cl_peers ?st) \<and> cl_repeat st' \<and> asking st' (length (cl_peers st')))"
    using client_loop_moves [OF assms(2) refl] by blast
  show ?thesis unfolding run
  proof (cases ?loop)
    case (Some r)
    then show "case ?loop of
      Some (Inr st) \<Rightarrow> (\<exists>log. reachable popen b64_pton stranger nodes (moved w n log st (length (cl_peers st)))) \<and>
        map pr_key (cl_peers st) = map pr_key (su_peers su) \<and> (\<forall>p\<in>set (cl_peers st). pr_seen p)
    | Some (Inl e) \<Rightarrow> stops popen b64_pton stranger nodes w n
    | None \<Rightarrow> (\<exists>log st. reachable popen b64_pton stranger nodes (moved w n log st (length (cl_peers st))) \<and>
        map pr_key (cl_peers st) = map pr_key (su_peers su) \<and> cl_repeat st \<and> asking st (length (cl_peers st)))"
      using moves client_loop_result [of "Suc fuel" popen b64_pton "nd_ask ?nd" "su_interface (nd_conf ?nd)" "nd_packet ?nd" ?st]
      by (cases r) (simp_all del: client_loop.simps)
  qed (use moves in \<open>simp del: client_loop.simps\<close>)
qed

section \<open>A concrete system\<close>

text \<open>Two clients that have each other as peer: the second one has asked once, then the first one runs.\<close>

definition sample_popen :: "string \<Rightarrow> int + string" where
  "sample_popen line =
     Inr ((if line = ''wg show wg0 peers'' \<or> line = ''wg show wg1 public-key''
           then replicate 44 CHR ''B'' else replicate 44 CHR ''A'') @ [newline])"

definition sample_b64 :: "string \<Rightarrow> u8 list option" where
  "sample_b64 k = Some (replicate 32 (if hd k = CHR ''A'' then 1 else 2))"

definition sample_env :: environment where
  "sample_env = \<lparr>env_uid = 0, env_resolve = (\<lambda>_. Inr 0x01020304), env_socket = None, env_attach = (\<lambda>_. None)\<rparr>"

definition sample_conf :: "string \<Rightarrow> u8 \<Rightarrow> char \<Rightarrow> client_conf" where
  "sample_conf interface my c =
     \<lparr>su_interface = interface, su_addr = 0x01020304, su_pubkey = replicate 32 my, su_source = 0,
      su_filter = bpf_filter (ntohs 0) (ntohl 0x01020304), su_peers = [unseen (replicate 44 c)]\<rparr>"

abbreviation sample_nodes :: "node list" where
  "sample_nodes \<equiv> [nd_start (sample_conf ''wg0'' 1 CHR ''B'') (sample_network 10 11),
                   nd_start (sample_conf ''wg1'' 2 CHR ''A'') (sample_network 20 21)]"

lemma sample_setup:
  "client_setup sample_popen sample_b64 sample_env [''client'', ''server'', ''wg0''] = Some (Inr (sample_conf ''wg0'' 1 CHR ''B''))"
  "client_setup sample_popen sample_b64 sample_env [''client'', ''server'', ''wg1''] = Some (Inr (sample_conf ''wg1'' 2 CHR ''A''))"
  by code_simp+

lemma sample_starts: "\<forall>nd\<in>set sample_nodes. node_starts sample_popen sample_b64 nd"
proof -
  have "unbase64 sample_b64 (replicate 44 c) \<noteq> Inr zero_pubkey" for c
    by (simp add: unbase64_Inr sample_b64_def zero_pubkey_def)
  then show ?thesis
    using sample_setup by (auto simp: node_starts_def nd_start_def sample_conf_def sample_network_def unseen_def)
qed

lemma sample_keys: "good_key (replicate 32 1)" "good_key (replicate 32 2)" "\<forall>line. \<exists>out. sample_popen line = Inr out"
  "sample_b64 (replicate 44 CHR ''B'') = Some (replicate 32 2)" "sample_b64 (replicate 44 CHR ''A'') = Some (replicate 32 1)"
  by (simp_all add: good_key_def zero_pubkey_def sample_popen_def sample_b64_def)

text \<open>The second client registers itself.\<close>

lemma sample_registered:
  "\<exists>w. reachable sample_popen sample_b64 (\<lambda>_. False) sample_nodes w \<and> length (w_nodes w) = 2 \<and>
     w_nodes w ! 0 = sample_nodes ! 0 \<and> simulates [replicate 32 2] (w_server w) [replicate 32 2 \<mapsto> (20, 21)]"
proof -
  let ?w = "\<lparr>w_server = server_start, w_log = [], w_nodes = sample_nodes\<rparr>"
  let ?nd = "w_nodes ?w ! 1"
  let ?st = "\<lparr>cl_peers = [unseen (replicate 44 CHR ''A'')], cl_net = server_start, cl_repeat = False, cl_cmds = []\<rparr>"
  let ?m = "[replicate 32 2 \<mapsto> (nw_ip (sample_network 20 21), nw_port (sample_network 20 21))]"
  have ask: "nd_ask ?nd = client_ask (sample_network 20 21) 0" "nd_packet ?nd = packet_start 0 (replicate 32 2)"
    by (simp_all add: nd_ask_def client_ask_def nd_packet_def nd_start_def sample_conf_def sample_network_def)
  have hdr: "length (nw_header (sample_network 20 21)) = 12" by (simp add: sample_network_def)
  have at: "1 < length (w_nodes ?w)" "nd_phase ?nd = Ready" by (simp_all add: nd_start_def)
  obtain st where st: "client_pass sample_popen sample_b64 (client_ask (sample_network 20 21) 0) ''wg1'' (packet_start 0 (replicate 32 2)) ?st = Some (Inr st)"
    "simulates (add_key (replicate 32 2) []) (cl_net st) ?m"
    using single_pass [of sample_popen sample_b64 "replicate 44 CHR ''A''" "replicate 32 1" "replicate 32 2",
      OF sample_keys(3,5,1,2) hdr, of "[]" ?st Map.empty ?m 0 "''wg1''"] simulates_start
    by (auto simp: MAX_ENTRIES_def)
  have "moved ?w 1 [] (?st\<lparr>cl_repeat := False\<rparr>) 0 = ?w"
    by (rule moved_start [of _ _ "sample_conf ''wg1'' 2 CHR ''A''" "sample_network 20 21"]) (simp_all add: sample_conf_def)
  then have "reachable sample_popen sample_b64 (\<lambda>_. False) sample_nodes (moved ?w 1 [] (?st\<lparr>cl_repeat := False\<rparr>) 0)"
    using reachable.start [OF sample_starts] by simp
  note pass = client_pass_moves [OF at(1) refl at(2) this]
  have "client_pass sample_popen sample_b64 (nd_ask ?nd) (su_interface (nd_conf ?nd)) (nd_packet ?nd) ?st = Some (Inr st)"
    using st(1) unfolding ask by (simp add: nd_start_def sample_conf_def)
  from pass [unfolded this] obtain log where
    "reachable sample_popen sample_b64 (\<lambda>_. False) sample_nodes (moved ?w 1 log st (length (cl_peers st)))"
    by auto
  then show ?thesis
    using st(2) by (intro exI [of _ "moved ?w 1 log st (length (cl_peers st))"])
      (simp add: moved_def add_key_def sample_network_def)
qed

text \<open>Then the program of the first client finds it.\<close>

lemma sample_main:
  assumes "simulates [replicate 32 2] net [replicate 32 2 \<mapsto> (20, 21)]"
  shows "\<exists>st. client_main 1 sample_popen sample_b64 sample_env (server_ask (sample_network 10 11)) net
      [''client'', ''server'', ''wg0''] = Some (Inr st) \<and>
    cl_peers st = [\<lparr>pr_key = replicate 44 CHR ''B'', pr_seen = True\<rparr>] \<and>
    cl_cmds st = [set_endpoint_line ''wg0'' (replicate 44 CHR ''B'') 20 21]"
proof -
  let ?st = "\<lparr>cl_peers = [unseen (replicate 44 CHR ''B'')], cl_net = net, cl_repeat = False, cl_cmds = []\<rparr>"
  let ?ask = "client_ask (sample_network 10 11) 0"
  have hdr: "length (nw_header (sample_network 10 11)) = 12" by (simp add: sample_network_def)
  have ne: "(replicate 32 2 :: u8 list) \<noteq> replicate 32 1" by simp
  obtain st where st: "client_pass sample_popen sample_b64 ?ask ''wg0'' (packet_start 0 (replicate 32 1)) ?st = Some (Inr st)"
    "\<not> cl_repeat st" "cl_peers st = [\<lparr>pr_key = replicate 44 CHR ''B'', pr_seen = True\<rparr>]"
    "cl_cmds st = [set_endpoint_line ''wg0'' (replicate 44 CHR ''B'') 20 21]"
    using single_pass [of sample_popen sample_b64 "replicate 44 CHR ''B''" "replicate 32 2" "replicate 32 1",
      OF sample_keys(3,4,2,1) hdr, of "[replicate 32 2]" ?st "[replicate 32 2 \<mapsto> (20, 21)]" _ 0 "''wg0''", OF _ _ _ refl] assms ne
    by (auto simp: MAX_ENTRIES_def)
  have "client_ask (sample_network 10 11) 0 = server_ask (sample_network 10 11) (bpf_filter (ntohs 0) (ntohl 0x01020304)) 0x01020304"
    by (simp add: client_ask_def sample_network_def)
  then show ?thesis
    using loop_one_pass [OF st(1,2)] st(3,4)
    by (simp add: client_main_def sample_setup sample_conf_def del: client_loop.simps One_nat_def)
qed

lemma sample_found:
  "\<exists>w nd. reachable sample_popen sample_b64 (\<lambda>_. False) sample_nodes w \<and> nd \<in> set (w_nodes w) \<and>
     su_interface (nd_conf nd) = ''wg0'' \<and>
     cl_peers (nd_client nd) = [\<lparr>pr_key = replicate 44 CHR ''B'', pr_seen = True\<rparr>] \<and>
     cl_cmds (nd_client nd) = [set_endpoint_line ''wg0'' (replicate 44 CHR ''B'') 20 21]"
proof -
  obtain w where w: "reachable sample_popen sample_b64 (\<lambda>_. False) sample_nodes w" "length (w_nodes w) = 2"
    "w_nodes w ! 0 = sample_nodes ! 0" "simulates [replicate 32 2] (w_server w) [replicate 32 2 \<mapsto> (20, 21)]"
    using sample_registered by blast
  let ?nd = "w_nodes w ! 0"
  obtain st where st: "client_main 1 sample_popen sample_b64 sample_env (server_ask (sample_network 10 11)) (w_server w)
      [''client'', ''server'', ''wg0''] = Some (Inr st)"
    "cl_peers st = [\<lparr>pr_key = replicate 44 CHR ''B'', pr_seen = True\<rparr>]"
    "cl_cmds st = [set_endpoint_line ''wg0'' (replicate 44 CHR ''B'') 20 21]"
    using sample_main [OF w(4)] by blast
  have at: "0 < length (w_nodes w)" "w_nodes w ! 0 = nd_start (sample_conf ''wg0'' 1 CHR ''B'') (sample_network 10 11)"
    using w(2,3) by simp_all
  obtain log where "reachable sample_popen sample_b64 (\<lambda>_. False) sample_nodes (moved w 0 log st (length (cl_peers st)))"
    using client_main_moves [OF w(1) at sample_setup(1), of 0] st(1) by auto
  moreover have "?nd\<lparr>nd_client := strip st, nd_next := length (cl_peers st)\<rparr> \<in> set (w_nodes (moved w 0 log st (length (cl_peers st))))"
    using at(1) by (simp add: moved_def set_update_memI)
  moreover have "su_interface (nd_conf ?nd) = ''wg0''" by (simp add: at(2) nd_start_def sample_conf_def)
  ultimately show ?thesis using st(2,3)
    by (intro exI [of _ "moved w 0 log st (length (cl_peers st))"] exI [of _ "?nd\<lparr>nd_client := strip st, nd_next := length (cl_peers st)\<rparr>"])
      (simp add: strip_def)
qed

section \<open>Properties\<close>

text \<open>Claim C7: in every reachable world, whatever the interleaving of clients, server and strangers and
  however many keys have been registered, every endpoint that a client has set belongs to one of its peers
  and is the source address of a datagram that carried the public key of this peer.\<close>

theorem punching_endpoints:
  assumes "reachable popen b64_pton stranger nodes w" "nd \<in> set (w_nodes w)" "line \<in> set (cl_cmds (nd_client nd))"
  shows "\<exists>p dg. p \<in> set (cl_peers (nd_client nd)) \<and> pr_seen p \<and> dg \<in> set (w_log w) \<and> 64 \<le> length (dg_data dg) \<and>
    unbase64 b64_pton (pr_key p) = Inr (take 32 (dg_data dg)) \<and>
    line = set_endpoint_line (su_interface (nd_conf nd)) (pr_key p) (dg_ip dg) (dg_port dg)"
proof -
  have "found_ok b64_pton (w_log w) (su_interface (nd_conf nd)) (nd_client nd)"
    using world_inv_reachable [OF assms(1)] assms(2) by (simp add: world_inv_def node_inv_def)
  then obtain p where "p \<in> set (cl_peers (nd_client nd))" "pr_seen p"
    "learned b64_pton (w_log w) (su_interface (nd_conf nd)) p line"
    using assms(3) by (auto simp: found_ok_def)
  then show ?thesis unfolding learned_def seen_at_def by metis
qed

lemma punching_endpoints_witness:
  "\<exists>w nd p dg. reachable sample_popen sample_b64 (\<lambda>_. False) sample_nodes w \<and> nd \<in> set (w_nodes w) \<and>
     p \<in> set (cl_peers (nd_client nd)) \<and> pr_seen p \<and> dg \<in> set (w_log w) \<and>
     set_endpoint_line ''wg0'' (replicate 44 CHR ''B'') 20 21 =
       set_endpoint_line ''wg0'' (pr_key p) (dg_ip dg) (dg_port dg)"
proof -
  obtain w nd where w: "reachable sample_popen sample_b64 (\<lambda>_. False) sample_nodes w" "nd \<in> set (w_nodes w)"
    "su_interface (nd_conf nd) = ''wg0''" "cl_cmds (nd_client nd) = [set_endpoint_line ''wg0'' (replicate 44 CHR ''B'') 20 21]"
    using sample_found by blast
  then show ?thesis
    using punching_endpoints [OF w(1,2), of "set_endpoint_line ''wg0'' (replicate 44 CHR ''B'') 20 21"] by auto
qed

text \<open>Claim C4: when no stranger and no other client uses the key of a client, everyone who has found this
  client as a peer has set its public address as the endpoint, in every reachable world.\<close>

theorem punching_authentic:
  assumes "reachable popen b64_pton stranger nodes w" "target \<in> set nodes" "key = su_pubkey (nd_conf target)"
    and "\<forall>dg. stranger dg \<longrightarrow> take 32 (dg_data dg) \<noteq> key"
    and "\<forall>nd\<in>set nodes. su_pubkey (nd_conf nd) = key \<longrightarrow> nd = target"
    and "nd \<in> set (w_nodes w)" "p \<in> set (cl_peers (nd_client nd))" "pr_seen p" "unbase64 b64_pton (pr_key p) = Inr key"
  shows "set_endpoint_line (su_interface (nd_conf nd)) (pr_key p) (nw_ip (nd_network target)) (nw_port (nd_network target))
    \<in> set (cl_cmds (nd_client nd))"
proof -
  have inv: "world_inv b64_pton stranger nodes w" by (rule world_inv_reachable [OF assms(1)])
  then have "found_ok b64_pton (w_log w) (su_interface (nd_conf nd)) (nd_client nd)"
    using assms(6) by (simp add: world_inv_def node_inv_def)
  then obtain line where line: "line \<in> set (cl_cmds (nd_client nd))"
    "learned b64_pton (w_log w) (su_interface (nd_conf nd)) p line"
    using assms(7,8) by (auto simp: found_ok_def)
  then obtain dg where dg: "dg \<in> set (w_log w)" "take 32 (dg_data dg) = key"
    "line = set_endpoint_line (su_interface (nd_conf nd)) (pr_key p) (dg_ip dg) (dg_port dg)"
    using assms(9) by (auto simp: learned_def seen_at_def)
  obtain nd' where "nd' \<in> set nodes" "from_node dg nd'"
    using inv dg(1,2) assms(4) unfolding world_inv_def by blast
  then have "dg_ip dg = nw_ip (nd_network target)" "dg_port dg = nw_port (nd_network target)"
    using dg(2) assms(5) by (auto simp: from_node_def)
  then show ?thesis using line(1) dg(3) by simp
qed

lemma punching_authentic_witness:
  "\<exists>w nd. reachable sample_popen sample_b64 (\<lambda>_. False) sample_nodes w \<and> nd \<in> set (w_nodes w) \<and>
     set_endpoint_line ''wg0'' (replicate 44 CHR ''B'') 20 21 \<in> set (cl_cmds (nd_client nd))"
proof -
  let ?target = "nd_start (sample_conf ''wg1'' 2 CHR ''A'') (sample_network 20 21)" and ?B = "replicate 44 CHR ''B''"
  obtain w nd where w: "reachable sample_popen sample_b64 (\<lambda>_. False) sample_nodes w" "nd \<in> set (w_nodes w)"
    "su_interface (nd_conf nd) = ''wg0''" "cl_peers (nd_client nd) = [\<lparr>pr_key = ?B, pr_seen = True\<rparr>]"
    using sample_found by blast
  have key: "su_pubkey (nd_conf ?target) = replicate 32 2" "nw_ip (nd_network ?target) = 20" "nw_port (nd_network ?target) = 21"
    by (simp_all add: nd_start_def sample_conf_def sample_network_def)
  have only: "\<forall>nd\<in>set sample_nodes. su_pubkey (nd_conf nd) = replicate 32 2 \<longrightarrow> nd = ?target"
    by (simp add: nd_start_def sample_conf_def)
  have "unbase64 sample_b64 ?B = Inr (replicate 32 2)" by (simp add: unbase64_def sample_b64_def)
  then show ?thesis
    using punching_authentic [OF w(1), of ?target "replicate 32 2" nd "\<lparr>pr_key = ?B, pr_seen = True\<rparr>"] w key only by auto
qed

text \<open>Claim C8: a client never waits in vain unless a packet is lost: from every reachable world in which a
  request is under way, the server's answer and its reception lead to a world in which the client has
  gone on to the next peer, and the peer has been seen or will be asked for again.\<close>

theorem punching_progress:
  assumes "reachable popen b64_pton stranger nodes w" "n < length (w_nodes w)" "nd_phase (w_nodes w ! n) = Sent packet"
    and "\<forall>line. \<exists>out. popen line = Inr out"
  shows "\<exists>w1 w2. world_step popen b64_pton stranger w w1 \<and> world_step popen b64_pton stranger w1 w2 \<and>
    nd_phase (w_nodes w2 ! n) = Ready \<and> nd_next (w_nodes w2 ! n) = Suc (nd_next (w_nodes w ! n)) \<and>
    (pr_seen (cl_peers (nd_client (w_nodes w2 ! n)) ! nd_next (w_nodes w ! n)) \<or> cl_repeat (nd_client (w_nodes w2 ! n)))"
proof -
  let ?nd = "w_nodes w ! n"
  have inv: "node_inv b64_pton (w_log w) ?nd"
    using world_inv_reachable [OF assms(1)] assms(2) by (simp add: world_inv_def)
  then have i: "nd_next ?nd < length (cl_peers (nd_client ?nd))" using assms(3) by (auto simp: node_inv_def waits_for_def)
  obtain dg st r pkt where ans: "to_server (nd_network ?nd) (su_addr (nd_conf ?nd)) packet = Some dg"
    "server_step (w_server w) dg = (st, r)" "to_client (nd_network ?nd) (su_filter (nd_conf ?nd)) packet r = Some pkt"
    using request_answered [OF inv assms(3)] by blast
  let ?w1 = "w\<lparr>w_server := st, w_log := w_log w @ [dg], w_nodes := (w_nodes w)[n := ?nd\<lparr>nd_phase := Answered pkt\<rparr>]\<rparr>"
  have w1: "world_step popen b64_pton stranger w ?w1"
    using server_answers [OF assms(2) refl assms(3) ans(1,2)] by (simp add: nd_answer_def ans(3))
  obtain cl where cl: "client_receive popen (su_interface (nd_conf ?nd)) (nd_client ?nd) (nd_next ?nd) pkt = Inr cl"
    "pr_seen (cl_peers cl ! nd_next ?nd) \<or> cl_repeat cl"
    using client_receive_runs [OF assms(4) i] by blast
  have at: "n < length (w_nodes ?w1)" "w_nodes ?w1 ! n = ?nd\<lparr>nd_phase := Answered pkt\<rparr>" using assms(2) by simp_all
  have "node_step popen b64_pton (w_nodes ?w1 ! n) (?nd\<lparr>nd_client := cl, nd_next := Suc (nd_next ?nd), nd_phase := Ready\<rparr>)"
    unfolding at(2) using receive [of "?nd\<lparr>nd_phase := Answered pkt\<rparr>" pkt popen cl b64_pton] cl(1) by simp
  note w2 = client_moves [OF at(1) this, of stranger]
  let ?w2 = "?w1\<lparr>w_nodes := (w_nodes ?w1)[n := ?nd\<lparr>nd_client := cl, nd_next := Suc (nd_next ?nd), nd_phase := Ready\<rparr>]\<rparr>"
  have "nd_phase (w_nodes ?w2 ! n) = Ready" "nd_next (w_nodes ?w2 ! n) = Suc (nd_next ?nd)" "nd_client (w_nodes ?w2 ! n) = cl"
    using assms(2) by simp_all
  then show ?thesis using w1 w2 cl(2) by metis
qed

lemma punching_progress_witness:
  "\<exists>w w1 w2. reachable sample_popen sample_b64 (\<lambda>_. False) sample_nodes w \<and>
     world_step sample_popen sample_b64 (\<lambda>_. False) w w1 \<and> world_step sample_popen sample_b64 (\<lambda>_. False) w1 w2 \<and>
     nd_phase (w_nodes w2 ! 0) = Ready \<and> nd_next (w_nodes w2 ! 0) = 1"
proof -
  let ?w = "\<lparr>w_server = server_start, w_log = [], w_nodes = sample_nodes\<rparr>"
  let ?nd = "nd_start (sample_conf ''wg0'' 1 CHR ''B'') (sample_network 10 11)"
  let ?packet = "take 40 (nd_packet ?nd) @ replicate 32 2"
  have nd: "nd_phase ?nd = Ready" "nd_next ?nd = 0" "nd_peer ?nd = unseen (replicate 44 CHR ''B'')" "length (cl_peers (nd_client ?nd)) = 1"
    by (simp_all add: nd_start_def sample_conf_def nd_peer_def)
  have "client_request sample_b64 (nd_packet ?nd) (nd_peer ?nd) = Inr ?packet"
    unfolding nd(3) by (simp add: client_request_def unbase64_def sample_b64_def unseen_def)
  then have "node_step sample_popen sample_b64 ?nd (?nd\<lparr>nd_phase := Sent ?packet\<rparr>)"
    using nd by (intro send) (simp_all add: unseen_def)
  then have "world_step sample_popen sample_b64 (\<lambda>_. False) ?w (?w\<lparr>w_nodes := (w_nodes ?w)[0 := ?nd\<lparr>nd_phase := Sent ?packet\<rparr>]\<rparr>)"
    by (intro client_moves) simp_all
  with reachable.start [OF sample_starts]
  have r: "reachable sample_popen sample_b64 (\<lambda>_. False) sample_nodes (?w\<lparr>w_nodes := (w_nodes ?w)[0 := ?nd\<lparr>nd_phase := Sent ?packet\<rparr>]\<rparr>)"
    by (rule reachable.step)
  show ?thesis using punching_progress [OF r, of 0 ?packet] r sample_keys(3) nd(2) by auto
qed

text \<open>Claim C9: every run of the client's \<open>main\<close> against the server is a run of the system, whatever its outcome.
  From a reachable world in which a client with a completed set-up has not begun, at least one pass of the
  program leads to a reachable world. When the program ends, all of its peers have been seen and the
  client of that world is in the program's final state; when it ends with an error, the client has
  stopped; when it has not ended after the given number of passes, it is about to ask again because a
  peer is missing, and it is never left waiting for an answer.\<close>

theorem client_main_reachable:
  assumes "reachable popen b64_pton stranger nodes w" "n < length (w_nodes w)" "w_nodes w ! n = nd_start su nw"
    and "client_setup popen b64_pton env argv = Some (Inr su)" "0 < fuel"
  shows "\<exists>srv log nd. reachable popen b64_pton stranger nodes
      (w\<lparr>w_server := srv, w_log := w_log w @ log, w_nodes := (w_nodes w)[n := nd]\<rparr>) \<and> nd_conf nd = su \<and>
    (case client_main fuel popen b64_pton env (server_ask nw) (w_server w) argv of
       Some (Inr st) \<Rightarrow>
         nd_client nd = \<lparr>cl_peers = cl_peers st, cl_net = (), cl_repeat = cl_repeat st, cl_cmds = cl_cmds st\<rparr> \<and> srv = cl_net st \<and>
         map pr_key (cl_peers st) = map pr_key (su_peers su) \<and> (\<forall>p\<in>set (cl_peers st). pr_seen p)
     | Some (Inl e) \<Rightarrow> nd_phase nd = Stopped
     | None \<Rightarrow>
         nd_phase nd = Ready \<and> nd_next nd = length (cl_peers (nd_client nd)) \<and> cl_repeat (nd_client nd) \<and>
         map pr_key (cl_peers (nd_client nd)) = map pr_key (su_peers su) \<and> (\<exists>p\<in>set (cl_peers (nd_client nd)). \<not> pr_seen p))"
proof -
  let ?run = "client_main fuel popen b64_pton env (server_ask nw) (w_server w) argv" and ?nd = "w_nodes w ! n"
  let ?at = "\<lambda>st :: server client. ?nd\<lparr>nd_client := strip st, nd_next := length (cl_peers st)\<rparr>"
  obtain k where k: "fuel = Suc k" using assms(5) by (cases fuel) auto
  note moves = client_main_moves [OF assms(1-4), of k, folded k]
  have nd: "nd_conf ?nd = su" "nd_phase ?nd = Ready" by (simp_all add: assms(3) nd_start_def)
  consider (stuck) "?run = None" | (error) e where "?run = Some (Inl e)" | (finished) st where "?run = Some (Inr st)"
    by (metis not_None_eq old.sum.exhaust)
  then show ?thesis
  proof cases
    case stuck
    then obtain log st where st: "reachable popen b64_pton stranger nodes (moved w n log st (length (cl_peers st)))"
      "map pr_key (cl_peers st) = map pr_key (su_peers su)" "cl_repeat st" "asking st (length (cl_peers st))"
      using moves by auto
    then have "\<exists>p\<in>set (cl_peers st). \<not> pr_seen p" by (auto simp: asking_def)
    then show ?thesis using st nd stuck
      by (intro exI [of _ "cl_net st"] exI [of _ log] exI [of _ "?at st"]) (simp add: moved_def)
  next
    case error
    then show ?thesis using moves nd(1) by (auto simp: stops_def nd_static_def)
  next
    case finished
    then obtain log where "reachable popen b64_pton stranger nodes (moved w n log st (length (cl_peers st)))"
      "map pr_key (cl_peers st) = map pr_key (su_peers su)" "\<forall>p\<in>set (cl_peers st). pr_seen p"
      using moves by auto
    then show ?thesis using nd finished
      by (intro exI [of _ "cl_net st"] exI [of _ log] exI [of _ "?at st"]) (simp add: moved_def strip_def)
  qed
qed

lemma client_main_reachable_witness:
  "\<exists>w st log nd. client_main 1 sample_popen sample_b64 sample_env (server_ask (sample_network 10 11)) (w_server w)
       [''client'', ''server'', ''wg0''] = Some (Inr st) \<and>
     nd_client nd = \<lparr>cl_peers = cl_peers st, cl_net = (), cl_repeat = cl_repeat st, cl_cmds = cl_cmds st\<rparr> \<and>
     reachable sample_popen sample_b64 (\<lambda>_. False) sample_nodes
       (w\<lparr>w_server := cl_net st, w_log := w_log w @ log, w_nodes := (w_nodes w)[0 := nd]\<rparr>)"
proof -
  obtain w where w: "reachable sample_popen sample_b64 (\<lambda>_. False) sample_nodes w" "length (w_nodes w) = 2"
    "w_nodes w ! 0 = sample_nodes ! 0" "simulates [replicate 32 2] (w_server w) [replicate 32 2 \<mapsto> (20, 21)]"
    using sample_registered by blast
  then have at: "0 < length (w_nodes w)" "w_nodes w ! 0 = nd_start (sample_conf ''wg0'' 1 CHR ''B'') (sample_network 10 11)"
    by simp_all
  obtain st where st: "client_main 1 sample_popen sample_b64 sample_env (server_ask (sample_network 10 11)) (w_server w)
      [''client'', ''server'', ''wg0''] = Some (Inr st)"
    using sample_main [OF w(4)] by blast
  from client_main_reachable [OF w(1) at sample_setup(1), of 1] st show ?thesis by auto
qed

end
