(* ===== verification/Netlink.thy ===== *)
theory Netlink
  imports Prelude
begin

text \<open>
  The netlink message format as \<open>wireguard.c\<close> reads and writes it (its copy of the libmnl
  functions): messages and attributes are bytes of a buffer, a pointer is an offset into it, and an
  access outside the buffer is \<open>None\<close>. Fields are little-endian. The lemmas describe what a
  sequence of \<open>put\<close> operations leaves in the buffer and show that the parse loop visits exactly
  the attributes that were put.
\<close>

section \<open>Layout\<close>

type_synonym nlbuf = "u8 list"

definition MNL_ALIGN :: "nat \<Rightarrow> nat" where
  "MNL_ALIGN len = (len + 3) div 4 * 4"

text \<open>The same macro at the 32-bit length of a message, where the sum wraps around.\<close>

definition MNL_ALIGN32 :: "nat \<Rightarrow> nat" where
  "MNL_ALIGN32 len = (len + 3) mod 2 ^ 32 div 4 * 4"

definition MNL_NLMSG_HDRLEN :: nat where
  "MNL_NLMSG_HDRLEN = MNL_ALIGN 16"

definition MNL_ATTR_HDRLEN :: nat where
  "MNL_ATTR_HDRLEN = MNL_ALIGN 4"

datatype mnl_attr_data_type =
    MNL_TYPE_UNSPEC | MNL_TYPE_U8 | MNL_TYPE_U16 | MNL_TYPE_U32 | MNL_TYPE_U64 | MNL_TYPE_STRING
  | MNL_TYPE_FLAG | MNL_TYPE_MSECS | MNL_TYPE_NESTED | MNL_TYPE_NESTED_COMPAT | MNL_TYPE_NUL_STRING
  | MNL_TYPE_BINARY | MNL_TYPE_MAX

abbreviation rd_le :: "nlbuf \<Rightarrow> nat \<Rightarrow> nat \<Rightarrow> nat option" where
  "rd_le mem off n \<equiv> map_option le_nat (rd_block mem off n)"

text \<open>The fields of \<open>struct nlmsghdr\<close> and \<open>struct nlattr\<close>.\<close>

definition nlmsg_len :: "nlbuf \<Rightarrow> nat \<Rightarrow> nat option" where
  "nlmsg_len mem nlh = rd_le mem nlh 4"

definition nlmsg_type :: "nlbuf \<Rightarrow> nat \<Rightarrow> nat option" where
  "nlmsg_type mem nlh = rd_le mem (nlh + 4) 2"

definition nlmsg_flags :: "nlbuf \<Rightarrow> nat \<Rightarrow> nat option" where
  "nlmsg_flags mem nlh = rd_le mem (nlh + 6) 2"

definition nlmsg_seq :: "nlbuf \<Rightarrow> nat \<Rightarrow> nat option" where
  "nlmsg_seq mem nlh = rd_le mem (nlh + 8) 4"

definition nlmsg_pid :: "nlbuf \<Rightarrow> nat \<Rightarrow> nat option" where
  "nlmsg_pid mem nlh = rd_le mem (nlh + 12) 4"

definition set_nlmsg_len :: "nlbuf \<Rightarrow> nat \<Rightarrow> nat \<Rightarrow> nlbuf option" where
  "set_nlmsg_len mem nlh n = wr_block mem nlh (le_bytes 4 n)"

definition nla_len :: "nlbuf \<Rightarrow> nat \<Rightarrow> nat option" where
  "nla_len mem attr = rd_le mem attr 2"

definition nla_type :: "nlbuf \<Rightarrow> nat \<Rightarrow> nat option" where
  "nla_type mem attr = rd_le mem (attr + 2) 2"

section \<open>Messages\<close>

text \<open>The page size is that of the system.\<close>

definition mnl_ideal_socket_buffer_size :: "nat \<Rightarrow> nat" where
  "mnl_ideal_socket_buffer_size pagesize = (if pagesize > 8192 then 8192 else pagesize)"

definition mnl_nlmsg_size :: "nat \<Rightarrow> nat" where
  "mnl_nlmsg_size len = len + MNL_NLMSG_HDRLEN"

definition mnl_nlmsg_put_header :: "nlbuf \<Rightarrow> nat \<Rightarrow> nlbuf option" where
  "mnl_nlmsg_put_header mem buf = do {
     let len = MNL_ALIGN 16;
     mem \<leftarrow> wr_block mem buf (replicate len 0);
     set_nlmsg_len mem buf len }"

definition mnl_nlmsg_put_extra_header :: "nlbuf \<Rightarrow> nat \<Rightarrow> nat \<Rightarrow> (nlbuf \<times> nat) option" where
  "mnl_nlmsg_put_extra_header mem nlh sz = do {
     old \<leftarrow> nlmsg_len mem nlh;
     let ptr = nlh + old;
     let len = MNL_ALIGN sz;
     mem \<leftarrow> set_nlmsg_len mem nlh (old + len);
     mem \<leftarrow> wr_block mem ptr (replicate len 0);
     Some (mem, ptr) }"

definition mnl_nlmsg_get_payload :: "nat \<Rightarrow> nat" where
  "mnl_nlmsg_get_payload nlh = nlh + MNL_NLMSG_HDRLEN"

definition mnl_nlmsg_get_payload_offset :: "nat \<Rightarrow> nat \<Rightarrow> nat" where
  "mnl_nlmsg_get_payload_offset nlh offset = nlh + MNL_NLMSG_HDRLEN + MNL_ALIGN offset"

text \<open>Conversion of an \<open>unsigned\<close> number to \<open>int\<close>.\<close>

definition as_int :: "nat \<Rightarrow> int" where
  "as_int n = (if n < 2 ^ 31 then int n else int n - 2 ^ 32)"

definition mnl_nlmsg_ok :: "nlbuf \<Rightarrow> nat \<Rightarrow> int \<Rightarrow> bool option" where
  "mnl_nlmsg_ok mem nlh len =
     (if len \<ge> 16 then do { n \<leftarrow> nlmsg_len mem nlh; Some (n \<ge> 16 \<and> as_int n \<le> len) } else Some False)"

definition mnl_nlmsg_next :: "nlbuf \<Rightarrow> nat \<Rightarrow> int \<Rightarrow> (nat \<times> int) option" where
  "mnl_nlmsg_next mem nlh len = do {
     n \<leftarrow> nlmsg_len mem nlh;
     Some (nlh + MNL_ALIGN32 n, as_int (nat ((len - int (MNL_ALIGN32 n)) mod 2 ^ 32))) }"

definition mnl_nlmsg_get_payload_tail :: "nlbuf \<Rightarrow> nat \<Rightarrow> nat option" where
  "mnl_nlmsg_get_payload_tail mem nlh = do { n \<leftarrow> nlmsg_len mem nlh; Some (nlh + MNL_ALIGN32 n) }"

definition mnl_nlmsg_seq_ok :: "nlbuf \<Rightarrow> nat \<Rightarrow> nat \<Rightarrow> bool option" where
  "mnl_nlmsg_seq_ok mem nlh seq = do {
     n \<leftarrow> nlmsg_seq mem nlh;
     Some (if n \<noteq> 0 \<and> seq \<noteq> 0 then n = seq else True) }"

definition mnl_nlmsg_portid_ok :: "nlbuf \<Rightarrow> nat \<Rightarrow> nat \<Rightarrow> bool option" where
  "mnl_nlmsg_portid_ok mem nlh portid = do {
     n \<leftarrow> nlmsg_pid mem nlh;
     Some (if n \<noteq> 0 \<and> portid \<noteq> 0 then n = portid else True) }"

section \<open>Reading attributes\<close>

text \<open>\<open>NLA_TYPE_MASK\<close> clears the two topmost bits.\<close>

definition mnl_attr_get_type :: "nlbuf \<Rightarrow> nat \<Rightarrow> nat option" where
  "mnl_attr_get_type mem attr = map_option (\<lambda>t. t mod 2 ^ 14) (nla_type mem attr)"

definition mnl_attr_get_payload_len :: "nlbuf \<Rightarrow> nat \<Rightarrow> nat option" where
  "mnl_attr_get_payload_len mem attr =
     map_option (\<lambda>n. nat ((int n - int MNL_ATTR_HDRLEN) mod 2 ^ 16)) (nla_len mem attr)"

definition mnl_attr_get_payload :: "nat \<Rightarrow> nat" where
  "mnl_attr_get_payload attr = attr + MNL_ATTR_HDRLEN"

definition mnl_attr_ok :: "nlbuf \<Rightarrow> nat \<Rightarrow> int \<Rightarrow> bool option" where
  "mnl_attr_ok mem attr len =
     (if len \<ge> 4 then do { n \<leftarrow> nla_len mem attr; Some (n \<ge> 4 \<and> int n \<le> len) } else Some False)"

definition mnl_attr_next :: "nlbuf \<Rightarrow> nat \<Rightarrow> nat option" where
  "mnl_attr_next mem attr = map_option (\<lambda>n. attr + MNL_ALIGN n) (nla_len mem attr)"

text \<open>A failed check is \<open>Inl\<close> of \<open>errno\<close>.\<close>

definition EOPNOTSUPP :: int where "EOPNOTSUPP = 95"
definition ERANGE :: int where "ERANGE = 34"
definition EINVAL :: int where "EINVAL = 22"

definition mnl_attr_type_valid :: "nlbuf \<Rightarrow> nat \<Rightarrow> nat \<Rightarrow> (int + unit) option" where
  "mnl_attr_type_valid mem attr max_type = do {
     t \<leftarrow> mnl_attr_get_type mem attr;
     Some (if t > max_type then Inl EOPNOTSUPP else Inr ()) }"

definition attr_validate :: "nlbuf \<Rightarrow> nat \<Rightarrow> mnl_attr_data_type \<Rightarrow> nat \<Rightarrow> (int + unit) option" where
  "attr_validate mem attr type exp_len = do {
     attr_len \<leftarrow> mnl_attr_get_payload_len mem attr;
     let attr_data = mnl_attr_get_payload attr;
     if attr_len < exp_len then Some (Inl ERANGE)
     else
       and_then
         (case type of
            MNL_TYPE_FLAG \<Rightarrow> Some (if attr_len > 0 then Inl ERANGE else Inr ())
          | MNL_TYPE_NUL_STRING \<Rightarrow>
              if attr_len = 0 then Some (Inl ERANGE)
              else do {
                c \<leftarrow> rd mem (attr_data + (attr_len - 1));
                Some (if c \<noteq> 0 then Inl EINVAL else Inr ()) }
          | MNL_TYPE_STRING \<Rightarrow> Some (if attr_len = 0 then Inl ERANGE else Inr ())
          | MNL_TYPE_NESTED \<Rightarrow>
              if attr_len = 0 then Some (Inr ())
              else Some (if attr_len < MNL_ATTR_HDRLEN then Inl ERANGE else Inr ())
          | _ \<Rightarrow> Some (Inr ()))
         (\<lambda>_. Some (if exp_len \<noteq> 0 \<and> attr_len > exp_len then Inl ERANGE else Inr ())) }"

fun mnl_attr_data_type_len :: "mnl_attr_data_type \<Rightarrow> nat" where
  "mnl_attr_data_type_len MNL_TYPE_U8 = 1"
| "mnl_attr_data_type_len MNL_TYPE_U16 = 2"
| "mnl_attr_data_type_len MNL_TYPE_U32 = 4"
| "mnl_attr_data_type_len MNL_TYPE_U64 = 8"
| "mnl_attr_data_type_len MNL_TYPE_MSECS = 8"
| "mnl_attr_data_type_len _ = 0"

definition mnl_attr_validate :: "nlbuf \<Rightarrow> nat \<Rightarrow> mnl_attr_data_type \<Rightarrow> (int + unit) option" where
  "mnl_attr_validate mem attr type =
     (if type = MNL_TYPE_MAX then Some (Inl EINVAL)
      else attr_validate mem attr type (mnl_attr_data_type_len type))"

text \<open>
  The loop behind the \<open>mnl_attr_for_each\<close> macros: \<open>stop\<close> is the end of the attributes. A
  callback gets the attribute and its data and returns a code, at most 0 to leave the loop. What is left
  of the attributes is an unbounded integer here and an \<open>int\<close> in C; they differ only when 2 GiB or more
  are left.
\<close>

function attr_loop ::
  "nlbuf \<Rightarrow> nat \<Rightarrow> (nat \<Rightarrow> 's \<Rightarrow> (int \<times> 's) option) \<Rightarrow> nat \<Rightarrow> int \<Rightarrow> 's \<Rightarrow> (int \<times> 's) option" where
  "attr_loop mem stop cb attr ret st = do {
     ok \<leftarrow> mnl_attr_ok mem attr (int stop - int attr);
     if ok then do {
       (ret, st) \<leftarrow> cb attr st;
       if ret \<le> 0 then Some (ret, st)
       else do {
         next_attr \<leftarrow> mnl_attr_next mem attr;
         attr_loop mem stop cb next_attr ret st } }
     else Some (ret, st) }"
  by pat_completeness auto
termination
  by (relation "measure (\<lambda>(mem, stop, cb, attr, ret, st). stop - attr)")
    (auto simp: mnl_attr_ok_def mnl_attr_next_def MNL_ALIGN_def split: if_splits Option.bind_splits)

declare attr_loop.simps [simp del]

definition mnl_attr_parse ::
  "nlbuf \<Rightarrow> nat \<Rightarrow> nat \<Rightarrow> (nat \<Rightarrow> 's \<Rightarrow> (int \<times> 's) option) \<Rightarrow> 's \<Rightarrow> (int \<times> 's) option" where
  "mnl_attr_parse mem nlh offset cb data = do {
     stop \<leftarrow> mnl_nlmsg_get_payload_tail mem nlh;
     attr_loop mem stop cb (mnl_nlmsg_get_payload_offset nlh offset) 1 data }"

definition mnl_attr_parse_nested ::
  "nlbuf \<Rightarrow> nat \<Rightarrow> (nat \<Rightarrow> 's \<Rightarrow> (int \<times> 's) option) \<Rightarrow> 's \<Rightarrow> (int \<times> 's) option" where
  "mnl_attr_parse_nested mem nested cb data = do {
     len \<leftarrow> mnl_attr_get_payload_len mem nested;
     attr_loop mem (mnl_attr_get_payload nested + len) cb (mnl_attr_get_payload nested) 1 data }"

definition mnl_attr_get_u8 :: "nlbuf \<Rightarrow> nat \<Rightarrow> u8 option" where
  "mnl_attr_get_u8 mem attr = rd mem (mnl_attr_get_payload attr)"

definition mnl_attr_get_u16 :: "nlbuf \<Rightarrow> nat \<Rightarrow> u16 option" where
  "mnl_attr_get_u16 mem attr = map_option of_nat (rd_le mem (mnl_attr_get_payload attr) 2)"

definition mnl_attr_get_u32 :: "nlbuf \<Rightarrow> nat \<Rightarrow> u32 option" where
  "mnl_attr_get_u32 mem attr = map_option of_nat (rd_le mem (mnl_attr_get_payload attr) 4)"

definition mnl_attr_get_u64 :: "nlbuf \<Rightarrow> nat \<Rightarrow> u64 option" where
  "mnl_attr_get_u64 mem attr = map_option of_nat (rd_le mem (mnl_attr_get_payload attr) 8)"

definition mnl_attr_get_str :: "nat \<Rightarrow> nat" where
  "mnl_attr_get_str attr = mnl_attr_get_payload attr"

section \<open>Writing attributes\<close>

text \<open>\<open>payload_len\<close> is a 16-bit number.\<close>

definition mnl_attr_put :: "nlbuf \<Rightarrow> nat \<Rightarrow> nat \<Rightarrow> u8 list \<Rightarrow> nlbuf option" where
  "mnl_attr_put mem nlh type data = do {
     attr \<leftarrow> mnl_nlmsg_get_payload_tail mem nlh;
     let len = length data;
     let payload_len = (MNL_ALIGN 4 + len) mod 2 ^ 16;
     mem \<leftarrow> wr_block mem (attr + 2) (le_bytes 2 type);
     mem \<leftarrow> wr_block mem attr (le_bytes 2 payload_len);
     mem \<leftarrow> wr_block mem (mnl_attr_get_payload attr) data;
     n \<leftarrow> nlmsg_len mem nlh;
     mem \<leftarrow> set_nlmsg_len mem nlh (n + MNL_ALIGN payload_len);
     let pad = MNL_ALIGN len - len;
     if pad > 0 then wr_block mem (mnl_attr_get_payload attr + len) (replicate pad 0) else Some mem }"

definition mnl_attr_put_u16 :: "nlbuf \<Rightarrow> nat \<Rightarrow> nat \<Rightarrow> u16 \<Rightarrow> nlbuf option" where
  "mnl_attr_put_u16 mem nlh type data = mnl_attr_put mem nlh type (le_bytes 2 (unat data))"

definition mnl_attr_put_u32 :: "nlbuf \<Rightarrow> nat \<Rightarrow> nat \<Rightarrow> u32 \<Rightarrow> nlbuf option" where
  "mnl_attr_put_u32 mem nlh type data = mnl_attr_put mem nlh type (le_bytes 4 (unat data))"

text \<open>The bytes of a C string up to and including its NUL; \<open>None\<close> when there is none.\<close>

definition strz :: "u8 list \<Rightarrow> u8 list option" where
  "strz str = (if 0 \<in> set str then Some (takeWhile (\<lambda>c. c \<noteq> 0) str @ [0]) else None)"

definition mnl_attr_put_strz :: "nlbuf \<Rightarrow> nat \<Rightarrow> nat \<Rightarrow> u8 list \<Rightarrow> nlbuf option" where
  "mnl_attr_put_strz mem nlh type data = do { s \<leftarrow> strz data; mnl_attr_put mem nlh type s }"

definition NLA_F_NESTED :: nat where
  "NLA_F_NESTED = 0x8000"

definition mnl_attr_nest_start :: "nlbuf \<Rightarrow> nat \<Rightarrow> nat \<Rightarrow> (nlbuf \<times> nat) option" where
  "mnl_attr_nest_start mem nlh type = do {
     start \<leftarrow> mnl_nlmsg_get_payload_tail mem nlh;
     mem \<leftarrow> wr_block mem (start + 2) (le_bytes 2 (NLA_F_NESTED OR type));
     n \<leftarrow> nlmsg_len mem nlh;
     mem \<leftarrow> set_nlmsg_len mem nlh (n + MNL_ALIGN 4);
     Some (mem, start) }"

text \<open>The checked variants answer \<open>Inl\<close> of the unchanged buffer when there is no room.\<close>

definition mnl_attr_put_check :: "nlbuf \<Rightarrow> nat \<Rightarrow> nat \<Rightarrow> nat \<Rightarrow> u8 list \<Rightarrow> (nlbuf + nlbuf) option" where
  "mnl_attr_put_check mem nlh buflen type data = do {
     n \<leftarrow> nlmsg_len mem nlh;
     if n + MNL_ATTR_HDRLEN + MNL_ALIGN (length data) > buflen then Some (Inl mem)
     else map_option Inr (mnl_attr_put mem nlh type data) }"

definition mnl_attr_put_u8_check :: "nlbuf \<Rightarrow> nat \<Rightarrow> nat \<Rightarrow> nat \<Rightarrow> u8 \<Rightarrow> (nlbuf + nlbuf) option" where
  "mnl_attr_put_u8_check mem nlh buflen type data = mnl_attr_put_check mem nlh buflen type [data]"

definition mnl_attr_put_u16_check :: "nlbuf \<Rightarrow> nat \<Rightarrow> nat \<Rightarrow> nat \<Rightarrow> u16 \<Rightarrow> (nlbuf + nlbuf) option" where
  "mnl_attr_put_u16_check mem nlh buflen type data =
     mnl_attr_put_check mem nlh buflen type (le_bytes 2 (unat data))"

definition mnl_attr_put_u32_check :: "nlbuf \<Rightarrow> nat \<Rightarrow> nat \<Rightarrow> nat \<Rightarrow> u32 \<Rightarrow> (nlbuf + nlbuf) option" where
  "mnl_attr_put_u32_check mem nlh buflen type data =
     mnl_attr_put_check mem nlh buflen type (le_bytes 4 (unat data))"

definition mnl_attr_nest_start_check :: "nlbuf \<Rightarrow> nat \<Rightarrow> nat \<Rightarrow> nat \<Rightarrow> (nlbuf + nlbuf \<times> nat) option" where
  "mnl_attr_nest_start_check mem nlh buflen type = do {
     n \<leftarrow> nlmsg_len mem nlh;
     if n + MNL_ATTR_HDRLEN > buflen then Some (Inl mem)
     else map_option Inr (mnl_attr_nest_start mem nlh type) }"

definition mnl_attr_nest_end :: "nlbuf \<Rightarrow> nat \<Rightarrow> nat \<Rightarrow> nlbuf option" where
  "mnl_attr_nest_end mem nlh start = do {
     tail \<leftarrow> mnl_nlmsg_get_payload_tail mem nlh;
     wr_block mem start (le_bytes 2 (tail - start)) }"

definition mnl_attr_nest_cancel :: "nlbuf \<Rightarrow> nat \<Rightarrow> nat \<Rightarrow> nlbuf option" where
  "mnl_attr_nest_cancel mem nlh start = do {
     tail \<leftarrow> mnl_nlmsg_get_payload_tail mem nlh;
     n \<leftarrow> nlmsg_len mem nlh;
     set_nlmsg_len mem nlh (n - (tail - start)) }"

section \<open>The message under construction\<close>

text \<open>
  \<open>built mem hdr body\<close>: the buffer starts with a message whose header after the length is
  \<open>hdr\<close> and whose payload is \<open>body\<close>; what follows is arbitrary. Buffers are shorter than
  64 KiB, so that no length wraps around.
\<close>

definition built :: "nlbuf \<Rightarrow> u8 list \<Rightarrow> u8 list \<Rightarrow> bool" where
  "built mem hdr body \<longleftrightarrow> (\<exists>junk. mem = le_bytes 4 (16 + length body) @ hdr @ body @ junk) \<and>
     length hdr = 12 \<and> 4 dvd length body \<and> length mem < 2 ^ 16"

text \<open>The bytes of an attribute with its padding; a nest is an attribute whose payload is aligned.\<close>

definition attr_bytes :: "nat \<Rightarrow> u8 list \<Rightarrow> u8 list" where
  "attr_bytes t d = le_bytes 2 (4 + length d) @ le_bytes 2 t @ d @ replicate (MNL_ALIGN (length d) - length d) 0"

lemma align_ge: "n \<le> MNL_ALIGN n"
  unfolding MNL_ALIGN_def by presburger

lemma align_dvd: "4 dvd MNL_ALIGN n"
  unfolding MNL_ALIGN_def by presburger

lemma align_less: "MNL_ALIGN n < n + 4"
  unfolding MNL_ALIGN_def by presburger

lemma align_of_dvd: "4 dvd n \<Longrightarrow> MNL_ALIGN n = n"
  by (auto simp: MNL_ALIGN_def)

lemma align_add4: "MNL_ALIGN (4 + n) = 4 + MNL_ALIGN n"
  unfolding MNL_ALIGN_def by presburger

lemma align32: "n < 2 ^ 16 \<Longrightarrow> MNL_ALIGN32 n = MNL_ALIGN n"
  by (simp add: MNL_ALIGN32_def MNL_ALIGN_def)

lemma hdr_lens [simp]: "MNL_ATTR_HDRLEN = 4" "MNL_NLMSG_HDRLEN = 16" "MNL_ALIGN 4 = 4" "MNL_ALIGN 16 = 16"
  by (simp_all add: MNL_ATTR_HDRLEN_def MNL_NLMSG_HDRLEN_def MNL_ALIGN_def)

lemma length_attr_bytes [simp]: "length (attr_bytes t d) = 4 + MNL_ALIGN (length d)"
  using align_ge [of "length d"] by (simp add: attr_bytes_def)

lemma le_nat_small: "x < 2 ^ 16 \<Longrightarrow> le_nat (le_bytes 4 x) = x" "x < 2 ^ 16 \<Longrightarrow> le_nat (le_bytes 2 x) = x"
  by (simp_all add: le_nat_bytes)

text \<open>The buffer taken apart into length field, rest of the message, and the free bytes behind it.\<close>

lemma builtE:
  assumes "built mem hdr body"
  obtains junk where "mem = le_bytes 4 (16 + length body) @ (hdr @ body) @ junk"
    "length (hdr @ body) = 12 + length body" "length mem = 16 + length body + length junk"
    "nlmsg_len mem 0 = Some (16 + length body)" "mnl_nlmsg_get_payload_tail mem 0 = Some (16 + length body)"
    "16 + length body + length junk < 2 ^ 16"
proof -
  obtain junk where junk: "mem = le_bytes 4 (16 + length body) @ hdr @ body @ junk"
    and ok: "length hdr = 12" "4 dvd length body" "length mem < 2 ^ 16"
    using assms by (auto simp: built_def)
  have len: "nlmsg_len mem 0 = Some (16 + length body)"
    using ok(1,3) unfolding nlmsg_len_def junk by (simp add: le_nat_bytes)
  have "MNL_ALIGN32 (16 + length body) = 16 + length body"
    using ok junk by (simp add: align32 align_of_dvd)
  then have "mnl_nlmsg_get_payload_tail mem 0 = Some (16 + length body)"
    by (simp add: mnl_nlmsg_get_payload_tail_def len)
  then show thesis using that junk ok len by simp
qed

lemma builtI:
  "mem = le_bytes 4 (16 + length body) @ (hdr @ body) @ junk \<Longrightarrow> length hdr = 12 \<Longrightarrow> 4 dvd length body \<Longrightarrow>
   length mem < 2 ^ 16 \<Longrightarrow> built mem hdr body"
  by (auto simp: built_def)

lemma built_simps:
  assumes "built mem hdr body"
  shows "length hdr = 12" "4 dvd length body" "16 + length body \<le> length mem" "length mem < 2 ^ 16"
    "nlmsg_len mem 0 = Some (16 + length body)" "mnl_nlmsg_get_payload_tail mem 0 = Some (16 + length body)"
proof -
  show "length hdr = 12" "4 dvd length body" "16 + length body \<le> length mem" "length mem < 2 ^ 16"
    using assms by (auto simp: built_def)
  show "nlmsg_len mem 0 = Some (16 + length body)" by (rule builtE [OF assms])
  show "mnl_nlmsg_get_payload_tail mem 0 = Some (16 + length body)" by (rule builtE [OF assms])
qed

text \<open>Splitting the free bytes at the sizes of the fields that are written.\<close>

lemma split_at: "n \<le> length xs \<Longrightarrow> \<exists>a b. xs = a @ b \<and> length a = n"
  by (metis append_take_drop_id length_take min.absorb2)

text \<open>The writes of \<open>mnl_attr_put\<close> on a buffer that is split at the fields of the attribute.\<close>

lemma put_writes:
  assumes M: "length M + 4 = n" and a: "length a1 = 2" "length a2 = 2" "length a3 = length d" "length a4 = MNL_ALIGN (length d) - length d"
    and mem: "mem = le_bytes 4 n @ M @ a1 @ a2 @ a3 @ a4 @ r" and tail: "mnl_nlmsg_get_payload_tail mem 0 = Some n"
    and small: "n < 2 ^ 16" "4 + length d < 2 ^ 16"
  shows "mnl_attr_put mem 0 t d = Some (le_bytes 4 (n + (4 + MNL_ALIGN (length d))) @ M @ attr_bytes t d @ r)"
proof -
  let ?pad = "MNL_ALIGN (length d) - length d" and ?T = "le_bytes 2 t" and ?P = "le_bytes 2 (4 + length d)"
  have pl: "(4 + length d) mod 2 ^ 16 = 4 + length d" using small(2) by simp
  note lens = M [symmetric] a
  have w1: "wr_block mem (n + 2) ?T = Some (le_bytes 4 n @ M @ a1 @ ?T @ a3 @ a4 @ r)"
    using lens by (simp add: mem wr_block_def)
  have w2: "wr_block (le_bytes 4 n @ M @ a1 @ ?T @ a3 @ a4 @ r) n ?P = Some (le_bytes 4 n @ M @ ?P @ ?T @ a3 @ a4 @ r)"
    using lens by (simp add: wr_block_def)
  have w3: "wr_block (le_bytes 4 n @ M @ ?P @ ?T @ a3 @ a4 @ r) (n + 4) d = Some (le_bytes 4 n @ M @ ?P @ ?T @ d @ a4 @ r)"
    using lens by (simp add: wr_block_def)
  have l: "nlmsg_len (le_bytes 4 n @ M @ ?P @ ?T @ d @ a4 @ r) 0 = Some n"
    using small(1) by (simp add: nlmsg_len_def le_nat_bytes)
  have w4: "set_nlmsg_len (le_bytes 4 n @ M @ ?P @ ?T @ d @ a4 @ r) 0 k = Some (le_bytes 4 k @ M @ ?P @ ?T @ d @ a4 @ r)" for k
    by (simp add: set_nlmsg_len_def wr_block_def)
  have w5: "(if ?pad > 0 then wr_block (le_bytes 4 k @ M @ ?P @ ?T @ d @ a4 @ r) (n + 4 + length d) (replicate ?pad 0)
      else Some (le_bytes 4 k @ M @ ?P @ ?T @ d @ a4 @ r)) = Some (le_bytes 4 k @ M @ attr_bytes t d @ r)" for k
    using lens by (auto simp: wr_block_def attr_bytes_def)
  show ?thesis
    unfolding mnl_attr_put_def tail Let_def mnl_attr_get_payload_def hdr_lens
    by (simp only: bind.bind_lunit w1 w2 w3 w4 w5 l pl align_add4)
qed

lemma put_built:
  assumes b: "built mem hdr body" and room: "16 + length body + 4 + MNL_ALIGN (length d) \<le> length mem"
  shows "\<exists>mem'. mnl_attr_put mem 0 t d = Some mem' \<and> built mem' hdr (body @ attr_bytes t d) \<and> length mem' = length mem"
proof -
  obtain junk where junk: "mem = le_bytes 4 (16 + length body) @ (hdr @ body) @ junk"
    "length (hdr @ body) = 12 + length body" "length mem = 16 + length body + length junk"
    "nlmsg_len mem 0 = Some (16 + length body)" "mnl_nlmsg_get_payload_tail mem 0 = Some (16 + length body)"
    "16 + length body + length junk < 2 ^ 16"
    by (rule builtE [OF b])
  let ?pad = "MNL_ALIGN (length d) - length d" and ?n = "16 + length body"
  have al: "length d \<le> MNL_ALIGN (length d)" by (rule align_ge)
  obtain a1 r1 where s1: "junk = a1 @ r1" "length a1 = 2" using split_at [of 2 junk] room junk(3) by auto
  obtain a2 r2 where s2: "r1 = a2 @ r2" "length a2 = 2" using split_at [of 2 r1] room junk(3) s1 by auto
  obtain a3 r3 where s3: "r2 = a3 @ r3" "length a3 = length d"
    using split_at [of "length d" r2] room junk(3) s1 s2 al by auto
  have "?pad \<le> length r3" using room junk(3) s1 s2 s3 al by simp
  then obtain a4 r4 where s4: "r3 = a4 @ r4" "length a4 = ?pad" using split_at by blast
  have M: "length (hdr @ body) + 4 = ?n" using junk(2) by simp
  have mem: "mem = le_bytes 4 ?n @ (hdr @ body) @ a1 @ a2 @ a3 @ a4 @ r4" by (simp add: junk(1) s1 s2 s3 s4)
  let ?mem = "le_bytes 4 (?n + (4 + MNL_ALIGN (length d))) @ (hdr @ body) @ attr_bytes t d @ r4"
  have "mnl_attr_put mem 0 t d = Some ?mem"
    by (rule put_writes [OF M s1(2) s2(2) s3(2) s4(2) mem junk(5)]) (use room al junk(3,6) in simp_all)
  moreover have "built ?mem hdr (body @ attr_bytes t d)"
  proof (rule builtI [of _ _ _ r4])
    show "?mem = le_bytes 4 (16 + length (body @ attr_bytes t d)) @ (hdr @ body @ attr_bytes t d) @ r4" by simp
    show "4 dvd length (body @ attr_bytes t d)" using built_simps(2) [OF b] align_dvd by simp
    show "length ?mem < 2 ^ 16" using M s1 s2 s3 s4 junk(6) al by simp
  qed (rule built_simps(1) [OF b])
  moreover have "length ?mem = length mem" using M s1(2) s2(2) s3(2) s4(2) al by (simp add: mem)
  ultimately show ?thesis by blast
qed

lemma put_check_built:
  assumes b: "built mem hdr body" and len: "length mem = buflen"
  shows "if 20 + length body + MNL_ALIGN (length d) > buflen then mnl_attr_put_check mem 0 buflen t d = Some (Inl mem)
    else \<exists>mem'. mnl_attr_put_check mem 0 buflen t d = Some (Inr mem') \<and> built mem' hdr (body @ attr_bytes t d) \<and>
      length mem' = buflen"
  using put_built [OF b, of d t] built_simps(5) [OF b] len by (auto simp: mnl_attr_put_check_def)

text \<open>Opening a nest leaves its length field as it was; closing it fills it in.\<close>

lemma nest_start_built:
  assumes b: "built mem hdr body" and room: "20 + length body \<le> length mem"
  shows "\<exists>mem' j. mnl_attr_nest_start mem 0 t = Some (mem', 16 + length body) \<and> length j = 2 \<and>
    built mem' hdr (body @ j @ le_bytes 2 (NLA_F_NESTED OR t)) \<and> length mem' = length mem"
proof -
  obtain junk where junk: "mem = le_bytes 4 (16 + length body) @ (hdr @ body) @ junk"
    "length (hdr @ body) = 12 + length body" "length mem = 16 + length body + length junk"
    "nlmsg_len mem 0 = Some (16 + length body)" "mnl_nlmsg_get_payload_tail mem 0 = Some (16 + length body)"
    "16 + length body + length junk < 2 ^ 16"
    by (rule builtE [OF b])
  obtain a1 r1 where s1: "junk = a1 @ r1" "length a1 = 2" using split_at [of 2 junk] room junk(3) by auto
  obtain a2 r2 where s2: "r1 = a2 @ r2" "length a2 = 2" using split_at [of 2 r1] room junk(3) s1 by auto
  define M n where "M = hdr @ body" and "n = 16 + length body"
  let ?T = "le_bytes 2 (NLA_F_NESTED OR t)"
  have M: "length M + 4 = n" using junk(2) by (simp add: M_def n_def)
  have mem: "mem = le_bytes 4 n @ M @ a1 @ a2 @ r2" by (simp add: junk(1) M_def n_def s1 s2)
  have w1: "wr_block mem (n + 2) ?T = Some (le_bytes 4 n @ M @ a1 @ ?T @ r2)"
    using M [symmetric] s1(2) s2(2) by (simp add: mem wr_block_def)
  have l: "nlmsg_len (le_bytes 4 n @ M @ a1 @ ?T @ r2) 0 = Some n"
    using junk(6) by (simp add: nlmsg_len_def le_nat_bytes n_def)
  have w2: "set_nlmsg_len (le_bytes 4 n @ M @ a1 @ ?T @ r2) 0 k = Some (le_bytes 4 k @ M @ a1 @ ?T @ r2)" for k
    by (simp add: set_nlmsg_len_def wr_block_def)
  let ?mem = "le_bytes 4 (n + 4) @ M @ a1 @ ?T @ r2"
  have "mnl_attr_nest_start mem 0 t = Some (?mem, n)"
    unfolding mnl_attr_nest_start_def junk(5) hdr_lens n_def [symmetric]
    by (simp only: bind.bind_lunit w1 w2 l)
  moreover have "built ?mem hdr (body @ a1 @ ?T)"
  proof (rule builtI [of _ _ _ r2])
    show "?mem = le_bytes 4 (16 + length (body @ a1 @ ?T)) @ (hdr @ body @ a1 @ ?T) @ r2"
      using s1(2) by (simp add: M_def n_def add.commute)
    show "4 dvd length (body @ a1 @ ?T)" using built_simps(2) [OF b] s1(2) by simp
    show "length ?mem < 2 ^ 16" using M s1 s2 junk(6) by (simp add: n_def)
  qed (rule built_simps(1) [OF b])
  moreover have "length ?mem = length mem" using M s1(2) s2(2) by (simp add: mem)
  ultimately show ?thesis using s1(2) by (auto simp: n_def)
qed

lemma nest_start_check_built:
  assumes b: "built mem hdr body" and len: "length mem = buflen"
  shows "if 20 + length body > buflen then mnl_attr_nest_start_check mem 0 buflen t = Some (Inl mem)
    else \<exists>mem' j. mnl_attr_nest_start_check mem 0 buflen t = Some (Inr (mem', 16 + length body)) \<and> length j = 2 \<and>
      built mem' hdr (body @ j @ le_bytes 2 (NLA_F_NESTED OR t)) \<and> length mem' = buflen"
  using nest_start_built [OF b, of t] built_simps(5) [OF b] len by (auto simp: mnl_attr_nest_start_check_def)

lemma nest_end_built:
  assumes b: "built mem hdr (body @ j @ le_bytes 2 t @ c)" and j: "length j = 2" and d: "4 dvd length body"
  shows "\<exists>mem'. mnl_attr_nest_end mem 0 (16 + length body) = Some mem' \<and> built mem' hdr (body @ attr_bytes t c) \<and>
    length mem' = length mem"
proof -
  obtain junk where junk: "mem = le_bytes 4 (16 + length (body @ j @ le_bytes 2 t @ c)) @ (hdr @ body @ j @ le_bytes 2 t @ c) @ junk"
    "mnl_nlmsg_get_payload_tail mem 0 = Some (16 + length (body @ j @ le_bytes 2 t @ c))"
    by (rule builtE [OF b])
  have hdr: "length hdr = 12" and lt: "length mem < 2 ^ 16" using built_simps [OF b] by simp_all
  have "4 dvd length body + (2 + (2 + length c))" using built_simps(2) [OF b] j by simp
  then have c: "4 dvd length c" using d by presburger
  have attr: "attr_bytes t c = le_bytes 2 (4 + length c) @ le_bytes 2 t @ c" using c by (simp add: attr_bytes_def align_of_dvd)
  let ?n = "16 + length (body @ j @ le_bytes 2 t @ c)"
  let ?mem = "le_bytes 4 ?n @ (hdr @ body @ attr_bytes t c) @ junk"
  have n: "?n - (16 + length body) = 4 + length c" using j by simp
  have "mnl_attr_nest_end mem 0 (16 + length body) = Some ?mem"
    unfolding mnl_attr_nest_end_def junk(2) bind.bind_lunit n
    using hdr j by (simp add: wr_block_def junk(1) attr)
  moreover have len: "length ?mem = length mem" using j by (simp add: junk(1) attr)
  moreover have "built ?mem hdr (body @ attr_bytes t c)"
  proof (rule builtI [of _ _ _ junk])
    show "?mem = le_bytes 4 (16 + length (body @ attr_bytes t c)) @ (hdr @ body @ attr_bytes t c) @ junk"
      using j c by (simp add: align_of_dvd)
    show "4 dvd length (body @ attr_bytes t c)" using d c by (simp add: align_of_dvd)
    show "length ?mem < 2 ^ 16" using lt len by simp
  qed (rule hdr)
  ultimately show ?thesis by blast
qed

lemma nest_cancel_built:
  assumes b: "built mem hdr (body @ x)" and d: "4 dvd length body"
  shows "\<exists>mem'. mnl_attr_nest_cancel mem 0 (16 + length body) = Some mem' \<and> built mem' hdr body \<and> length mem' = length mem"
proof -
  obtain junk where junk: "mem = le_bytes 4 (16 + length (body @ x)) @ (hdr @ body @ x) @ junk"
    "nlmsg_len mem 0 = Some (16 + length (body @ x))"
    "mnl_nlmsg_get_payload_tail mem 0 = Some (16 + length (body @ x))"
    by (rule builtE [OF b])
  let ?mem = "le_bytes 4 (16 + length body) @ (hdr @ body) @ (x @ junk)"
  have "mnl_attr_nest_cancel mem 0 (16 + length body) = Some ?mem"
    unfolding mnl_attr_nest_cancel_def junk(2,3) bind.bind_lunit
    by (simp add: set_nlmsg_len_def wr_block_def junk(1))
  moreover have len: "length ?mem = length mem" by (simp add: junk(1))
  moreover have "built ?mem hdr body"
    by (rule builtI [OF refl]) (use built_simps [OF b] d len in auto)
  ultimately show ?thesis by blast
qed

text \<open>The two headers of a generic netlink message in a fresh buffer.\<close>

lemma put_header_built:
  assumes "16 \<le> length mem" "length mem < 2 ^ 16"
  shows "\<exists>mem'. mnl_nlmsg_put_header mem 0 = Some mem' \<and> built mem' (replicate 12 0) [] \<and> length mem' = length mem"
proof -
  have "mnl_nlmsg_put_header mem 0 = Some (le_bytes 4 16 @ replicate 12 0 @ drop 16 mem)"
    using assms(1) by (simp add: mnl_nlmsg_put_header_def wr_block_def set_nlmsg_len_def)
  then show ?thesis using assms by (auto simp: built_def)
qed

lemma put_extra_header_built:
  assumes b: "built mem hdr []" and room: "16 + MNL_ALIGN sz \<le> length mem"
  shows "\<exists>mem'. mnl_nlmsg_put_extra_header mem 0 sz = Some (mem', 16) \<and> built mem' hdr (replicate (MNL_ALIGN sz) 0) \<and>
    length mem' = length mem"
proof -
  obtain junk where junk: "mem = le_bytes 4 16 @ hdr @ junk" "length hdr = 12" "length mem < 2 ^ 16"
    using b by (auto simp: built_def)
  have l: "nlmsg_len mem 0 = Some 16" using built_simps(5) [OF b] by simp
  let ?n = "MNL_ALIGN sz"
  let ?mem = "le_bytes 4 (16 + ?n) @ hdr @ replicate ?n 0 @ drop ?n junk"
  have "mnl_nlmsg_put_extra_header mem 0 sz = Some (?mem, 16)"
    unfolding mnl_nlmsg_put_extra_header_def l bind.bind_lunit Let_def
    using room junk(2) by (simp add: set_nlmsg_len_def wr_block_def junk(1))
  moreover have "built ?mem hdr (replicate ?n 0)"
    using junk room by (auto simp: built_def align_dvd)
  moreover have "length ?mem = length mem" using room junk(2) by (simp add: junk(1))
  ultimately show ?thesis by blast
qed

section \<open>Parsing what was put\<close>

definition attrs_bytes :: "(nat \<times> u8 list) list \<Rightarrow> u8 list" where
  "attrs_bytes as = concat (map (\<lambda>(t, d). attr_bytes t d) as)"

lemma attrs_bytes_simps [simp]:
  "attrs_bytes [] = []" "attrs_bytes ((t, d) # as) = attr_bytes t d @ attrs_bytes as"
  "attrs_bytes (as @ bs) = attrs_bytes as @ attrs_bytes bs"
  by (simp_all add: attrs_bytes_def)

text \<open>Type and payload of an attribute fit their fields.\<close>

definition attr_fits :: "nat \<times> u8 list \<Rightarrow> bool" where
  "attr_fits a \<longleftrightarrow> fst a < 2 ^ 16 \<and> length (snd a) < 2 ^ 16 - 4"

lemma attr_fields:
  assumes h: "has mem off (attr_bytes t d)" and fits: "attr_fits (t, d)"
  shows "nla_len mem off = Some (4 + length d)" "mnl_attr_get_type mem off = Some (t mod 2 ^ 14)"
    "mnl_attr_get_payload_len mem off = Some (length d)" "rd_block mem (mnl_attr_get_payload off) (length d) = Some d"
    "has mem (mnl_attr_get_payload off) d" "mnl_attr_next mem off = Some (off + length (attr_bytes t d))"
proof -
  have p: "has mem off (le_bytes 2 (4 + length d))" "has mem (off + 2) (le_bytes 2 t)" "has mem (off + 4) d"
    using h by (simp_all add: attr_bytes_def has_append add.commute [of off] del: add_2_eq_Suc add_2_eq_Suc')
  have "rd_block mem off 2 = Some (le_bytes 2 (4 + length d))" "rd_block mem (off + 2) 2 = Some (le_bytes 2 t)"
    using has_rd [OF p(1)] has_rd [OF p(2)] by simp_all
  then show l: "nla_len mem off = Some (4 + length d)" and "mnl_attr_get_type mem off = Some (t mod 2 ^ 14)"
    using fits unfolding nla_len_def mnl_attr_get_type_def nla_type_def attr_fits_def
    by (simp_all add: le_nat_bytes)
  show "mnl_attr_get_payload_len mem off = Some (length d)"
    using fits by (simp add: mnl_attr_get_payload_len_def l attr_fits_def)
  show "rd_block mem (mnl_attr_get_payload off) (length d) = Some d" "has mem (mnl_attr_get_payload off) d"
    using has_rd [OF p(3)] p(3) by (simp_all add: mnl_attr_get_payload_def)
  show "mnl_attr_next mem off = Some (off + length (attr_bytes t d))"
    by (simp add: mnl_attr_next_def l align_add4)
qed

text \<open>
  The loop calls the callback for the encodings of the items \<open>xs\<close> in their order. \<open>I\<close> is an
  invariant of the data that may depend on the items to come.
\<close>

lemma attr_loop_inv:
  assumes "has mem off (attrs_bytes (map enc xs))" "\<forall>x\<in>set xs. attr_fits (enc x)" "I xs st"
    and "\<And>off x ys st. x \<in> set xs \<Longrightarrow> I (x # ys) st \<Longrightarrow> has mem off (attr_bytes (fst (enc x)) (snd (enc x))) \<Longrightarrow>
           \<exists>st'. cb off st = Some (1, st') \<and> I ys st'"
    and "stop = off + length (attrs_bytes (map enc xs))"
  shows "\<exists>st'. attr_loop mem stop cb off 1 st = Some (1, st') \<and> I [] st'"
  using assms
proof (induction xs arbitrary: off st)
  case Nil
  then show ?case by (subst attr_loop.simps) (simp add: mnl_attr_ok_def)
next
  case (Cons x xs)
  obtain t d where x: "enc x = (t, d)" by (cases "enc x")
  have h: "has mem off (attr_bytes t d)" "has mem (off + length (attr_bytes t d)) (attrs_bytes (map enc xs))"
    using Cons.prems(1) by (simp_all add: x has_append)
  note fields = attr_fields [OF h(1)]
  have fits: "attr_fits (t, d)" using Cons.prems(2) x by (metis list.set_intros(1))
  have stop: "stop = off + length (attr_bytes t d) + length (attrs_bytes (map enc xs))" using Cons.prems(5) by (simp add: x)
  have ok: "mnl_attr_ok mem off (int stop - int off) = Some True"
    using align_ge [of "length d"] by (simp add: mnl_attr_ok_def fields(1) [OF fits] stop)
  obtain st1 where cb: "cb off st = Some (1, st1)" "I xs st1"
    using Cons.prems(4) [of x xs st off] Cons.prems(3) h(1) by (auto simp: x)
  have "attr_loop mem stop cb off 1 st = attr_loop mem stop cb (off + length (attr_bytes t d)) 1 st1"
    by (subst attr_loop.simps) (simp add: ok cb fields(6) [OF fits])
  moreover have "\<exists>st'. attr_loop mem stop cb (off + length (attr_bytes t d)) 1 st1 = Some (1, st') \<and> I [] st'"
    by (rule Cons.IH [OF h(2) _ cb(2) Cons.prems(4)]) (use Cons.prems(2) stop in auto)
  ultimately show ?case by simp
qed

text \<open>
  Whatever the bytes are, every attribute that the callback sees lies within the bounds of the loop,
  so that the loop returns when the callback does.
\<close>

lemma attr_loop_total:
  assumes "stop \<le> length mem"
    and "\<And>a n st. P a \<Longrightarrow> nla_len mem a = Some n \<Longrightarrow> 4 \<le> n \<Longrightarrow> a + n \<le> stop \<Longrightarrow>
           \<exists>ret st'. cb a st = Some (ret, st')"
    and "\<And>a n. P a \<Longrightarrow> nla_len mem a = Some n \<Longrightarrow> P (a + MNL_ALIGN n)"
    and "P attr"
  shows "\<exists>ret' st'. attr_loop mem stop cb attr ret st = Some (ret', st')"
  using assms(4)
proof (induction "stop - attr" arbitrary: attr ret st rule: less_induct)
  case less
  show ?case
  proof (cases "4 \<le> int stop - int attr")
    case False
    then show ?thesis using less.prems by (subst attr_loop.simps) (simp add: mnl_attr_ok_def)
  next
    case True
    then have "attr + 2 \<le> length mem" using assms(1) by simp
    then obtain n where n: "nla_len mem attr = Some n" by (simp add: nla_len_def)
    show ?thesis
    proof (cases "4 \<le> n \<and> attr + n \<le> stop")
      case False
      then have "mnl_attr_ok mem attr (int stop - int attr) = Some False" using True n by (auto simp: mnl_attr_ok_def)
      then show ?thesis using less.prems by (subst attr_loop.simps) simp
    next
      case ok: True
      then have chk: "mnl_attr_ok mem attr (int stop - int attr) = Some True" using True n by (simp add: mnl_attr_ok_def)
      obtain ret1 st1 where cb: "cb attr st = Some (ret1, st1)" using assms(2) [OF less.prems n] ok by blast
      have nxt: "mnl_attr_next mem attr = Some (attr + MNL_ALIGN n)" by (simp add: mnl_attr_next_def n)
      show ?thesis
      proof (cases "ret1 \<le> 0")
        case True
        then show ?thesis using chk cb by (subst attr_loop.simps) simp
      next
        case False
        have "stop - (attr + MNL_ALIGN n) < stop - attr" using ok align_ge [of n] by linarith
        then have "\<exists>ret' st'. attr_loop mem stop cb (attr + MNL_ALIGN n) ret1 st1 = Some (ret', st')"
          using assms(3) [OF less.prems n] by (rule less.hyps)
        then show ?thesis using chk cb False nxt by (subst attr_loop.simps) simp
      qed
    qed
  qed
qed

lemma parse_nested_inv:
  assumes "has mem nest (attr_bytes t (attrs_bytes (map enc xs)))" "attr_fits (t, attrs_bytes (map enc xs))"
    and "\<forall>x\<in>set xs. attr_fits (enc x)" "I xs st"
    and "\<And>off x ys st. x \<in> set xs \<Longrightarrow> I (x # ys) st \<Longrightarrow> has mem off (attr_bytes (fst (enc x)) (snd (enc x))) \<Longrightarrow>
           \<exists>st'. cb off st = Some (1, st') \<and> I ys st'"
  shows "\<exists>st'. mnl_attr_parse_nested mem nest cb st = Some (1, st') \<and> I [] st'"
  unfolding mnl_attr_parse_nested_def attr_fields(3) [OF assms(1,2)] bind.bind_lunit
  by (rule attr_loop_inv [where I = I and enc = enc, OF attr_fields(5) [OF assms(1,2)] assms(3,4)])
    (use assms(5) in simp_all)

lemma parse_built_inv:
  assumes b: "built mem hdr (extra @ attrs_bytes (map enc xs))" and extra: "length extra = MNL_ALIGN offset"
    and "\<forall>x\<in>set xs. attr_fits (enc x)" "I xs st"
    and "\<And>off x ys st. x \<in> set xs \<Longrightarrow> I (x # ys) st \<Longrightarrow> has mem off (attr_bytes (fst (enc x)) (snd (enc x))) \<Longrightarrow>
           \<exists>st'. cb off st = Some (1, st') \<and> I ys st'"
  shows "\<exists>st'. mnl_attr_parse mem 0 offset cb st = Some (1, st') \<and> I [] st'"
proof -
  let ?as = "map enc xs"
  obtain junk where "mem = le_bytes 4 (16 + length (extra @ attrs_bytes ?as)) @ (hdr @ extra @ attrs_bytes ?as) @ junk"
    by (rule builtE [OF b])
  then have "mem = (le_bytes 4 (16 + length (extra @ attrs_bytes ?as)) @ hdr @ extra) @ attrs_bytes ?as @ junk" by simp
  then have h: "has mem (16 + length extra) (attrs_bytes ?as)"
    using has_at [of "le_bytes 4 (16 + length (extra @ attrs_bytes ?as)) @ hdr @ extra"] built_simps(1) [OF b] by simp
  have "\<exists>st'. attr_loop mem (16 + length (extra @ attrs_bytes ?as)) cb (16 + length extra) 1 st = Some (1, st') \<and> I [] st'"
    by (rule attr_loop_inv [where I = I and enc = enc, OF h assms(3,4)]) (use assms(5) in simp_all)
  then show ?thesis
    unfolding mnl_attr_parse_def built_simps(6) [OF b] bind.bind_lunit mnl_nlmsg_get_payload_offset_def hdr_lens
    using extra by simp
qed

text \<open>When the effect of the callback does not depend on the place of the attribute, it is folded.\<close>

lemma parse_nested_visits:
  assumes "has mem nest (attr_bytes t (attrs_bytes (map enc xs)))" "attr_fits (t, attrs_bytes (map enc xs))"
    and "\<forall>x\<in>set xs. attr_fits (enc x)" "I xs st"
    and cb: "\<And>off x ys st. x \<in> set xs \<Longrightarrow> I (x # ys) st \<Longrightarrow> has mem off (attr_bytes (fst (enc x)) (snd (enc x))) \<Longrightarrow>
           cb off st = Some (1, step x st) \<and> I ys (step x st)"
  shows "mnl_attr_parse_nested mem nest cb st = Some (1, fold step xs st)"
proof -
  let ?I = "\<lambda>ys s. I ys s \<and> fold step ys s = fold step xs st"
  have "\<exists>st'. mnl_attr_parse_nested mem nest cb st = Some (1, st') \<and> ?I [] st'"
    by (rule parse_nested_inv [where I = ?I, OF assms(1-3)]) (use assms(4) cb in auto)
  then show ?thesis by auto
qed

lemma parse_built:
  assumes "built mem hdr (extra @ attrs_bytes (map enc xs))" "length extra = MNL_ALIGN offset"
    and "\<forall>x\<in>set xs. attr_fits (enc x)" "I xs st"
    and cb: "\<And>off x ys st. x \<in> set xs \<Longrightarrow> I (x # ys) st \<Longrightarrow> has mem off (attr_bytes (fst (enc x)) (snd (enc x))) \<Longrightarrow>
           cb off st = Some (1, step x st) \<and> I ys (step x st)"
  shows "mnl_attr_parse mem 0 offset cb st = Some (1, fold step xs st)"
proof -
  let ?I = "\<lambda>ys s. I ys s \<and> fold step ys s = fold step xs st"
  have "\<exists>st'. mnl_attr_parse mem 0 offset cb st = Some (1, st') \<and> ?I [] st'"
    by (rule parse_built_inv [where I = ?I, OF assms(1-3)]) (use assms(4) cb in auto)
  then show ?thesis by auto
qed

lemma attrs_bytes_dvd: "4 dvd length (attrs_bytes as)"
  by (induction "as") (auto simp: align_dvd)

text \<open>The header of a request with its family specific part of \<open>k\<close> bytes.\<close>

lemma zeros: "replicate 12 (0 :: u8) = [0, 0] @ [0, 0] @ [0, 0, 0, 0] @ [0, 0, 0, 0]" "replicate 4 (0 :: u8) = [0, 0, 0, 0]"
  by (simp_all add: numeral_eq_Suc)

lemma header_built:
  assumes k: "MNL_ALIGN k = k" and room: "16 + k \<le> length buf" "length buf < 2 ^ 16"
  obtains m1 m2 m3 m4 m5 where "mnl_nlmsg_put_header buf 0 = Some m1" "wr_block m1 4 (le_bytes 2 t) = Some m2"
    "wr_block m2 6 (le_bytes 2 flags) = Some m3" "wr_block m3 8 (le_bytes 4 now) = Some m4"
    "mnl_nlmsg_put_extra_header m4 0 k = Some (m5, 16)"
    "built m5 (le_bytes 2 t @ le_bytes 2 flags @ le_bytes 4 now @ [0, 0, 0, 0]) (replicate k 0)" "length m5 = length buf"
proof -
  obtain a r where a: "buf = a @ r" "length a = 16" using split_at [of 16 buf] room(1) by auto
  obtain b c where b: "r = b @ c" "length b = k" using split_at [of k r] room(1) a by auto
  have buf: "buf = a @ b @ c" "length a = 16" "length b = k" using a b by simp_all
  let ?z = "[0, 0, 0, 0] :: u8 list"
  let ?F = "le_bytes 2 t" and ?G = "le_bytes 2 flags" and ?N = "le_bytes 4 now"
  have "mnl_nlmsg_put_header buf 0 = Some (le_bytes 4 16 @ replicate 12 0 @ b @ c)"
    using buf by (simp add: mnl_nlmsg_put_header_def wr_block_def set_nlmsg_len_def)
  then have w0: "mnl_nlmsg_put_header buf 0 = Some (le_bytes 4 16 @ [0, 0] @ [0, 0] @ ?z @ ?z @ b @ c)" using zeros by simp
  have w1: "wr_block (le_bytes 4 16 @ [0, 0] @ [0, 0] @ ?z @ ?z @ b @ c) 4 ?F = Some (le_bytes 4 16 @ ?F @ [0, 0] @ ?z @ ?z @ b @ c)"
    by (simp add: wr_block_def)
  have w2: "wr_block (le_bytes 4 16 @ ?F @ [0, 0] @ ?z @ ?z @ b @ c) 6 ?G = Some (le_bytes 4 16 @ ?F @ ?G @ ?z @ ?z @ b @ c)"
    by (simp add: wr_block_def)
  have w3: "wr_block (le_bytes 4 16 @ ?F @ ?G @ ?z @ ?z @ b @ c) 8 ?N = Some (le_bytes 4 16 @ ?F @ ?G @ ?N @ ?z @ b @ c)"
    by (simp add: wr_block_def)
  have l: "nlmsg_len (le_bytes 4 16 @ ?F @ ?G @ ?N @ ?z @ b @ c) 0 = Some 16"
    by (simp add: nlmsg_len_def le_nat_bytes)
  have skip: "drop (4 + k) (0 # 0 # 0 # 0 # b @ c) = c" using buf(3) drop_append [of "4 + k" ?z "b @ c"] by simp
  have w4: "mnl_nlmsg_put_extra_header (le_bytes 4 16 @ ?F @ ?G @ ?N @ ?z @ b @ c) 0 k =
      Some (le_bytes 4 (16 + k) @ ?F @ ?G @ ?N @ ?z @ replicate k 0 @ c, 16)"
    unfolding mnl_nlmsg_put_extra_header_def l bind.bind_lunit Let_def hdr_lens k
    using buf(3) skip by (simp add: wr_block_def set_nlmsg_len_def)
  let ?mem = "le_bytes 4 (16 + k) @ ?F @ ?G @ ?N @ ?z @ replicate k 0 @ c"
  have len: "length ?mem = length buf" using buf by simp
  have "4 dvd k" using align_dvd [of k] k by simp
  then have "built ?mem (?F @ ?G @ ?N @ ?z) (replicate k 0)" using room(2) len by (auto simp: built_def)
  then show thesis by (rule that [OF w0 w1 w2 w3 w4 _ len])
qed

section \<open>Properties\<close>

lemma put_attrs_built:
  "built mem hdr body \<Longrightarrow> 16 + length body + length (attrs_bytes as) \<le> length mem \<Longrightarrow>
   \<exists>mem'. c_fold (\<lambda>mem (t, d). mnl_attr_put mem 0 t d) mem as = Some mem' \<and> built mem' hdr (body @ attrs_bytes as)"
proof (induction "as" arbitrary: mem body)
  case (Cons a "as")
  obtain t d where a: "a = (t, d)" by (cases a)
  obtain mem1 where m: "mnl_attr_put mem 0 t d = Some mem1" "built mem1 hdr (body @ attr_bytes t d)" "length mem1 = length mem"
    using put_built [OF Cons.prems(1), of d t] Cons.prems(2) by (auto simp: a)
  have "\<exists>mem'. c_fold (\<lambda>mem (t, d). mnl_attr_put mem 0 t d) mem1 as = Some mem' \<and>
      built mem' hdr ((body @ attr_bytes t d) @ attrs_bytes as)"
    by (rule Cons.IH [OF m(2)]) (use Cons.prems(2) m(3) in \<open>simp add: a\<close>)
  then show ?case using m(1) by (simp add: a)
qed simp

lemma attrs_bytes_fit:
  "(t, d) \<in> set as \<Longrightarrow> 4 + length d \<le> length (attrs_bytes as)"
proof (induction "as")
  case (Cons a "as")
  then show ?case using align_ge [of "length d"] by (cases a) auto
qed simp

text \<open>A callback that collects the attributes.\<close>

definition collect_attr :: "nlbuf \<Rightarrow> nat \<Rightarrow> (nat \<times> u8 list) list \<Rightarrow> (int \<times> (nat \<times> u8 list) list) option" where
  "collect_attr mem attr acc = do {
     t \<leftarrow> mnl_attr_get_type mem attr;
     n \<leftarrow> mnl_attr_get_payload_len mem attr;
     d \<leftarrow> rd_block mem (mnl_attr_get_payload attr) n;
     Some (1, acc @ [(t, d)]) }"

lemma fold_snoc: "fold (\<lambda>x acc. acc @ [x]) xs acc = acc @ xs"
  by (induction xs arbitrary: acc) auto

text \<open>Claim C12: attributes put one after the other into a message are read back by \<open>mnl_attr_parse\<close> in
  their order, with their types and payloads, as long as the buffer has room for them. Neither
  writing nor reading leaves the buffer.\<close>

theorem mnl_put_parse_roundtrip:
  assumes "\<forall>(t, d)\<in>set as. t < 2 ^ 14" "length mem < 2 ^ 16"
    and "16 + MNL_ALIGN offset + sum_list (map (\<lambda>(t, d). 4 + MNL_ALIGN (length d)) as) \<le> length mem"
  shows "\<exists>m1 m2 m3. mnl_nlmsg_put_header mem 0 = Some m1 \<and> mnl_nlmsg_put_extra_header m1 0 offset = Some (m2, 16) \<and>
    c_fold (\<lambda>mem (t, d). mnl_attr_put mem 0 t d) m2 as = Some m3 \<and>
    mnl_attr_parse m3 0 offset (collect_attr m3) [] = Some (1, as)"
proof -
  have len: "length (attrs_bytes as) = sum_list (map (\<lambda>(t, d). 4 + MNL_ALIGN (length d)) as)"
    by (induction "as") auto
  obtain m1 where m1: "mnl_nlmsg_put_header mem 0 = Some m1" "built m1 (replicate 12 0) []" "length m1 = length mem"
    using put_header_built [of mem] assms(2,3) by auto
  obtain m2 where m2: "mnl_nlmsg_put_extra_header m1 0 offset = Some (m2, 16)"
    "built m2 (replicate 12 0) (replicate (MNL_ALIGN offset) 0)" "length m2 = length mem"
    using put_extra_header_built [OF m1(2), of offset] assms(3) m1(3) by auto
  obtain m3 where m3: "c_fold (\<lambda>mem (t, d). mnl_attr_put mem 0 t d) m2 as = Some m3"
    "built m3 (replicate 12 0) (replicate (MNL_ALIGN offset) 0 @ attrs_bytes as)"
    using put_attrs_built [OF m2(2), of "as"] assms(3) m2(3) len by auto
  have fits: "attr_fits a" if "a \<in> set as" for a
    using attrs_bytes_fit [of "fst a" "snd a" "as"] that assms len by (fastforce simp: attr_fits_def)
  have cb: "collect_attr m3 off acc = Some (1, acc @ [a])"
    if "a \<in> set as" "has m3 off (attr_bytes (fst a) (snd a))" for off a acc
    using attr_fields [OF that(2)] fits [OF that(1)] that(1) assms(1) by (auto simp: collect_attr_def)
  have "mnl_attr_parse m3 0 offset (collect_attr m3) [] = Some (1, fold (\<lambda>x acc. acc @ [x]) as [])"
    by (rule parse_built [where enc = "\<lambda>a. a" and I = "\<lambda>_ _. True", simplified, OF m3(2)]) (use fits cb in auto)
  then show ?thesis using m1(1) m2(1) m3(1) by (simp add: fold_snoc)
qed

lemma mnl_put_parse_roundtrip_witness:
  "\<exists>m1 m2 m3. mnl_nlmsg_put_header (replicate 64 0) 0 = Some m1 \<and> mnl_nlmsg_put_extra_header m1 0 4 = Some (m2, 16) \<and>
    c_fold (\<lambda>mem (t, d). mnl_attr_put mem 0 t d) m2 [(2, [119, 103, 48, 0]), (5, [1])] = Some m3 \<and>
    mnl_attr_parse m3 0 4 (collect_attr m3) [] = Some (1, [(2, [119, 103, 48, 0]), (5, [1])])"
  using mnl_put_parse_roundtrip [of "[(2, [119, 103, 48, 0]), (5, [1])]" "replicate 64 0" 4]
  by (simp add: MNL_ALIGN_def)

end
