(* ===== verification/Netlink_Socket.thy ===== *)
theory Netlink_Socket
  imports Netlink
begin

text \<open>
  Receiving netlink messages (\<open>wireguard.c\<close>, the callback and socket functions of its libmnl copy
  and the generic netlink layer \<open>mnlg\<close>). Callbacks get the offset of the message and the pair of
  \<open>errno\<close> and their data, and return a code. What the kernel delivers is a list of receive
  results; a receive beyond its end blocks and is \<open>None\<close>, as is an undefined access.
\<close>

section \<open>Callbacks\<close>

type_synonym 's cb = "nat \<Rightarrow> int \<times> 's \<Rightarrow> (int \<times> int \<times> 's) option"

definition ESRCH :: int where "ESRCH = 3"
definition EINTR :: int where "EINTR = 4"
definition ENOMEM :: int where "ENOMEM = 12"
definition ENOENT :: int where "ENOENT = 2"
definition ENOSPC :: int where "ENOSPC = 28"
definition ENOSYS :: int where "ENOSYS = 38"
definition EPROTO :: int where "EPROTO = 71"
definition EBADMSG :: int where "EBADMSG = 74"
definition EPROTONOSUPPORT :: int where "EPROTONOSUPPORT = 93"

definition mnl_cb_noop :: "'s cb" where
  "mnl_cb_noop nlh st = Some (1, st)"

text \<open>The sign of the error number is normalised; the most negative number cannot be negated.\<close>

definition netlink_error :: "int \<Rightarrow> int \<times> 's \<Rightarrow> (int \<times> int \<times> 's) option" where
  "netlink_error e st =
     (if e = - (2 ^ 31) then None
      else Some (if e = 0 then 0 else - 1, if e < 0 then - e else e, snd st))"

definition mnl_cb_error :: "nlbuf \<Rightarrow> 's cb" where
  "mnl_cb_error mem nlh st = do {
     n \<leftarrow> nlmsg_len mem nlh;
     if n < mnl_nlmsg_size 20 then Some (- 1, EBADMSG, snd st)
     else do {
       e \<leftarrow> rd_le mem (mnl_nlmsg_get_payload nlh) 4;
       netlink_error (as_int e) st } }"

definition mnl_cb_stop :: "'s cb" where
  "mnl_cb_stop nlh st = Some (0, st)"

definition default_cb_array :: "nlbuf \<Rightarrow> nat \<Rightarrow> 's cb option" where
  "default_cb_array mem t =
     (if t = 1 \<or> t = 4 then Some mnl_cb_noop
      else if t = 2 then Some (mnl_cb_error mem)
      else if t = 3 then Some mnl_cb_stop
      else None)"

text \<open>The callback for a message type; control messages are those below 16.\<close>

definition select_cb :: "nlbuf \<Rightarrow> 's cb option \<Rightarrow> (nat \<Rightarrow> 's cb option) \<Rightarrow> nat \<Rightarrow> nat \<Rightarrow> 's cb option" where
  "select_cb mem cb_data cb_ctl cb_ctl_len t =
     (if t \<ge> 16 then cb_data else if t < cb_ctl_len then cb_ctl t else default_cb_array mem t)"

text \<open>
  The loop over the messages in the buffer. A length of at least \<open>2 ^ 32 - 3\<close> makes it advance by
  nothing: the loop need not end.
\<close>

partial_function (option) cb_run ::
  "nlbuf \<Rightarrow> nat \<Rightarrow> nat \<Rightarrow> 's cb option \<Rightarrow> (nat \<Rightarrow> 's cb option) \<Rightarrow> nat \<Rightarrow> nat \<Rightarrow> int \<Rightarrow> int \<Rightarrow> int \<times> 's \<Rightarrow>
     (int \<times> int \<times> 's) option" where
  "cb_run mem seq portid cb_data cb_ctl cb_ctl_len nlh len ret st = do {
     ok \<leftarrow> mnl_nlmsg_ok mem nlh len;
     if \<not> ok then Some (ret, st) else do {
       portid_ok \<leftarrow> mnl_nlmsg_portid_ok mem nlh portid;
       if \<not> portid_ok then Some (- 1, ESRCH, snd st) else do {
         seq_ok \<leftarrow> mnl_nlmsg_seq_ok mem nlh seq;
         if \<not> seq_ok then Some (- 1, EPROTO, snd st) else do {
           flags \<leftarrow> nlmsg_flags mem nlh;
           if bit flags 4 then Some (- 1, EINTR, snd st) else do {
             t \<leftarrow> nlmsg_type mem nlh;
             case select_cb mem cb_data cb_ctl cb_ctl_len t of
               None \<Rightarrow> do {
                 (nlh', len') \<leftarrow> mnl_nlmsg_next mem nlh len;
                 cb_run mem seq portid cb_data cb_ctl cb_ctl_len nlh' len' ret st }
             | Some cb \<Rightarrow> do {
                 (ret, st) \<leftarrow> cb nlh st;
                 if ret \<le> 0 then Some (ret, st)
                 else do {
                   (nlh', len') \<leftarrow> mnl_nlmsg_next mem nlh len;
                   cb_run mem seq portid cb_data cb_ctl cb_ctl_len nlh' len' ret st } } } } } } }"

declare cb_run.simps [code]

definition mnl_cb_run2 ::
  "nlbuf \<Rightarrow> nat \<Rightarrow> nat \<Rightarrow> nat \<Rightarrow> 's cb option \<Rightarrow> int \<times> 's \<Rightarrow> (nat \<Rightarrow> 's cb option) \<Rightarrow> nat \<Rightarrow> (int \<times> int \<times> 's) option" where
  "mnl_cb_run2 buf numbytes seq portid cb_data st cb_ctl cb_ctl_len =
     cb_run buf seq portid cb_data cb_ctl cb_ctl_len 0 (int numbytes) 1 st"

definition mnl_cb_run ::
  "nlbuf \<Rightarrow> nat \<Rightarrow> nat \<Rightarrow> nat \<Rightarrow> 's cb option \<Rightarrow> int \<times> 's \<Rightarrow> (int \<times> int \<times> 's) option" where
  "mnl_cb_run buf numbytes seq portid cb_data st =
     cb_run buf seq portid cb_data (\<lambda>_. None) 0 0 (int numbytes) 1 st"

section \<open>Sockets\<close>

text \<open>What \<open>recvmsg\<close> delivers: an error, or data with the truncation flag and the address length.\<close>

datatype recv = Recv_Failed int | Recv_Data "u8 list" bool nat

text \<open>The buffer after the call, and the number of bytes or \<open>Inl\<close> of \<open>errno\<close>.\<close>

definition mnl_socket_recvfrom :: "nlbuf \<Rightarrow> recv \<Rightarrow> nlbuf \<times> (int + nat)" where
  "mnl_socket_recvfrom buf r =
     (case r of
        Recv_Failed e \<Rightarrow> (buf, Inl e)
      | Recv_Data bytes trunc namelen \<Rightarrow>
          let got = take (length buf) bytes; buf = got @ drop (length got) buf in
          (buf, if trunc then Inl ENOSPC else if namelen \<noteq> 12 then Inl EINVAL else Inr (length got)))"

text \<open>
  Sending: \<open>sendto\<close> hands the first \<open>len\<close> bytes of the buffer to the kernel, which is a parameter. What it
  makes of them is its answer: the error of the call or what can be received afterwards.
\<close>

definition mnl_socket_sendto :: "(u8 list \<Rightarrow> 'r) \<Rightarrow> nlbuf \<Rightarrow> nat \<Rightarrow> 'r option" where
  "mnl_socket_sendto sys_sendto buf len = do { bytes \<leftarrow> rd_block buf 0 len; Some (sys_sendto bytes) }"

text \<open>\<open>mnl_socket_bind\<close>, given the results of \<open>bind\<close> and \<open>getsockname\<close>.\<close>

record bind_result =
  br_bind :: "int option"
  br_getsockname :: "int option"
  br_addr_len :: nat
  br_family :: nat
  br_pid :: nat

definition AF_NETLINK :: nat where
  "AF_NETLINK = 16"

definition mnl_socket_bind :: "bind_result \<Rightarrow> int + nat" where
  "mnl_socket_bind r =
     (case br_bind r of
        Some e \<Rightarrow> Inl e
      | None \<Rightarrow>
          (case br_getsockname r of
             Some e \<Rightarrow> Inl e
           | None \<Rightarrow>
               if br_addr_len r \<noteq> 12 then Inl EINVAL
               else if br_family r \<noteq> AF_NETLINK then Inl EINVAL
               else Inr (br_pid r)))"

section \<open>Generic netlink\<close>

definition mnlg_cb_noop :: "'s cb" where
  "mnlg_cb_noop nlh st = Some (1, st)"

definition mnlg_cb_error :: "nlbuf \<Rightarrow> 's cb" where
  "mnlg_cb_error mem nlh st = do {
     n \<leftarrow> nlmsg_len mem nlh;
     if n < mnl_nlmsg_size 20 then Some (- 1, EBADMSG, snd st)
     else do {
       e \<leftarrow> rd_le mem (mnl_nlmsg_get_payload nlh) 4;
       netlink_error (as_int e) st } }"

definition mnlg_cb_stop :: "nlbuf \<Rightarrow> 's cb" where
  "mnlg_cb_stop mem nlh st = do {
     flags \<leftarrow> nlmsg_flags mem nlh;
     n \<leftarrow> nlmsg_len mem nlh;
     if bit flags 1 \<and> n = mnl_nlmsg_size 4 then do {
       e \<leftarrow> rd_le mem (mnl_nlmsg_get_payload nlh) 4;
       netlink_error (as_int e) st }
     else Some (0, st) }"

definition mnlg_cb_array :: "nlbuf \<Rightarrow> nat \<Rightarrow> 's cb option" where
  "mnlg_cb_array mem t =
     (if t = 1 \<or> t = 4 then Some mnlg_cb_noop
      else if t = 2 then Some (mnlg_cb_error mem)
      else if t = 3 then Some (mnlg_cb_stop mem)
      else None)"

text \<open>
  The receive loop; the callback depends on the contents of the buffer. The result also has the
  receive results that are left.
\<close>

primrec mnlg_socket_recv_run ::
  "nat \<Rightarrow> nat \<Rightarrow> (nlbuf \<Rightarrow> 's cb) option \<Rightarrow> nlbuf \<Rightarrow> int \<times> 's \<Rightarrow> recv list \<Rightarrow> ((int \<times> int \<times> 's) \<times> nlbuf \<times> recv list) option" where
  "mnlg_socket_recv_run seq portid data_cb buf st [] = None"
| "mnlg_socket_recv_run seq portid data_cb buf st (r # rs) =
     (case mnl_socket_recvfrom buf r of
        (buf, Inl e) \<Rightarrow> Some ((- 1, e, snd st), buf, rs)
      | (buf, Inr n) \<Rightarrow>
          if n = 0 then Some ((0, st), buf, rs)
          else do {
            (err, st) \<leftarrow> mnl_cb_run2 buf n seq portid (map_option (\<lambda>cb. cb buf) data_cb) st (mnlg_cb_array buf) 5;
            if err > 0 then mnlg_socket_recv_run seq portid data_cb buf st rs
            else Some ((err, st), buf, rs) })"

text \<open>The header of a request: length, type, flags, sequence number and the generic header.\<close>

definition mnlg_msg_prepare :: "nlbuf \<Rightarrow> nat \<Rightarrow> nat \<Rightarrow> nat \<Rightarrow> nat \<Rightarrow> nat \<Rightarrow> nlbuf option" where
  "mnlg_msg_prepare buf cmd flags family version now = do {
     buf \<leftarrow> mnl_nlmsg_put_header buf 0;
     buf \<leftarrow> wr_block buf 4 (le_bytes 2 family);
     buf \<leftarrow> wr_block buf 6 (le_bytes 2 flags);
     buf \<leftarrow> wr_block buf 8 (le_bytes 4 now);
     (buf, genl) \<leftarrow> mnl_nlmsg_put_extra_header buf 0 4;
     buf \<leftarrow> wr_block buf genl [of_nat cmd];
     wr_block buf (genl + 1) [of_nat version] }"

definition mnlg_socket_send :: "(u8 list \<Rightarrow> 'r) \<Rightarrow> nlbuf \<Rightarrow> 'r option" where
  "mnlg_socket_send sys_sendto buf = do { len \<leftarrow> nlmsg_len buf 0; mnl_socket_sendto sys_sendto buf len }"

definition CTRL_ATTR_FAMILY_ID :: nat where "CTRL_ATTR_FAMILY_ID = 1"
definition CTRL_ATTR_FAMILY_NAME :: nat where "CTRL_ATTR_FAMILY_NAME = 2"

text \<open>The table of attributes by type; its size is that of the family's attributes.\<close>

definition get_family_id_attr_cb ::
  "nlbuf \<Rightarrow> nat \<Rightarrow> nat \<Rightarrow> int \<times> (nat \<Rightarrow> nat option) \<Rightarrow> (int \<times> int \<times> (nat \<Rightarrow> nat option)) option" where
  "get_family_id_attr_cb mem ctrl_attr_max attr st = do {
     type \<leftarrow> mnl_attr_get_type mem attr;
     v \<leftarrow> mnl_attr_type_valid mem attr ctrl_attr_max;
     case v of
       Inl e \<Rightarrow> Some (- 1, e, snd st)
     | Inr _ \<Rightarrow> do {
         w \<leftarrow> (if type = CTRL_ATTR_FAMILY_ID then mnl_attr_validate mem attr MNL_TYPE_U16 else Some (Inr ()));
         case w of
           Inl e \<Rightarrow> Some (- 1, e, snd st)
         | Inr _ \<Rightarrow> Some (1, fst st, (snd st)(type \<mapsto> attr)) } }"

definition get_family_id_cb :: "nat \<Rightarrow> nlbuf \<Rightarrow> u16 cb" where
  "get_family_id_cb ctrl_attr_max mem nlh st = do {
     (_, errno, tb) \<leftarrow> mnl_attr_parse mem nlh 4 (get_family_id_attr_cb mem ctrl_attr_max) (fst st, Map.empty);
     case tb CTRL_ATTR_FAMILY_ID of
       None \<Rightarrow> Some (- 1, errno, snd st)
     | Some attr \<Rightarrow> do { family \<leftarrow> mnl_attr_get_u16 mem attr; Some (1, errno, family) } }"

text \<open>
  The environment in which a socket is opened: the outcomes of the allocations and system calls, in
  the order of the code. The resources held are a set; \<open>Nl\<close> is the socket structure, \<open>Fd\<close> its
  descriptor.
\<close>

datatype resource = Nlg | Buf | Nl | Fd

record open_env =
  oe_nlg :: bool
  oe_buf :: "nlbuf option"
  oe_nl :: bool
  oe_socket :: "int option"
  oe_bind :: bind_result
  oe_time :: nat
  oe_kernel :: "u8 list \<Rightarrow> int + recv list"
  oe_ctrl_attr_max :: nat

record mnlg_socket =
  nlg_buf :: nlbuf
  nlg_id :: u16
  nlg_version :: nat
  nlg_portid :: nat

definition mnl_socket_open :: "open_env \<Rightarrow> resource set \<Rightarrow> (int + unit) \<times> resource set" where
  "mnl_socket_open env live =
     (if \<not> oe_nl env then (Inl ENOMEM, live)
      else
        let live = insert Nl live in
        case oe_socket env of
          Some e \<Rightarrow> (Inl e, live - {Nl})
        | None \<Rightarrow> (Inr (), insert Fd live))"

definition mnl_socket_close :: "resource set \<Rightarrow> resource set" where
  "mnl_socket_close live = live - {Fd} - {Nl}"

definition mnlg_socket_close :: "resource set \<Rightarrow> resource set" where
  "mnlg_socket_close live = mnl_socket_close live - {Buf} - {Nlg}"

definition mnlg_socket_open ::
  "open_env \<Rightarrow> u8 list \<Rightarrow> nat \<Rightarrow> resource set \<Rightarrow> ((int + mnlg_socket) \<times> resource set) option" where
  "mnlg_socket_open env family_name version live =
     (if \<not> oe_nlg env then Some (Inl ENOMEM, live)
      else
        let live = insert Nlg live in
        case oe_buf env of
          None \<Rightarrow> Some (Inl ENOMEM, live - {Nlg})
        | Some buf \<Rightarrow>
            let live = insert Buf live in
            (case mnl_socket_open env live of
               (Inl e, live) \<Rightarrow> Some (Inl e, live - {Buf} - {Nlg})
             | (Inr _, live) \<Rightarrow>
                 let close_all = mnl_socket_close live - {Buf} - {Nlg} in
                 (case mnl_socket_bind (oe_bind env) of
                    Inl e \<Rightarrow> Some (Inl e, close_all)
                  | Inr portid \<Rightarrow> do {
                      buf \<leftarrow> mnlg_msg_prepare buf 3 5 16 1 (oe_time env);
                      buf \<leftarrow> mnl_attr_put_strz buf 0 CTRL_ATTR_FAMILY_NAME family_name;
                      sent \<leftarrow> mnlg_socket_send (oe_kernel env) buf;
                      case sent of
                        Inl e \<Rightarrow> Some (Inl e, close_all)
                      | Inr replies \<Rightarrow> do {
                          ((ret, errno, family), buf, _) \<leftarrow> mnlg_socket_recv_run (oe_time env) portid
                            (Some (get_family_id_cb (oe_ctrl_attr_max env))) buf (0, 0) replies;
                          if ret < 0 then
                            let errno = (if errno = ENOENT then EPROTONOSUPPORT else errno);
                                err = (if errno \<noteq> 0 then errno else ENOSYS) in
                            Some (Inl err, close_all)
                          else Some (Inr \<lparr>nlg_buf = buf, nlg_id = family, nlg_version = version, nlg_portid = portid\<rparr>, live) } })))"

text \<open>Every failure releases what was acquired, and a socket holds exactly its four resources.\<close>

lemma mnlg_socket_open_resources:
  assumes "mnlg_socket_open env name version live = Some (r, live')" "live \<inter> {Nlg, Buf, Nl, Fd} = {}"
  shows "case r of Inl e \<Rightarrow> live' = live | Inr nlg \<Rightarrow> live' = live \<union> {Nlg, Buf, Nl, Fd} \<and> mnlg_socket_close live' = live"
  using assms
  by (auto simp: mnlg_socket_open_def mnl_socket_open_def mnl_socket_close_def mnlg_socket_close_def Let_def
      split: if_splits option.splits sum.splits Option.bind_splits prod.splits)

section \<open>Sent messages\<close>

lemma built_message: "built mem hdr body \<Longrightarrow> take (16 + length body) mem = le_bytes 4 (16 + length body) @ hdr @ body"
  by (auto simp: built_def)

text \<open>A message that was built is sent as it is, without the rest of the buffer.\<close>

lemma built_sent:
  assumes "built mem hdr body"
  shows "mnl_socket_sendto f mem (16 + length body) = Some (f (le_bytes 4 (16 + length body) @ hdr @ body))"
    "mnlg_socket_send f mem = Some (f (le_bytes 4 (16 + length body) @ hdr @ body))"
proof -
  have "rd_block mem 0 (16 + length body) = Some (le_bytes 4 (16 + length body) @ hdr @ body)"
    using built_simps(3) [OF assms] built_message [OF assms] by simp
  then show "mnl_socket_sendto f mem (16 + length body) = Some (f (le_bytes 4 (16 + length body) @ hdr @ body))"
    by (simp add: mnl_socket_sendto_def)
  then show "mnlg_socket_send f mem = Some (f (le_bytes 4 (16 + length body) @ hdr @ body))"
    by (simp add: mnlg_socket_send_def built_simps(5) [OF assms])
qed

text \<open>A kernel that answers one message and rejects all others.\<close>

definition answers :: "u8 list \<Rightarrow> recv list \<Rightarrow> u8 list \<Rightarrow> int + recv list" where
  "answers request replies m = (if m = request then Inr replies else Inl EINVAL)"

section \<open>Received messages\<close>

text \<open>The header of a message and what the checks of the receiver read from it.\<close>

definition nl_hdr :: "nat \<Rightarrow> nat \<Rightarrow> nat \<Rightarrow> nat \<Rightarrow> nat \<Rightarrow> u8 list" where
  "nl_hdr n t flags seq portid = le_bytes 4 n @ le_bytes 2 t @ le_bytes 2 flags @ le_bytes 4 seq @ le_bytes 4 portid"

lemma length_nl_hdr [simp]: "length (nl_hdr n t flags seq portid) = 16"
  by (simp add: nl_hdr_def)

lemma rd_le_has: "has mem off (le_bytes n x) \<Longrightarrow> x < 256 ^ n \<Longrightarrow> rd_le mem off n = Some x"
  using has_rd [of mem off "le_bytes n x" n] by (simp add: le_nat_bytes)

lemma header_at:
  assumes h: "has mem off (nl_hdr n t flags seq portid)"
    and lt: "n < 2 ^ 31" "t < 2 ^ 16" "flags < 2 ^ 16" "seq < 2 ^ 32" "portid < 2 ^ 32"
  shows "nlmsg_len mem off = Some n" "nlmsg_type mem off = Some t" "nlmsg_flags mem off = Some flags" "nlmsg_seq mem off = Some seq"
    "mnl_nlmsg_portid_ok mem off portid = Some True" "mnl_nlmsg_seq_ok mem off seq = Some True"
    "16 \<le> n \<Longrightarrow> n \<le> len \<Longrightarrow> mnl_nlmsg_ok mem off (int len) = Some True"
proof -
  have h': "has mem off (le_bytes 4 n)" "has mem (off + 4) (le_bytes 2 t)" "has mem (off + 6) (le_bytes 2 flags)"
    "has mem (off + 8) (le_bytes 4 seq)" "has mem (off + 12) (le_bytes 4 portid)"
    using h unfolding nl_hdr_def has_append by (simp_all add: add.assoc del: add_2_eq_Suc add_2_eq_Suc')
  have r: "nlmsg_len mem off = Some n" "nlmsg_type mem off = Some t" "nlmsg_flags mem off = Some flags" "nlmsg_seq mem off = Some seq"
    "nlmsg_pid mem off = Some portid"
    unfolding nlmsg_len_def nlmsg_type_def nlmsg_flags_def nlmsg_seq_def nlmsg_pid_def
    by (rule h' [THEN rd_le_has]; use lt in simp)+
  then show "nlmsg_len mem off = Some n" "nlmsg_type mem off = Some t" "nlmsg_flags mem off = Some flags" "nlmsg_seq mem off = Some seq"
    "mnl_nlmsg_portid_ok mem off portid = Some True" "mnl_nlmsg_seq_ok mem off seq = Some True"
    "16 \<le> n \<Longrightarrow> n \<le> len \<Longrightarrow> mnl_nlmsg_ok mem off (int len) = Some True"
    using lt by (simp_all add: mnl_nlmsg_portid_ok_def mnl_nlmsg_seq_ok_def mnl_nlmsg_ok_def as_int_def)
qed

lemma header_fields:
  assumes h: "has mem 0 (nl_hdr n t flags seq portid)"
    and lt: "n < 2 ^ 31" "t < 2 ^ 16" "flags < 2 ^ 16" "seq < 2 ^ 32" "portid < 2 ^ 32"
  shows "nlmsg_len mem 0 = Some n" "nlmsg_type mem 0 = Some t" "nlmsg_flags mem 0 = Some flags" "nlmsg_seq mem 0 = Some seq"
    "mnl_nlmsg_portid_ok mem 0 portid = Some True" "mnl_nlmsg_seq_ok mem 0 seq = Some True"
    "16 \<le> n \<Longrightarrow> mnl_nlmsg_ok mem 0 (int n) = Some True"
  using header_at(1-6) [OF h lt] header_at(7) [OF h lt, of n] by simp_all

text \<open>A message that fits is received whole in front of what was in the buffer.\<close>

lemma recvfrom_fits:
  assumes "length m \<le> length buf"
  shows "mnl_socket_recvfrom buf (Recv_Data m False 12) = (m @ drop (length m) buf, Inr (length m))"
    "length (m @ drop (length m) buf) = length buf" "has (m @ drop (length m) buf) 0 m"
  using assms has_at [of "[]" 0 m "drop (length m) buf"] by (simp_all add: mnl_socket_recvfrom_def Let_def)

text \<open>A message for the data callback, which lets the loop go on to what is behind it.\<close>

lemma cb_run_next:
  assumes h: "has mem off (nl_hdr n t flags seq portid)" and len: "16 \<le> n" "n \<le> len" "len < 2 ^ 16" "4 dvd n"
    and t: "16 \<le> t" "t < 2 ^ 16" and flags: "flags < 2 ^ 16" "\<not> bit flags 4" and ids: "seq < 2 ^ 32" "portid < 2 ^ 32"
    and cb: "cb off st = Some (r, st')" "0 < r"
  shows "cb_run mem seq portid (Some cb) ctl k off (int len) ret st = cb_run mem seq portid (Some cb) ctl k (off + n) (int (len - n)) r st'"
proof -
  have n: "n < 2 ^ 31" using len(2,3) by simp
  note f = header_at [OF h n t(2) flags(1) ids]
  have "int len - int n = int (len - n)" "len - n < 2 ^ 31" using len(2,3) by simp_all
  then have next_msg: "mnl_nlmsg_next mem off (int len) = Some (off + n, int (len - n))"
    using len f(1) by (simp add: mnl_nlmsg_next_def align32 align_of_dvd as_int_def)
  have sel: "select_cb mem (Some cb) ctl k t = Some cb" using t by (simp add: select_cb_def)
  show ?thesis
    using cb(2) by (subst cb_run.simps) (simp add: f(1-6) f(7) [OF len(1,2)] sel flags(2) cb(1) next_msg)
qed

lemma cb_run_end: "cb_run mem seq portid cb_data ctl k off 0 r st = Some (r, st)"
  by (subst cb_run.simps) (simp add: mnl_nlmsg_ok_def)

text \<open>A buffer with one message for the data callback.\<close>

lemma cb_run_data:
  assumes h: "has mem 0 (nl_hdr n t flags seq portid)" and len: "16 \<le> n" "n < 2 ^ 16" "4 dvd n" and t: "16 \<le> t" "t < 2 ^ 16"
    and flags: "flags < 2 ^ 16" "\<not> bit flags 4" and ids: "seq < 2 ^ 32" "portid < 2 ^ 32"
    and cb: "cb 0 st = Some (r, st')" "0 < r"
  shows "cb_run mem seq portid (Some cb) ctl k 0 (int n) ret st = Some (r, st')"
  using cb_run_next [where cb = cb and st = st, OF h len(1) order_refl len(2,3) t flags ids cb] by (simp add: cb_run_end)

text \<open>A control message whose callback stops.\<close>

lemma cb_run_stops:
  assumes h: "has mem off (nl_hdr n t flags seq portid)" and len: "16 \<le> n" "n < 2 ^ 31" "n \<le> len" and t: "t < 2 ^ 16"
    and flags: "flags < 2 ^ 16" "\<not> bit flags 4" and ids: "seq < 2 ^ 32" "portid < 2 ^ 32"
    and cb: "select_cb mem cb_data ctl k t = Some cb" "cb off st = Some (r, st')" "r \<le> 0"
  shows "cb_run mem seq portid cb_data ctl k off (int len) ret st = Some (r, st')"
  by (subst cb_run.simps) (simp add: header_at(1-6) [OF h len(2) t flags(1) ids] header_at(7) [OF h len(2) t flags(1) ids len(1,3)] flags(2) cb)

lemma cb_run_control:
  assumes h: "has mem 0 (nl_hdr n t flags seq portid)" and len: "16 \<le> n" "n < 2 ^ 31" and t: "t < 2 ^ 16"
    and flags: "flags < 2 ^ 16" "\<not> bit flags 4" and ids: "seq < 2 ^ 32" "portid < 2 ^ 32"
    and cb: "select_cb mem cb_data ctl k t = Some cb" "cb 0 st = Some (r, st')" "r \<le> 0"
  shows "cb_run mem seq portid cb_data ctl k 0 (int n) ret st = Some (r, st')"
  by (rule cb_run_stops [OF h len order_refl t flags ids cb])

lemma received_built:
  assumes "4 dvd length body" "length m \<le> length buf" "length buf < 2 ^ 16" "m = nl_hdr (16 + length body) t flags seq portid @ body"
  shows "built (m @ drop (length m) buf) (le_bytes 2 t @ le_bytes 2 flags @ le_bytes 4 seq @ le_bytes 4 portid) body"
  unfolding built_def using assms by (auto simp: nl_hdr_def)

section \<open>Acknowledgements\<close>

text \<open>
  The answer of the kernel to a request without errors: a message of type \<open>NLMSG_ERROR\<close> with
  error 0, the sequence number of the request and a copy of its header.
\<close>

definition nl_ack :: "nat \<Rightarrow> u8 list \<Rightarrow> u8 list" where
  "nl_ack portid m = nl_hdr 36 2 256 (le_nat (take 4 (drop 8 m))) portid @ le_bytes 4 0 @ take 16 m"

lemma errno_read: "has mem 16 (le_bytes 4 0) \<Longrightarrow> rd_le mem (mnl_nlmsg_get_payload 0) 4 = Some 0"
  using rd_le_has [of mem 16 4 0] by (simp add: mnl_nlmsg_get_payload_def hdr_lens)

lemma flag_bits: "\<not> bit (256 :: nat) 4" "\<not> bit (5 :: nat) 4" "\<not> bit (2 :: nat) 4" "bit (2 :: nat) 1"
  by code_simp+

lemma ack_cb:
  assumes h: "has mem 0 (nl_hdr 36 2 256 seq portid @ le_bytes 4 0)" and lt: "seq < 2 ^ 32" "portid < 2 ^ 32"
  shows "mnlg_cb_error mem 0 (e, s) = Some (0, 0, s)" "mnl_cb_error mem 0 (e, s) = Some (0, 0, s)"
proof -
  have "has mem 0 (nl_hdr 36 2 256 seq portid)" "has mem 16 (le_bytes 4 0)" using h by (simp_all add: has_append)
  then have r: "nlmsg_len mem 0 = Some 36" "rd_le mem (mnl_nlmsg_get_payload 0) 4 = Some 0"
    using header_fields(1) [of mem 36 2 256 seq portid] errno_read lt by simp_all
  have size: "mnl_nlmsg_size 20 = 36" by code_simp
  show "mnlg_cb_error mem 0 (e, s) = Some (0, 0, s)" "mnl_cb_error mem 0 (e, s) = Some (0, 0, s)"
    using r(2) unfolding mnlg_cb_error_def mnl_cb_error_def r(1) bind.bind_lunit size by (auto simp: as_int_def netlink_error_def)
qed

lemma ack_bytes:
  assumes m: "take 4 (drop 8 m) = le_bytes 4 seq" "16 \<le> length m" "seq < 2 ^ 32"
  shows "nl_ack portid m = nl_hdr 36 2 256 seq portid @ le_bytes 4 0 @ take 16 m" "length (nl_ack portid m) = 36"
  using assms by (simp_all add: nl_ack_def le_nat_bytes)

lemma ack_received:
  assumes m: "take 4 (drop 8 m) = le_bytes 4 seq" "16 \<le> length m" and lt: "seq < 2 ^ 32" "portid < 2 ^ 32" and buf: "36 \<le> length buf"
  shows "\<exists>buf'. length buf' = length buf \<and>
    mnlg_socket_recv_run seq portid data_cb buf (e, s) [Recv_Data (nl_ack portid m) False 12] = Some ((0, 0, s), buf', [])"
proof -
  let ?ack = "nl_ack portid m"
  let ?mem = "?ack @ drop (length ?ack) buf"
  note ack = ack_bytes [OF m lt(1), of portid]
  have fits: "length ?ack \<le> length buf" using buf ack(2) by simp
  note recv = recvfrom_fits [OF fits]
  have h: "has ?mem 0 (nl_hdr 36 2 256 seq portid @ le_bytes 4 0)"
    using recv(3) unfolding ack(1) by (simp add: has_append)
  then have h': "has ?mem 0 (nl_hdr 36 2 256 seq portid)" by (simp add: has_append)
  have "cb_run ?mem seq portid (map_option (\<lambda>cb. cb ?mem) data_cb) (mnlg_cb_array ?mem) 5 0 (int 36) 1 (e, s) = Some (0, 0, s)"
    by (rule cb_run_control [where st = "(e, s)" and cb = "mnlg_cb_error ?mem", OF h' _ _ _ _ flag_bits(1) lt _ ack_cb(1) [OF h lt]])
      (simp_all add: select_cb_def mnlg_cb_array_def)
  then show ?thesis using recv(1,2) ack(2) by (intro exI [of _ ?mem]) (simp add: mnl_cb_run2_def)
qed

text \<open>The message that ends a dump.\<close>

definition nl_done :: "nat \<Rightarrow> nat \<Rightarrow> u8 list" where
  "nl_done seq portid = nl_hdr 20 3 2 seq portid @ le_bytes 4 0"

lemma done_cb:
  assumes h: "has mem 0 (nl_done seq portid)" and lt: "seq < 2 ^ 32" "portid < 2 ^ 32"
  shows "mnlg_cb_stop mem 0 (e, s) = Some (0, 0, s)"
proof -
  have "has mem 0 (nl_hdr 20 3 2 seq portid)" "has mem 16 (le_bytes 4 0)" using h by (simp_all add: nl_done_def has_append)
  then have r: "nlmsg_len mem 0 = Some 20" "nlmsg_flags mem 0 = Some 2" "rd_le mem (mnl_nlmsg_get_payload 0) 4 = Some 0"
    using header_fields(1,3) [of mem 20 3 2 seq portid] errno_read lt by simp_all
  have size: "mnl_nlmsg_size 4 = 20" by code_simp
  show ?thesis
    using r(3) flag_bits(4) unfolding mnlg_cb_stop_def r(1,2) bind.bind_lunit size by (auto simp: as_int_def netlink_error_def)
qed

lemma recv_done:
  assumes lt: "seq < 2 ^ 32" "portid < 2 ^ 32" and buf: "20 \<le> length buf"
  shows "\<exists>buf'. mnlg_socket_recv_run seq portid data_cb buf (e, s) [Recv_Data (nl_done seq portid) False 12] = Some ((0, 0, s), buf', [])"
proof -
  let ?m = "nl_done seq portid"
  let ?mem = "?m @ drop (length ?m) buf"
  have len: "length ?m = 20" by (simp add: nl_done_def)
  have fits: "length ?m \<le> length buf" using buf len by simp
  note recv = recvfrom_fits [OF fits]
  have h: "has ?mem 0 (nl_hdr 20 3 2 seq portid)" using recv(3) by (simp add: nl_done_def has_append)
  have "cb_run ?mem seq portid (map_option (\<lambda>cb. cb ?mem) data_cb) (mnlg_cb_array ?mem) 5 0 (int 20) 1 (e, s) = Some (0, 0, s)"
    by (rule cb_run_control [where st = "(e, s)" and cb = "mnlg_cb_stop ?mem", OF h _ _ _ _ flag_bits(3) lt _ done_cb [OF recv(3) lt]])
      (simp_all add: select_cb_def mnlg_cb_array_def)
  then show ?thesis using recv(1) len by (simp add: mnl_cb_run2_def)
qed

end
