(* ===== verification/Base64.thy ===== *)
theory Base64
  imports Validators
begin

text \<open>
  The key codec of the embeddable library (\<open>wireguard.c\<close>, \<open>encode_base64\<close> to
  \<open>wg_key_from_base64\<close>, and \<open>wg_key_is_zero\<close>). The C code is written without data-dependent
  branches: range tests are the sign bits of differences, moved down by arithmetic shifts of
  \<open>int\<close> values. All those values are far inside the range of \<open>int\<close>, so that they are
  modelled on \<open>int\<close> with \<open>drop_bit\<close> as the arithmetic shift; a left shift of the negative
  value that marks an invalid character is \<open>push_bit\<close>, as compilers define it.
\<close>

type_synonym wg_key = "u8 list"

section \<open>Encoding\<close>

definition b64_digit :: "int \<Rightarrow> char" where
  "b64_digit x = c_char (x + c_int CHR ''A''
     + (drop_bit 8 (25 - x) AND 6)
     - (drop_bit 8 (51 - x) AND 75)
     - (drop_bit 8 (61 - x) AND 15)
     + (drop_bit 8 (62 - x) AND 3))"

definition encode_base64 :: "u8 \<Rightarrow> u8 \<Rightarrow> u8 \<Rightarrow> string" where
  "encode_base64 s0 s1 s2 =
     (let input =
        [drop_bit 2 (uint s0) AND 63,
         (push_bit 4 (uint s0) OR drop_bit 4 (uint s1)) AND 63,
         (push_bit 2 (uint s1) OR drop_bit 6 (uint s2)) AND 63,
         uint s2 AND 63]
      in map b64_digit input)"

text \<open>The last block writes 44 characters in all; the last one is then replaced by the padding.\<close>

definition wg_key_to_base64 :: "wg_key \<Rightarrow> cmem" where
  "wg_key_to_base64 key =
     (concat (map (\<lambda>i. encode_base64 (key ! (i * 3)) (key ! (i * 3 + 1)) (key ! (i * 3 + 2))) [0..<32 div 3])
      @ encode_base64 (key ! 30) (key ! 31) 0)[43 := CHR ''=''] @ [CHR 0x00]"

section \<open>Decoding\<close>

definition b64_value :: "char \<Rightarrow> int" where
  "b64_value c = (let s = c_int c in
     -1
     + (drop_bit 8 (((c_int CHR ''A'' - 1) - s) AND (s - (c_int CHR ''Z'' + 1))) AND (s - 64))
     + (drop_bit 8 (((c_int CHR ''a'' - 1) - s) AND (s - (c_int CHR ''z'' + 1))) AND (s - 70))
     + (drop_bit 8 (((c_int CHR ''0'' - 1) - s) AND (s - (c_int CHR ''9'' + 1))) AND (s + 5))
     + (drop_bit 8 (((c_int CHR ''+'' - 1) - s) AND (s - (c_int CHR ''+'' + 1))) AND 63)
     + (drop_bit 8 (((c_int CHR ''/'' - 1) - s) AND (s - (c_int CHR ''/'' + 1))) AND 64))"

definition decode_base64 :: "string \<Rightarrow> int" where
  "decode_base64 src = fold (\<lambda>i val. val OR push_bit (18 - 6 * i) (b64_value (src ! i))) [0..<4] 0"

definition EINVAL :: int where
  "EINVAL = 22"

definition sign_bit :: "int \<Rightarrow> u8" where
  "sign_bit val = ucast (drop_bit 31 (word_of_int val :: u32))"

definition from_base64_step :: "cmem \<Rightarrow> u8 \<times> wg_key \<Rightarrow> nat \<Rightarrow> (unit + u8 \<times> wg_key) option" where
  "from_base64_step m st i = (case st of (ret, key) \<Rightarrow> do {
     src \<leftarrow> rd_block m (i * 4) 4;
     let val = decode_base64 src;
     Some (Inr (ret OR sign_bit val,
       key[i * 3 := word_of_int (drop_bit 16 val AND 255),
           i * 3 + 1 := word_of_int (drop_bit 8 val AND 255),
           i * 3 + 2 := word_of_int (val AND 255)])) })"

text \<open>The result is the return value, a negated error number, and the contents of the key buffer.\<close>

definition wg_key_from_base64 :: "wg_key \<Rightarrow> cmem \<Rightarrow> (int \<times> wg_key) option" where
  "wg_key_from_base64 key m = do {
     n \<leftarrow> c_strlen m;
     ok \<leftarrow> (if n \<noteq> 44 then Some False else do { c \<leftarrow> rd m 43; Some (c = CHR ''='') });
     if \<not> ok then Some (- EINVAL, key)
     else do {
       r \<leftarrow> c_for (from_base64_step m) (0, key) [0..<32 div 3];
       case r of
         Inl _ \<Rightarrow> None
       | Inr (ret, key) \<Rightarrow> do {
           src \<leftarrow> rd_block m 40 3;
           let val = decode_base64 (src @ ''A'');
           let ret = ret OR (sign_bit val OR word_of_int (val AND 255));
           let key = key[30 := word_of_int (drop_bit 16 val AND 255),
                         31 := word_of_int (drop_bit 8 val AND 255)];
           Some (- (EINVAL AND NOT (drop_bit 8 (uint ret - 1))), key) }}}"

section \<open>The zero test\<close>

text \<open>\<open>1 & ((acc - 1) >> 8)\<close>: the accumulator is promoted to \<open>int\<close> before the subtraction.\<close>

definition wg_key_is_zero :: "wg_key \<Rightarrow> bool" where
  "wg_key_is_zero key =
     (let acc = fold (\<lambda>i acc. acc OR key ! i) [0..<32] (0 :: u8) in
      1 AND drop_bit 8 (uint acc - 1) \<noteq> 0)"

section \<open>Digits\<close>

definition b64_alphabet :: string where
  "b64_alphabet = ''ABCDEFGHIJKLMNOPQRSTUVWXYZabcdefghijklmnopqrstuvwxyz0123456789+/''"

lemma b64_alphabet_digits: "map b64_digit [0..63] = b64_alphabet"
  by code_simp

lemma b64_alphabet_values: "map b64_value b64_alphabet = [0..63]" "\<forall>c\<in>set b64_alphabet. b64_char c"
  by code_simp+

lemma b64_digit_value:
  assumes "0 \<le> x" "x < 64"
  shows "b64_value (b64_digit x) = x" "b64_char (b64_digit x)"
proof -
  have x: "x \<in> set [0..63]" using assms by simp
  show "b64_value (b64_digit x) = x"
    using map_fixed [of "b64_value \<circ> b64_digit" "[0..63]" x] x b64_alphabet_values(1)
    unfolding b64_alphabet_digits [symmetric] map_map by simp
  show "b64_char (b64_digit x)"
    using x b64_alphabet_values(2) unfolding b64_alphabet_digits [symmetric] by simp
qed

lemma b64_char_alphabet: "b64_char c \<Longrightarrow> c \<in> set b64_alphabet"
  unfolding b64_char_def is_decimal_set is_alphabet_set b64_alphabet_def by auto

lemma b64_value_digit:
  assumes "b64_char c"
  shows "0 \<le> b64_value c \<and> b64_value c < 64 \<and> b64_digit (b64_value c) = c"
proof -
  have c: "c \<in> set b64_alphabet" using assms by (rule b64_char_alphabet)
  then have "b64_value c \<in> set [0..63]"
    unfolding b64_alphabet_values(1) [symmetric] by (simp del: b64_alphabet_values)
  moreover have "b64_digit (b64_value c) = c"
    using map_fixed [of "b64_digit \<circ> b64_value" b64_alphabet c] c b64_alphabet_digits
    unfolding b64_alphabet_values(1) [symmetric] map_map by simp
  ultimately show ?thesis by simp
qed

lemma b64_value_invalid [rule_format]: "\<forall>c. \<not> b64_char c \<longrightarrow> b64_value c = -1"
  by code_simp

lemma b64_last_digit [rule_format]:
  "\<forall>c. (c \<in> set ''AEIMQUYcgkosw480'') = (b64_char c \<and> b64_value c mod 4 = 0)"
  by code_simp

section \<open>Blocks\<close>

text \<open>The number a block stands for, and its bytes and six-bit digits.\<close>

lemma or_add:
  fixes x y :: int
  assumes "0 \<le> y" "y < 2 ^ n"
  shows "push_bit n x OR y = x * 2 ^ n + y"
proof -
  have y: "y = take_bit n y" using assms by (simp add: take_bit_int_eq_self)
  have "push_bit n x AND y = 0"
    by (subst y, rule bit_eqI) (auto simp: bit_simps)
  then have "push_bit n x OR y = push_bit n x + y" by (simp add: disjunctive_add_eq_or)
  then show ?thesis by (simp add: push_bit_eq_mult)
qed

definition block_val :: "u8 \<Rightarrow> u8 \<Rightarrow> u8 \<Rightarrow> int" where
  "block_val a b c = uint a * 2 ^ 16 + uint b * 2 ^ 8 + uint c"

lemma u8_range: "0 \<le> uint (x :: u8)" "uint (x :: u8) < 256"
  using uint_bounded [of x] by simp_all

lemma mask63: "(x :: int) AND 63 = x mod 64"
  using take_bit_eq_mask [of 6 x] by (simp add: take_bit_eq_mod mask_eq_exp_minus_1 and.commute)

lemma mask255: "(x :: int) AND 255 = x mod 256"
  using take_bit_eq_mask [of 8 x] by (simp add: take_bit_eq_mod mask_eq_exp_minus_1 and.commute)

lemma block_val_range: "0 \<le> block_val a b c" "block_val a b c < 2 ^ 24"
  using u8_range [of a] u8_range [of b] u8_range [of c] unfolding block_val_def by auto

lemma block_val_div:
  "block_val a b c div 2 ^ 6 = uint a * 2 ^ 10 + uint b * 2 ^ 2 + uint c div 2 ^ 6"
  "block_val a b c div 2 ^ 8 = uint a * 2 ^ 8 + uint b"
  "block_val a b c div 2 ^ 12 = uint a * 2 ^ 4 + uint b div 2 ^ 4"
  "block_val a b c div 2 ^ 16 = uint a"
  "block_val a b c div 2 ^ 18 = uint a div 2 ^ 2"
proof -
  let ?A = "uint a" and ?B = "uint b" and ?C = "uint c"
  have v: "block_val a b c = 2 ^ 8 * (?A * 2 ^ 8 + ?B) + ?C" by (simp add: block_val_def)
  show "block_val a b c div 2 ^ 6 = ?A * 2 ^ 10 + ?B * 2 ^ 2 + ?C div 2 ^ 6"
    by (simp add: block_val_def)
  show d8: "block_val a b c div 2 ^ 8 = ?A * 2 ^ 8 + ?B"
    unfolding v using u8_range [of c] by (subst div_mult_self4) simp_all
  have "block_val a b c div 2 ^ 12 = block_val a b c div 2 ^ 8 div 2 ^ 4"
    by (simp add: zdiv_zmult2_eq [symmetric])
  then show "block_val a b c div 2 ^ 12 = ?A * 2 ^ 4 + ?B div 2 ^ 4" unfolding d8 by simp
  have "block_val a b c div 2 ^ 16 = block_val a b c div 2 ^ 8 div 2 ^ 8"
    by (simp add: zdiv_zmult2_eq [symmetric])
  then show d16: "block_val a b c div 2 ^ 16 = ?A" unfolding d8 using u8_range [of b] by simp
  have "block_val a b c div 2 ^ 18 = block_val a b c div 2 ^ 16 div 2 ^ 2"
    by (simp add: zdiv_zmult2_eq [symmetric])
  then show "block_val a b c div 2 ^ 18 = ?A div 2 ^ 2" unfolding d16 .
qed

lemma block_val_mod: "block_val a b c mod 256 = uint c" "block_val a b c mod 64 = uint c mod 64"
proof -
  have "block_val a b c = uint c + 256 * (uint a * 256 + uint b)" by (simp add: block_val_def)
  then show "block_val a b c mod 256 = uint c" using u8_range [of c] by (simp only: mod_mult_self2 mod_pos_pos_trivial)
  have "block_val a b c = uint c + 64 * (uint a * 1024 + uint b * 4)" by (simp add: block_val_def)
  then show "block_val a b c mod 64 = uint c mod 64" by (simp only: mod_mult_self2)
qed

definition b64_digits :: "int \<Rightarrow> string" where
  "b64_digits v = map b64_digit [v div 2 ^ 18, v div 2 ^ 12 mod 64, v div 2 ^ 6 mod 64, v mod 64]"

lemma encode_base64_eq: "encode_base64 a b c = b64_digits (block_val a b c)"
proof -
  let ?A = "uint a" and ?B = "uint b" and ?C = "uint c"
  have b4: "0 \<le> ?B div 2 ^ 4" "?B div 2 ^ 4 < 2 ^ 4" and c6: "0 \<le> ?C div 2 ^ 6" "?C div 2 ^ 6 < 2 ^ 2"
    using u8_range [of b] u8_range [of c] by (auto simp: pos_imp_zdiv_nonneg_iff)
  have "drop_bit 2 ?A AND 63 = block_val a b c div 2 ^ 18"
    unfolding mask63 block_val_div drop_bit_eq_div using u8_range [of a]
    by (intro mod_pos_pos_trivial) (auto simp: pos_imp_zdiv_nonneg_iff)
  moreover have "(push_bit 4 ?A OR drop_bit 4 ?B) AND 63 = block_val a b c div 2 ^ 12 mod 64"
    by (simp only: mask63 block_val_div drop_bit_eq_div or_add [OF b4])
  moreover have "(push_bit 2 ?B OR drop_bit 6 ?C) AND 63 = block_val a b c div 2 ^ 6 mod 64"
  proof -
    have "?A * 2 ^ 10 + ?B * 2 ^ 2 + ?C div 2 ^ 6 = (?B * 2 ^ 2 + ?C div 2 ^ 6) + 64 * (?A * 16)" by simp
    then show ?thesis by (simp only: mask63 block_val_div drop_bit_eq_div or_add [OF c6] mod_mult_self2)
  qed
  moreover have "?C AND 63 = block_val a b c mod 64" by (simp add: mask63 block_val_mod)
  ultimately show ?thesis by (simp only: encode_base64_def b64_digits_def Let_def)
qed

text \<open>Four digits, most significant first.\<close>

definition digits_val :: "int \<Rightarrow> int \<Rightarrow> int \<Rightarrow> int \<Rightarrow> int" where
  "digits_val p q r s = p * 2 ^ 18 + q * 2 ^ 12 + r * 2 ^ 6 + s"

lemma or_negative: "x < 0 \<or> y < 0 \<Longrightarrow> (x :: int) OR y < 0"
  by simp

lemma decode_unfold:
  "decode_base64 [c0, c1, c2, c3] =
     push_bit 18 (b64_value c0) OR push_bit 12 (b64_value c1) OR push_bit 6 (b64_value c2) OR b64_value c3"
  by (simp add: decode_base64_def upt_rec or.assoc)

lemma push_bit_neg: "push_bit n (x :: int) < 0 \<longleftrightarrow> x < 0"
  by simp

text \<open>A block of valid characters decodes to its number; any other character makes the result negative.\<close>

lemma decode_base64_valid:
  assumes "b64_char c0" "b64_char c1" "b64_char c2" "b64_char c3"
  shows "decode_base64 [c0, c1, c2, c3] =
    digits_val (b64_value c0) (b64_value c1) (b64_value c2) (b64_value c3)"
proof -
  have r: "0 \<le> b64_value x" "b64_value x < 64" if "b64_char x" for x using b64_value_digit [OF that] by auto
  note r0 = r [OF assms(1)] and r1 = r [OF assms(2)] and r2 = r [OF assms(3)] and r3 = r [OF assms(4)]
  have "push_bit 6 (b64_value c2) OR b64_value c3 = b64_value c2 * 2 ^ 6 + b64_value c3"
    using r3 by (intro or_add) auto
  moreover have "push_bit 12 (b64_value c1) OR (b64_value c2 * 2 ^ 6 + b64_value c3) =
      b64_value c1 * 2 ^ 12 + (b64_value c2 * 2 ^ 6 + b64_value c3)"
    using r2 r3 by (intro or_add) auto
  moreover have "push_bit 18 (b64_value c0) OR (b64_value c1 * 2 ^ 12 + (b64_value c2 * 2 ^ 6 + b64_value c3)) =
      b64_value c0 * 2 ^ 18 + (b64_value c1 * 2 ^ 12 + (b64_value c2 * 2 ^ 6 + b64_value c3))"
    using r1 r2 r3 by (intro or_add) auto
  ultimately show ?thesis by (simp only: decode_unfold digits_val_def or.assoc add.assoc)
qed

lemma decode_base64_negative:
  "decode_base64 [c0, c1, c2, c3] < 0 \<longleftrightarrow> \<not> (b64_char c0 \<and> b64_char c1 \<and> b64_char c2 \<and> b64_char c3)"
proof -
  have "b64_value x < 0 \<longleftrightarrow> \<not> b64_char x" for x
    using b64_value_digit [of x] b64_value_invalid [of x] by fastforce
  then show ?thesis by (auto simp: decode_unfold)
qed

interpretation b64: codec b64_digit b64_value "\<lambda>x. 0 \<le> x \<and> x < 64" b64_char
  by unfold_locales (auto simp: b64_digit_value b64_value_digit)

text \<open>Blocks of four digits encode the numbers below two to the power of 24.\<close>

definition b64_block :: "string \<Rightarrow> bool" where
  "b64_block t \<longleftrightarrow> length t = 4 \<and> (\<forall>c\<in>set t. b64_char c)"

lemma block_cases:
  assumes "length t = 4"
  obtains a b c d where "t = [a, b, c, d]"
  using assms by (auto simp: length_Suc_conv numeral_eq_Suc)

lemma digits_val_range:
  assumes "0 \<le> p \<and> p < 64" "0 \<le> q \<and> q < 64" "0 \<le> r \<and> r < 64" "0 \<le> s \<and> s < 64"
  shows "0 \<le> digits_val p q r s" "digits_val p q r s < 2 ^ 24"
  using assms unfolding digits_val_def by auto

lemma digits_val_div:
  assumes "0 \<le> p \<and> p < 64" "0 \<le> q \<and> q < 64" "0 \<le> r \<and> r < 64" "0 \<le> s \<and> s < 64"
  shows "digits_val p q r s div 2 ^ 18 = p" "digits_val p q r s div 2 ^ 12 mod 64 = q"
    "digits_val p q r s div 2 ^ 6 mod 64 = r" "digits_val p q r s mod 64 = s"
proof -
  let ?v = "digits_val p q r s"
  have v: "?v = 64 * (64 * (64 * p + q) + r) + s" by (simp add: digits_val_def)
  have d6: "?v div 2 ^ 6 = 64 * (64 * p + q) + r"
    unfolding v using assms(4) div_mult_self4 [of 64 "64 * (64 * p + q) + r" s] by auto
  have "?v div 2 ^ 12 = ?v div 2 ^ 6 div 2 ^ 6" by (simp add: zdiv_zmult2_eq [symmetric])
  then have d12: "?v div 2 ^ 12 = 64 * p + q"
    unfolding d6 using assms(3) div_mult_self4 [of 64 "64 * p + q" r] by auto
  have "?v div 2 ^ 18 = ?v div 2 ^ 12 div 2 ^ 6" by (simp add: zdiv_zmult2_eq [symmetric])
  then show "?v div 2 ^ 18 = p" unfolding d12 using assms(2) div_mult_self4 [of 64 p q] by auto
  show "?v div 2 ^ 12 mod 64 = q" "?v div 2 ^ 6 mod 64 = r"
    unfolding d12 d6 using assms by (simp_all only: mod_mult_self4 mod_pos_pos_trivial)
  show "?v mod 64 = s" unfolding v using assms by (simp only: mod_mult_self4 mod_pos_pos_trivial)
qed

lemma digits_val_of_div:
  "digits_val (v div 2 ^ 18) (v div 2 ^ 12 mod 64) (v div 2 ^ 6 mod 64) (v mod 64) = v"
proof -
  have e: "v div 2 ^ 18 = v div 64 div 64 div 64" "v div 2 ^ 12 = v div 64 div 64" "v div 2 ^ 6 = v div 64"
    by (simp_all add: zdiv_zmult2_eq [symmetric])
  have split: "x div 64 * 64 + x mod 64 = x" for x :: int by simp
  define w where "w = v div 64"
  define u where "u = w div 64"
  have "(u div 64 * 64 + u mod 64) * 64 + w mod 64 = w" "w * 64 + v mod 64 = v"
    using split [of v] split [of w] split [of u] by (simp_all only: u_def w_def)
  moreover have "a * 2 ^ 18 + b * 2 ^ 12 + c * 2 ^ 6 = ((a * 64 + b) * 64 + c) * 64" for a b c :: int by simp
  ultimately show ?thesis unfolding e digits_val_def w_def [symmetric] u_def [symmetric] by metis
qed

lemma decode_digits:
  assumes "0 \<le> v" "v < 2 ^ 24"
  shows "decode_base64 (b64_digits v) = v" "b64_block (b64_digits v)"
proof -
  define p q r s where d: "p = v div 2 ^ 18" "q = v div 2 ^ 12 mod 64" "r = v div 2 ^ 6 mod 64" "s = v mod 64"
  have rng: "0 \<le> p" "p < 64" "0 \<le> q" "q < 64" "0 \<le> r" "r < 64" "0 \<le> s" "s < 64"
    using assms by (auto simp: d pos_imp_zdiv_nonneg_iff)
  have t: "b64_digits v = [b64_digit p, b64_digit q, b64_digit r, b64_digit s]"
    by (simp add: b64_digits_def d)
  have ch: "b64_char (b64_digit p)" "b64_char (b64_digit q)" "b64_char (b64_digit r)" "b64_char (b64_digit s)"
    using rng by (auto intro: b64_digit_value)
  show "b64_block (b64_digits v)" using ch by (simp add: b64_block_def t)
  have "decode_base64 (b64_digits v) = digits_val p q r s"
    unfolding t decode_base64_valid [OF ch] using rng by (simp add: b64_digit_value)
  then show "decode_base64 (b64_digits v) = v" unfolding d digits_val_of_div .
qed

lemma digits_decode:
  assumes "b64_block t"
  shows "b64_digits (decode_base64 t) = t" "0 \<le> decode_base64 t" "decode_base64 t < 2 ^ 24"
proof -
  obtain a b c d where t: "t = [a, b, c, d]" using assms block_cases unfolding b64_block_def by blast
  then have ch: "b64_char a" "b64_char b" "b64_char c" "b64_char d" using assms by (auto simp: b64_block_def)
  have r: "0 \<le> b64_value x \<and> b64_value x < 64" if "b64_char x" for x using b64_value_digit [OF that] by auto
  note rs = r [OF ch(1)] r [OF ch(2)] r [OF ch(3)] r [OF ch(4)]
  show "b64_digits (decode_base64 t) = t"
    unfolding t decode_base64_valid [OF ch] b64_digits_def digits_val_div [OF rs] by (simp add: ch b64_value_digit)
  show "0 \<le> decode_base64 t" "decode_base64 t < 2 ^ 24"
    unfolding t decode_base64_valid [OF ch] using digits_val_range [OF rs] by blast+
qed

interpretation b64_blk: codec b64_digits decode_base64 "\<lambda>v. 0 \<le> v \<and> v < 2 ^ 24" b64_block
  by unfold_locales (use decode_digits digits_decode in blast)+

lemma decode_base64_nonneg: "length t = 4 \<Longrightarrow> 0 \<le> decode_base64 t \<longleftrightarrow> b64_block t"
  by (elim block_cases) (use decode_base64_negative in \<open>auto simp: b64_block_def not_less [symmetric]\<close>)

text \<open>The error value does not leave the range of \<open>int\<close>, and its sign bit tells it apart.\<close>

lemma or_range:
  assumes "- (2 ^ n) \<le> x" "x < 2 ^ n" "- (2 ^ n) \<le> y" "y < 2 ^ n"
  shows "- (2 ^ n) \<le> x OR y \<and> x OR y < (2 ^ n :: int)"
proof -
  have "signed_take_bit n x = x" "signed_take_bit n y = y" using assms by (simp_all add: signed_take_bit_int_eq_self)
  moreover have "signed_take_bit n (x OR y) = signed_take_bit n x OR signed_take_bit n y"
    by (rule bit_eqI) (simp add: bit_signed_take_bit_iff bit_or_iff)
  ultimately have "signed_take_bit n (x OR y) = x OR y" by simp
  then show ?thesis by (metis signed_take_bit_int_eq_self_iff)
qed

lemma decode_base64_range:
  assumes "length t = 4"
  shows "- (2 ^ 24) \<le> decode_base64 t \<and> decode_base64 t < 2 ^ 24"
proof -
  obtain a b c d where t: "t = [a, b, c, d]" using assms by (rule block_cases)
  have v: "- 1 \<le> b64_value x \<and> b64_value x < 64" for x
    using b64_value_digit [of x] b64_value_invalid [of x] by (cases "b64_char x") auto
  have s: "- (2 ^ 24) \<le> push_bit k (b64_value x) \<and> push_bit k (b64_value x) < 2 ^ 24" if "k \<le> 18" for k x
  proof -
    have "(2::int) ^ k \<le> 2 ^ 18" using that by (intro power_increasing) auto
    moreover have "- 1 * 2 ^ k \<le> b64_value x * 2 ^ k" "b64_value x * 2 ^ k \<le> 63 * 2 ^ k"
      using v [of x] by (intro mult_right_mono; simp)+
    moreover have "(63::int) * 2 ^ 18 < 2 ^ 24" "(2::int) ^ 18 \<le> 2 ^ 24" by simp_all
    ultimately show ?thesis unfolding push_bit_eq_mult by linarith
  qed
  show ?thesis
    unfolding t decode_unfold using s [of 18 a] s [of 12 b] s [of 6 c] s [of 0 d]
    by (intro or_range) (auto simp only: push_bit_of_0 push_bit_0_id id_apply intro!: or_range conjunct1 [OF or_range] conjunct2 [OF or_range])
qed

lemma zdiv_eq_1: "b \<le> a \<Longrightarrow> a < 2 * b \<Longrightarrow> a div b = (1 :: int)"
  using div_pos_pos_trivial [of "a - b" b] div_add_self2 [of b "a - b"] by (cases "b = 0") auto

lemma sign_bit_eq:
  assumes "- (2 ^ 24) \<le> v \<and> v < 2 ^ 24"
  shows "sign_bit v = (if v < 0 then 1 else 0)"
proof -
  have u: "uint (word_of_int v :: u32) = v mod 2 ^ 32" by (simp add: uint_word_of_int)
  have "v mod 2 ^ 32 = (if v < 0 then v + 2 ^ 32 else v)"
  proof (cases "v < 0")
    case True
    then have "(v + 2 ^ 32) mod 2 ^ 32 = v + 2 ^ 32" using assms by (intro mod_pos_pos_trivial) auto
    then show ?thesis using True by simp
  next
    case False
    then show ?thesis using assms by simp
  qed
  then have "uint (drop_bit 31 (word_of_int v :: u32)) = (if v < 0 then 1 else 0)"
    using assms by (simp only: unsigned_drop_bit_eq u) (auto simp: drop_bit_eq_div take_bit_eq_mod div_pos_pos_trivial zdiv_eq_1)
  then have "drop_bit 31 (word_of_int v :: u32) = (if v < 0 then 1 else 0)"
    unfolding word_uint_eq_iff by (auto split: if_splits)
  then show ?thesis by (simp add: sign_bit_def)
qed

section \<open>Bytes of a block\<close>

definition byte_of :: "int \<Rightarrow> nat \<Rightarrow> u8" where
  "byte_of v j = word_of_int (drop_bit (16 - 8 * j) v AND 255)"

lemma byte_of_simps:
  "byte_of v 0 = word_of_int (drop_bit 16 v AND 255)" "byte_of v (Suc 0) = word_of_int (drop_bit 8 v AND 255)"
  "byte_of v 2 = word_of_int (v AND 255)"
  by (simp_all add: byte_of_def)

lemma uint_byte_of: "uint (byte_of v j) = v div 2 ^ (16 - 8 * j) mod 256"
  by (simp add: byte_of_def mask255 uint_word_of_int drop_bit_eq_div)

lemma byte_of_block_val: "byte_of (block_val a b c) 0 = a" "byte_of (block_val a b c) (Suc 0) = b" "byte_of (block_val a b c) 2 = c"
proof -
  have "uint a mod 256 = uint a" using u8_range [of a] by simp
  moreover have "(uint a * 2 ^ 8 + uint b) mod 256 = uint b"
    using u8_range [of b] mod_mult_self3 [of "uint a" 256 "uint b"] by simp
  ultimately show "byte_of (block_val a b c) 0 = a" "byte_of (block_val a b c) (Suc 0) = b"
    "byte_of (block_val a b c) 2 = c"
    unfolding word_uint_eq_iff uint_byte_of
    using block_val_div(2,4) [of a b c] block_val_mod(1) [of a b c] by simp_all
qed

lemma block_val_bytes:
  assumes "0 \<le> v" "v < 2 ^ 24"
  shows "block_val (byte_of v 0) (byte_of v (Suc 0)) (byte_of v 2) = v"
proof -
  have split: "x div 256 * 256 + x mod 256 = x" for x :: int by simp
  define w where "w = v div 256"
  have "v div 2 ^ 16 = w div 256" by (simp add: w_def zdiv_zmult2_eq [symmetric])
  moreover have "v div 2 ^ 16 mod 256 = v div 2 ^ 16" using assms by (simp add: pos_imp_zdiv_nonneg_iff)
  ultimately have "block_val (byte_of v 0) (byte_of v (Suc 0)) (byte_of v 2) =
      (w div 256) * 2 ^ 16 + (w mod 256) * 2 ^ 8 + v mod 256"
    by (simp add: block_val_def uint_byte_of w_def)
  also have "\<dots> = (w div 256 * 256 + w mod 256) * 256 + v mod 256"
    using distrib_right [of "w div 256 * 256" "w mod 256" 256] by simp
  also have "\<dots> = v" unfolding split using split [of v] by (simp only: w_def)
  finally show ?thesis .
qed

section \<open>Texts of keys\<close>

text \<open>A text of 44 characters and its NUL is determined by its ten blocks and its tail.\<close>

definition blk :: "cmem \<Rightarrow> nat \<Rightarrow> string" where
  "blk m i = take 4 (drop (i * 4) m)"

lemma blk_nth: "length m = 45 \<Longrightarrow> k < 40 \<Longrightarrow> m ! k = blk m (k div 4) ! (k mod 4)"
proof -
  assume *: "length m = 45" "k < 40"
  then have "k div 4 * 4 + k mod 4 = k" "k div 4 * 4 \<le> length m" by simp_all
  then show ?thesis using * by (simp add: blk_def)
qed

lemma key_text_ext:
  assumes "length a = 45" "length b = 45" "\<forall>i<10. blk a i = blk b i"
    and "take 3 (drop 40 a) = take 3 (drop 40 b)" "a ! 43 = b ! 43" "a ! 44 = b ! 44"
  shows "a = b"
proof (rule nth_equalityI)
  fix k assume "k < length a"
  then have "k < 40 \<or> k = 40 + (k - 40) \<and> k - 40 < 3 \<or> k = 43 \<or> k = 44" using assms(1) by arith
  then consider "k < 40" | j where "k = 40 + j" "j < 3" | "k = 43" | "k = 44" by blast
  then show "a ! k = b ! k"
  proof cases
    case 1
    then have "k div 4 < 10" by simp
    then show ?thesis using blk_nth [of a k] blk_nth [of b k] 1 assms by simp
  next
    case 2
    then have "take 3 (drop 40 a) ! j = a ! k" "take 3 (drop 40 b) ! j = b ! k" using assms(1,2) by simp_all
    then show ?thesis using assms(4) by simp
  qed (use assms in auto)
qed (simp add: assms)

definition enc_at :: "wg_key \<Rightarrow> nat \<Rightarrow> string" where
  "enc_at key i = encode_base64 (key ! (i * 3)) (key ! (i * 3 + 1)) (key ! (i * 3 + 2))"

lemma length_encode [simp]: "length (encode_base64 a b c) = 4"
  by (simp add: encode_base64_def)

lemma wg_key_to_base64_parts:
  shows "length (wg_key_to_base64 key) = 45"
    and "i < 10 \<Longrightarrow> blk (wg_key_to_base64 key) i = enc_at key i"
    and "take 3 (drop 40 (wg_key_to_base64 key)) = take 3 (encode_base64 (key ! 30) (key ! 31) 0)"
    and "wg_key_to_base64 key ! 43 = CHR ''=''" "wg_key_to_base64 key ! 44 = CHR 0x00"
proof -
  let ?p = "concat (map (enc_at key) [0..<10])" and ?e = "encode_base64 (key ! 30) (key ! 31) 0"
  have len: "length ?p = 40" using length_concat_blocks [of 10 "enc_at key" 4] by (simp add: enc_at_def)
  have t: "wg_key_to_base64 key = ?p @ ?e[3 := CHR ''=''] @ [CHR 0x00]"
    using len by (simp add: wg_key_to_base64_def enc_at_def [abs_def] list_update_append)
  show "length (wg_key_to_base64 key) = 45" "take 3 (drop 40 (wg_key_to_base64 key)) = take 3 ?e"
    "wg_key_to_base64 key ! 43 = CHR ''=''" "wg_key_to_base64 key ! 44 = CHR 0x00"
    using len by (simp_all add: t nth_append)
  assume i: "i < 10"
  show "blk (wg_key_to_base64 key) i = enc_at key i"
  proof (rule nth_equalityI)
    show "length (blk (wg_key_to_base64 key) i) = length (enc_at key i)"
      using i len by (simp add: blk_def t enc_at_def)
    fix j assume "j < length (blk (wg_key_to_base64 key) i)"
    then have j: "j < 4" by (simp add: blk_def)
    then have "?p ! (i * 4 + j) = enc_at key i ! j"
      using i by (intro nth_concat_blocks) (auto simp: enc_at_def)
    then show "blk (wg_key_to_base64 key) i ! j = enc_at key i ! j"
      using i j len by (simp add: blk_def t nth_append)
  qed
qed

lemma encode_bytes:
  assumes "b64_block t"
  shows "encode_base64 (byte_of (decode_base64 t) 0) (byte_of (decode_base64 t) (Suc 0)) (byte_of (decode_base64 t) 2) = t"
  using digits_decode [OF assms] by (simp add: encode_base64_eq block_val_bytes)

lemma decode_encode: "decode_base64 (encode_base64 a b c) = block_val a b c" "b64_block (encode_base64 a b c)"
  unfolding encode_base64_eq using decode_digits [OF block_val_range [of a b c]] by blast+

lemma block_ext: "length a = 4 \<Longrightarrow> length b = 4 \<Longrightarrow> take 3 a = take 3 b \<Longrightarrow> a ! 3 = b ! 3 \<Longrightarrow> a = b"
  by (elim block_cases) auto

lemma encode_base64_inject:
  assumes "encode_base64 a b c = encode_base64 a' b' c'"
  shows "a = a' \<and> b = b' \<and> c = c'"
proof -
  have "block_val a b c = block_val a' b' c'" using assms decode_encode(1) by metis
  then show ?thesis using byte_of_block_val by metis
qed

lemma encode_padded_inject:
  assumes "take 3 (encode_base64 a b 0) = take 3 (encode_base64 a' b' 0)"
  shows "a = a' \<and> b = b'"
proof -
  have "encode_base64 a b 0 = encode_base64 a' b' 0"
    by (rule block_ext [OF length_encode length_encode assms]) (simp add: encode_base64_def)
  then show ?thesis using encode_base64_inject by blast
qed

lemma nth_triple:
  fixes k :: nat
  assumes "k < 30" "\<And>i. i < 10 \<Longrightarrow> P (i * 3) \<and> P (i * 3 + 1) \<and> P (i * 3 + 2)"
  shows "P k"
proof -
  have "k div 3 < 10" "k div 3 * 3 + k mod 3 = k" using assms(1) by simp_all
  moreover have "k mod 3 = 0 \<or> k mod 3 = 1 \<or> k mod 3 = 2" by linarith
  ultimately show ?thesis using assms(2) [of "k div 3"] by (metis add.right_neutral)
qed

text \<open>Keys with the same text are equal.\<close>

lemma wg_key_to_base64_inject:
  assumes "length key = 32" "length key' = 32" "wg_key_to_base64 key = wg_key_to_base64 key'"
  shows "key = key'"
proof (rule nth_equalityI)
  have low: "key ! k = key' ! k" if "k < 30" for k
  proof (rule nth_triple [OF that])
    fix i :: nat assume i: "i < 10"
    have "enc_at key i = enc_at key' i"
      using wg_key_to_base64_parts(2) [OF i, of key] wg_key_to_base64_parts(2) [OF i, of key'] assms(3) by simp
    then show "key ! (i * 3) = key' ! (i * 3) \<and> key ! (i * 3 + 1) = key' ! (i * 3 + 1) \<and>
        key ! (i * 3 + 2) = key' ! (i * 3 + 2)"
      unfolding enc_at_def by (rule encode_base64_inject)
  qed
  have high: "key ! 30 = key' ! 30 \<and> key ! 31 = key' ! 31"
    using arg_cong [OF assms(3), of "\<lambda>t. take 3 (drop 40 t)"] unfolding wg_key_to_base64_parts(3)
    by (rule encode_padded_inject)
  fix k assume "k < length key"
  then have "k < 30 \<or> k = 30 \<or> k = 31" using assms(1) by arith
  then show "key ! k = key' ! k" using low high by blast
qed (simp add: assms)

section \<open>The decoding loop\<close>

lemma from_base64_loop:
  assumes m: "length m = 45" and key: "length key = 32"
  shows "n \<le> 10 \<Longrightarrow> \<exists>key'. c_for (from_base64_step m) (0, key) [0..<n] =
      Some (Inr (if \<forall>i<n. b64_block (blk m i) then 0 else 1, key')) \<and> length key' = 32 \<and>
      (\<forall>i<n. key' ! (i * 3) = byte_of (decode_base64 (blk m i)) 0 \<and>
        key' ! (i * 3 + 1) = byte_of (decode_base64 (blk m i)) (Suc 0) \<and>
        key' ! (i * 3 + 2) = byte_of (decode_base64 (blk m i)) 2)"
proof (induction n)
  case 0
  then show ?case using key by simp
next
  case (Suc n)
  then obtain key' where k: "c_for (from_base64_step m) (0, key) [0..<n] =
      Some (Inr (if \<forall>i<n. b64_block (blk m i) then 0 else 1, key'))" "length key' = 32"
    and old: "\<forall>i<n. key' ! (i * 3) = byte_of (decode_base64 (blk m i)) 0 \<and>
      key' ! (i * 3 + 1) = byte_of (decode_base64 (blk m i)) (Suc 0) \<and>
      key' ! (i * 3 + 2) = byte_of (decode_base64 (blk m i)) 2" by auto
  let ?v = "decode_base64 (blk m n)"
  let ?key = "key'[n * 3 := byte_of ?v 0, n * 3 + 1 := byte_of ?v (Suc 0), n * 3 + 2 := byte_of ?v 2]"
  have len: "length (blk m n) = 4" using m Suc.prems by (simp add: blk_def)
  have sg: "sign_bit ?v = (if b64_block (blk m n) then 0 else 1)"
    using sign_bit_eq [OF decode_base64_range [OF len]] decode_base64_nonneg [OF len] by auto
  have rd: "rd_block m (n * 4) 4 = Some (blk m n)" using m Suc.prems by (simp add: blk_def)
  have "from_base64_step m (r, key') n = Some (Inr (r OR sign_bit ?v, ?key))" for r
    by (simp add: from_base64_step_def rd byte_of_simps Let_def)
  then have "c_for (from_base64_step m) (0, key) [0..<Suc n] =
      Some (Inr (if \<forall>i<Suc n. b64_block (blk m i) then 0 else 1, ?key))"
    using k(1) sg by (auto simp: c_for_append less_Suc_eq)
  moreover have "\<forall>i<Suc n. ?key ! (i * 3) = byte_of (decode_base64 (blk m i)) 0 \<and>
      ?key ! (i * 3 + 1) = byte_of (decode_base64 (blk m i)) (Suc 0) \<and>
      ?key ! (i * 3 + 2) = byte_of (decode_base64 (blk m i)) 2"
    using old k(2) Suc.prems by (auto simp: less_Suc_eq nth_list_update)
  ultimately show ?case using k(2) by (intro exI [of _ ?key]) simp
qed

section \<open>The whole codec\<close>

lemma key_text_blocks:
  assumes "length t = 44" "t ! 43 = CHR ''=''"
  defines "m \<equiv> t @ [CHR 0x00]"
  defines "src \<equiv> take 3 (drop 40 m) @ ''A''"
  shows "key_text t \<longleftrightarrow> (\<forall>i<10. b64_block (blk m i)) \<and> b64_block src \<and> decode_base64 src mod 256 = 0"
proof -
  have src: "src = [t ! 40, t ! 41, t ! 42, CHR ''A'']"
    using assms by (simp add: take_Suc_conv_app_nth numeral_eq_Suc nth_append)
  have A: "b64_char CHR ''A''" "b64_value CHR ''A'' = 0" by code_simp+
  have m: "length m = 45" using assms by simp
  have blks: "(\<forall>i<10. b64_block (blk m i)) \<longleftrightarrow> (\<forall>k<40. b64_char (t ! k))"
  proof
    assume *: "\<forall>i<10. b64_block (blk m i)"
    show "\<forall>k<40. b64_char (t ! k)"
    proof (intro allI impI)
      fix k :: nat assume k: "k < 40"
      then have "k div 4 < 10" by simp
      then have "b64_block (blk m (k div 4))" using * by blast
      then have "b64_char (blk m (k div 4) ! (k mod 4))" by (simp add: b64_block_def)
      then show "b64_char (t ! k)" using blk_nth [OF m k] k assms(1) by (simp add: m_def nth_append)
    qed
  next
    assume *: "\<forall>k<40. b64_char (t ! k)"
    show "\<forall>i<10. b64_block (blk m i)"
      using * assms(1) unfolding b64_block_def blk_def m_def
      by (auto simp: all_set_conv_all_nth nth_append)
  qed
  have "decode_base64 src mod 256 = 0 \<longleftrightarrow> b64_value (t ! 42) mod 4 = 0" if "b64_block src"
  proof -
    have "decode_base64 src = 64 * b64_value (t ! 42) + 256 * (b64_value (t ! 40) * 1024 + b64_value (t ! 41) * 16)"
      using that A unfolding src b64_block_def by (simp add: decode_base64_valid digits_val_def)
    then have "decode_base64 src mod 256 = 64 * b64_value (t ! 42) mod (64 * 4)" by (simp only: mod_mult_self2) simp
    then show ?thesis by (simp only: mult_mod_right [symmetric]) simp
  qed
  moreover have "b64_block src \<longleftrightarrow> b64_char (t ! 40) \<and> b64_char (t ! 41) \<and> b64_char (t ! 42)"
    using A by (simp add: src b64_block_def)
  moreover have "(\<forall>i<42. b64_char (t ! i)) \<longleftrightarrow> (\<forall>k<40. b64_char (t ! k)) \<and> b64_char (t ! 40) \<and> b64_char (t ! 41)"
    by (simp add: numeral_eq_Suc less_Suc_eq_le le_Suc_eq all_conj_distrib conj_ac)
  ultimately show ?thesis
    using blks assms(1,2) unfolding key_text_def b64_last_digit by auto
qed

text \<open>What decoding computes on a text of 44 characters with its padding.\<close>

lemma or_nonzero_u8: "(x OR y = 0) \<longleftrightarrow> x = 0 \<and> y = (0 :: u8)"
  by (rule or_eq_0_iff)

lemma errno_of_ret: "EINVAL AND NOT (drop_bit 8 (uint (r :: u8) - 1)) = (if r = 0 then 0 else EINVAL)"
proof (cases "r = 0")
  case True
  then show ?thesis by (simp add: EINVAL_def)
next
  case False
  then have "uint r \<noteq> 0" by (simp add: uint_0_iff)
  then have "0 < uint r" using u8_range(1) [of r] by linarith
  then have "drop_bit 8 (uint r - 1) = 0"
    using u8_range [of r] by (simp add: drop_bit_eq_div div_pos_pos_trivial)
  then show ?thesis using False by (simp add: EINVAL_def)
qed

lemma from_base64_padded:
  assumes t: "length t = 44" "t ! 43 = CHR ''=''" "CHR 0x00 \<notin> set t" and key: "length key = 32"
  shows "\<exists>key'. wg_key_from_base64 key (t @ [CHR 0x00]) = Some (if key_text t then 0 else - EINVAL, key') \<and>
    length key' = 32 \<and> (key_text t \<longrightarrow> wg_key_to_base64 key' = t @ [CHR 0x00])"
proof -
  let ?m = "t @ [CHR 0x00]"
  let ?src = "take 3 (drop 40 ?m) @ ''A''"
  let ?v = "decode_base64 ?src"
  have m: "length ?m = 45" and n: "c_strlen ?m = Some 44"
    using t by (simp_all add: c_strlen_no_nul)
  obtain k1 where loop: "c_for (from_base64_step ?m) (0, key) [0..<10] =
      Some (Inr (if \<forall>i<10. b64_block (blk ?m i) then 0 else 1, k1))" and k1: "length k1 = 32"
    and bytes: "\<forall>i<10. k1 ! (i * 3) = byte_of (decode_base64 (blk ?m i)) 0 \<and>
      k1 ! (i * 3 + 1) = byte_of (decode_base64 (blk ?m i)) (Suc 0) \<and>
      k1 ! (i * 3 + 2) = byte_of (decode_base64 (blk ?m i)) 2"
    using from_base64_loop [OF m key, of 10] by auto
  let ?k = "k1[30 := byte_of ?v 0, 31 := byte_of ?v (Suc 0)]"
  let ?ret = "(if \<forall>i<10. b64_block (blk ?m i) then 0 else 1) OR (sign_bit ?v OR word_of_int (?v AND 255)) :: u8"
  have src4: "length ?src = 4" using t by simp
  have "sign_bit ?v = 0 \<longleftrightarrow> b64_block ?src"
    using sign_bit_eq [OF decode_base64_range [OF src4]] decode_base64_nonneg [OF src4] by auto
  moreover have "word_of_int (?v AND 255) = (0 :: u8) \<longleftrightarrow> ?v mod 256 = 0"
    by (simp add: word_uint_eq_iff uint_word_of_int mask255)
  ultimately have ret: "?ret = 0 \<longleftrightarrow> key_text t"
    using key_text_blocks [OF t(1,2)] by (auto simp: or_nonzero_u8)
  have run: "wg_key_from_base64 key ?m = Some (- (EINVAL AND NOT (drop_bit 8 (uint ?ret - 1))), ?k)"
    using n t m loop by (simp add: wg_key_from_base64_def rd_block_def byte_of_simps nth_append Let_def)
  have "wg_key_to_base64 ?k = ?m" if kt: "key_text t"
  proof (rule key_text_ext)
    have ok: "\<forall>i<10. b64_block (blk ?m i)" "b64_block ?src" "?v mod 256 = 0"
      using kt key_text_blocks [OF t(1,2)] by auto
    show "\<forall>i<10. blk (wg_key_to_base64 ?k) i = blk ?m i"
      using bytes ok(1) by (auto simp: wg_key_to_base64_parts enc_at_def encode_bytes)
    have "byte_of ?v 2 = 0" using ok(3) by (simp add: byte_of_def mask255)
    then have "encode_base64 (byte_of ?v 0) (byte_of ?v (Suc 0)) 0 = ?src" using encode_bytes [OF ok(2)] by simp
    then show "take 3 (drop 40 (wg_key_to_base64 ?k)) = take 3 (drop 40 ?m)"
      using k1 t by (simp add: wg_key_to_base64_parts)
  qed (use t wg_key_to_base64_parts m in \<open>auto simp: nth_append\<close>)
  then show ?thesis using run k1 ret by (intro exI [of _ ?k]) (simp add: errno_of_ret)
qed

text \<open>Other texts are refused before the buffer is touched.\<close>

lemma from_base64_unpadded:
  assumes "length t \<noteq> 44 \<or> t ! 43 \<noteq> CHR ''=''" "CHR 0x00 \<notin> set t"
  shows "wg_key_from_base64 key (t @ [CHR 0x00]) = Some (- EINVAL, key)" "\<not> key_text t"
proof -
  have "c_strlen (t @ [CHR 0x00]) = Some (length t)"
    using assms(2) by (rule c_strlen_no_nul)
  then show "wg_key_from_base64 key (t @ [CHR 0x00]) = Some (- EINVAL, key)"
    using assms(1) by (auto simp: wg_key_from_base64_def nth_append)
  show "\<not> key_text t" using assms(1) by (auto simp: key_text_def)
qed

lemma from_base64_total:
  assumes "CHR 0x00 \<notin> set t" "length key = 32"
  shows "\<exists>key'. wg_key_from_base64 key (t @ [CHR 0x00]) = Some (if key_text t then 0 else - EINVAL, key') \<and>
    length key' = 32 \<and> (key_text t \<longrightarrow> wg_key_to_base64 key' = t @ [CHR 0x00])"
proof (cases "length t \<noteq> 44 \<or> t ! 43 \<noteq> CHR ''=''")
  case True
  then show ?thesis using from_base64_unpadded(1) [OF True assms(1)] from_base64_unpadded(2) [OF True assms(1)] assms(2) by simp
next
  case False
  then show ?thesis using from_base64_padded [of t key] assms by blast
qed

definition key_of_text :: "cmem \<Rightarrow> wg_key" where
  "key_of_text m = (case wg_key_from_base64 (replicate 32 0) m of Some (r, key) \<Rightarrow> key | None \<Rightarrow> [])"

definition key_string :: "cmem \<Rightarrow> bool" where
  "key_string m \<longleftrightarrow> (\<exists>t. m = t @ [CHR 0x00] \<and> CHR 0x00 \<notin> set t \<and> key_text t)"

lemma b64_char_not_nul [simp]: "\<not> b64_char CHR 0x00"
  by code_simp

lemma block_no_nul: "b64_block t \<Longrightarrow> CHR 0x00 \<notin> set t"
  by (auto simp: b64_block_def)

lemma wg_key_to_base64_string: "key_string (wg_key_to_base64 key)"
proof -
  let ?m = "wg_key_to_base64 key"
  let ?t = "take 44 ?m"
  let ?e = "encode_base64 (key ! 30) (key ! 31) 0"
  note parts = wg_key_to_base64_parts [where key = key]
  have t: "?m = ?t @ [CHR 0x00]"
    using parts(1,5) take_Suc_conv_app_nth [of 44 ?m] by (simp add: numeral_eq_Suc)
  have len: "length ?t = 44" "?t ! 43 = CHR ''=''" using parts by simp_all
  have blks: "\<forall>i<10. b64_block (blk ?m i)" using parts(2) decode_encode(2) by (simp add: enc_at_def)
  have e3: "?e ! 3 = CHR ''A''"
  proof -
    have "b64_digit 0 = CHR ''A''" by code_simp
    then show ?thesis by (simp add: encode_base64_def)
  qed
  have src: "take 3 (drop 40 ?m) @ ''A'' = ?e"
    by (rule block_ext) (use e3 in \<open>simp_all add: parts nth_append\<close>)
  have val: "decode_base64 ?e mod 256 = 0" by (simp add: decode_encode block_val_mod)
  have "key_text ?t"
    using key_text_blocks [OF len] t blks src val decode_encode(2) by (metis (no_types))
  moreover have "CHR 0x00 \<notin> set ?t"
  proof
    assume "CHR 0x00 \<in> set ?t"
    then obtain k where k: "k < 44" "?t ! k = CHR 0x00" using len by (auto simp: in_set_conv_nth)
    have kt: "\<forall>i<42. b64_char (?t ! i)" "?t ! 42 \<in> set ''AEIMQUYcgkosw480''"
      using \<open>key_text ?t\<close> by (auto simp: key_text_def)
    have "k < 42 \<or> k = 42 \<or> k = 43" using k(1) by arith
    then show False using k kt len b64_last_digit [of "?t ! 42"] by auto
  qed
  ultimately show ?thesis using t unfolding key_string_def by blast
qed

text \<open>The codec of keys, from the laws of its blocks.\<close>

interpretation key_code: codec wg_key_to_base64 key_of_text "\<lambda>key. length key = 32" key_string
proof
  fix m assume "key_string m"
  then obtain t where t: "m = t @ [CHR 0x00]" "CHR 0x00 \<notin> set t" "key_text t" by (auto simp: key_string_def)
  then show "wg_key_to_base64 (key_of_text m) = m" "length (key_of_text m) = 32"
    using from_base64_total [OF t(2), of "replicate 32 0"] by (auto simp: key_of_text_def)
next
  fix key :: wg_key assume key: "length key = 32"
  show "key_string (wg_key_to_base64 key)" by (rule wg_key_to_base64_string)
  then obtain t where t: "wg_key_to_base64 key = t @ [CHR 0x00]" "CHR 0x00 \<notin> set t" "key_text t"
    by (auto simp: key_string_def)
  then obtain k' where "key_of_text (wg_key_to_base64 key) = k'" "length k' = 32" "wg_key_to_base64 k' = t @ [CHR 0x00]"
    using from_base64_total [OF t(2), of "replicate 32 0"] by (auto simp: key_of_text_def)
  then show "key_of_text (wg_key_to_base64 key) = key"
    using wg_key_to_base64_inject [of k' key] key t(1) by simp
qed

section \<open>The zero key\<close>

lemma fold_or_zero: "fold (\<lambda>i acc. acc OR key ! i) is acc = (0 :: u8) \<longleftrightarrow> acc = 0 \<and> (\<forall>i\<in>set is. key ! i = 0)"
  by (induction "is" arbitrary: acc) (auto simp: or_nonzero_u8)

lemma is_zero_bit: "1 AND drop_bit 8 (uint (r :: u8) - 1) \<noteq> 0 \<longleftrightarrow> r = 0"
proof (cases "r = 0")
  case False
  then have "uint r \<noteq> 0" by (simp add: uint_0_iff)
  then have "0 < uint r" using u8_range(1) [of r] by linarith
  then have "drop_bit 8 (uint r - 1) = 0"
    using u8_range [of r] by (simp add: drop_bit_eq_div div_pos_pos_trivial)
  then show ?thesis using False by simp
qed simp

section \<open>Properties\<close>

text \<open>Claim C14: a key survives the trip through its text: decoding what \<open>wg_key_to_base64\<close> writes
  succeeds and fills any buffer with the same 32 bytes.\<close>

theorem wg_key_base64_roundtrip:
  assumes "length key = 32" "length buf = 32"
  shows "wg_key_from_base64 buf (wg_key_to_base64 key) = Some (0, key)"
proof -
  obtain t where t: "wg_key_to_base64 key = t @ [CHR 0x00]" "CHR 0x00 \<notin> set t" "key_text t"
    using wg_key_to_base64_string [of key] by (auto simp: key_string_def)
  then obtain k' where "wg_key_from_base64 buf (wg_key_to_base64 key) = Some (0, k')" "length k' = 32"
    "wg_key_to_base64 k' = wg_key_to_base64 key" using from_base64_total [OF t(2) assms(2)] by auto
  then show ?thesis using key_code.enc_inject [of k' key] assms(1) by simp
qed

lemma wg_key_base64_roundtrip_witness:
  "length (map of_nat [0..<32] :: wg_key) = 32 \<and> length (replicate 32 0 :: wg_key) = 32 \<and>
   wg_key_from_base64 (replicate 32 0) (wg_key_to_base64 (map of_nat [0..<32])) = Some (0, map of_nat [0..<32])"
  using wg_key_base64_roundtrip [of "map of_nat [0..<32]" "replicate 32 0"] by simp

text \<open>Claim C15: \<open>wg_key_from_base64\<close> never reads outside its text; it returns 0 or \<open>-EINVAL\<close>, and 0
  exactly for the texts that encode a key, whose only canonical encoding they are.\<close>

theorem wg_key_from_base64_canonical:
  assumes "CHR 0x00 \<notin> set t" "length buf = 32"
  shows "\<exists>r key. wg_key_from_base64 buf (t @ [CHR 0x00]) = Some (r, key) \<and> length key = 32 \<and>
    (r = 0 \<or> r = - EINVAL) \<and> (r = 0 \<longleftrightarrow> (\<exists>k. length k = 32 \<and> wg_key_to_base64 k = t @ [CHR 0x00])) \<and>
    (r = 0 \<longrightarrow> wg_key_to_base64 key = t @ [CHR 0x00])"
proof -
  obtain key where key: "wg_key_from_base64 buf (t @ [CHR 0x00]) = Some (if key_text t then 0 else - EINVAL, key)"
    "length key = 32" "key_text t \<longrightarrow> wg_key_to_base64 key = t @ [CHR 0x00]"
    using from_base64_total [OF assms] by blast
  have "key_text t \<longleftrightarrow> (\<exists>k. length k = 32 \<and> wg_key_to_base64 k = t @ [CHR 0x00])"
    using key_code.img_iff [of "t @ [CHR 0x00]"] assms(1) by (auto simp: key_string_def)
  moreover have "EINVAL \<noteq> 0" by (simp add: EINVAL_def)
  ultimately show ?thesis using key by (intro exI [of _ "if key_text t then 0 else - EINVAL"] exI [of _ key]) auto
qed

lemma wg_key_from_base64_canonical_witness:
  "CHR 0x00 \<notin> set ''AAAA'' \<and> length (replicate 32 0 :: wg_key) = 32 \<and>
   (\<exists>r key. wg_key_from_base64 (replicate 32 0) (''AAAA'' @ [CHR 0x00]) = Some (r, key) \<and> length key = 32 \<and>
    (r = 0 \<or> r = - EINVAL) \<and> (r = 0 \<longleftrightarrow> (\<exists>k. length k = 32 \<and> wg_key_to_base64 k = ''AAAA'' @ [CHR 0x00])) \<and>
    (r = 0 \<longrightarrow> wg_key_to_base64 key = ''AAAA'' @ [CHR 0x00]))"
proof -
  have "CHR 0x00 \<notin> set ''AAAA''" "length (replicate 32 0 :: wg_key) = 32" by simp_all
  with wg_key_from_base64_canonical show ?thesis by blast
qed

text \<open>Claim C27: the highlighter and the library agree on keys: \<open>is_valid_key\<close> accepts a span exactly
  when \<open>wg_key_from_base64\<close> decodes its text without an error.\<close>

theorem is_valid_key_agrees:
  assumes "span_ok m s" "CHR 0x00 \<notin> set (span_str m s)" "length buf = 32"
  shows "is_valid_key m s =
    map_option (\<lambda>(r, key). r = 0) (wg_key_from_base64 buf (span_str m s @ [CHR 0x00]))"
  using key.refines [OF assms(1)] from_base64_total [OF assms(2,3)] by (auto simp: EINVAL_def)

lemma is_valid_key_agrees_witness:
  "span_ok ''AAAA= '' \<lparr>sp_s = 0, sp_len = 5\<rparr> \<and> CHR 0x00 \<notin> set (span_str ''AAAA= '' \<lparr>sp_s = 0, sp_len = 5\<rparr>) \<and>
   length (replicate 32 0 :: wg_key) = 32 \<and>
   is_valid_key ''AAAA= '' \<lparr>sp_s = 0, sp_len = 5\<rparr> =
     map_option (\<lambda>(r, key). r = 0)
       (wg_key_from_base64 (replicate 32 0) (span_str ''AAAA= '' \<lparr>sp_s = 0, sp_len = 5\<rparr> @ [CHR 0x00]))"
proof -
  have "span_ok ''AAAA= '' \<lparr>sp_s = 0, sp_len = 5\<rparr>" "CHR 0x00 \<notin> set (span_str ''AAAA= '' \<lparr>sp_s = 0, sp_len = 5\<rparr>)"
    "length (replicate 32 0 :: wg_key) = 32"
    by (simp_all add: span_ok_def span_str_def)
  with is_valid_key_agrees show ?thesis by blast
qed

text \<open>\<open>wg_key_is_zero\<close> holds exactly for the key of 32 zero bytes.\<close>

lemma wg_key_is_zero_iff:
  assumes "length key = 32"
  shows "wg_key_is_zero key \<longleftrightarrow> key = replicate 32 0"
proof -
  have "wg_key_is_zero key \<longleftrightarrow> (\<forall>i\<in>set [0..<32]. key ! i = 0)"
    unfolding wg_key_is_zero_def Let_def is_zero_bit fold_or_zero by simp
  then show ?thesis using assms by (auto simp: list_eq_iff_nth_eq)
qed

lemma wg_key_is_zero_iff_witness:
  "length (replicate 31 0 @ [1] :: wg_key) = 32 \<and>
   (wg_key_is_zero (replicate 31 0 @ [1]) \<longleftrightarrow> replicate 31 0 @ [1] = (replicate 32 0 :: wg_key))"
  using wg_key_is_zero_iff [of "replicate 31 0 @ [1]"] by simp

end
