(* ===== verification/Wg_Device.thy ===== *)
theory Wg_Device
  imports Netlink_Socket Base64
begin

text \<open>
  Devices, peers and allowed addresses of \<open>wireguard.h\<close> and how \<open>wireguard.c\<close> reads them from
  the messages of the kernel. A linked list is a list; next to it a flag tells whether the
  \<open>last\<close> pointer of the structure is set. \<open>wp_addr\<close> stands for the address of a peer, so that
  dangling pointers can be talked about. Allocations succeed as long as the budget lasts.
\<close>

section \<open>Data\<close>

record wg_allowedip =
  ai_family :: u16
  ai_ip :: "u8 list"
  ai_cidr :: u8

record wg_peer =
  wp_addr :: nat
  wp_flags :: u32
  wp_public_key :: wg_key
  wp_preshared_key :: wg_key
  wp_endpoint :: "u8 list"
  wp_last_handshake_time :: "u8 list"
  wp_rx_bytes :: u64
  wp_tx_bytes :: u64
  wp_persistent_keepalive_interval :: u16
  wp_allowedips :: "wg_allowedip list"
  wp_last_allowedip :: bool

record wg_device =
  wd_name :: "u8 list"
  wd_ifindex :: u32
  wd_flags :: u32
  wd_public_key :: wg_key
  wd_private_key :: wg_key
  wd_fwmark :: u32
  wd_listen_port :: u16
  wd_peers :: "wg_peer list"
  wd_last_peer :: "nat option"

text \<open>Structures come from \<open>calloc\<close>.\<close>

definition zero_allowedip :: wg_allowedip where
  "zero_allowedip = \<lparr>ai_family = 0, ai_ip = replicate 16 0, ai_cidr = 0\<rparr>"

definition zero_peer :: "nat \<Rightarrow> wg_peer" where
  "zero_peer addr = \<lparr>wp_addr = addr, wp_flags = 0, wp_public_key = replicate 32 0, wp_preshared_key = replicate 32 0,
     wp_endpoint = replicate 28 0, wp_last_handshake_time = replicate 16 0, wp_rx_bytes = 0, wp_tx_bytes = 0,
     wp_persistent_keepalive_interval = 0, wp_allowedips = [], wp_last_allowedip = False\<rparr>"

definition zero_device :: wg_device where
  "zero_device = \<lparr>wd_name = replicate 16 0, wd_ifindex = 0, wd_flags = 0, wd_public_key = replicate 32 0,
     wd_private_key = replicate 32 0, wd_fwmark = 0, wd_listen_port = 0, wd_peers = [], wd_last_peer = None\<rparr>"

definition WGPEER_REMOVE_ME :: u32 where "WGPEER_REMOVE_ME = 1"
definition WGPEER_REPLACE_ALLOWEDIPS :: u32 where "WGPEER_REPLACE_ALLOWEDIPS = 2"
definition WGPEER_HAS_PUBLIC_KEY :: u32 where "WGPEER_HAS_PUBLIC_KEY = 4"
definition WGPEER_HAS_PRESHARED_KEY :: u32 where "WGPEER_HAS_PRESHARED_KEY = 8"
definition WGPEER_HAS_PERSISTENT_KEEPALIVE_INTERVAL :: u32 where "WGPEER_HAS_PERSISTENT_KEEPALIVE_INTERVAL = 16"

definition WGDEVICE_REPLACE_PEERS :: u32 where "WGDEVICE_REPLACE_PEERS = 1"
definition WGDEVICE_HAS_PRIVATE_KEY :: u32 where "WGDEVICE_HAS_PRIVATE_KEY = 2"
definition WGDEVICE_HAS_PUBLIC_KEY :: u32 where "WGDEVICE_HAS_PUBLIC_KEY = 4"
definition WGDEVICE_HAS_LISTEN_PORT :: u32 where "WGDEVICE_HAS_LISTEN_PORT = 8"
definition WGDEVICE_HAS_FWMARK :: u32 where "WGDEVICE_HAS_FWMARK = 16"

text \<open>The attribute numbers of the netlink interface.\<close>

definition WGDEVICE_A_IFINDEX :: nat where "WGDEVICE_A_IFINDEX = 1"
definition WGDEVICE_A_IFNAME :: nat where "WGDEVICE_A_IFNAME = 2"
definition WGDEVICE_A_PRIVATE_KEY :: nat where "WGDEVICE_A_PRIVATE_KEY = 3"
definition WGDEVICE_A_PUBLIC_KEY :: nat where "WGDEVICE_A_PUBLIC_KEY = 4"
definition WGDEVICE_A_FLAGS :: nat where "WGDEVICE_A_FLAGS = 5"
definition WGDEVICE_A_LISTEN_PORT :: nat where "WGDEVICE_A_LISTEN_PORT = 6"
definition WGDEVICE_A_FWMARK :: nat where "WGDEVICE_A_FWMARK = 7"
definition WGDEVICE_A_PEERS :: nat where "WGDEVICE_A_PEERS = 8"

definition WGPEER_A_PUBLIC_KEY :: nat where "WGPEER_A_PUBLIC_KEY = 1"
definition WGPEER_A_PRESHARED_KEY :: nat where "WGPEER_A_PRESHARED_KEY = 2"
definition WGPEER_A_FLAGS :: nat where "WGPEER_A_FLAGS = 3"
definition WGPEER_A_ENDPOINT :: nat where "WGPEER_A_ENDPOINT = 4"
definition WGPEER_A_PERSISTENT_KEEPALIVE_INTERVAL :: nat where "WGPEER_A_PERSISTENT_KEEPALIVE_INTERVAL = 5"
definition WGPEER_A_LAST_HANDSHAKE_TIME :: nat where "WGPEER_A_LAST_HANDSHAKE_TIME = 6"
definition WGPEER_A_RX_BYTES :: nat where "WGPEER_A_RX_BYTES = 7"
definition WGPEER_A_TX_BYTES :: nat where "WGPEER_A_TX_BYTES = 8"
definition WGPEER_A_ALLOWEDIPS :: nat where "WGPEER_A_ALLOWEDIPS = 9"

definition WGALLOWEDIP_A_FAMILY :: nat where "WGALLOWEDIP_A_FAMILY = 1"
definition WGALLOWEDIP_A_IPADDR :: nat where "WGALLOWEDIP_A_IPADDR = 2"
definition WGALLOWEDIP_A_CIDR_MASK :: nat where "WGALLOWEDIP_A_CIDR_MASK = 3"

lemmas wg_attrs =
  WGDEVICE_A_IFINDEX_def WGDEVICE_A_IFNAME_def WGDEVICE_A_PRIVATE_KEY_def WGDEVICE_A_PUBLIC_KEY_def
  WGDEVICE_A_FLAGS_def WGDEVICE_A_LISTEN_PORT_def WGDEVICE_A_FWMARK_def WGDEVICE_A_PEERS_def
  WGPEER_A_PUBLIC_KEY_def WGPEER_A_PRESHARED_KEY_def WGPEER_A_FLAGS_def WGPEER_A_ENDPOINT_def
  WGPEER_A_PERSISTENT_KEEPALIVE_INTERVAL_def WGPEER_A_LAST_HANDSHAKE_TIME_def WGPEER_A_RX_BYTES_def
  WGPEER_A_TX_BYTES_def WGPEER_A_ALLOWEDIPS_def WGALLOWEDIP_A_FAMILY_def WGALLOWEDIP_A_IPADDR_def
  WGALLOWEDIP_A_CIDR_MASK_def

definition AF_INET :: u16 where "AF_INET = 2"
definition AF_INET6 :: u16 where "AF_INET6 = 10"
definition EAFNOSUPPORT :: int where "EAFNOSUPPORT = 97"
definition ENXIO :: int where "ENXIO = 6"

section \<open>Parsing\<close>

text \<open>The data is updated when the attribute is valid; an invalid one only sets \<open>errno\<close>.\<close>

definition when_valid ::
  "nlbuf \<Rightarrow> nat \<Rightarrow> mnl_attr_data_type \<Rightarrow> 's option \<Rightarrow> int \<times> 's \<Rightarrow> (int \<times> int \<times> 's) option" where
  "when_valid mem attr type upd st = do {
     v \<leftarrow> mnl_attr_validate mem attr type;
     case v of
       Inl e \<Rightarrow> Some (1, e, snd st)
     | Inr _ \<Rightarrow> do { x \<leftarrow> upd; Some (1, fst st, x) } }"

text \<open>The payload replaces the first bytes of a field when it has the given size.\<close>

definition copy_payload :: "nlbuf \<Rightarrow> nat \<Rightarrow> nat \<Rightarrow> u8 list \<Rightarrow> u8 list option" where
  "copy_payload mem attr n old = do {
     bytes \<leftarrow> rd_block mem (mnl_attr_get_payload attr) n;
     Some (bytes @ drop n old) }"

definition parse_allowedip :: "nlbuf \<Rightarrow> nat \<Rightarrow> int \<times> wg_allowedip \<Rightarrow> (int \<times> int \<times> wg_allowedip) option" where
  "parse_allowedip mem attr st = do {
     let (errno, a) = st;
     t \<leftarrow> mnl_attr_get_type mem attr;
     if t = WGALLOWEDIP_A_FAMILY then
       when_valid mem attr MNL_TYPE_U16 (do { x \<leftarrow> mnl_attr_get_u16 mem attr; Some (a\<lparr>ai_family := x\<rparr>) }) st
     else if t = WGALLOWEDIP_A_IPADDR then do {
       n \<leftarrow> mnl_attr_get_payload_len mem attr;
       if n = 4 then do { ip \<leftarrow> copy_payload mem attr 4 (ai_ip a); Some (1, errno, a\<lparr>ai_ip := ip\<rparr>) }
       else if n = 16 then do { ip \<leftarrow> copy_payload mem attr 16 (ai_ip a); Some (1, errno, a\<lparr>ai_ip := ip\<rparr>) }
       else Some (1, st) }
     else if t = WGALLOWEDIP_A_CIDR_MASK then
       when_valid mem attr MNL_TYPE_U8 (do { x \<leftarrow> mnl_attr_get_u8 mem attr; Some (a\<lparr>ai_cidr := x\<rparr>) }) st
     else Some (1, st) }"

text \<open>The data of the remaining callbacks are the allocation budget and the structure.\<close>

definition parse_allowedips :: "nlbuf \<Rightarrow> nat \<Rightarrow> int \<times> nat \<times> wg_peer \<Rightarrow> (int \<times> int \<times> nat \<times> wg_peer) option" where
  "parse_allowedips mem attr st = (case st of (errno, budget, peer) \<Rightarrow>
     if budget = 0 then Some (- 1, ENOMEM, budget, peer)
     else do {
       (ret, errno, new) \<leftarrow> mnl_attr_parse_nested mem attr (parse_allowedip mem) (errno, zero_allowedip);
       let st = (budget - 1, peer\<lparr>wp_allowedips := wp_allowedips peer @ [new], wp_last_allowedip := True\<rparr>);
       if ret = 0 then Some (ret, errno, st)
       else if \<not> (ai_family new = AF_INET \<and> ai_cidr new \<le> 32 \<or> ai_family new = AF_INET6 \<and> ai_cidr new \<le> 128)
       then Some (- 1, EAFNOSUPPORT, st)
       else Some (1, errno, st) })"

definition parse_peer :: "nlbuf \<Rightarrow> nat \<Rightarrow> int \<times> nat \<times> wg_peer \<Rightarrow> (int \<times> int \<times> nat \<times> wg_peer) option" where
  "parse_peer mem attr st = do {
     let (errno, budget, peer) = st;
     let set_peer = (\<lambda>upd. do { p \<leftarrow> upd; Some (1, errno, budget, p) });
     let valid = (\<lambda>type upd. when_valid mem attr type (do { p \<leftarrow> upd; Some (budget, p) }) st);
     t \<leftarrow> mnl_attr_get_type mem attr;
     n \<leftarrow> mnl_attr_get_payload_len mem attr;
     if t = WGPEER_A_PUBLIC_KEY then
       (if n = 32 then set_peer (do {
          key \<leftarrow> copy_payload mem attr 32 (wp_public_key peer);
          Some (peer\<lparr>wp_public_key := key, wp_flags := wp_flags peer OR WGPEER_HAS_PUBLIC_KEY\<rparr>) })
        else Some (1, st))
     else if t = WGPEER_A_PRESHARED_KEY then
       (if n = 32 then set_peer (do {
          key \<leftarrow> copy_payload mem attr 32 (wp_preshared_key peer);
          Some (if wg_key_is_zero key then peer\<lparr>wp_preshared_key := key\<rparr>
                else peer\<lparr>wp_preshared_key := key, wp_flags := wp_flags peer OR WGPEER_HAS_PRESHARED_KEY\<rparr>) })
        else Some (1, st))
     else if t = WGPEER_A_ENDPOINT then
       (if n < 16 then Some (1, st)
        else do {
          family \<leftarrow> mnl_attr_get_u16 mem attr;
          if family = AF_INET \<and> n = 16 then set_peer (do {
            e \<leftarrow> copy_payload mem attr 16 (wp_endpoint peer); Some (peer\<lparr>wp_endpoint := e\<rparr>) })
          else if family = AF_INET6 \<and> n = 28 then set_peer (do {
            e \<leftarrow> copy_payload mem attr 28 (wp_endpoint peer); Some (peer\<lparr>wp_endpoint := e\<rparr>) })
          else Some (1, st) })
     else if t = WGPEER_A_PERSISTENT_KEEPALIVE_INTERVAL then
       valid MNL_TYPE_U16 (do { x \<leftarrow> mnl_attr_get_u16 mem attr; Some (peer\<lparr>wp_persistent_keepalive_interval := x\<rparr>) })
     else if t = WGPEER_A_LAST_HANDSHAKE_TIME then
       (if n = 16 then set_peer (do {
          x \<leftarrow> copy_payload mem attr 16 (wp_last_handshake_time peer); Some (peer\<lparr>wp_last_handshake_time := x\<rparr>) })
        else Some (1, st))
     else if t = WGPEER_A_RX_BYTES then
       valid MNL_TYPE_U64 (do { x \<leftarrow> mnl_attr_get_u64 mem attr; Some (peer\<lparr>wp_rx_bytes := x\<rparr>) })
     else if t = WGPEER_A_TX_BYTES then
       valid MNL_TYPE_U64 (do { x \<leftarrow> mnl_attr_get_u64 mem attr; Some (peer\<lparr>wp_tx_bytes := x\<rparr>) })
     else if t = WGPEER_A_ALLOWEDIPS then
       mnl_attr_parse_nested mem attr (parse_allowedips mem) st
     else Some (1, st) }"

text \<open>The new peer joins the list before its attributes are read and stays in it on errors.\<close>

definition parse_peers :: "nlbuf \<Rightarrow> nat \<Rightarrow> int \<times> nat \<times> wg_device \<Rightarrow> (int \<times> int \<times> nat \<times> wg_device) option" where
  "parse_peers mem attr st = (case st of (errno, budget, device) \<Rightarrow>
     if budget = 0 then Some (- 1, ENOMEM, budget, device)
     else do {
       let addr = length (wd_peers device);
       (ret, errno, budget, new) \<leftarrow> mnl_attr_parse_nested mem attr (parse_peer mem) (errno, budget - 1, zero_peer addr);
       let st = (budget, device\<lparr>wd_peers := wd_peers device @ [new], wd_last_peer := Some addr\<rparr>);
       if ret = 0 then Some (ret, errno, st)
       else if wp_flags new AND WGPEER_HAS_PUBLIC_KEY = 0 then Some (- 1, ENXIO, st)
       else Some (1, errno, st) })"

primrec c_strncpy :: "nlbuf \<Rightarrow> nat \<Rightarrow> nat \<Rightarrow> u8 list option" where
  "c_strncpy mem off 0 = Some []"
| "c_strncpy mem off (Suc n) = do {
     c \<leftarrow> rd mem off;
     if c = 0 then Some (replicate (Suc n) 0)
     else do { cs \<leftarrow> c_strncpy mem (off + 1) n; Some (c # cs) } }"

definition parse_device :: "nlbuf \<Rightarrow> nat \<Rightarrow> int \<times> nat \<times> wg_device \<Rightarrow> (int \<times> int \<times> nat \<times> wg_device) option" where
  "parse_device mem attr st = do {
     let (errno, budget, device) = st;
     let set_device = (\<lambda>upd. do { d \<leftarrow> upd; Some (1, errno, budget, d) });
     let valid = (\<lambda>type upd. when_valid mem attr type (do { d \<leftarrow> upd; Some (budget, d) }) st);
     t \<leftarrow> mnl_attr_get_type mem attr;
     n \<leftarrow> mnl_attr_get_payload_len mem attr;
     if t = WGDEVICE_A_IFINDEX then
       valid MNL_TYPE_U32 (do { x \<leftarrow> mnl_attr_get_u32 mem attr; Some (device\<lparr>wd_ifindex := x\<rparr>) })
     else if t = WGDEVICE_A_IFNAME then
       valid MNL_TYPE_STRING (do { s \<leftarrow> c_strncpy mem (mnl_attr_get_str attr) 15; Some (device\<lparr>wd_name := s @ [0]\<rparr>) })
     else if t = WGDEVICE_A_PRIVATE_KEY then
       (if n = 32 then set_device (do {
          key \<leftarrow> copy_payload mem attr 32 (wd_private_key device);
          Some (device\<lparr>wd_private_key := key, wd_flags := wd_flags device OR WGDEVICE_HAS_PRIVATE_KEY\<rparr>) })
        else Some (1, st))
     else if t = WGDEVICE_A_PUBLIC_KEY then
       (if n = 32 then set_device (do {
          key \<leftarrow> copy_payload mem attr 32 (wd_public_key device);
          Some (device\<lparr>wd_public_key := key, wd_flags := wd_flags device OR WGDEVICE_HAS_PUBLIC_KEY\<rparr>) })
        else Some (1, st))
     else if t = WGDEVICE_A_LISTEN_PORT then
       valid MNL_TYPE_U16 (do { x \<leftarrow> mnl_attr_get_u16 mem attr; Some (device\<lparr>wd_listen_port := x\<rparr>) })
     else if t = WGDEVICE_A_FWMARK then
       valid MNL_TYPE_U32 (do { x \<leftarrow> mnl_attr_get_u32 mem attr; Some (device\<lparr>wd_fwmark := x\<rparr>) })
     else if t = WGDEVICE_A_PEERS then
       mnl_attr_parse_nested mem attr (parse_peers mem) st
     else Some (1, st) }"

definition read_device_cb :: "nlbuf \<Rightarrow> (nat \<times> wg_device) cb" where
  "read_device_cb mem nlh st = mnl_attr_parse mem nlh 4 (parse_device mem) st"

section \<open>Peers that span messages\<close>

text \<open>
  The kernel splits a peer with many allowed addresses over several messages; consecutive peers with
  the same key are joined. The \<open>last\<close> pointer is dereferenced when the first list is not empty.
\<close>

definition merge_peer :: "wg_peer \<Rightarrow> wg_peer \<Rightarrow> wg_peer option" where
  "merge_peer peer next_peer =
     (if wp_allowedips peer = [] then
        Some (peer\<lparr>wp_allowedips := wp_allowedips next_peer, wp_last_allowedip := wp_last_allowedip next_peer\<rparr>)
      else if \<not> wp_last_allowedip peer then None
      else Some (peer\<lparr>wp_allowedips := wp_allowedips peer @ wp_allowedips next_peer,
                      wp_last_allowedip := wp_last_allowedip next_peer\<rparr>))"

fun coalesce_list :: "wg_peer list \<Rightarrow> wg_peer list option" where
  "coalesce_list (peer # next_peer # peers) =
     (if wp_public_key peer \<noteq> wp_public_key next_peer then map_option ((#) peer) (coalesce_list (next_peer # peers))
      else do { peer \<leftarrow> merge_peer peer next_peer; coalesce_list (peer # peers) })"
| "coalesce_list peers = Some peers"

definition coalesce_peers :: "wg_device \<Rightarrow> wg_device option" where
  "coalesce_peers device = do { ps \<leftarrow> coalesce_list (wd_peers device); Some (device\<lparr>wd_peers := ps\<rparr>) }"

section \<open>Reading a device\<close>

text \<open>What one attempt of \<open>wg_get_device\<close> meets in the system.\<close>

record get_env =
  ge_budget :: nat
  ge_open :: open_env
  ge_time :: nat
  ge_kernel :: "u8 list \<Rightarrow> int + recv list"

definition WG_GENL_NAME :: "u8 list" where
  "WG_GENL_NAME = [119, 105, 114, 101, 103, 117, 97, 114, 100, 0]"

text \<open>
  From \<open>try_again\<close> to \<open>out\<close>: \<open>Inl\<close> of an error number for the early returns, otherwise the
  value of \<open>ret\<close>, which a successful attempt leaves as it was, and the device.
\<close>

definition get_device_try :: "int \<Rightarrow> u8 list \<Rightarrow> get_env \<Rightarrow> (int + int \<times> wg_device) option" where
  "get_device_try ret device_name env =
     (if ge_budget env = 0 then Some (Inl ENOMEM)
      else do {
        (r, _) \<leftarrow> mnlg_socket_open (ge_open env) WG_GENL_NAME 1 {};
        case r of
          Inl e \<Rightarrow> Some (Inl e)
        | Inr nlg \<Rightarrow> do {
            buf \<leftarrow> mnlg_msg_prepare (nlg_buf nlg) 0 0x305 (unat (nlg_id nlg)) (nlg_version nlg) (ge_time env);
            buf \<leftarrow> mnl_attr_put_strz buf 0 WGDEVICE_A_IFNAME device_name;
            sent \<leftarrow> mnlg_socket_send (ge_kernel env) buf;
            case sent of
              Inl e \<Rightarrow> Some (Inr (- e, zero_device))
            | Inr replies \<Rightarrow> do {
                ((err, errno, _, device), _) \<leftarrow> mnlg_socket_recv_run (ge_time env) (nlg_portid nlg) (Some read_device_cb)
                  buf (0, ge_budget env - 1, zero_device) replies;
                if err < 0 then Some (Inr (if errno \<noteq> 0 then - errno else - EINVAL, device))
                else do { device \<leftarrow> coalesce_peers device; Some (Inr (ret, device)) } } } })"

text \<open>The attempts; \<open>ret\<close> is not reset between them. \<open>None\<close> at the end means that it goes on.\<close>

primrec get_device_loop :: "int \<Rightarrow> u8 list \<Rightarrow> get_env list \<Rightarrow> (int + wg_device) option" where
  "get_device_loop ret device_name [] = None"
| "get_device_loop ret device_name (env # envs) = do {
     r \<leftarrow> get_device_try ret device_name env;
     case r of
       Inl e \<Rightarrow> Some (Inl e)
     | Inr (ret, device) \<Rightarrow>
         if ret \<noteq> 0 then
           (if ret = - EINTR then get_device_loop ret device_name envs else Some (Inl (- ret)))
         else Some (Inr device) }"

definition wg_get_device :: "u8 list \<Rightarrow> get_env list \<Rightarrow> (int + wg_device) option" where
  "wg_get_device device_name envs = get_device_loop 0 device_name envs"

section \<open>Joining peers\<close>

text \<open>The reference: a peer takes the allowed addresses of all directly following peers with its key.\<close>

function group_peers :: "wg_peer list \<Rightarrow> wg_peer list" where
  "group_peers [] = []"
| "group_peers (p # ps) =
     (let same = takeWhile (\<lambda>q. wp_public_key q = wp_public_key p) ps in
      p\<lparr>wp_allowedips := wp_allowedips p @ concat (map wp_allowedips same),
        wp_last_allowedip := wp_last_allowedip (List.last (p # same))\<rparr>
      # group_peers (dropWhile (\<lambda>q. wp_public_key q = wp_public_key p) ps))"
  by pat_completeness auto
termination
  by (relation "measure length") (auto simp: le_imp_less_Suc length_dropWhile_le)

text \<open>
  A peer that continues the one before it has allowed addresses, and a \<open>last\<close> pointer is set
  exactly when the list is not empty.
\<close>

definition last_ok :: "wg_peer \<Rightarrow> bool" where
  "last_ok p \<longleftrightarrow> (wp_last_allowedip p \<longleftrightarrow> wp_allowedips p \<noteq> [])"

fun continued_ok :: "wg_peer list \<Rightarrow> bool" where
  "continued_ok (p # q # ps) \<longleftrightarrow>
     (wp_public_key q = wp_public_key p \<longrightarrow> wp_allowedips q \<noteq> []) \<and> continued_ok (q # ps)"
| "continued_ok _ \<longleftrightarrow> True"

lemma continued_ok_merge:
  "continued_ok (p # q # ps) \<Longrightarrow> wp_public_key q = wp_public_key p \<Longrightarrow> wp_public_key r = wp_public_key p \<Longrightarrow> continued_ok (r # ps)"
  by (cases ps) auto

lemma coalesce_list_groups:
  "\<forall>p\<in>set ps. last_ok p \<Longrightarrow> continued_ok ps \<Longrightarrow> coalesce_list ps = Some (group_peers ps)"
proof (induction ps rule: coalesce_list.induct)
  case (1 p q ps)
  show ?case
  proof (cases "wp_public_key p = wp_public_key q")
    case False
    have "coalesce_list (q # ps) = Some (group_peers (q # ps))" using 1 False by simp
    then show ?thesis using False by simp
  next
    case True
    let ?r = "p\<lparr>wp_allowedips := wp_allowedips p @ wp_allowedips q, wp_last_allowedip := wp_last_allowedip q\<rparr>"
    have q: "wp_allowedips q \<noteq> []" "last_ok p" "last_ok q" using 1 True by auto
    then have m: "merge_peer p q = Some ?r" by (auto simp: merge_peer_def last_ok_def)
    have "last_ok ?r" using q by (simp add: last_ok_def)
    moreover have "continued_ok (?r # ps)" by (rule continued_ok_merge [OF 1(4)]) (simp_all add: True)
    ultimately have "coalesce_list (?r # ps) = Some (group_peers (?r # ps))"
      using 1(2) [OF _ m] True 1(3) by simp
    moreover have "group_peers (?r # ps) = group_peers (p # q # ps)" using True by (simp add: Let_def)
    ultimately show ?thesis using True m by simp
  qed
qed simp_all

end
