(* ===== verification/Wg_Set_Device.thy ===== *)
theory Wg_Set_Device
  imports Wg_Device
begin

text \<open>
  Configuring a device (\<open>wg_set_device\<close>): the configuration is written into as many netlink
  messages as the buffer size requires. A peer whose allowed addresses do not fit is continued in
  the next message. Pointers into the lists of peers and of allowed addresses are the rests of the
  lists, the null pointer is the empty list. The model follows the labels of the C function: the
  outcome of a peer tells where its \<open>goto\<close> leads. The bound for the checked writes,
  \<open>mnl_ideal_socket_buffer_size()\<close> in the code, is the length of the buffer of the socket, which was
  allocated with this size; it is a parameter of the model.
\<close>

section \<open>Writing a peer\<close>

definition put_allowedip :: "nat \<Rightarrow> wg_allowedip \<Rightarrow> nlbuf \<Rightarrow> (nlbuf + nlbuf) option" where
  "put_allowedip buflen a mem =
     and_then (mnl_attr_put_u16_check mem 0 buflen WGALLOWEDIP_A_FAMILY (ai_family a)) (\<lambda>mem.
     and_then
       (if ai_family a = AF_INET then mnl_attr_put_check mem 0 buflen WGALLOWEDIP_A_IPADDR (take 4 (ai_ip a))
        else if ai_family a = AF_INET6 then mnl_attr_put_check mem 0 buflen WGALLOWEDIP_A_IPADDR (take 16 (ai_ip a))
        else Some (Inr mem)) (\<lambda>mem.
     mnl_attr_put_u8_check mem 0 buflen WGALLOWEDIP_A_CIDR_MASK (ai_cidr a)))"

text \<open>The loop over the allowed addresses; \<open>Inl\<close> has the addresses that did not fit.\<close>

fun put_allowedips :: "nat \<Rightarrow> wg_allowedip list \<Rightarrow> nlbuf \<Rightarrow> (nlbuf \<times> wg_allowedip list + nlbuf) option" where
  "put_allowedips buflen [] mem = Some (Inr mem)"
| "put_allowedips buflen (a # as) mem = do {
     r \<leftarrow> mnl_attr_nest_start_check mem 0 buflen 0;
     case r of
       Inl mem \<Rightarrow> Some (Inl (mem, a # as))
     | Inr (mem, allowedip_nest) \<Rightarrow> do {
         r \<leftarrow> put_allowedip buflen a mem;
         case r of
           Inl mem \<Rightarrow> do { mem \<leftarrow> mnl_attr_nest_cancel mem 0 allowedip_nest; Some (Inl (mem, a # as)) }
         | Inr mem \<Rightarrow> do { mem \<leftarrow> mnl_attr_nest_end mem 0 allowedip_nest; put_allowedips buflen as mem } } }"

definition endpoint_family :: "u8 list \<Rightarrow> u16" where
  "endpoint_family e = of_nat (le_nat (take 2 e))"

definition WGPEER_F_REMOVE_ME :: u32 where "WGPEER_F_REMOVE_ME = 1"
definition WGPEER_F_REPLACE_ALLOWEDIPS :: u32 where "WGPEER_F_REPLACE_ALLOWEDIPS = 2"
definition WGDEVICE_F_REPLACE_PEERS :: u32 where "WGDEVICE_F_REPLACE_PEERS = 1"

definition peer_flags :: "wg_peer \<Rightarrow> bool \<Rightarrow> u32" where
  "peer_flags p fresh =
     (if wp_flags p AND WGPEER_REMOVE_ME \<noteq> 0 then WGPEER_F_REMOVE_ME else 0) OR
     (if fresh \<and> wp_flags p AND WGPEER_REPLACE_ALLOWEDIPS \<noteq> 0 then WGPEER_F_REPLACE_ALLOWEDIPS else 0)"

text \<open>The attributes of a peer before its allowed addresses; most of them only go into its first part.\<close>

definition put_peer_attrs :: "nat \<Rightarrow> wg_peer \<Rightarrow> bool \<Rightarrow> nlbuf \<Rightarrow> (nlbuf + nlbuf) option" where
  "put_peer_attrs buflen p fresh mem =
     and_then (mnl_attr_put_check mem 0 buflen WGPEER_A_PUBLIC_KEY (wp_public_key p)) (\<lambda>mem.
     and_then
       (if fresh then
          and_then
            (if wp_flags p AND WGPEER_HAS_PRESHARED_KEY \<noteq> 0
             then mnl_attr_put_check mem 0 buflen WGPEER_A_PRESHARED_KEY (wp_preshared_key p) else Some (Inr mem)) (\<lambda>mem.
          and_then
            (if endpoint_family (wp_endpoint p) = AF_INET
             then mnl_attr_put_check mem 0 buflen WGPEER_A_ENDPOINT (take 16 (wp_endpoint p))
             else if endpoint_family (wp_endpoint p) = AF_INET6
             then mnl_attr_put_check mem 0 buflen WGPEER_A_ENDPOINT (take 28 (wp_endpoint p))
             else Some (Inr mem)) (\<lambda>mem.
          if wp_flags p AND WGPEER_HAS_PERSISTENT_KEEPALIVE_INTERVAL \<noteq> 0
          then mnl_attr_put_u16_check mem 0 buflen WGPEER_A_PERSISTENT_KEEPALIVE_INTERVAL (wp_persistent_keepalive_interval p)
          else Some (Inr mem)))
        else Some (Inr mem)) (\<lambda>mem.
     if peer_flags p fresh \<noteq> 0
     then mnl_attr_put_u32_check mem 0 buflen WGPEER_A_FLAGS (peer_flags p fresh)
     else Some (Inr mem)))"

datatype peer_result = Peer_Done nlbuf | Toobig_Peers nlbuf | Toobig_Allowedips nlbuf "wg_allowedip list"

text \<open>The body of the loop over the peers; \<open>aips\<close> is where the previous message stopped.\<close>

definition put_peer :: "nat \<Rightarrow> wg_peer \<Rightarrow> wg_allowedip list \<Rightarrow> nlbuf \<Rightarrow> peer_result option" where
  "put_peer buflen p aips mem = do {
     r \<leftarrow> mnl_attr_nest_start_check mem 0 buflen 0;
     case r of
       Inl mem \<Rightarrow> Some (Toobig_Peers mem)
     | Inr (mem, peer_nest) \<Rightarrow> do {
         r \<leftarrow> put_peer_attrs buflen p (aips = []) mem;
         case r of
           Inl mem \<Rightarrow> do { mem \<leftarrow> mnl_attr_nest_cancel mem 0 peer_nest; Some (Toobig_Peers mem) }
         | Inr mem \<Rightarrow>
             if wp_allowedips p = [] then do { mem \<leftarrow> mnl_attr_nest_end mem 0 peer_nest; Some (Peer_Done mem) }
             else do {
               let aips = (if aips = [] then wp_allowedips p else aips);
               r \<leftarrow> mnl_attr_nest_start_check mem 0 buflen WGPEER_A_ALLOWEDIPS;
               case r of
                 Inl mem \<Rightarrow> do { mem \<leftarrow> mnl_attr_nest_end mem 0 peer_nest; Some (Toobig_Allowedips mem aips) }
               | Inr (mem, allowedips_nest) \<Rightarrow> do {
                   r \<leftarrow> put_allowedips buflen aips mem;
                   case r of
                     Inl (mem, rest) \<Rightarrow> do {
                       mem \<leftarrow> mnl_attr_nest_end mem 0 allowedips_nest;
                       mem \<leftarrow> mnl_attr_nest_end mem 0 peer_nest;
                       Some (Toobig_Allowedips mem rest) }
                   | Inr mem \<Rightarrow> do {
                       mem \<leftarrow> mnl_attr_nest_end mem 0 allowedips_nest;
                       mem \<leftarrow> mnl_attr_nest_end mem 0 peer_nest;
                       Some (Peer_Done mem) } } } } }"

text \<open>The peers of one message; what is left of the peers and of the allowed addresses of the next one.\<close>

fun put_peers :: "nat \<Rightarrow> wg_peer list \<Rightarrow> wg_allowedip list \<Rightarrow> nlbuf \<Rightarrow> (nlbuf \<times> wg_peer list \<times> wg_allowedip list) option" where
  "put_peers buflen [] aips mem = Some (mem, [], aips)"
| "put_peers buflen (p # ps) aips mem = do {
     r \<leftarrow> put_peer buflen p aips mem;
     case r of
       Peer_Done mem \<Rightarrow> put_peers buflen ps [] mem
     | Toobig_Peers mem \<Rightarrow> Some (mem, p # ps, aips)
     | Toobig_Allowedips mem rest \<Rightarrow> Some (mem, p # ps, rest) }"

section \<open>Messages\<close>

text \<open>The attributes of the device itself, which are not checked against the size of the buffer.\<close>

definition put_if :: "bool \<Rightarrow> (nlbuf \<Rightarrow> nlbuf option) \<Rightarrow> nlbuf \<Rightarrow> nlbuf option" where
  "put_if c f mem = (if c then f mem else Some mem)"

definition put_device_attrs :: "wg_device \<Rightarrow> nlbuf \<Rightarrow> nlbuf option" where
  "put_device_attrs dev mem = do {
     mem \<leftarrow> put_if (wd_flags dev AND WGDEVICE_HAS_PRIVATE_KEY \<noteq> 0)
       (\<lambda>mem. mnl_attr_put mem 0 WGDEVICE_A_PRIVATE_KEY (wd_private_key dev)) mem;
     mem \<leftarrow> put_if (wd_flags dev AND WGDEVICE_HAS_LISTEN_PORT \<noteq> 0)
       (\<lambda>mem. mnl_attr_put_u16 mem 0 WGDEVICE_A_LISTEN_PORT (wd_listen_port dev)) mem;
     mem \<leftarrow> put_if (wd_flags dev AND WGDEVICE_HAS_FWMARK \<noteq> 0)
       (\<lambda>mem. mnl_attr_put_u32 mem 0 WGDEVICE_A_FWMARK (wd_fwmark dev)) mem;
     put_if (wd_flags dev AND WGDEVICE_REPLACE_PEERS \<noteq> 0)
       (\<lambda>mem. mnl_attr_put_u32 mem 0 WGDEVICE_A_FLAGS WGDEVICE_F_REPLACE_PEERS) mem }"

text \<open>From \<open>again\<close> to \<open>send\<close>; \<open>peers\<close> is empty for the first message.\<close>

definition set_device_message ::
  "nat \<Rightarrow> nat \<Rightarrow> nat \<Rightarrow> wg_device \<Rightarrow> nlbuf \<Rightarrow> wg_peer list \<Rightarrow> wg_allowedip list \<Rightarrow>
     (nlbuf \<times> wg_peer list \<times> wg_allowedip list) option" where
  "set_device_message family version now dev buf peers aips = do {
     let buflen = length buf;
     mem \<leftarrow> mnlg_msg_prepare buf 1 5 family version now;
     mem \<leftarrow> mnl_attr_put_strz mem 0 WGDEVICE_A_IFNAME (wd_name dev);
     mem \<leftarrow> put_if (peers = []) (put_device_attrs dev) mem;
     if wd_peers dev = [] then Some (mem, [], [])
     else do {
       (mem, peers_nest) \<leftarrow> mnl_attr_nest_start mem 0 WGDEVICE_A_PEERS;
       (mem, rest, aips) \<leftarrow> put_peers buflen (if peers = [] then wd_peers dev else peers) aips mem;
       mem \<leftarrow> mnl_attr_nest_end mem 0 peers_nest;
       Some (mem, rest, aips) } }"

text \<open>
  The messages are sent until no peer is left. The kernel is a parameter: it takes the bytes that
  are sent and answers with the error of the system call or with what can be received; \<open>clock\<close> is
  the time in its state. Fuel bounds the number of messages; without any left the result is \<open>None\<close>.
\<close>

fun set_device_loop ::
  "nat \<Rightarrow> ('k \<Rightarrow> u8 list \<Rightarrow> 'k \<times> (int + recv list)) \<Rightarrow> ('k \<Rightarrow> u32) \<Rightarrow> mnlg_socket \<Rightarrow> wg_device \<Rightarrow> 'k \<Rightarrow> nlbuf \<Rightarrow>
     wg_peer list \<Rightarrow> wg_allowedip list \<Rightarrow> ('k \<times> int) option" where
  "set_device_loop 0 nl_kernel clock nlg dev k buf peers aips = None"
| "set_device_loop (Suc fuel) nl_kernel clock nlg dev k buf peers aips = do {
     let now = unat (clock k);
     (buf, peers, aips) \<leftarrow> set_device_message (unat (nlg_id nlg)) (nlg_version nlg) now dev buf peers aips;
     sent \<leftarrow> mnlg_socket_send (nl_kernel k) buf;
     case sent of
       (k, Inl e) \<Rightarrow> Some (k, - e)
     | (k, Inr replies) \<Rightarrow> do {
         ((err, errno, _), buf, _) \<leftarrow> mnlg_socket_recv_run now (nlg_portid nlg) None buf (0, ()) replies;
         if err < 0 then Some (k, if errno \<noteq> 0 then - errno else - EINVAL)
         else if peers \<noteq> [] then set_device_loop fuel nl_kernel clock nlg dev k buf peers aips
         else Some (k, 0) } }"

definition wg_set_device ::
  "nat \<Rightarrow> ('k \<Rightarrow> u8 list \<Rightarrow> 'k \<times> (int + recv list)) \<Rightarrow> ('k \<Rightarrow> u32) \<Rightarrow> open_env \<Rightarrow> wg_device \<Rightarrow> 'k \<Rightarrow> ('k \<times> int) option" where
  "wg_set_device fuel nl_kernel clock env dev k = do {
     (r, _) \<leftarrow> mnlg_socket_open env WG_GENL_NAME 1 {};
     case r of
       Inl e \<Rightarrow> Some (k, - e)
     | Inr nlg \<Rightarrow> set_device_loop fuel nl_kernel clock nlg dev k (nlg_buf nlg) [] [] }"

end
