(* ===== verification/Wg_Set_Messages.thy ===== *)
theory Wg_Set_Messages
  imports Wg_Set_Device
begin

text \<open>
  What \<open>wg_set_device\<close> writes: every message is the encoding of a sequence of peer fragments, no
  write leaves the buffer, and the fragments of all messages together are the peers with all their
  allowed addresses. The relation \<open>emits\<close> describes how the peers are cut into fragments.
\<close>

section \<open>Checked writes\<close>

text \<open>
  The contract of a checked write \<open>f\<close> of the attributes \<open>as\<close>: they are appended, or they do not
  fit and the message has grown by an arbitrary part.
\<close>

definition puts :: "nat \<Rightarrow> (nlbuf \<Rightarrow> (nlbuf + nlbuf) option) \<Rightarrow> (nat \<times> u8 list) list \<Rightarrow> bool" where
  "puts buflen f as \<longleftrightarrow> (\<forall>mem hdr body. built mem hdr body \<longrightarrow> length mem = buflen \<longrightarrow>
     (\<exists>mem' x. f mem = Some (Inl mem') \<and> built mem' hdr (body @ x) \<and> length mem' = buflen \<and>
        16 + length body + length (attrs_bytes as) > buflen) \<or>
     (\<exists>mem'. f mem = Some (Inr mem') \<and> built mem' hdr (body @ attrs_bytes as) \<and> length mem' = buflen))"

lemma puts_check: "puts buflen (\<lambda>mem. mnl_attr_put_check mem 0 buflen t d) [(t, d)]"
  unfolding puts_def
proof (intro allI impI)
  fix mem hdr body
  assume b: "built mem hdr body" "length mem = buflen"
  show "(\<exists>mem' x. mnl_attr_put_check mem 0 buflen t d = Some (Inl mem') \<and> built mem' hdr (body @ x) \<and> length mem' = buflen \<and>
        16 + length body + length (attrs_bytes [(t, d)]) > buflen) \<or>
     (\<exists>mem'. mnl_attr_put_check mem 0 buflen t d = Some (Inr mem') \<and> built mem' hdr (body @ attrs_bytes [(t, d)]) \<and> length mem' = buflen)"
  proof (cases "20 + length body + MNL_ALIGN (length d) > buflen")
    case True
    then have "mnl_attr_put_check mem 0 buflen t d = Some (Inl mem)" using put_check_built [OF b, of d t] by simp
    then show ?thesis using b True by (intro disjI1 exI [of _ mem] exI [of _ "[]"]) simp
  next
    case False
    then show ?thesis using put_check_built [OF b, of d t] by auto
  qed
qed

lemma puts_skip: "puts buflen (\<lambda>mem. Some (Inr mem)) []"
  by (auto simp: puts_def)

lemma puts_then:
  assumes f: "puts buflen f as" and g: "puts buflen g bs"
  shows "puts buflen (\<lambda>mem. and_then (f mem) g) (as @ bs)"
  unfolding puts_def
proof (intro allI impI)
  fix mem hdr body
  assume b: "built mem hdr body" "length mem = buflen"
  consider mem' x where "f mem = Some (Inl mem')" "built mem' hdr (body @ x)" "length mem' = buflen"
      "16 + length body + length (attrs_bytes as) > buflen"
    | mem' where "f mem = Some (Inr mem')" "built mem' hdr (body @ attrs_bytes as)" "length mem' = buflen"
    using f b unfolding puts_def by blast
  then show "(\<exists>mem' x. and_then (f mem) g = Some (Inl mem') \<and> built mem' hdr (body @ x) \<and> length mem' = buflen \<and>
        16 + length body + length (attrs_bytes (as @ bs)) > buflen) \<or>
     (\<exists>mem'. and_then (f mem) g = Some (Inr mem') \<and> built mem' hdr (body @ attrs_bytes (as @ bs)) \<and> length mem' = buflen)"
  proof cases
    case 1
    then show ?thesis by (intro disjI1 exI [of _ mem'] exI [of _ x]) simp
  next
    case 2
    then show ?thesis using g unfolding puts_def by fastforce
  qed
qed

lemma puts_if:
  "(c \<Longrightarrow> puts buflen f as) \<Longrightarrow> (\<not> c \<Longrightarrow> puts buflen g bs) \<Longrightarrow>
   puts buflen (\<lambda>mem. if c then f mem else g mem) (if c then as else bs)"
  by simp

section \<open>Attributes of allowed addresses and peers\<close>

definition allowedip_attrs :: "wg_allowedip \<Rightarrow> (nat \<times> u8 list) list" where
  "allowedip_attrs a = [(WGALLOWEDIP_A_FAMILY, le_bytes 2 (unat (ai_family a)))] @
     (if ai_family a = AF_INET then [(WGALLOWEDIP_A_IPADDR, take 4 (ai_ip a))]
      else if ai_family a = AF_INET6 then [(WGALLOWEDIP_A_IPADDR, take 16 (ai_ip a))] else []) @
     [(WGALLOWEDIP_A_CIDR_MASK, [ai_cidr a])]"

definition nest :: "nat \<Rightarrow> (nat \<times> u8 list) list \<Rightarrow> nat \<times> u8 list" where
  "nest t as = (NLA_F_NESTED OR t, attrs_bytes as)"

definition peer_attrs :: "wg_peer \<Rightarrow> bool \<Rightarrow> (nat \<times> u8 list) list" where
  "peer_attrs p fresh = [(WGPEER_A_PUBLIC_KEY, wp_public_key p)] @
     (if fresh then
        (if wp_flags p AND WGPEER_HAS_PRESHARED_KEY \<noteq> 0 then [(WGPEER_A_PRESHARED_KEY, wp_preshared_key p)] else []) @
        (if endpoint_family (wp_endpoint p) = AF_INET then [(WGPEER_A_ENDPOINT, take 16 (wp_endpoint p))]
         else if endpoint_family (wp_endpoint p) = AF_INET6 then [(WGPEER_A_ENDPOINT, take 28 (wp_endpoint p))] else []) @
        (if wp_flags p AND WGPEER_HAS_PERSISTENT_KEEPALIVE_INTERVAL \<noteq> 0
         then [(WGPEER_A_PERSISTENT_KEEPALIVE_INTERVAL, le_bytes 2 (unat (wp_persistent_keepalive_interval p)))] else [])
      else []) @
     (if peer_flags p fresh \<noteq> 0 then [(WGPEER_A_FLAGS, le_bytes 4 (unat (peer_flags p fresh)))] else [])"

lemma puts_allowedip: "puts buflen (put_allowedip buflen a) (allowedip_attrs a)"
  unfolding put_allowedip_def allowedip_attrs_def mnl_attr_put_u16_check_def mnl_attr_put_u8_check_def
  by (intro puts_then puts_if puts_check puts_skip)

lemma puts_peer_attrs: "puts buflen (put_peer_attrs buflen p fresh) (peer_attrs p fresh)"
  unfolding put_peer_attrs_def peer_attrs_def mnl_attr_put_u16_check_def mnl_attr_put_u32_check_def
  by (intro puts_then puts_if puts_check puts_skip)

lemma align_mono: "m \<le> n \<Longrightarrow> MNL_ALIGN m \<le> MNL_ALIGN n"
  unfolding MNL_ALIGN_def by (intro mult_le_mono1 div_le_mono add_le_mono1)

lemma align_values [simp]: "MNL_ALIGN 1 = 4" "MNL_ALIGN (Suc 0) = 4" "MNL_ALIGN 2 = 4" "MNL_ALIGN 28 = 28" "MNL_ALIGN 32 = 32"
  by (simp_all add: MNL_ALIGN_def)

lemma length_take_align: "MNL_ALIGN (min (length xs) 4) \<le> 4" "MNL_ALIGN (min (length xs) 16) \<le> 16" "MNL_ALIGN (min (length xs) 28) \<le> 28"
  using align_mono [of "min (length xs) 4" 4] align_mono [of "min (length xs) 16" 16] align_mono [of "min (length xs) 28" 28] by simp_all

lemma allowedip_attrs_small: "length (attrs_bytes (allowedip_attrs a)) \<le> 36"
  using length_take_align [of "ai_ip a"] by (auto simp: allowedip_attrs_def)

lemma peer_attrs_small:
  "length (wp_public_key p) = 32 \<Longrightarrow> length (wp_preshared_key p) = 32 \<Longrightarrow> length (attrs_bytes (peer_attrs p fresh)) \<le> 120"
  using length_take_align [of "wp_endpoint p"] by (auto simp: peer_attrs_def)

section \<open>The allowed addresses of a peer\<close>

definition allowedip_nest :: "wg_allowedip \<Rightarrow> nat \<times> u8 list" where
  "allowedip_nest a = nest 0 (allowedip_attrs a)"

lemma nest_bytes: "attrs_bytes [nest t as] = attr_bytes (NLA_F_NESTED OR t) (attrs_bytes as)"
  by (simp add: nest_def)

text \<open>One allowed address: it does not fit, and the message is as before, or it is added and the loop goes on.\<close>

lemma put_allowedips_step:
  assumes b: "built mem hdr body" "length mem = buflen"
  shows "(\<exists>m. put_allowedips buflen (a # as) mem = Some (Inl (m, a # as)) \<and> built m hdr body \<and> length m = buflen \<and>
      \<not> 56 + length body \<le> buflen) \<or>
    (\<exists>m. put_allowedips buflen (a # as) mem = put_allowedips buflen as m \<and>
      built m hdr (body @ attrs_bytes [allowedip_nest a]) \<and> length m = buflen)"
proof (cases "20 + length body > buflen")
  case True
  then have "put_allowedips buflen (a # as) mem = Some (Inl (mem, a # as))"
    using nest_start_check_built [OF b, of 0] by simp
  then show ?thesis using True b by (intro disjI1 exI [of _ mem]) simp
next
  case False
  let ?T = "le_bytes 2 (NLA_F_NESTED OR 0)"
  have d: "4 dvd length body" by (rule built_simps(2) [OF b(1)])
  obtain m1 j where m1: "mnl_attr_nest_start_check mem 0 buflen 0 = Some (Inr (m1, 16 + length body))" "length j = 2"
    "built m1 hdr (body @ j @ ?T)" "length m1 = buflen"
    using nest_start_check_built [OF b, of 0] False by auto
  consider m2 x where "put_allowedip buflen a m1 = Some (Inl m2)" "built m2 hdr ((body @ j @ ?T) @ x)" "length m2 = buflen"
      "16 + length (body @ j @ ?T) + length (attrs_bytes (allowedip_attrs a)) > buflen"
    | m2 where "put_allowedip buflen a m1 = Some (Inr m2)" "built m2 hdr ((body @ j @ ?T) @ attrs_bytes (allowedip_attrs a))" "length m2 = buflen"
    using puts_allowedip [of buflen a] m1(3,4) unfolding puts_def by blast
  then show ?thesis
  proof cases
    case 1
    then obtain m3 where m3: "mnl_attr_nest_cancel m2 0 (16 + length body) = Some m3" "built m3 hdr body" "length m3 = buflen"
      using nest_cancel_built [of m2 hdr body "j @ ?T @ x"] d by auto
    have "put_allowedips buflen (a # as) mem = Some (Inl (m3, a # as))" using m1(1) 1(1) m3(1) by simp
    moreover have "\<not> 56 + length body \<le> buflen" using 1(4) m1(2) allowedip_attrs_small [of a] by simp
    ultimately show ?thesis using m3(2,3) by blast
  next
    case 2
    then obtain m3 where m3: "mnl_attr_nest_end m2 0 (16 + length body) = Some m3"
      "built m3 hdr (body @ attrs_bytes [allowedip_nest a])" "length m3 = buflen"
      using nest_end_built [of m2 hdr body j "NLA_F_NESTED OR 0" "attrs_bytes (allowedip_attrs a)"] m1(2) d
      by (auto simp: allowedip_nest_def nest_bytes)
    have "put_allowedips buflen (a # as) mem = put_allowedips buflen as m3" using m1(1) 2(1) m3(1) by simp
    then show ?thesis using m3(2,3) by blast
  qed
qed

lemma put_allowedips_built:
  assumes "built mem hdr body" "length mem = buflen"
  shows "\<exists>mem' now rest. as = now @ rest \<and> put_allowedips buflen as mem = Some (if rest = [] then Inr mem' else Inl (mem', rest)) \<and>
    built mem' hdr (body @ attrs_bytes (map allowedip_nest now)) \<and> length mem' = buflen \<and>
    (as \<noteq> [] \<and> 56 + length body \<le> buflen \<longrightarrow> now \<noteq> [])"
  using assms
proof (induction "as" arbitrary: mem body)
  case Nil
  then show ?case by (intro exI [of _ mem] exI [of _ "[]"]) simp
next
  case (Cons a "as")
  from put_allowedips_step [OF Cons.prems, of a "as"]
  consider (full) m where "put_allowedips buflen (a # as) mem = Some (Inl (m, a # as))" "built m hdr body" "length m = buflen"
      "\<not> 56 + length body \<le> buflen"
    | (added) m where "put_allowedips buflen (a # as) mem = put_allowedips buflen as m"
      "built m hdr (body @ attrs_bytes [allowedip_nest a])" "length m = buflen" by blast
  then show ?case
  proof cases
    case full
    then show ?thesis by (intro exI [of _ m] exI [of _ "[]"] exI [of _ "a # as"]) simp
  next
    case added
    obtain mem' now rest where r: "as = now @ rest" "put_allowedips buflen as m = Some (if rest = [] then Inr mem' else Inl (mem', rest))"
      "built mem' hdr ((body @ attrs_bytes [allowedip_nest a]) @ attrs_bytes (map allowedip_nest now))" "length mem' = buflen"
      using Cons.IH [OF added(2,3)] by blast
    have "attrs_bytes [allowedip_nest a] @ attrs_bytes (map allowedip_nest now) = attrs_bytes (map allowedip_nest (a # now))"
      by (simp add: attrs_bytes_def)
    then have "built mem' hdr (body @ attrs_bytes (map allowedip_nest (a # now)))" using r(3) by simp
    then show ?thesis
      using r added(1) by (intro exI [of _ mem'] exI [of _ "a # now"] exI [of _ rest]) simp
  qed
qed

section \<open>Fragments of peers\<close>

text \<open>A peer as it appears in one message: whether it is its first part, and the allowed addresses if any.\<close>

datatype frag = Frag (fr_peer: wg_peer) (fr_fresh: bool) (fr_ips: "wg_allowedip list option")

definition ips_attrs :: "wg_allowedip list option \<Rightarrow> (nat \<times> u8 list) list" where
  "ips_attrs ips = (case ips of None \<Rightarrow> [] | Some as \<Rightarrow> [nest WGPEER_A_ALLOWEDIPS (map allowedip_nest as)])"

definition frag_attrs :: "frag \<Rightarrow> (nat \<times> u8 list) list" where
  "frag_attrs f = peer_attrs (fr_peer f) (fr_fresh f) @ ips_attrs (fr_ips f)"

definition frag_nest :: "frag \<Rightarrow> nat \<times> u8 list" where
  "frag_nest f = nest 0 (frag_attrs f)"

definition ips_list :: "wg_allowedip list option \<Rightarrow> wg_allowedip list" where
  "ips_list ips = (case ips of None \<Rightarrow> [] | Some as \<Rightarrow> as)"

text \<open>The allowed addresses that a peer still has to write.\<close>

definition pending :: "wg_peer \<Rightarrow> wg_allowedip list \<Rightarrow> wg_allowedip list" where
  "pending p aips = (if aips = [] then wp_allowedips p else aips)"

text \<open>The nest of the allowed addresses.\<close>

lemma put_ips_nest:
  assumes "built mem hdr body" "length mem = buflen" "as \<noteq> []"
  shows "(mnl_attr_nest_start_check mem 0 buflen WGPEER_A_ALLOWEDIPS = Some (Inl mem) \<and> buflen < 20 + length body) \<or>
    (\<exists>m1 m2 m3 now rest. mnl_attr_nest_start_check mem 0 buflen WGPEER_A_ALLOWEDIPS = Some (Inr (m1, 16 + length body)) \<and>
       as = now @ rest \<and> put_allowedips buflen as m1 = Some (if rest = [] then Inr m2 else Inl (m2, rest)) \<and>
       mnl_attr_nest_end m2 0 (16 + length body) = Some m3 \<and>
       built m3 hdr (body @ attrs_bytes (ips_attrs (Some now))) \<and> length m3 = buflen \<and> (60 + length body \<le> buflen \<longrightarrow> now \<noteq> []))"
proof (cases "buflen < 20 + length body")
  case True
  then show ?thesis using nest_start_check_built [OF assms(1,2), of WGPEER_A_ALLOWEDIPS] by simp
next
  case False
  let ?t = "NLA_F_NESTED OR WGPEER_A_ALLOWEDIPS"
  obtain m1 j where m1: "mnl_attr_nest_start_check mem 0 buflen WGPEER_A_ALLOWEDIPS = Some (Inr (m1, 16 + length body))"
    "length j = 2" "built m1 hdr (body @ j @ le_bytes 2 ?t)" "length m1 = buflen"
    using nest_start_check_built [OF assms(1,2), of WGPEER_A_ALLOWEDIPS] False by auto
  obtain m2 now rest where m2: "as = now @ rest" "put_allowedips buflen as m1 = Some (if rest = [] then Inr m2 else Inl (m2, rest))"
    "built m2 hdr ((body @ j @ le_bytes 2 ?t) @ attrs_bytes (map allowedip_nest now))" "length m2 = buflen"
    "as \<noteq> [] \<and> 56 + length (body @ j @ le_bytes 2 ?t) \<le> buflen \<longrightarrow> now \<noteq> []"
    using put_allowedips_built [OF m1(3,4), of "as"] by blast
  obtain m3 where m3: "mnl_attr_nest_end m2 0 (16 + length body) = Some m3" "length m3 = buflen"
    "built m3 hdr (body @ attr_bytes ?t (attrs_bytes (map allowedip_nest now)))"
    using nest_end_built [of m2 hdr body j ?t] m2(3,4) m1(2) built_simps(2) [OF assms(1)] by auto
  then have "built m3 hdr (body @ attrs_bytes (ips_attrs (Some now)))" by (simp add: ips_attrs_def nest_bytes)
  then show ?thesis using m1(1,2) m2(1,2,5) m3(1,2) assms(3) by auto
qed

text \<open>Closing the nest of a peer after its attributes and its allowed addresses.\<close>

lemma end_peer_nest:
  assumes "built mem hdr ((body @ j @ le_bytes 2 (NLA_F_NESTED OR 0)) @ attrs_bytes (frag_attrs f))" "length j = 2" "4 dvd length body"
  shows "\<exists>mem'. mnl_attr_nest_end mem 0 (16 + length body) = Some mem' \<and> built mem' hdr (body @ attrs_bytes [frag_nest f]) \<and>
    length mem' = length mem"
  using nest_end_built [of mem hdr body j "NLA_F_NESTED OR 0" "attrs_bytes (frag_attrs f)"] assms
  by (simp add: frag_nest_def nest_bytes)

text \<open>Where a peer ends up: written completely, in part, or not at all.\<close>

definition peer_outcome :: "nat \<Rightarrow> u8 list \<Rightarrow> u8 list \<Rightarrow> wg_peer \<Rightarrow> wg_allowedip list \<Rightarrow> peer_result \<Rightarrow> bool" where
  "peer_outcome buflen hdr body p aips r = (case r of
     Peer_Done mem \<Rightarrow> length mem = buflen \<and>
       built mem hdr (body @ attrs_bytes [frag_nest (Frag p (aips = []) (if wp_allowedips p = [] then None else Some (pending p aips)))])
   | Toobig_Peers mem \<Rightarrow> length mem = buflen \<and> built mem hdr body \<and> buflen < 140 + length body
   | Toobig_Allowedips mem rest \<Rightarrow> length mem = buflen \<and> rest \<noteq> [] \<and> wp_allowedips p \<noteq> [] \<and>
       (\<exists>ips. pending p aips = ips_list ips @ rest \<and> built mem hdr (body @ attrs_bytes [frag_nest (Frag p (aips = []) ips)]) \<and>
         (184 + length body \<le> buflen \<longrightarrow> rest \<noteq> pending p aips)))"

lemma put_peer_rest:
  assumes b: "built mem hdr ((body @ j @ le_bytes 2 (NLA_F_NESTED OR 0)) @ attrs_bytes (peer_attrs p (aips = [])))"
    and len: "length mem = buflen" "length j = 2" "4 dvd length body" and p: "wp_allowedips p \<noteq> []"
    and small: "length (attrs_bytes (peer_attrs p (aips = []))) \<le> 120"
  shows "\<exists>r. do {
     r \<leftarrow> mnl_attr_nest_start_check mem 0 buflen WGPEER_A_ALLOWEDIPS;
     case r of
       Inl mem \<Rightarrow> do { mem \<leftarrow> mnl_attr_nest_end mem 0 (16 + length body); Some (Toobig_Allowedips mem (pending p aips)) }
     | Inr (mem, allowedips_nest) \<Rightarrow> do {
         r \<leftarrow> put_allowedips buflen (pending p aips) mem;
         case r of
           Inl (mem, rest) \<Rightarrow> do {
             mem \<leftarrow> mnl_attr_nest_end mem 0 allowedips_nest;
             mem \<leftarrow> mnl_attr_nest_end mem 0 (16 + length body);
             Some (Toobig_Allowedips mem rest) }
         | Inr mem \<Rightarrow> do {
             mem \<leftarrow> mnl_attr_nest_end mem 0 allowedips_nest;
             mem \<leftarrow> mnl_attr_nest_end mem 0 (16 + length body);
             Some (Peer_Done mem) } } } = Some r \<and> peer_outcome buflen hdr body p aips r"
proof -
  let ?body = "(body @ j @ le_bytes 2 (NLA_F_NESTED OR 0)) @ attrs_bytes (peer_attrs p (aips = []))"
  have pend: "pending p aips \<noteq> []" using p by (simp add: pending_def)
  have blen: "length ?body \<le> 124 + length body" using small len(2) by simp
  consider "mnl_attr_nest_start_check mem 0 buflen WGPEER_A_ALLOWEDIPS = Some (Inl mem)" "buflen < 20 + length ?body"
    | m1 m2 m3 now rest where "mnl_attr_nest_start_check mem 0 buflen WGPEER_A_ALLOWEDIPS = Some (Inr (m1, 16 + length ?body))"
       "pending p aips = now @ rest" "put_allowedips buflen (pending p aips) m1 = Some (if rest = [] then Inr m2 else Inl (m2, rest))"
       "mnl_attr_nest_end m2 0 (16 + length ?body) = Some m3"
       "built m3 hdr (?body @ attrs_bytes (ips_attrs (Some now)))" "length m3 = buflen" "60 + length ?body \<le> buflen \<longrightarrow> now \<noteq> []"
    using put_ips_nest [OF b len(1) pend] by blast
  then show ?thesis
  proof cases
    case 1
    obtain mem' where m: "mnl_attr_nest_end mem 0 (16 + length body) = Some mem'" "length mem' = length mem"
      "built mem' hdr (body @ attrs_bytes [frag_nest (Frag p (aips = []) None)])"
      using end_peer_nest [of mem hdr body j "Frag p (aips = []) None"] b len by (auto simp: frag_attrs_def ips_attrs_def)
    have "peer_outcome buflen hdr body p aips (Toobig_Allowedips mem' (pending p aips))"
      unfolding peer_outcome_def peer_result.case
      using m(2,3) len(1) pend p 1(2) blen by (intro conjI exI [of _ None]) (simp_all add: ips_list_def)
    then show ?thesis using 1 m(1) by simp
  next
    case 2
    obtain mem' where m: "mnl_attr_nest_end m3 0 (16 + length body) = Some mem'" "length mem' = length m3"
      "built mem' hdr (body @ attrs_bytes [frag_nest (Frag p (aips = []) (Some now))])"
      using end_peer_nest [of m3 hdr body j "Frag p (aips = []) (Some now)"] 2(5) len by (auto simp: frag_attrs_def)
    show ?thesis
    proof (cases "rest = []")
      case True
      have "peer_outcome buflen hdr body p aips (Peer_Done mem')"
        using m(2,3) 2(2,6) True p by (simp add: peer_outcome_def)
      then show ?thesis using 2(1,3,4) m(1) True by simp
    next
      case False
      have "peer_outcome buflen hdr body p aips (Toobig_Allowedips mem' rest)"
        unfolding peer_outcome_def peer_result.case
        using m(2,3) 2(2,6,7) False p blen by (intro conjI exI [of _ "Some now"]) (auto simp: ips_list_def)
      then show ?thesis using 2(1,3,4) m(1) False by simp
    qed
  qed
qed

lemma put_peer_built:
  assumes b: "built mem hdr body" "length mem = buflen" and keys: "length (wp_public_key p) = 32" "length (wp_preshared_key p) = 32"
  shows "\<exists>r. put_peer buflen p aips mem = Some r \<and> peer_outcome buflen hdr body p aips r"
proof (cases "20 + length body > buflen")
  case True
  then have "put_peer buflen p aips mem = Some (Toobig_Peers mem)"
    using nest_start_check_built [OF b, of 0] by (simp add: put_peer_def)
  then show ?thesis using True b by (simp add: peer_outcome_def)
next
  case False
  let ?T = "le_bytes 2 (NLA_F_NESTED OR 0)" and ?as = "peer_attrs p (aips = [])"
  have d: "4 dvd length body" by (rule built_simps(2) [OF b(1)])
  have small: "length (attrs_bytes ?as) \<le> 120" by (rule peer_attrs_small [OF keys])
  obtain m1 j where m1: "mnl_attr_nest_start_check mem 0 buflen 0 = Some (Inr (m1, 16 + length body))" "length j = 2"
    "built m1 hdr (body @ j @ ?T)" "length m1 = buflen"
    using nest_start_check_built [OF b, of 0] False by auto
  consider m2 x where "put_peer_attrs buflen p (aips = []) m1 = Some (Inl m2)" "built m2 hdr ((body @ j @ ?T) @ x)" "length m2 = buflen"
      "16 + length (body @ j @ ?T) + length (attrs_bytes ?as) > buflen"
    | m2 where "put_peer_attrs buflen p (aips = []) m1 = Some (Inr m2)" "built m2 hdr ((body @ j @ ?T) @ attrs_bytes ?as)" "length m2 = buflen"
    using puts_peer_attrs [of buflen p "aips = []"] m1(3,4) unfolding puts_def by blast
  then show ?thesis
  proof cases
    case 1
    then obtain m3 where m3: "mnl_attr_nest_cancel m2 0 (16 + length body) = Some m3" "built m3 hdr body" "length m3 = buflen"
      using nest_cancel_built [of m2 hdr body "j @ ?T @ x"] d by auto
    then have "put_peer buflen p aips mem = Some (Toobig_Peers m3)" using m1(1) 1(1) by (simp add: put_peer_def)
    moreover have "buflen < 140 + length body" using 1(4) m1(2) small by simp
    ultimately show ?thesis using m3(2,3) by (simp add: peer_outcome_def)
  next
    case 2
    show ?thesis
    proof (cases "wp_allowedips p = []")
      case True
      obtain m3 where m3: "mnl_attr_nest_end m2 0 (16 + length body) = Some m3" "length m3 = buflen"
        "built m3 hdr (body @ attrs_bytes [frag_nest (Frag p (aips = []) None)])"
        using end_peer_nest [of m2 hdr body j "Frag p (aips = []) None"] 2 m1(2) d by (auto simp: frag_attrs_def ips_attrs_def)
      then have "put_peer buflen p aips mem = Some (Peer_Done m3)" using m1(1) 2(1) True by (simp add: put_peer_def)
      then show ?thesis using m3(2,3) True by (simp add: peer_outcome_def)
    next
      case False
      from put_peer_rest [OF 2(2,3) m1(2) d False small] show ?thesis
        using m1(1) 2(1) False by (simp add: put_peer_def Let_def flip: pending_def)
    qed
  qed
qed

section \<open>Cutting the peers into fragments\<close>

text \<open>
  \<open>emits ps as frs ps' as'\<close>: from the peers \<open>ps\<close>, the first of which still has the allowed
  addresses \<open>as\<close> to write (none means all of them), the fragments \<open>frs\<close> are written and
  \<open>ps'\<close>, \<open>as'\<close> are left. A fragment that continues a peer is not empty.
\<close>

inductive emits :: "wg_peer list \<Rightarrow> wg_allowedip list \<Rightarrow> frag list \<Rightarrow> wg_peer list \<Rightarrow> wg_allowedip list \<Rightarrow> bool" where
  emits_stop: "emits ps aips [] ps aips"
| emits_done: "emits ps [] frs ps' aips' \<Longrightarrow>
    emits (p # ps) aips (Frag p (aips = []) (if wp_allowedips p = [] then None else Some (pending p aips)) # frs) ps' aips'"
| emits_part: "pending p aips = ips_list ips @ rest \<Longrightarrow> rest \<noteq> [] \<Longrightarrow> wp_allowedips p \<noteq> [] \<Longrightarrow>
    aips = [] \<or> ips_list ips \<noteq> [] \<Longrightarrow>
    emits (p # ps) rest frs ps' aips' \<Longrightarrow> emits (p # ps) aips (Frag p (aips = []) ips # frs) ps' aips'"

inductive_cases emits_NilE: "emits [] aips frs ps' aips'"
inductive_cases emits_ConsE: "emits (p # ps) aips frs ps' aips'"

lemma emits_trans: "emits ps aips frs ps' aips' \<Longrightarrow> emits ps' aips' frs' ps'' aips'' \<Longrightarrow> emits ps aips (frs @ frs') ps'' aips''"
  by (induction rule: emits.induct) (auto intro: emits.intros split del: if_split)

definition peer_ok :: "wg_peer \<Rightarrow> bool" where
  "peer_ok p \<longleftrightarrow> length (wp_public_key p) = 32 \<and> length (wp_preshared_key p) = 32"

text \<open>The work that is left; every message reduces it.\<close>

definition work :: "wg_peer list \<Rightarrow> wg_allowedip list \<Rightarrow> nat" where
  "work ps aips = (case ps of [] \<Rightarrow> 0 | p # ps' \<Rightarrow> Suc (length (pending p aips)) + sum_list (map (\<lambda>p. Suc (length (wp_allowedips p))) ps'))"

lemma work_Cons_Nil: "work (p # ps) [] = Suc (length (wp_allowedips p)) + work ps []"
  by (cases ps) (simp_all add: work_def pending_def)

text \<open>A peer that is cut: what is left of it is less than what was to be sent.\<close>

lemma emits_cut:
  assumes "pending p aips = ips_list ips @ rest" "rest \<noteq> []" "wp_allowedips p \<noteq> []"
  shows "aips = [] \<or> ips_list ips \<noteq> [] \<Longrightarrow> emits (p # ps) aips [Frag p (aips = []) ips] (p # ps) rest"
    "work (p # ps) rest \<le> work (p # ps) aips" "rest \<noteq> pending p aips \<Longrightarrow> work (p # ps) rest < work (p # ps) aips"
proof -
  show "aips = [] \<or> ips_list ips \<noteq> [] \<Longrightarrow> emits (p # ps) aips [Frag p (aips = []) ips] (p # ps) rest"
    by (rule emits_part [OF assms _ emits_stop])
  have "work (p # ps) rest = Suc (length rest) + sum_list (map (\<lambda>p. Suc (length (wp_allowedips p))) ps)"
    using assms(2) by (simp add: work_def pending_def)
  moreover have "work (p # ps) aips = Suc (length (ips_list ips @ rest)) + sum_list (map (\<lambda>p. Suc (length (wp_allowedips p))) ps)"
    by (simp add: work_def assms(1))
  ultimately show "work (p # ps) rest \<le> work (p # ps) aips" "rest \<noteq> pending p aips \<Longrightarrow> work (p # ps) rest < work (p # ps) aips"
    using assms(1) by auto
qed

lemma put_peers_built:
  assumes "built mem hdr body" "length mem = buflen" "\<forall>p\<in>set ps. peer_ok p" "ps = [] \<longrightarrow> aips = []"
    and "aips = [] \<or> 184 + length body \<le> buflen"
  shows "\<exists>mem' frs ps' aips'. put_peers buflen ps aips mem = Some (mem', ps', aips') \<and>
    built mem' hdr (body @ attrs_bytes (map frag_nest frs)) \<and> length mem' = buflen \<and> emits ps aips frs ps' aips' \<and>
    (\<forall>p\<in>set ps'. peer_ok p) \<and> (ps' = [] \<longrightarrow> aips' = []) \<and> work ps' aips' \<le> work ps aips \<and>
    (ps \<noteq> [] \<and> 184 + length body \<le> buflen \<longrightarrow> work ps' aips' < work ps aips)"
  using assms
proof (induction ps arbitrary: mem body aips)
  case Nil
  then show ?case by (intro exI [of _ mem] exI [of _ "[]"]) (auto intro: emits.intros)
next
  case (Cons p ps)
  have p: "length (wp_public_key p) = 32" "length (wp_preshared_key p) = 32" using Cons.prems(3) by (simp_all add: peer_ok_def)
  obtain r where r: "put_peer buflen p aips mem = Some r" "peer_outcome buflen hdr body p aips r"
    using put_peer_built [OF Cons.prems(1,2) p] by blast
  show ?case
  proof (cases r)
    case (Peer_Done m1)
    let ?f = "Frag p (aips = []) (if wp_allowedips p = [] then None else Some (pending p aips))"
    have m1: "built m1 hdr (body @ attrs_bytes [frag_nest ?f])" "length m1 = buflen"
      using r(2) Peer_Done by (simp_all add: peer_outcome_def)
    obtain mem' frs ps' aips' where IH: "put_peers buflen ps [] m1 = Some (mem', ps', aips')"
      "built mem' hdr ((body @ attrs_bytes [frag_nest ?f]) @ attrs_bytes (map frag_nest frs))" "length mem' = buflen"
      "emits ps [] frs ps' aips'" "\<forall>p\<in>set ps'. peer_ok p" "ps' = [] \<longrightarrow> aips' = []" "work ps' aips' \<le> work ps []"
      using Cons.IH [OF m1, of "[]"] Cons.prems(3) by auto
    have "attrs_bytes [frag_nest ?f] @ attrs_bytes (map frag_nest frs) = attrs_bytes (map frag_nest (?f # frs))"
      by (simp add: attrs_bytes_def)
    then have "built mem' hdr (body @ attrs_bytes (map frag_nest (?f # frs)))" using IH(2) by simp
    moreover have "emits (p # ps) aips (?f # frs) ps' aips'" by (rule emits_done [OF IH(4)])
    moreover have "work ps [] < work (p # ps) aips" by (cases ps) (simp_all add: work_def pending_def)
    ultimately show ?thesis
      using IH(1,3,5-7) r(1) Peer_Done by (intro exI [of _ mem'] exI [of _ "?f # frs"]) auto
  next
    case (Toobig_Peers m1)
    then show ?thesis
      using r Cons.prems(3) by (intro exI [of _ m1] exI [of _ "[]"] exI [of _ "p # ps"] exI [of _ aips]) (auto simp: peer_outcome_def intro: emits.intros)
  next
    case (Toobig_Allowedips m1 rest)
    then obtain ips where ips: "pending p aips = ips_list ips @ rest" "built m1 hdr (body @ attrs_bytes [frag_nest (Frag p (aips = []) ips)])"
      "184 + length body \<le> buflen \<longrightarrow> rest \<noteq> pending p aips" "length m1 = buflen" "rest \<noteq> []" "wp_allowedips p \<noteq> []"
      using r(2) by (auto simp: peer_outcome_def)
    have step: "emits (p # ps) aips [Frag p (aips = []) ips] (p # ps) rest"
      "work (p # ps) rest \<le> work (p # ps) aips" "rest \<noteq> pending p aips \<Longrightarrow> work (p # ps) rest < work (p # ps) aips"
      using emits_cut [OF ips(1,5,6), of ps] ips(1,3) Cons.prems(5) by auto
    show ?thesis
      using r(1) Toobig_Allowedips ips step Cons.prems(3)
      by (intro exI [of _ m1] exI [of _ "[Frag p (aips = []) ips]"] exI [of _ "p # ps"] exI [of _ rest]) auto
  qed
qed

section \<open>Whole messages\<close>

definition msg_hdr :: "nat \<Rightarrow> nat \<Rightarrow> nat \<Rightarrow> u8 list" where
  "msg_hdr family flags now = le_bytes 2 family @ le_bytes 2 flags @ le_bytes 4 now @ [0, 0, 0, 0]"

lemma dvd_four: "4 dvd Suc (Suc (Suc (Suc 0)))"
  by presburger

lemma msg_prepare_built:
  assumes "20 \<le> length buf" "length buf < 2 ^ 16"
  shows "\<exists>mem. mnlg_msg_prepare buf cmd flags family version now = Some mem \<and>
    built mem (msg_hdr family flags now) [of_nat cmd, of_nat version, 0, 0] \<and> length mem = length buf"
proof -
  obtain m1 m2 m3 m4 m5 where w: "mnl_nlmsg_put_header buf 0 = Some m1" "wr_block m1 4 (le_bytes 2 family) = Some m2"
    "wr_block m2 6 (le_bytes 2 flags) = Some m3" "wr_block m3 8 (le_bytes 4 now) = Some m4"
    "mnl_nlmsg_put_extra_header m4 0 4 = Some (m5, 16)" and b: "built m5 (msg_hdr family flags now) (replicate 4 0)" and len: "length m5 = length buf"
    by (rule header_built [of 4 buf family flags now, folded msg_hdr_def]) (use assms in simp_all)
  obtain c where c: "m5 = le_bytes 4 20 @ msg_hdr family flags now @ replicate 4 0 @ c" and hdr: "length (msg_hdr family flags now) = 12"
    using b by (auto simp: built_def)
  let ?mem = "le_bytes 4 20 @ msg_hdr family flags now @ [of_nat cmd, of_nat version, 0, 0] @ c"
  have w5: "wr_block m5 16 [of_nat cmd] = Some (le_bytes 4 20 @ msg_hdr family flags now @ [of_nat cmd, 0, 0, 0] @ c)"
    unfolding c using hdr by (simp add: wr_block_def zeros)
  have w6: "wr_block (le_bytes 4 20 @ msg_hdr family flags now @ [of_nat cmd, 0, 0, 0] @ c) (16 + 1) [of_nat version] = Some ?mem"
    using hdr by (simp add: wr_block_def)
  have "mnlg_msg_prepare buf cmd flags family version now = Some ?mem"
    unfolding mnlg_msg_prepare_def by (simp only: w w5 w6 bind.bind_lunit prod.case)
  moreover have l: "length ?mem = length buf" using len c by simp
  moreover have "built ?mem (msg_hdr family flags now) [of_nat cmd, of_nat version, 0, 0]"
    using assms(2) l hdr by (auto simp: built_def dvd_four)
  ultimately show ?thesis by blast
qed

definition name_bytes :: "u8 list \<Rightarrow> u8 list" where
  "name_bytes name = takeWhile (\<lambda>c. c \<noteq> 0) name @ [0]"

definition device_attrs :: "wg_device \<Rightarrow> (nat \<times> u8 list) list" where
  "device_attrs dev =
     (if wd_flags dev AND WGDEVICE_HAS_PRIVATE_KEY \<noteq> 0 then [(WGDEVICE_A_PRIVATE_KEY, wd_private_key dev)] else []) @
     (if wd_flags dev AND WGDEVICE_HAS_LISTEN_PORT \<noteq> 0 then [(WGDEVICE_A_LISTEN_PORT, le_bytes 2 (unat (wd_listen_port dev)))] else []) @
     (if wd_flags dev AND WGDEVICE_HAS_FWMARK \<noteq> 0 then [(WGDEVICE_A_FWMARK, le_bytes 4 (unat (wd_fwmark dev)))] else []) @
     (if wd_flags dev AND WGDEVICE_REPLACE_PEERS \<noteq> 0 then [(WGDEVICE_A_FLAGS, le_bytes 4 (unat WGDEVICE_F_REPLACE_PEERS))] else [])"

definition message_attrs :: "wg_device \<Rightarrow> bool \<Rightarrow> frag list \<Rightarrow> (nat \<times> u8 list) list" where
  "message_attrs dev first frs =
     [(WGDEVICE_A_IFNAME, name_bytes (wd_name dev))] @ (if first then device_attrs dev else []) @
     (if wd_peers dev = [] then [] else [nest WGDEVICE_A_PEERS (map frag_nest frs)])"

definition device_ok :: "wg_device \<Rightarrow> bool" where
  "device_ok dev \<longleftrightarrow> 0 \<in> set (wd_name dev) \<and> length (wd_name dev) = 16 \<and> length (wd_private_key dev) = 32 \<and>
     (\<forall>p\<in>set (wd_peers dev). peer_ok p)"

text \<open>The contract of the unchecked writes: there must be room.\<close>

definition puts_always :: "(nlbuf \<Rightarrow> nlbuf option) \<Rightarrow> (nat \<times> u8 list) list \<Rightarrow> bool" where
  "puts_always f as \<longleftrightarrow> (\<forall>mem hdr body. built mem hdr body \<longrightarrow> 16 + length body + length (attrs_bytes as) \<le> length mem \<longrightarrow>
     (\<exists>mem'. f mem = Some mem' \<and> built mem' hdr (body @ attrs_bytes as) \<and> length mem' = length mem))"

lemma puts_always_put: "puts_always (\<lambda>mem. mnl_attr_put mem 0 t d) [(t, d)]"
  unfolding puts_always_def using put_built by (simp add: add.assoc)

lemma puts_always_if: "puts_always f as \<Longrightarrow> puts_always (put_if c f) (if c then as else [])"
  by (auto simp: puts_always_def put_if_def)

lemma puts_always_then:
  assumes f: "puts_always f as" and g: "puts_always g bs"
  shows "puts_always (\<lambda>mem. do { mem \<leftarrow> f mem; g mem }) (as @ bs)"
  unfolding puts_always_def
proof (intro allI impI)
  fix mem hdr body
  assume b: "built mem hdr body" "16 + length body + length (attrs_bytes (as @ bs)) \<le> length mem"
  obtain m1 where m1: "f mem = Some m1" "built m1 hdr (body @ attrs_bytes as)" "length m1 = length mem"
    using f b unfolding puts_always_def by fastforce
  have "16 + length (body @ attrs_bytes as) + length (attrs_bytes bs) \<le> length m1" using b(2) m1(3) by simp
  then obtain m2 where "g m1 = Some m2" "built m2 hdr ((body @ attrs_bytes as) @ attrs_bytes bs)" "length m2 = length m1"
    using g m1(2) unfolding puts_always_def by blast
  then show "\<exists>mem'. do { mem \<leftarrow> f mem; g mem } = Some mem' \<and> built mem' hdr (body @ attrs_bytes (as @ bs)) \<and> length mem' = length mem"
    using m1 by simp
qed

lemma puts_device_attrs: "puts_always (put_device_attrs dev) (device_attrs dev)"
  unfolding put_device_attrs_def device_attrs_def mnl_attr_put_u16_def mnl_attr_put_u32_def
  by (intro puts_always_then puts_always_if puts_always_put)

lemma device_attrs_small: "length (wd_private_key dev) = 32 \<Longrightarrow> length (attrs_bytes (device_attrs dev)) \<le> 60"
  by (auto simp: device_attrs_def)

lemma name_small:
  assumes "0 \<in> set name" "length name = 16"
  shows "strz name = Some (name_bytes name)" "length (attr_bytes t (name_bytes name)) \<le> 20"
proof -
  show "strz name = Some (name_bytes name)" using assms by (simp add: strz_def name_bytes_def)
  have "takeWhile (\<lambda>c. c \<noteq> 0) name \<noteq> name" using assms(1) by (metis set_takeWhileD)
  then have "length (takeWhile (\<lambda>c. c \<noteq> 0) name) < length name"
    by (metis length_takeWhile_le nat_less_le takeWhile_eq_take take_all order_refl)
  then have "MNL_ALIGN (length (name_bytes name)) \<le> MNL_ALIGN 16"
    using assms(2) by (intro align_mono) (simp add: name_bytes_def)
  then show "length (attr_bytes t (name_bytes name)) \<le> 20" by simp
qed

lemma message_head_built:
  assumes dev: "device_ok dev" and buf: "272 \<le> length buf" "length buf < 2 ^ 16"
  shows "\<exists>m1 m2 m3. mnlg_msg_prepare buf 1 5 family version now = Some m1 \<and>
    mnl_attr_put_strz m1 0 WGDEVICE_A_IFNAME (wd_name dev) = Some m2 \<and> put_if first (put_device_attrs dev) m2 = Some m3 \<and>
    built m3 (msg_hdr family 5 now) ([1, of_nat version, 0, 0] @ attrs_bytes ([(WGDEVICE_A_IFNAME, name_bytes (wd_name dev))] @
      (if first then device_attrs dev else []))) \<and> length m3 = length buf"
proof -
  let ?hdr = "msg_hdr family 5 now" and ?g = "[1, of_nat version, 0, 0] :: u8 list"
  let ?name = "[(WGDEVICE_A_IFNAME, name_bytes (wd_name dev))]" and ?dev = "if first then device_attrs dev else []"
  have name: "strz (wd_name dev) = Some (name_bytes (wd_name dev))" "length (attrs_bytes ?name) \<le> 20"
    using name_small(1) [of "wd_name dev"] name_small(2) [of "wd_name dev" WGDEVICE_A_IFNAME] dev by (simp_all add: device_ok_def)
  have dlen: "length (attrs_bytes ?dev) \<le> 60" using device_attrs_small [of dev] dev by (simp add: device_ok_def)
  obtain m1 where m1: "mnlg_msg_prepare buf 1 5 family version now = Some m1" "built m1 ?hdr ?g" "length m1 = length buf"
    using msg_prepare_built [of buf 1 5 family version now] buf by auto
  obtain m2 where m2: "mnl_attr_put m1 0 WGDEVICE_A_IFNAME (name_bytes (wd_name dev)) = Some m2"
    "built m2 ?hdr (?g @ attrs_bytes ?name)" "length m2 = length buf"
    using puts_always_put [of WGDEVICE_A_IFNAME "name_bytes (wd_name dev)"] m1(2,3) name(2) buf(1)
    unfolding puts_always_def by fastforce
  have "puts_always (put_if first (put_device_attrs dev)) ?dev" by (rule puts_always_if [OF puts_device_attrs])
  moreover have "16 + length (?g @ attrs_bytes ?name) + length (attrs_bytes ?dev) \<le> length m2"
    using name(2) dlen buf(1) m2(3) by simp
  ultimately obtain m3 where m3: "put_if first (put_device_attrs dev) m2 = Some m3"
    "built m3 ?hdr ((?g @ attrs_bytes ?name) @ attrs_bytes ?dev)" "length m3 = length m2"
    using m2(2) unfolding puts_always_def by blast
  then show ?thesis using m1(1) m2(1,3) name(1) by (simp add: mnl_attr_put_strz_def)
qed

lemma message_head_small:
  "device_ok dev \<Longrightarrow> length (attrs_bytes ([(WGDEVICE_A_IFNAME, name_bytes (wd_name dev))] @ (if first then device_attrs dev else []))) \<le> 80"
  using name_small(2) [of "wd_name dev" WGDEVICE_A_IFNAME] device_attrs_small [of dev] by (auto simp: device_ok_def)

text \<open>The body of a message: the generic header and the attributes.\<close>

definition message_body :: "nat \<Rightarrow> wg_device \<Rightarrow> bool \<Rightarrow> frag list \<Rightarrow> u8 list" where
  "message_body version dev first frs = [1, of_nat version, 0, 0] @ attrs_bytes (message_attrs dev first frs)"

lemma set_device_message_built:
  assumes dev: "device_ok dev" and buf: "272 \<le> length buf" "length buf < 2 ^ 16"
    and st: "\<forall>p\<in>set peers. peer_ok p" "peers = [] \<longrightarrow> aips = []" "peers \<noteq> [] \<longrightarrow> wd_peers dev \<noteq> []"
  defines "ps \<equiv> if peers = [] then wd_peers dev else peers"
  shows "\<exists>mem frs ps' aips'. set_device_message family version now dev buf peers aips = Some (mem, ps', aips') \<and>
    built mem (msg_hdr family 5 now) (message_body version dev (peers = []) frs) \<and> length mem = length buf \<and>
    emits ps aips frs ps' aips' \<and> (\<forall>p\<in>set ps'. peer_ok p) \<and> (ps' = [] \<longrightarrow> aips' = []) \<and>
    (ps \<noteq> [] \<longrightarrow> work ps' aips' < work ps aips)"
proof -
  let ?hdr = "msg_hdr family 5 now" and ?g = "[1, of_nat version, 0, 0] :: u8 list"
  let ?head = "[(WGDEVICE_A_IFNAME, name_bytes (wd_name dev))] @ (if peers = [] then device_attrs dev else [])"
  obtain m1 m2 m3 where m: "mnlg_msg_prepare buf 1 5 family version now = Some m1"
    "mnl_attr_put_strz m1 0 WGDEVICE_A_IFNAME (wd_name dev) = Some m2" "put_if (peers = []) (put_device_attrs dev) m2 = Some m3"
    "built m3 ?hdr (?g @ attrs_bytes ?head)" "length m3 = length buf"
    using message_head_built [OF dev buf, of family version now "peers = []"] by blast
  have hlen: "length (?g @ attrs_bytes ?head) \<le> 84" using message_head_small [OF dev, of "peers = []"] by simp
  show ?thesis
  proof (cases "wd_peers dev = []")
    case True
    have "set_device_message family version now dev buf peers aips = Some (m3, [], [])"
      using m True by (simp add: set_device_message_def)
    moreover have "ps = []" "aips = []" using True st ps_def by auto
    ultimately show ?thesis
      using m(4,5) True emits_stop [of "[]" "[]"]
      by (intro exI [of _ m3] exI [of _ "[]"]) (simp add: message_body_def message_attrs_def)
  next
    case False
    let ?t = "NLA_F_NESTED OR WGDEVICE_A_PEERS"
    obtain m4 j where m4: "mnl_attr_nest_start m3 0 WGDEVICE_A_PEERS = Some (m4, 16 + length (?g @ attrs_bytes ?head))" "length j = 2"
      "built m4 ?hdr ((?g @ attrs_bytes ?head) @ j @ le_bytes 2 ?t)" "length m4 = length buf"
      using nest_start_built [OF m(4), of WGDEVICE_A_PEERS] hlen buf(1) m(5) by auto
    have ps: "\<forall>p\<in>set ps. peer_ok p" "ps \<noteq> []" "ps = [] \<longrightarrow> aips = []" using st dev False by (auto simp: ps_def device_ok_def)
    have room: "184 + length ((?g @ attrs_bytes ?head) @ j @ le_bytes 2 ?t) \<le> length buf" using hlen m4(2) buf(1) by simp
    obtain m5 frs ps' aips' where m5: "put_peers (length buf) ps aips m4 = Some (m5, ps', aips')"
      "built m5 ?hdr (((?g @ attrs_bytes ?head) @ j @ le_bytes 2 ?t) @ attrs_bytes (map frag_nest frs))" "length m5 = length buf"
      "emits ps aips frs ps' aips'" "\<forall>p\<in>set ps'. peer_ok p" "ps' = [] \<longrightarrow> aips' = []" "work ps' aips' < work ps aips"
      using put_peers_built [OF m4(3,4) ps(1,3) disjI2 [OF room]] ps(2) room by blast
    obtain m6 where m6: "mnl_attr_nest_end m5 0 (16 + length (?g @ attrs_bytes ?head)) = Some m6" "length m6 = length buf"
      "built m6 ?hdr ((?g @ attrs_bytes ?head) @ attr_bytes ?t (attrs_bytes (map frag_nest frs)))"
      using nest_end_built [of m5 ?hdr "?g @ attrs_bytes ?head" j ?t "attrs_bytes (map frag_nest frs)"] m5(2,3) m4(2)
        built_simps(2) [OF m(4)] by auto
    have "set_device_message family version now dev buf peers aips = Some (m6, ps', aips')"
      using m(1-3) m4(1) m5(1) m6(1) False by (simp add: set_device_message_def ps_def)
    moreover have "message_body version dev (peers = []) frs = (?g @ attrs_bytes ?head) @ attr_bytes ?t (attrs_bytes (map frag_nest frs))"
      using False by (simp add: message_body_def message_attrs_def nest_def)
    ultimately show ?thesis
      using m6(2,3) m5(4-7) by (intro exI [of _ m6] exI [of _ frs] exI [of _ ps'] exI [of _ aips']) simp
  qed
qed

section \<open>All messages\<close>

text \<open>A kernel that records and acknowledges the messages. Its clock may run.\<close>

definition recorder :: "nat \<Rightarrow> u8 list list \<Rightarrow> u8 list \<Rightarrow> u8 list list \<times> (int + recv list)" where
  "recorder portid ms m = (ms @ [m], Inr [Recv_Data (nl_ack portid m) False 12])"

definition message :: "mnlg_socket \<Rightarrow> wg_device \<Rightarrow> bool \<Rightarrow> u32 \<times> frag list \<Rightarrow> u8 list" where
  "message nlg dev first tf =
     (let body = message_body (nlg_version nlg) dev first (snd tf) in
      le_bytes 4 (16 + length body) @ msg_hdr (unat (nlg_id nlg)) 5 (unat (fst tf)) @ body)"

lemma built_message_le: "built mem hdr body \<Longrightarrow> length (le_bytes 4 (16 + length body) @ hdr @ body) \<le> length mem"
  by (auto simp: built_def)

lemma message_seq: "take 4 (drop 8 (message nlg dev first tf)) = le_bytes 4 (unat (fst tf))" "16 \<le> length (message nlg dev first tf)"
  by (simp_all add: message_def Let_def msg_hdr_def)

text \<open>One message and its acknowledgement, for any kernel.\<close>

lemma set_device_exchange:
  assumes dev: "device_ok dev" and buf: "272 \<le> length buf" "length buf < 2 ^ 16" and nlg: "nlg_portid nlg < 2 ^ 32"
    and st: "\<forall>p\<in>set peers. peer_ok p" "peers = [] \<longrightarrow> aips = []" "peers \<noteq> [] \<longrightarrow> wd_peers dev \<noteq> []"
  defines "ps \<equiv> if peers = [] then wd_peers dev else peers"
  shows "\<exists>tf ps' aips' buf'. (\<forall>k'. nl_kernel k (message nlg dev (peers = []) tf) =
        (k', Inr [Recv_Data (nl_ack (nlg_portid nlg) (message nlg dev (peers = []) tf)) False 12]) \<longrightarrow>
      set_device_loop (Suc fuel) nl_kernel clock nlg dev k buf peers aips =
        (if ps' \<noteq> [] then set_device_loop fuel nl_kernel clock nlg dev k' buf' ps' aips' else Some (k', 0))) \<and>
    length (message nlg dev (peers = []) tf) \<le> length buf \<and> length buf' = length buf \<and>
    emits ps aips (snd tf) ps' aips' \<and> (\<forall>p\<in>set ps'. peer_ok p) \<and> (ps' = [] \<longrightarrow> aips' = []) \<and>
    (ps \<noteq> [] \<longrightarrow> work ps' aips' < work ps aips)"
proof -
  let ?id = "unat (nlg_id nlg)" and ?now = "unat (clock k)" and ?portid = "nlg_portid nlg"
  obtain mem frs ps' aips' where m: "set_device_message ?id (nlg_version nlg) ?now dev buf peers aips = Some (mem, ps', aips')"
    "built mem (msg_hdr ?id 5 ?now) (message_body (nlg_version nlg) dev (peers = []) frs)" "length mem = length buf"
    "emits ps aips frs ps' aips'" "\<forall>p\<in>set ps'. peer_ok p" "ps' = [] \<longrightarrow> aips' = []" "ps \<noteq> [] \<longrightarrow> work ps' aips' < work ps aips"
    using set_device_message_built [OF dev buf st, of ?id "nlg_version nlg" ?now] unfolding ps_def by blast
  let ?m = "message nlg dev (peers = []) (clock k, frs)"
  have msg: "mnlg_socket_send (nl_kernel k) mem = Some (nl_kernel k ?m)"
    using built_sent(2) [OF m(2)] by (simp add: message_def Let_def)
  have now: "?now < 2 ^ 32" using unsigned_less [of "clock k", where 'a = nat] by simp
  have len: "36 \<le> length mem" using m(3) buf by simp
  obtain buf' where r: "length buf' = length mem"
    "mnlg_socket_recv_run ?now ?portid None mem (0, ()) [Recv_Data (nl_ack ?portid ?m) False 12] = Some ((0, 0, ()), buf', [])"
    using ack_received [OF message_seq [of nlg dev "peers = []" "(clock k, frs)", unfolded fst_conv] now nlg len, of None 0 "()"] by blast
  have "set_device_loop (Suc fuel) nl_kernel clock nlg dev k buf peers aips =
      (if ps' \<noteq> [] then set_device_loop fuel nl_kernel clock nlg dev k' buf' ps' aips' else Some (k', 0))"
    if a: "nl_kernel k ?m = (k', Inr [Recv_Data (nl_ack ?portid ?m) False 12])" for k'
    unfolding set_device_loop.simps Let_def m(1) bind.bind_lunit prod.case msg a sum.case r(2) by simp
  moreover have "length ?m \<le> length buf" using built_message_le [OF m(2)] m(3) by (simp add: message_def Let_def)
  ultimately show ?thesis
    using m(3-7) r(1) by (intro exI [of _ "(clock k, frs)"] exI [of _ ps'] exI [of _ aips'] exI [of _ buf']) simp
qed

lemma set_device_step:
  assumes "device_ok dev" "272 \<le> length buf" "length buf < 2 ^ 16" "nlg_portid nlg < 2 ^ 32"
    and "\<forall>p\<in>set peers. peer_ok p" "peers = [] \<longrightarrow> aips = []" "peers \<noteq> [] \<longrightarrow> wd_peers dev \<noteq> []"
  defines "ps \<equiv> if peers = [] then wd_peers dev else peers"
  shows "\<exists>tf ps' aips' buf'. set_device_loop (Suc fuel) (recorder (nlg_portid nlg)) clock nlg dev k buf peers aips =
      (if ps' \<noteq> [] then set_device_loop fuel (recorder (nlg_portid nlg)) clock nlg dev
         (k @ [message nlg dev (peers = []) tf]) buf' ps' aips'
       else Some (k @ [message nlg dev (peers = []) tf], 0)) \<and>
    length (message nlg dev (peers = []) tf) \<le> length buf \<and> length buf' = length buf \<and>
    emits ps aips (snd tf) ps' aips' \<and> (\<forall>p\<in>set ps'. peer_ok p) \<and> (ps' = [] \<longrightarrow> aips' = []) \<and>
    (ps \<noteq> [] \<longrightarrow> work ps' aips' < work ps aips)"
  using set_device_exchange [OF assms(1-7), of "recorder (nlg_portid nlg)" k fuel clock] unfolding ps_def recorder_def by blast

lemma set_device_continue:
  assumes "device_ok dev" "wd_peers dev \<noteq> []" "nlg_portid nlg < 2 ^ 32"
  shows "272 \<le> length buf \<Longrightarrow> length buf < 2 ^ 16 \<Longrightarrow> peers \<noteq> [] \<Longrightarrow> \<forall>p\<in>set peers. peer_ok p \<Longrightarrow> work peers aips \<le> fuel \<Longrightarrow>
    \<exists>tfs. set_device_loop fuel (recorder (nlg_portid nlg)) clock nlg dev k buf peers aips =
        Some (k @ map (message nlg dev False) tfs, 0) \<and>
      (\<forall>tf\<in>set tfs. length (message nlg dev False tf) \<le> length buf) \<and> emits peers aips (concat (map snd tfs)) [] [] \<and>
      length tfs \<le> work peers aips"
proof (induction fuel arbitrary: k buf peers aips)
  case 0
  then show ?case by (cases peers) (simp_all add: work_def)
next
  case (Suc fuel)
  let ?msg = "message nlg dev False" and ?loop = "\<lambda>fuel. set_device_loop fuel (recorder (nlg_portid nlg)) clock nlg dev"
  have ne: "(peers = []) = False" using Suc.prems(3) by simp
  have side: "peers = [] \<longrightarrow> aips = []" "peers \<noteq> [] \<longrightarrow> wd_peers dev \<noteq> []" using assms(2) ne by simp_all
  obtain tf ps' aips' buf' where s: "?loop (Suc fuel) k buf peers aips =
      (if ps' \<noteq> [] then ?loop fuel (k @ [?msg tf]) buf' ps' aips' else Some (k @ [?msg tf], 0))"
    "length (?msg tf) \<le> length buf" "length buf' = length buf" "emits peers aips (snd tf) ps' aips'" "\<forall>p\<in>set ps'. peer_ok p"
    "ps' = [] \<longrightarrow> aips' = []" "work ps' aips' < work peers aips"
    using set_device_step [OF assms(1) Suc.prems(1,2) assms(3) Suc.prems(4) side, of fuel clock k, unfolded ne if_False not_False_eq_True]
    by blast
  show ?case
  proof (cases "ps' = []")
    case True
    then show ?thesis using s by (intro exI [of _ "[tf]"]) simp
  next
    case False
    obtain tfs where IH: "?loop fuel (k @ [?msg tf]) buf' ps' aips' = Some ((k @ [?msg tf]) @ map ?msg tfs, 0)"
      "\<forall>tf\<in>set tfs. length (?msg tf) \<le> length buf'" "emits ps' aips' (concat (map snd tfs)) [] []" "length tfs \<le> work ps' aips'"
      using Suc.IH [of buf' ps' aips' "k @ [?msg tf]"] Suc.prems s(3,5,7) False by auto
    have "emits peers aips (snd tf @ concat (map snd tfs)) [] []" by (rule emits_trans [OF s(4) IH(3)])
    then show ?thesis using s(1-3,7) IH(1,2,4) False by (intro exI [of _ "tf # tfs"]) simp
  qed
qed

text \<open>Everything that is sent: the first message and those that continue it.\<close>

lemma set_device_messages:
  assumes "device_ok dev" "272 \<le> length buf" "length buf < 2 ^ 16" "nlg_portid nlg < 2 ^ 32" "Suc (work (wd_peers dev) []) \<le> fuel"
  shows "\<exists>tf tfs. set_device_loop fuel (recorder (nlg_portid nlg)) clock nlg dev k buf [] [] =
      Some (k @ message nlg dev True tf # map (message nlg dev False) tfs, 0) \<and>
    (\<forall>m\<in>set (message nlg dev True tf # map (message nlg dev False) tfs). length m \<le> length buf) \<and>
    (wd_peers dev = [] \<longrightarrow> tfs = []) \<and> emits (wd_peers dev) [] (snd tf @ concat (map snd tfs)) [] [] \<and> length tfs \<le> work (wd_peers dev) []"
proof -
  obtain n where n: "fuel = Suc n" "work (wd_peers dev) [] \<le> n" using assms(5) by (cases fuel) auto
  let ?msg = "message nlg dev" and ?loop = "\<lambda>fuel. set_device_loop fuel (recorder (nlg_portid nlg)) clock nlg dev"
  have side: "\<forall>p\<in>set ([] :: wg_peer list). peer_ok p" "([] :: wg_peer list) = [] \<longrightarrow> ([] :: wg_allowedip list) = []"
    "([] :: wg_peer list) \<noteq> [] \<longrightarrow> wd_peers dev \<noteq> []" by simp_all
  obtain tf ps' aips' buf' where s: "?loop (Suc n) k buf [] [] =
      (if ps' \<noteq> [] then ?loop n (k @ [?msg True tf]) buf' ps' aips' else Some (k @ [?msg True tf], 0))"
    "length (?msg True tf) \<le> length buf" "length buf' = length buf" "emits (wd_peers dev) [] (snd tf) ps' aips'" "\<forall>p\<in>set ps'. peer_ok p"
    "ps' = [] \<longrightarrow> aips' = []" "wd_peers dev \<noteq> [] \<longrightarrow> work ps' aips' < work (wd_peers dev) []"
    using set_device_step [OF assms(1-4) side, of n clock k, unfolded simp_thms if_True] by blast
  show ?thesis
  proof (cases "ps' = []")
    case True
    then show ?thesis using s n(1) by (intro exI [of _ tf] exI [of _ "[]"]) simp
  next
    case False
    then have dev: "wd_peers dev \<noteq> []" using s(4) by (auto elim: emits_NilE)
    obtain tfs where c: "?loop n (k @ [?msg True tf]) buf' ps' aips' = Some ((k @ [?msg True tf]) @ map (?msg False) tfs, 0)"
      "\<forall>tf\<in>set tfs. length (?msg False tf) \<le> length buf'" "emits ps' aips' (concat (map snd tfs)) [] []" "length tfs \<le> work ps' aips'"
      using set_device_continue [OF assms(1) dev assms(4), of buf' ps' aips' n clock "k @ [?msg True tf]"]
        assms(2,3) s(3,5,7) False dev n(2) by auto
    have "emits (wd_peers dev) [] (snd tf @ concat (map snd tfs)) [] []" by (rule emits_trans [OF s(4) c(3)])
    then show ?thesis using s(1-3,7) c(1,2,4) False dev n(1) by (intro exI [of _ tf] exI [of _ tfs]) simp
  qed
qed

end
