(* ===== verification/Wg_Get_Device.thy ===== *)
theory Wg_Get_Device
  imports Wg_Device
begin

text \<open>
  Reading devices: the parse functions stay inside the buffer for every message whose name attributes end
  in the buffer or have room for 15 characters, the joined peers are those of the reference definition, and what happens to \<open>wg_get_device\<close> when a dump is
  interrupted.
\<close>

section \<open>Parsing stays inside the buffer\<close>

definition attr_in :: "nlbuf \<Rightarrow> nat \<Rightarrow> nat \<Rightarrow> bool" where
  "attr_in mem stop a \<longleftrightarrow> stop \<le> length mem \<and> (\<exists>n. nla_len mem a = Some n \<and> 4 \<le> n \<and> a + n \<le> stop)"

lemma nla_len_less: "nla_len mem a = Some n \<Longrightarrow> n < 2 ^ 16"
  using le_nat_less [of "take 2 (drop a mem)"] by (auto simp: nla_len_def rd_block_def split: if_splits)

lemma attr_in_reads:
  assumes "attr_in mem stop a"
  obtains n t where "mnl_attr_get_payload_len mem a = Some n" "mnl_attr_get_payload a + n \<le> stop"
    "mnl_attr_get_type mem a = Some t" "stop \<le> length mem"
proof -
  obtain n where n: "nla_len mem a = Some n" "4 \<le> n" "a + n \<le> stop" "stop \<le> length mem"
    using assms by (auto simp: attr_in_def)
  have "mnl_attr_get_payload_len mem a = Some (n - 4)"
    using n(2) nla_len_less [OF n(1)] by (simp add: mnl_attr_get_payload_len_def n(1) nat_diff_distrib)
  moreover obtain t where "mnl_attr_get_type mem a = Some t"
    using n by (auto simp: mnl_attr_get_type_def nla_type_def)
  ultimately show thesis using that n by (simp add: mnl_attr_get_payload_def)
qed

lemma validate_total: "attr_in mem stop a \<Longrightarrow> \<exists>v. mnl_attr_validate mem a ty = Some v"
  by (erule attr_in_reads)
    (auto simp: mnl_attr_validate_def attr_validate_def Let_def and_then_def split: mnl_attr_data_type.splits)

lemma validate_sized:
  "mnl_attr_validate mem a ty = Some (Inr u) \<Longrightarrow> mnl_attr_data_type_len ty \<noteq> 0 \<Longrightarrow>
   mnl_attr_get_payload_len mem a = Some (mnl_attr_data_type_len ty)"
  by (auto simp: mnl_attr_validate_def attr_validate_def Let_def and_then_def
      split: if_splits mnl_attr_data_type.splits Option.bind_splits)

text \<open>Reading a number of the validated width succeeds.\<close>

lemma when_valid_total:
  assumes a: "attr_in mem stop a"
    and "\<And>n. mnl_attr_get_payload_len mem a = Some n \<Longrightarrow> mnl_attr_data_type_len ty \<in> {0, n} \<Longrightarrow>
      mnl_attr_get_payload a + n \<le> length mem \<Longrightarrow> \<exists>x. upd = Some x"
  shows "\<exists>ret st'. when_valid mem a ty upd st = Some (ret, st')"
proof -
  obtain n t where n: "mnl_attr_get_payload_len mem a = Some n" "mnl_attr_get_payload a + n \<le> stop" "stop \<le> length mem"
    by (rule attr_in_reads [OF a])
  obtain v where v: "mnl_attr_validate mem a ty = Some v" using validate_total [OF a] by blast
  show ?thesis
  proof (cases v)
    case (Inl e)
    then show ?thesis using v by (simp add: when_valid_def)
  next
    case (Inr u)
    then obtain x where "upd = Some x"
      using assms(2) [OF n(1)] n v validate_sized [of mem a ty u] by fastforce
    then show ?thesis using Inr v by (simp add: when_valid_def)
  qed
qed

lemma parse_allowedip_total:
  assumes a: "attr_in mem stop a"
  shows "\<exists>ret st'. parse_allowedip mem a st = Some (ret, st')"
proof -
  obtain n t where n: "mnl_attr_get_payload_len mem a = Some n" "mnl_attr_get_payload a + n \<le> stop"
    "mnl_attr_get_type mem a = Some t" "stop \<le> length mem"
    by (rule attr_in_reads [OF a])
  obtain e ai where st: "st = (e, ai)" by (cases st)
  have u16: "\<exists>ret st'. when_valid mem a MNL_TYPE_U16 (do { x \<leftarrow> mnl_attr_get_u16 mem a; Some (f x) }) (e, ai) = Some (ret, st')" for f
    by (rule when_valid_total [OF a]) (auto simp: mnl_attr_get_u16_def)
  have u8: "\<exists>ret st'. when_valid mem a MNL_TYPE_U8 (do { x \<leftarrow> mnl_attr_get_u8 mem a; Some (f x) }) (e, ai) = Some (ret, st')" for f
    by (rule when_valid_total [OF a]) (auto simp: mnl_attr_get_u8_def)
  show ?thesis
    using u16 u8 n unfolding parse_allowedip_def st
    by (auto simp: copy_payload_def)
qed

lemma parse_nested_total:
  assumes a: "attr_in mem stop a" and cb: "\<And>b st. attr_in mem stop b \<Longrightarrow> \<exists>ret st'. cb b st = Some (ret, st')"
  shows "\<exists>ret st'. mnl_attr_parse_nested mem a cb st = Some (ret, st')"
proof -
  obtain n t where n: "mnl_attr_get_payload_len mem a = Some n" "mnl_attr_get_payload a + n \<le> stop" "stop \<le> length mem"
    by (rule attr_in_reads [OF a])
  have "\<exists>ret st'. attr_loop mem (mnl_attr_get_payload a + n) cb (mnl_attr_get_payload a) 1 st = Some (ret, st')"
    by (rule attr_loop_total [where P = "\<lambda>_. True"]) (use n cb in \<open>auto simp: attr_in_def\<close>)
  then show ?thesis by (simp add: mnl_attr_parse_nested_def n(1))
qed

lemma parse_allowedips_total:
  assumes a: "attr_in mem stop a"
  shows "\<exists>ret st'. parse_allowedips mem a st = Some (ret, st')"
proof -
  obtain e b p where st: "st = (e, b, p)" by (cases st)
  obtain ret e' ai where "mnl_attr_parse_nested mem a (parse_allowedip mem) (e, zero_allowedip) = Some (ret, e', ai)"
    using parse_nested_total [where cb = "parse_allowedip mem" and st = "(e, zero_allowedip)", OF a] parse_allowedip_total by fastforce
  then show ?thesis by (auto simp: parse_allowedips_def st Let_def)
qed

lemma copy_payload_total:
  "attr_in mem stop a \<Longrightarrow> mnl_attr_get_payload_len mem a = Some n \<Longrightarrow> \<exists>x. copy_payload mem a n old = Some x"
  by (erule attr_in_reads) (auto simp: copy_payload_def)

text \<open>The scalar attributes of a peer and of a device.\<close>

lemma scalar_total:
  assumes a: "attr_in mem stop a"
  shows u16_total: "\<exists>ret st'. when_valid mem a MNL_TYPE_U16 (do { p \<leftarrow> do { x \<leftarrow> mnl_attr_get_u16 mem a; Some (f x) }; Some (budget, p) }) st = Some (ret, st')"
    and u32_total: "\<exists>ret st'. when_valid mem a MNL_TYPE_U32 (do { p \<leftarrow> do { x \<leftarrow> mnl_attr_get_u32 mem a; Some (g x) }; Some (budget, p) }) st = Some (ret, st')"
    and u64_total: "\<exists>ret st'. when_valid mem a MNL_TYPE_U64 (do { p \<leftarrow> do { x \<leftarrow> mnl_attr_get_u64 mem a; Some (h x) }; Some (budget, p) }) st = Some (ret, st')"
  by (rule when_valid_total [OF a], simp add: mnl_attr_get_u16_def mnl_attr_get_u32_def mnl_attr_get_u64_def)+

lemma if_total:
  "(c \<Longrightarrow> \<exists>ret st. x = Some (ret, st)) \<Longrightarrow> (\<not> c \<Longrightarrow> \<exists>ret st. y = Some (ret, st)) \<Longrightarrow>
   \<exists>ret st. (if c then x else y) = Some (ret, st)"
  by simp

lemma parse_peer_total:
  assumes a: "attr_in mem stop a"
  shows "\<exists>ret st'. parse_peer mem a st = Some (ret, st')"
proof -
  obtain n t where n: "mnl_attr_get_payload_len mem a = Some n" "mnl_attr_get_payload a + n \<le> stop"
    "mnl_attr_get_type mem a = Some t" "stop \<le> length mem"
    by (rule attr_in_reads [OF a])
  obtain e b p where st: "st = (e, b, p)" by (cases st)
  obtain cp where copy: "n = k \<Longrightarrow> copy_payload mem a k old = Some (cp old)" for old k
    using copy_payload_total [OF a n(1)] by metis
  obtain family where u16: "\<not> n < 16 \<Longrightarrow> mnl_attr_get_u16 mem a = Some family"
    using n by (cases "n < 16") (auto simp: mnl_attr_get_u16_def)
  have nest: "\<exists>ret st'. mnl_attr_parse_nested mem a (parse_allowedips mem) st = Some (ret, st')"
    by (rule parse_nested_total [OF a parse_allowedips_total])
  show ?thesis
    unfolding parse_peer_def st Let_def prod.case n(1,3) bind.bind_lunit
    by (intro if_total u16_total [OF a] u64_total [OF a] nest [unfolded st])
      (simp_all add: copy u16)
qed

lemma parse_peers_total:
  assumes a: "attr_in mem stop a"
  shows "\<exists>ret st'. parse_peers mem a st = Some (ret, st')"
proof -
  obtain e b d where st: "st = (e, b, d)" by (cases st)
  obtain ret e' b' p where "mnl_attr_parse_nested mem a (parse_peer mem) (e, b - 1, zero_peer (length (wd_peers d))) = Some (ret, e', b', p)"
    using parse_nested_total [where cb = "parse_peer mem" and st = "(e, b - 1, zero_peer (length (wd_peers d)))", OF a] parse_peer_total by fastforce
  then show ?thesis by (auto simp: parse_peers_def st Let_def)
qed

lemma c_strncpy_total: "off + n \<le> length mem \<Longrightarrow> \<exists>s. c_strncpy mem off n = Some s"
proof (induction n arbitrary: off)
  case (Suc n)
  then have "off + 1 + n \<le> length mem" by simp
  then obtain s where "c_strncpy mem (off + 1) n = Some s" using Suc.IH by blast
  then show ?case using Suc.prems by auto
qed simp

lemma c_strncpy_terminated: "mem ! (off + k) = 0 \<Longrightarrow> off + k < length mem \<Longrightarrow> \<exists>s. c_strncpy mem off n = Some s"
proof (induction n arbitrary: off k)
  case (Suc n)
  show ?case
  proof (cases k)
    case (Suc j)
    then obtain s where "c_strncpy mem (off + 1) n = Some s" using Suc.IH [of "off + 1" j] Suc.prems by auto
    then show ?thesis using Suc.prems by (auto simp: rd_def)
  qed (use Suc.prems in \<open>auto simp: rd_def\<close>)
qed simp

text \<open>
  Where \<open>strncpy\<close> may read: the 15 bytes of the name are in the buffer, or there is a NUL among those
  that are. The loop over the attributes of a message visits \<open>top_attr\<close>.
\<close>

definition name_ends :: "nlbuf \<Rightarrow> nat \<Rightarrow> bool" where
  "name_ends mem a \<longleftrightarrow> mnl_attr_get_str a + 15 \<le> length mem \<or>
     (\<exists>k. mnl_attr_get_str a + k < length mem \<and> mem ! (mnl_attr_get_str a + k) = 0)"

inductive top_attr :: "nlbuf \<Rightarrow> nat \<Rightarrow> nat \<Rightarrow> bool" for mem start where
  first_attr: "top_attr mem start start"
| next_attr: "top_attr mem start a \<Longrightarrow> nla_len mem a = Some n \<Longrightarrow> top_attr mem start (a + MNL_ALIGN n)"

lemma parse_device_total:
  assumes a: "attr_in mem stop a" and name: "mnl_attr_get_type mem a = Some WGDEVICE_A_IFNAME \<Longrightarrow> name_ends mem a"
  shows "\<exists>ret st'. parse_device mem a st = Some (ret, st')"
proof -
  obtain n t where n: "mnl_attr_get_payload_len mem a = Some n" "mnl_attr_get_payload a + n \<le> stop"
    "mnl_attr_get_type mem a = Some t" "stop \<le> length mem"
    by (rule attr_in_reads [OF a])
  obtain e b d where st: "st = (e, b, d)" by (cases st)
  obtain cp where copy: "n = k \<Longrightarrow> copy_payload mem a k old = Some (cp old)" for old k
    using copy_payload_total [OF a n(1)] by metis
  have "\<exists>s. c_strncpy mem (mnl_attr_get_str a) 15 = Some s" if "t = WGDEVICE_A_IFNAME"
    using name n(3) that c_strncpy_total c_strncpy_terminated by (auto simp: name_ends_def)
  then have name: "t = WGDEVICE_A_IFNAME \<Longrightarrow> \<exists>ret st'. when_valid mem a MNL_TYPE_STRING (do { p \<leftarrow> do { s \<leftarrow> c_strncpy mem (mnl_attr_get_str a) 15; Some (f s) }; Some (b, p) }) st = Some (ret, st')" for f
    by (intro when_valid_total [OF a]) auto
  have nest: "\<exists>ret st'. mnl_attr_parse_nested mem a (parse_peers mem) st = Some (ret, st')"
    by (rule parse_nested_total [OF a parse_peers_total])
  show ?thesis
    unfolding parse_device_def st Let_def prod.case n(1,3) bind.bind_lunit
    by (intro if_total u16_total [OF a] u32_total [OF a] name [unfolded st] nest [unfolded st])
      (simp_all add: copy)
qed

lemma read_device_cb_total:
  assumes len: "nlmsg_len mem nlh = Some n" and stop: "nlh + MNL_ALIGN32 n \<le> length mem"
    and names: "\<And>a. top_attr mem (mnl_nlmsg_get_payload_offset nlh 4) a \<Longrightarrow> attr_in mem (nlh + MNL_ALIGN32 n) a \<Longrightarrow>
      mnl_attr_get_type mem a = Some WGDEVICE_A_IFNAME \<Longrightarrow> name_ends mem a"
  shows "\<exists>ret st'. read_device_cb mem nlh st = Some (ret, st')"
proof -
  have "\<exists>ret st'. attr_loop mem (nlh + MNL_ALIGN32 n) (parse_device mem) (mnl_nlmsg_get_payload_offset nlh 4) 1 st = Some (ret, st')"
  proof (rule attr_loop_total [where P = "top_attr mem (mnl_nlmsg_get_payload_offset nlh 4)", OF stop _ next_attr first_attr])
    fix a k st
    assume top: "top_attr mem (mnl_nlmsg_get_payload_offset nlh 4) a" and "nla_len mem a = Some k" "4 \<le> k" "a + k \<le> nlh + MNL_ALIGN32 n"
    then have "attr_in mem (nlh + MNL_ALIGN32 n) a" using stop by (simp add: attr_in_def)
    with parse_device_total names [OF top] show "\<exists>ret st'. parse_device mem a st = Some (ret, st')" by blast
  qed
  then show ?thesis
    using len by (simp add: read_device_cb_def mnl_attr_parse_def mnl_nlmsg_get_payload_tail_def)
qed

section \<open>Dangling pointers\<close>

lemma merge_peer_fields: "merge_peer p q = Some r \<Longrightarrow> wp_addr r = wp_addr p \<and> wp_public_key r = wp_public_key p"
  by (auto simp: merge_peer_def split: if_splits)

lemma coalesce_drops_last:
  "coalesce_list (ps @ [p, q]) = Some rs \<Longrightarrow> wp_public_key p = wp_public_key q \<Longrightarrow>
   wp_addr ` set rs \<subseteq> wp_addr ` set (ps @ [p])"
proof (induction "ps @ [p, q]" arbitrary: ps p rs rule: coalesce_list.induct)
  case (1 a b cs)
  have run: "coalesce_list (a # b # cs) = Some rs" by (simp only: 1(3,4))
  show ?case
  proof (cases ps)
    case Nil
    then have "a = p" "b = q" "cs = []" using 1(3) by auto
    then obtain r where "merge_peer p q = Some r" "rs = [r]"
      using run 1(5) by (auto split: Option.bind_splits)
    then show ?thesis using Nil merge_peer_fields by auto
  next
    case (Cons a' ps')
    then have a: "a' = a" "b # cs = ps' @ [p, q]" using 1(3) by auto
    show ?thesis
    proof (cases "wp_public_key a = wp_public_key b")
      case False
      then obtain rs' where rs': "coalesce_list (b # cs) = Some rs'" "rs = a # rs'" using run by auto
      then have "wp_addr ` set rs' \<subseteq> wp_addr ` set (ps' @ [p])" using 1(1) [OF False a(2)] 1(5) a(2) by simp
      then show ?thesis using rs'(2) Cons a(1) by auto
    next
      case True
      then obtain r where r: "merge_peer a b = Some r" "coalesce_list (r # cs) = Some rs"
        using run by (auto split: Option.bind_splits)
      note fields = merge_peer_fields [OF r(1)]
      show ?thesis
      proof (cases ps')
        case Nil
        then have "cs = [q]" "b = p" using a(2) by auto
        then have "wp_addr ` set rs \<subseteq> wp_addr ` set ([] @ [r])"
          using 1(2) [of r "[]" r] r True 1(5) fields by auto
        then show ?thesis using fields Cons a(1) by auto
      next
        case (Cons b' ps'')
        then have "cs = ps'' @ [p, q]" using a(2) by auto
        then have "wp_addr ` set rs \<subseteq> wp_addr ` set ((r # ps'') @ [p])"
          using 1(2) [of r "r # ps''" p rs] r True 1(5) by auto
        then show ?thesis using fields \<open>ps = a' # ps'\<close> a(1) Cons by auto
      qed
    qed
  qed
qed auto

section \<open>Properties\<close>

text \<open>Claim C11: for every message that lies in the receive buffer, reading the device, its peers and their
  allowed addresses never accesses memory outside the buffer, whatever the attributes, their lengths and
  their nesting are, as long as each interface name among the attributes of the message is followed by a NUL
  within the buffer or begins at least 15 bytes before its end. No byte behind the message is needed when the
  names are terminated.\<close>

theorem read_device_cb_safe:
  assumes "nlmsg_len mem nlh = Some n" "nlh + MNL_ALIGN32 n \<le> length mem"
    and "\<forall>a. top_attr mem (mnl_nlmsg_get_payload_offset nlh 4) a \<and> attr_in mem (nlh + MNL_ALIGN32 n) a \<and>
      mnl_attr_get_type mem a = Some WGDEVICE_A_IFNAME \<longrightarrow> name_ends mem a"
  shows "\<exists>ret errno budget' device'. read_device_cb mem nlh (0, budget, device) = Some (ret, errno, budget', device')"
  using read_device_cb_total [OF assms(1,2), of "(0, budget, device)"] assms(3) by auto

text \<open>A message with nothing behind it and the name \<open>wg0\<close> as its last attribute.\<close>

definition name_message :: nlbuf where
  "name_message = [28, 0, 0, 0] @ replicate 16 0 @ [8, 0, 2, 0, 0x77, 0x67, 0x30, 0]"

lemma name_message_attrs:
  assumes "top_attr name_message 20 a"
  shows "a = 20 \<or> a = 28"
  using assms
proof (induction rule: top_attr.induct)
  case (next_attr a n)
  have "nla_len name_message 20 = Some 8" "nla_len name_message 28 = None" by code_simp+
  then show ?case using next_attr by (auto simp: MNL_ALIGN_def)
qed simp

lemma read_device_cb_safe_witness:
  "nlmsg_len name_message 0 = Some 28 \<and> length name_message = 28 \<and>
   (\<exists>ret errno budget' device'. read_device_cb name_message 0 (0, 1, zero_device) = Some (ret, errno, budget', device'))"
proof -
  have len: "nlmsg_len name_message 0 = Some 28" "length name_message = 28" by code_simp+
  have "mnl_attr_get_str 20 + 3 < length name_message \<and> name_message ! (mnl_attr_get_str 20 + 3) = 0" by code_simp
  then have name: "name_ends name_message 20" unfolding name_ends_def by blast
  have no: "nla_len name_message 28 = None" by code_simp
  have "\<not> attr_in name_message stop 28" for stop by (simp add: attr_in_def no)
  then have "name_ends name_message a"
    if "top_attr name_message (mnl_nlmsg_get_payload_offset 0 4) a" "attr_in name_message stop a" for a stop
    using name that name_message_attrs [of a] by (auto simp: mnl_nlmsg_get_payload_offset_def MNL_ALIGN_def MNL_NLMSG_HDRLEN_def)
  then have "\<forall>a. top_attr name_message (mnl_nlmsg_get_payload_offset 0 4) a \<and> attr_in name_message (0 + MNL_ALIGN32 28) a \<and>
      mnl_attr_get_type name_message a = Some WGDEVICE_A_IFNAME \<longrightarrow> name_ends name_message a" by blast
  moreover have "0 + MNL_ALIGN32 28 \<le> length name_message" using len(2) by (simp add: MNL_ALIGN32_def)
  ultimately show ?thesis using read_device_cb_safe [OF len(1), of 1 zero_device] len by blast
qed

text \<open>Claim C25: when every peer that continues its predecessor has allowed addresses, \<open>coalesce_peers\<close> joins
  exactly the runs of consecutive peers with the same key: the first one gets all their addresses in
  order, and nothing else changes.\<close>

theorem coalesce_peers_groups:
  assumes "\<forall>p\<in>set (wd_peers d). last_ok p" "continued_ok (wd_peers d)"
  shows "coalesce_peers d = Some (d\<lparr>wd_peers := group_peers (wd_peers d)\<rparr>)"
  using coalesce_list_groups [OF assms] by (simp add: coalesce_peers_def)

definition sample_peer :: "nat \<Rightarrow> u8 \<Rightarrow> wg_allowedip list \<Rightarrow> wg_peer" where
  "sample_peer addr k ips = (zero_peer addr)\<lparr>wp_public_key := replicate 32 k, wp_allowedips := ips, wp_last_allowedip := (ips \<noteq> [])\<rparr>"

lemma coalesce_peers_groups_witness:
  "coalesce_peers (zero_device\<lparr>wd_peers := [sample_peer 0 1 [zero_allowedip], sample_peer 1 1 [zero_allowedip], sample_peer 2 2 []]\<rparr>) =
     Some (zero_device\<lparr>wd_peers := [sample_peer 0 1 [zero_allowedip, zero_allowedip], sample_peer 2 2 []]\<rparr>)"
  using coalesce_peers_groups [of "zero_device\<lparr>wd_peers :=
      [sample_peer 0 1 [zero_allowedip], sample_peer 1 1 [zero_allowedip], sample_peer 2 2 []]\<rparr>"]
  by (simp add: sample_peer_def last_ok_def)

text \<open>Claim C38: when the last two peers of a device have the same key, the second one is freed but
  \<open>last_peer\<close> still points to it after \<open>coalesce_peers\<close>.\<close>

theorem coalesce_peers_dangling:
  assumes "coalesce_peers d = Some d'" "wd_peers d = ps @ [p, q]" "wp_public_key p = wp_public_key q"
    and "distinct (map wp_addr (wd_peers d))" "wd_last_peer d = Some (wp_addr q)"
  shows "\<exists>a. wd_last_peer d' = Some a \<and> a \<notin> wp_addr ` set (wd_peers d')"
proof -
  obtain rs where rs: "coalesce_list (ps @ [p, q]) = Some rs" "d' = d\<lparr>wd_peers := rs\<rparr>"
    using assms(1,2) by (auto simp: coalesce_peers_def split: Option.bind_splits)
  have "wp_addr q \<notin> wp_addr ` set (ps @ [p])" using assms(2,4) by auto
  then show ?thesis using coalesce_drops_last [OF rs(1) assms(3)] rs(2) assms(5) by auto
qed

lemma coalesce_peers_dangling_witness:
  "\<exists>a d'. coalesce_peers (zero_device\<lparr>wd_peers := [sample_peer 0 1 [], sample_peer 1 1 []], wd_last_peer := Some 1\<rparr>) = Some d' \<and>
     wd_last_peer d' = Some a \<and> a \<notin> wp_addr ` set (wd_peers d')"
proof -
  have "coalesce_peers (zero_device\<lparr>wd_peers := [sample_peer 0 1 [], sample_peer 1 1 []], wd_last_peer := Some 1\<rparr>) =
      Some (zero_device\<lparr>wd_peers := [sample_peer 0 1 []], wd_last_peer := Some 1\<rparr>)"
    by (simp add: coalesce_peers_def merge_peer_def sample_peer_def)
  from coalesce_peers_dangling [OF this, of "[]" "sample_peer 0 1 []" "sample_peer 1 1 []"] this show ?thesis
    by (auto simp: sample_peer_def zero_peer_def)
qed

text \<open>Joining a peer with allowed addresses with a continuation without any clears its \<open>last\<close>
  pointer, and the next continuation dereferences it: \<open>coalesce_peers\<close> then accesses a null pointer.\<close>

lemma coalesce_peers_null:
  assumes "wp_allowedips p \<noteq> []" "last_ok p" "wp_allowedips q = []" "last_ok q"
    and "wp_public_key q = wp_public_key p" "wp_public_key r = wp_public_key p"
  shows "coalesce_peers (d\<lparr>wd_peers := p # q # r # ps\<rparr>) = None"
  using assms by (simp add: coalesce_peers_def merge_peer_def last_ok_def)

lemma coalesce_peers_null_witness:
  "coalesce_peers (zero_device\<lparr>wd_peers := [sample_peer 0 1 [zero_allowedip], sample_peer 1 1 [], sample_peer 2 1 [zero_allowedip]]\<rparr>) = None"
  by (rule coalesce_peers_null) (simp_all add: sample_peer_def last_ok_def)

text \<open>A failed attempt never resets \<open>ret\<close>.\<close>

lemma get_device_try_ret:
  "get_device_try ret name env = Some (Inr (ret', d)) \<Longrightarrow> ret \<noteq> 0 \<Longrightarrow> \<forall>m. ge_kernel env m \<noteq> Inl 0 \<Longrightarrow> ret' \<noteq> 0"
  by (auto simp: get_device_try_def mnlg_socket_send_def mnl_socket_sendto_def EINVAL_def
      split: if_splits Option.bind_splits sum.splits option.splits prod.splits)

lemma get_device_loop_stuck:
  "ret \<noteq> 0 \<Longrightarrow> \<forall>env\<in>set envs. \<forall>m. ge_kernel env m \<noteq> Inl 0 \<Longrightarrow> get_device_loop ret name envs \<noteq> Some (Inr d)"
proof (induction envs arbitrary: ret)
  case (Cons env envs)
  then show ?case
    using get_device_try_ret [of ret name env]
    by (auto split: Option.bind_splits sum.splits if_splits simp: EINTR_def)
qed simp

text \<open>Claim C39: once an attempt of \<open>wg_get_device\<close> was interrupted (\<open>EINTR\<close>), no later attempt can succeed,
  however the kernel answers: \<open>ret\<close> keeps the old error, so that a complete device is freed and the
  request repeated.\<close>

theorem wg_get_device_interrupted:
  assumes "get_device_try 0 name env = Some (Inr (- EINTR, d))" "\<forall>env\<in>set envs. \<forall>m. ge_kernel env m \<noteq> Inl 0"
  shows "wg_get_device name (env # envs) \<noteq> Some (Inr device)"
  using assms get_device_loop_stuck [of "- EINTR" envs name device]
  by (auto simp: wg_get_device_def EINTR_def)

text \<open>A system in which the socket can be opened and the request is interrupted.\<close>

definition sample_open :: open_env where
  "sample_open = \<lparr>oe_nlg = True, oe_buf = Some (replicate 48 0), oe_nl = True, oe_socket = None,
     oe_bind = \<lparr>br_bind = None, br_getsockname = None, br_addr_len = 12, br_family = 16, br_pid = 7\<rparr>,
     oe_time = 1, oe_kernel = answers
       ([36, 0, 0, 0, 16, 0, 5, 0, 1, 0, 0, 0, 0, 0, 0, 0, 3, 1, 0, 0, 14, 0, 2, 0] @ WG_GENL_NAME @ [0, 0])
       [Recv_Data [28, 0, 0, 0, 16, 0, 0, 0, 0, 0, 0, 0, 0, 0, 0, 0, 1, 2, 0, 0, 6, 0, 1, 0, 20, 0, 0, 0] False 12,
        Recv_Data ([36, 0, 0, 0, 2, 0] @ replicate 30 0) False 12],
     oe_ctrl_attr_max = 10\<rparr>"

definition sample_get :: "(int + recv list) \<Rightarrow> get_env" where
  "sample_get r = \<lparr>ge_budget = 1, ge_open = sample_open, ge_time = 1, ge_kernel = (\<lambda>_. r)\<rparr>"

abbreviation sample_done :: "int + recv list" where
  "sample_done \<equiv> Inr [Recv_Data ([20, 0, 0, 0, 3, 0, 2, 0] @ replicate 12 0) False 12]"

lemma sample_interrupted: "get_device_try 0 [119, 0] (sample_get (Inl 4)) = Some (Inr (- EINTR, zero_device))"
  by code_simp

lemma sample_completes: "get_device_try 0 [119, 0] (sample_get sample_done) = Some (Inr (0, zero_device))"
  by code_simp

lemma wg_get_device_interrupted_witness:
  "get_device_try 0 [119, 0] (sample_get (Inl 4)) = Some (Inr (- EINTR, zero_device)) \<and>
   get_device_try 0 [119, 0] (sample_get sample_done) = Some (Inr (0, zero_device)) \<and>
   wg_get_device [119, 0] [sample_get (Inl 4), sample_get sample_done, sample_get sample_done] \<noteq> Some (Inr zero_device)"
proof -
  have "\<forall>env\<in>set [sample_get sample_done, sample_get sample_done]. \<forall>m. ge_kernel env m \<noteq> Inl 0" by (simp add: sample_get_def)
  from wg_get_device_interrupted [OF sample_interrupted this, of zero_device]
  show ?thesis using sample_interrupted sample_completes by simp
qed

end
