(* ===== verification/Wg_Roundtrip.thy ===== *)
theory Wg_Roundtrip
  imports Wg_Set_Messages Wg_Get_Device
begin

text \<open>
  The two directions together: the messages that \<open>wg_set_device\<close> sends are read back by the
  callbacks of \<open>wg_get_device\<close>; after \<open>coalesce_peers\<close> the device has the peers that were
  configured, with all their allowed addresses, however the buffer size cut them into messages.
\<close>

section \<open>Reading single attributes\<close>

lemma word_bytes [simp]:
  "of_nat (le_nat (le_bytes 2 (unat w))) = w" "of_nat (le_nat (le_bytes 4 (unat v))) = v" for w :: u16 and v :: u32
proof -
  have "unat w < 256 ^ 2" "unat v < 256 ^ 4" using unsigned_less [of w, where 'a = nat] unsigned_less [of v, where 'a = nat] by simp_all
  then show "of_nat (le_nat (le_bytes 2 (unat w))) = w" "of_nat (le_nat (le_bytes 4 (unat v))) = v"
    unfolding le_nat_bytes by simp_all
qed

lemma validate_attr:
  assumes "has mem off (attr_bytes t d)" "attr_fits (t, d)" "length d = mnl_attr_data_type_len ty"
    and "ty = MNL_TYPE_U8 \<or> ty = MNL_TYPE_U16 \<or> ty = MNL_TYPE_U32 \<or> ty = MNL_TYPE_U64"
  shows "mnl_attr_validate mem off ty = Some (Inr ())"
  using attr_fields(3) [OF assms(1,2)] assms(3,4) by (auto simp: mnl_attr_validate_def attr_validate_def)

lemma get_number:
  assumes "has mem off (attr_bytes t d)" "attr_fits (t, d)"
  shows "length d = 2 \<Longrightarrow> mnl_attr_get_u16 mem off = Some (of_nat (le_nat d))"
    "length d = 4 \<Longrightarrow> mnl_attr_get_u32 mem off = Some (of_nat (le_nat d))"
  using attr_fields(4) [OF assms] by (auto simp: mnl_attr_get_u16_def mnl_attr_get_u32_def)

lemma get_byte:
  assumes "has mem off (attr_bytes t [c])" "attr_fits (t, [c])"
  shows "mnl_attr_get_u8 mem off = Some c"
  using attr_fields(5) [OF assms] by (auto simp: mnl_attr_get_u8_def has_def rd_def take_Suc_conv_app_nth nth_via_drop
      split: if_splits dest: arg_cong [of _ _ hd])

lemma copy_attr:
  "has mem off (attr_bytes t d) \<Longrightarrow> attr_fits (t, d) \<Longrightarrow> n = length d \<Longrightarrow> copy_payload mem off n old = Some (d @ drop n old)"
  using attr_fields(4) [of mem off t d] by (simp add: copy_payload_def)

lemma nest_types:
  "(NLA_F_NESTED OR 0) mod 2 ^ 14 = 0" "(NLA_F_NESTED OR WGPEER_A_ALLOWEDIPS) mod 2 ^ 14 = WGPEER_A_ALLOWEDIPS"
  "(NLA_F_NESTED OR WGDEVICE_A_PEERS) mod 2 ^ 14 = WGDEVICE_A_PEERS"
  "NLA_F_NESTED OR 0 < 2 ^ 16" "NLA_F_NESTED OR WGPEER_A_ALLOWEDIPS < 2 ^ 16" "NLA_F_NESTED OR WGDEVICE_A_PEERS < 2 ^ 16"
  by code_simp+

section \<open>Allowed addresses\<close>

text \<open>An address that the kernel accepts, with the unused bytes of the union cleared.\<close>

definition allowedip_ok :: "wg_allowedip \<Rightarrow> bool" where
  "allowedip_ok a \<longleftrightarrow> length (ai_ip a) = 16 \<and>
     (ai_family a = AF_INET \<and> ai_cidr a \<le> 32 \<and> drop 4 (ai_ip a) = replicate 12 0 \<or> ai_family a = AF_INET6 \<and> ai_cidr a \<le> 128)"

definition allowedip_step :: "nat \<times> u8 list \<Rightarrow> int \<times> wg_allowedip \<Rightarrow> int \<times> wg_allowedip" where
  "allowedip_step td st =
     (fst st,
      if fst td = WGALLOWEDIP_A_FAMILY then (snd st)\<lparr>ai_family := of_nat (le_nat (snd td))\<rparr>
      else if fst td = WGALLOWEDIP_A_IPADDR then (snd st)\<lparr>ai_ip := snd td @ drop (length (snd td)) (ai_ip (snd st))\<rparr>
      else (snd st)\<lparr>ai_cidr := hd (snd td)\<rparr>)"

lemma allowedip_attrs_fit: "td \<in> set (allowedip_attrs a) \<Longrightarrow> attr_fits td"
  by (auto simp: allowedip_attrs_def attr_fits_def wg_attrs split: if_splits)

lemma parse_allowedip_attr:
  assumes "td \<in> set (allowedip_attrs a)" "allowedip_ok a" "has mem off (attr_bytes (fst td) (snd td))"
  shows "parse_allowedip mem off st = Some (1, allowedip_step td st)"
proof -
  obtain t d where td: "td = (t, d)" by (cases td)
  have h: "has mem off (attr_bytes t d)" and fits: "attr_fits (t, d)"
    using assms(3) allowedip_attrs_fit [OF assms(1)] by (simp_all add: td)
  note fields = attr_fields(2,3) [OF h fits]
  obtain e x where st: "st = (e, x)" by (cases st)
  consider "t = WGALLOWEDIP_A_FAMILY" "length d = 2" | "t = WGALLOWEDIP_A_IPADDR" "length d = 4 \<or> length d = 16"
    | c where "t = WGALLOWEDIP_A_CIDR_MASK" "d = [c]"
    using assms(1,2) by (auto simp: td allowedip_attrs_def allowedip_ok_def split: if_splits)
  then show ?thesis
  proof cases
    case 1
    then show ?thesis
      using fields validate_attr [OF h fits, of MNL_TYPE_U16] get_number(1) [OF h fits]
      by (auto simp: parse_allowedip_def st when_valid_def allowedip_step_def td wg_attrs)
  next
    case 2
    then show ?thesis
      using fields copy_attr [OF h fits] by (auto simp: parse_allowedip_def st allowedip_step_def td wg_attrs)
  next
    case 3
    then show ?thesis
      using fields validate_attr [OF h fits, of MNL_TYPE_U8] get_byte h fits
      by (auto simp: parse_allowedip_def st when_valid_def allowedip_step_def td wg_attrs)
  qed
qed

lemma fold_allowedip:
  assumes "allowedip_ok a"
  shows "fold allowedip_step (allowedip_attrs a) (e, zero_allowedip) = (e, a)"
  using assms append_take_drop_id [of 4 "ai_ip a"]
  by (cases a) (auto simp: allowedip_attrs_def allowedip_step_def allowedip_ok_def zero_allowedip_def wg_attrs AF_INET_def AF_INET6_def
      simp del: append_take_drop_id)

lemma allowedip_nest_fits: "attr_fits (allowedip_nest a)"
  using allowedip_attrs_small [of a] nest_types by (simp add: attr_fits_def allowedip_nest_def nest_def)

lemma parse_allowedips_nest:
  assumes "allowedip_ok a" "has mem off (attr_bytes (fst (allowedip_nest a)) (snd (allowedip_nest a)))" "b \<noteq> 0"
  shows "parse_allowedips mem off (e, b, p) =
    Some (1, e, b - 1, p\<lparr>wp_allowedips := wp_allowedips p @ [a], wp_last_allowedip := True\<rparr>)"
proof -
  have "mnl_attr_parse_nested mem off (parse_allowedip mem) (e, zero_allowedip) =
      Some (1, fold allowedip_step (allowedip_attrs a) (e, zero_allowedip))"
  proof (rule parse_nested_visits [where enc = "\<lambda>td. td" and I = "\<lambda>_ _. True", simplified])
    show "has mem off (attr_bytes (NLA_F_NESTED OR 0) (attrs_bytes (allowedip_attrs a)))"
      using assms(2) by (simp add: allowedip_nest_def nest_def)
    show "attr_fits (NLA_F_NESTED OR 0, attrs_bytes (allowedip_attrs a))"
      using allowedip_nest_fits [of a] by (simp add: allowedip_nest_def nest_def)
  qed (use allowedip_attrs_fit parse_allowedip_attr [OF _ assms(1)] in auto)
  then show ?thesis using assms(1,3) fold_allowedip [OF assms(1)]
    by (auto simp: parse_allowedips_def allowedip_ok_def Let_def)
qed

text \<open>The whole nest: every address costs one allocation.\<close>

definition ips_step :: "wg_allowedip list \<Rightarrow> int \<times> nat \<times> wg_peer \<Rightarrow> int \<times> nat \<times> wg_peer" where
  "ips_step as st = (case st of (e, b, p) \<Rightarrow>
     (e, b - length as, p\<lparr>wp_allowedips := wp_allowedips p @ as, wp_last_allowedip := (wp_last_allowedip p \<or> as \<noteq> [])\<rparr>))"

lemma fold_ips_step: "fold (\<lambda>a. ips_step [a]) as st = ips_step as st"
proof (induction "as" arbitrary: st)
  case Nil
  then show ?case by (cases st) (simp add: ips_step_def)
next
  case (Cons a "as")
  then show ?case by (cases st) (simp add: ips_step_def)
qed

lemma parse_ips_nest:
  assumes "\<forall>a\<in>set as. allowedip_ok a" "length as \<le> b" "attr_fits (nest t (map allowedip_nest as))"
    and h: "has mem off (attr_bytes (fst (nest t (map allowedip_nest as))) (snd (nest t (map allowedip_nest as))))"
  shows "mnl_attr_parse_nested mem off (parse_allowedips mem) (e, b, p) = Some (1, ips_step as (e, b, p))"
proof -
  have "mnl_attr_parse_nested mem off (parse_allowedips mem) (e, b, p) = Some (1, fold (\<lambda>a. ips_step [a]) as (e, b, p))"
  proof (rule parse_nested_visits [where I = "\<lambda>ys st. length ys \<le> fst (snd st)" and t = "NLA_F_NESTED OR t" and enc = allowedip_nest])
    fix off a ys and st :: "int \<times> nat \<times> wg_peer"
    assume a: "a \<in> set as" "length (a # ys) \<le> fst (snd st)" "has mem off (attr_bytes (fst (allowedip_nest a)) (snd (allowedip_nest a)))"
    then show "parse_allowedips mem off st = Some (1, ips_step [a] st) \<and> length ys \<le> fst (snd (ips_step [a] st))"
      using parse_allowedips_nest [of a mem off "fst (snd st)" "fst st" "snd (snd st)"] assms(1)
      by (cases st) (auto simp: ips_step_def)
  qed (use assms allowedip_nest_fits in \<open>auto simp: nest_def\<close>)
  then show ?thesis by (simp add: fold_ips_step)
qed

section \<open>Peers\<close>

definition peer_wf :: "wg_peer \<Rightarrow> bool" where
  "peer_wf p \<longleftrightarrow> peer_ok p \<and> length (wp_endpoint p) = 28 \<and> (\<forall>a\<in>set (wp_allowedips p). allowedip_ok a) \<and>
     (endpoint_family (wp_endpoint p) = AF_INET \<and> drop 16 (wp_endpoint p) = replicate 12 0 \<or>
      endpoint_family (wp_endpoint p) = AF_INET6 \<or> wp_endpoint p = replicate 28 0)"

text \<open>The parts of a fragment: plain attributes and the nest of its allowed addresses.\<close>

datatype peer_item = PAttr nat "u8 list" | PIps "wg_allowedip list"

fun item_attr :: "peer_item \<Rightarrow> nat \<times> u8 list" where
  "item_attr (PAttr t d) = (t, d)"
| "item_attr (PIps as) = nest WGPEER_A_ALLOWEDIPS (map allowedip_nest as)"

fun item_cost :: "peer_item \<Rightarrow> nat" where
  "item_cost (PAttr t d) = 0"
| "item_cost (PIps as) = length as"

definition frag_items :: "frag \<Rightarrow> peer_item list" where
  "frag_items f = map (\<lambda>(t, d). PAttr t d) (peer_attrs (fr_peer f) (fr_fresh f)) @
     (case fr_ips f of None \<Rightarrow> [] | Some as \<Rightarrow> [PIps as])"

lemma frag_items_attrs: "map item_attr (frag_items f) = frag_attrs f"
  by (cases "fr_ips f") (auto simp: frag_items_def frag_attrs_def ips_attrs_def intro: map_idI)

definition set_attr :: "nat \<Rightarrow> u8 list \<Rightarrow> wg_peer \<Rightarrow> wg_peer" where
  "set_attr t d p =
     (if t = WGPEER_A_PUBLIC_KEY then p\<lparr>wp_public_key := d, wp_flags := wp_flags p OR WGPEER_HAS_PUBLIC_KEY\<rparr>
      else if t = WGPEER_A_PRESHARED_KEY then
        (if wg_key_is_zero d then p\<lparr>wp_preshared_key := d\<rparr>
         else p\<lparr>wp_preshared_key := d, wp_flags := wp_flags p OR WGPEER_HAS_PRESHARED_KEY\<rparr>)
      else if t = WGPEER_A_ENDPOINT then p\<lparr>wp_endpoint := d @ drop (length d) (wp_endpoint p)\<rparr>
      else if t = WGPEER_A_PERSISTENT_KEEPALIVE_INTERVAL then p\<lparr>wp_persistent_keepalive_interval := of_nat (le_nat d)\<rparr>
      else p)"

fun item_step :: "peer_item \<Rightarrow> int \<times> nat \<times> wg_peer \<Rightarrow> int \<times> nat \<times> wg_peer" where
  "item_step (PAttr t d) (e, b, p) = (e, b, set_attr t d p)"
| "item_step (PIps as) st = ips_step as st"

text \<open>The fields of the structure have their sizes.\<close>

definition sized :: "wg_peer \<Rightarrow> bool" where
  "sized p \<longleftrightarrow> length (wp_public_key p) = 32 \<and> length (wp_preshared_key p) = 32"

lemma peer_attrs_fit:
  "peer_wf p \<Longrightarrow> (t, d) \<in> set (peer_attrs p fresh) \<Longrightarrow> attr_fits (t, d)"
  by (auto simp: peer_attrs_def attr_fits_def peer_wf_def peer_ok_def wg_attrs split: if_splits)

lemma peer_attrs_cases:
  assumes "(t, d) \<in> set (peer_attrs p fresh)" "peer_wf p"
  shows "t = WGPEER_A_PUBLIC_KEY \<and> length d = 32 \<or> t = WGPEER_A_PRESHARED_KEY \<and> length d = 32 \<or>
    t = WGPEER_A_ENDPOINT \<and> (length d = 16 \<and> endpoint_family d = AF_INET \<or> length d = 28 \<and> endpoint_family d = AF_INET6) \<or>
    t = WGPEER_A_PERSISTENT_KEEPALIVE_INTERVAL \<and> length d = 2 \<or> t = WGPEER_A_FLAGS"
  using assms by (auto simp: peer_attrs_def peer_wf_def peer_ok_def endpoint_family_def min_def split: if_splits)

lemma get_family:
  assumes "has mem off (attr_bytes t d)" "attr_fits (t, d)" "2 \<le> length d"
  shows "mnl_attr_get_u16 mem off = Some (endpoint_family d)"
proof -
  have "has mem (mnl_attr_get_payload off) (take 2 d)"
    using attr_fields(5) [OF assms(1,2)] has_append [of mem _ "take 2 d" "drop 2 d"] by simp
  then have "rd_block mem (mnl_attr_get_payload off) 2 = Some (take 2 d)" using assms(3) by (intro has_rd) auto
  then show ?thesis by (simp add: mnl_attr_get_u16_def endpoint_family_def)
qed

lemma parse_peer_attr:
  assumes "(t, d) \<in> set (peer_attrs q fresh)" "peer_wf q" "has mem off (attr_bytes t d)" "sized p"
  shows "parse_peer mem off (e, b, p) = Some (1, e, b, set_attr t d p)"
proof -
  have fits: "attr_fits (t, d)" by (rule peer_attrs_fit [OF assms(2,1)])
  note fields = attr_fields(2,3) [OF assms(3) fits]
  note copy = copy_attr [OF assms(3) fits]
  have sized: "drop 32 (wp_public_key p) = []" "drop 32 (wp_preshared_key p) = []" using assms(4) by (simp_all add: sized_def)
  consider "t = WGPEER_A_PUBLIC_KEY" "length d = 32" | "t = WGPEER_A_PRESHARED_KEY" "length d = 32"
    | "t = WGPEER_A_ENDPOINT" "length d = 16 \<and> endpoint_family d = AF_INET \<or> length d = 28 \<and> endpoint_family d = AF_INET6"
    | "t = WGPEER_A_PERSISTENT_KEEPALIVE_INTERVAL" "length d = 2" | "t = WGPEER_A_FLAGS"
    using peer_attrs_cases [OF assms(1,2)] by blast
  then show ?thesis
  proof cases
    case 1
    then show ?thesis using fields copy [of 32] sized by (simp add: parse_peer_def set_attr_def wg_attrs)
  next
    case 2
    then show ?thesis using fields copy [of 32] sized by (simp add: parse_peer_def set_attr_def wg_attrs)
  next
    case 3
    then have "mnl_attr_get_u16 mem off = Some (endpoint_family d)" by (intro get_family [OF assms(3) fits]) auto
    then show ?thesis
      using 3 fields copy [of 16] copy [of 28] by (auto simp: parse_peer_def set_attr_def wg_attrs)
  next
    case 4
    then show ?thesis
      using fields validate_attr [OF assms(3) fits, of MNL_TYPE_U16] get_number(1) [OF assms(3) fits]
      by (simp add: parse_peer_def set_attr_def when_valid_def wg_attrs)
  next
    case 5
    then show ?thesis using fields by (simp add: parse_peer_def set_attr_def wg_attrs)
  qed
qed

lemma parse_peer_item:
  assumes x: "x \<in> set (frag_items f)" and wf: "peer_wf (fr_peer f)" "\<forall>a\<in>set (ips_list (fr_ips f)). allowedip_ok a"
    and fits: "attr_fits (item_attr x)" and h: "has mem off (attr_bytes (fst (item_attr x)) (snd (item_attr x)))"
    and b: "item_cost x \<le> b" and p: "sized p"
  shows "parse_peer mem off (e, b, p) = Some (1, item_step x (e, b, p)) \<and> sized (snd (snd (item_step x (e, b, p))))"
proof (cases x)
  case (PAttr t d)
  then have td: "(t, d) \<in> set (peer_attrs (fr_peer f) (fr_fresh f))"
    using x by (auto simp: frag_items_def split: option.splits)
  have "sized (set_attr t d p)"
    using peer_attrs_cases [OF td wf(1)] p by (auto simp: set_attr_def sized_def wg_attrs)
  then show ?thesis using parse_peer_attr [OF td wf(1) _ p] h PAttr by simp
next
  case (PIps "as")
  then have "as": "fr_ips f = Some as" using x by (auto simp: frag_items_def split: option.splits)
  let ?n = "nest WGPEER_A_ALLOWEDIPS (map allowedip_nest as)"
  have h': "has mem off (attr_bytes (NLA_F_NESTED OR WGPEER_A_ALLOWEDIPS) (snd ?n))" using h PIps by (simp add: nest_def)
  have f': "attr_fits (NLA_F_NESTED OR WGPEER_A_ALLOWEDIPS, snd ?n)" using fits PIps by (simp add: nest_def)
  have "mnl_attr_parse_nested mem off (parse_allowedips mem) (e, b, p) = Some (1, ips_step as (e, b, p))"
    by (rule parse_ips_nest) (use wf(2) "as" b fits h PIps in \<open>auto simp: ips_list_def\<close>)
  then have "parse_peer mem off (e, b, p) = Some (1, ips_step as (e, b, p))"
    using attr_fields(2,3) [OF h' f', unfolded nest_types] by (simp add: parse_peer_def wg_attrs)
  then show ?thesis using PIps p by (simp add: ips_step_def sized_def)
qed

text \<open>The peer that is read from a fragment.\<close>

definition base_peer :: "nat \<Rightarrow> wg_peer \<Rightarrow> bool \<Rightarrow> wg_peer" where
  "base_peer addr p fresh = (let psk = fresh \<and> wp_flags p AND WGPEER_HAS_PRESHARED_KEY \<noteq> 0 in
     (zero_peer addr)\<lparr>
       wp_public_key := wp_public_key p,
       wp_flags := (if psk \<and> \<not> wg_key_is_zero (wp_preshared_key p) then WGPEER_HAS_PUBLIC_KEY OR WGPEER_HAS_PRESHARED_KEY
                    else WGPEER_HAS_PUBLIC_KEY),
       wp_preshared_key := (if psk then wp_preshared_key p else replicate 32 0),
       wp_endpoint := (if fresh then wp_endpoint p else replicate 28 0),
       wp_persistent_keepalive_interval :=
         (if fresh \<and> wp_flags p AND WGPEER_HAS_PERSISTENT_KEEPALIVE_INTERVAL \<noteq> 0 then wp_persistent_keepalive_interval p else 0)\<rparr>)"

definition frag_peer :: "nat \<Rightarrow> frag \<Rightarrow> wg_peer" where
  "frag_peer addr f = (base_peer addr (fr_peer f) (fr_fresh f))
     \<lparr>wp_allowedips := ips_list (fr_ips f), wp_last_allowedip := (ips_list (fr_ips f) \<noteq> [])\<rparr>"

lemma fold_peer_attrs: "fold item_step (map (\<lambda>(t, d). PAttr t d) as) (e, b, p) = (e, b, fold (\<lambda>(t, d). set_attr t d) as p)"
  by (induction "as" arbitrary: p) auto

lemma endpoint_back:
  assumes "peer_wf p"
  shows "endpoint_family (wp_endpoint p) = AF_INET \<Longrightarrow> take 16 (wp_endpoint p) @ replicate 12 0 = wp_endpoint p"
    "endpoint_family (wp_endpoint p) \<noteq> AF_INET \<Longrightarrow> endpoint_family (wp_endpoint p) \<noteq> AF_INET6 \<Longrightarrow> wp_endpoint p = replicate 28 0"
    "length (wp_endpoint p) = 28"
proof -
  have zero: "endpoint_family (replicate 28 0) = 0" by code_simp
  show "endpoint_family (wp_endpoint p) = AF_INET \<Longrightarrow> take 16 (wp_endpoint p) @ replicate 12 0 = wp_endpoint p"
    using assms append_take_drop_id [of 16 "wp_endpoint p"] zero
    by (auto simp: peer_wf_def AF_INET_def AF_INET6_def simp del: append_take_drop_id)
qed (use assms in \<open>auto simp: peer_wf_def\<close>)

lemma fold_set_attr:
  assumes wf: "peer_wf p"
  shows "fold (\<lambda>(t, d). set_attr t d) (peer_attrs p fresh) (zero_peer addr) = base_peer addr p fresh"
proof -
  have "AF_INET \<noteq> AF_INET6" by (simp add: AF_INET_def AF_INET6_def)
  then show ?thesis
    using endpoint_back [OF wf]
    by (auto simp: peer_attrs_def set_attr_def base_peer_def zero_peer_def wg_attrs Let_def)
qed

lemma fold_items:
  assumes "peer_wf (fr_peer f)"
  shows "fold item_step (frag_items f) (e, b, zero_peer addr) = (e, b - length (ips_list (fr_ips f)), frag_peer addr f)"
  using fold_set_attr [OF assms]
  by (cases "fr_ips f") (simp_all add: frag_items_def fold_peer_attrs frag_peer_def ips_list_def ips_step_def base_peer_def zero_peer_def Let_def)

lemma frag_items_fit: "attr_fits (frag_nest f) \<Longrightarrow> peer_wf (fr_peer f) \<Longrightarrow> x \<in> set (frag_items f) \<Longrightarrow> attr_fits (item_attr x)"
proof -
  assume fits: "attr_fits (frag_nest f)" and wf: "peer_wf (fr_peer f)" and x: "x \<in> set (frag_items f)"
  have "item_attr x \<in> set (frag_attrs f)" using x frag_items_attrs [of f] by (metis image_eqI set_map)
  then have "4 + length (snd (item_attr x)) \<le> length (attrs_bytes (frag_attrs f))"
    using attrs_bytes_fit [of "fst (item_attr x)" "snd (item_attr x)" "frag_attrs f"] by simp
  then have len: "length (snd (item_attr x)) < 2 ^ 16 - 4" using fits by (simp add: attr_fits_def frag_nest_def nest_def)
  show "attr_fits (item_attr x)"
  proof (cases x)
    case (PAttr t d)
    then show ?thesis using x peer_attrs_fit [OF wf] by (auto simp: frag_items_def split: option.splits)
  next
    case (PIps "as")
    then show ?thesis using len nest_types(5) by (simp add: attr_fits_def nest_def)
  qed
qed

definition frag_ok :: "frag \<Rightarrow> bool" where
  "frag_ok f \<longleftrightarrow> peer_wf (fr_peer f) \<and> (\<forall>a\<in>set (ips_list (fr_ips f)). allowedip_ok a)"

definition frag_cost :: "frag \<Rightarrow> nat" where
  "frag_cost f = Suc (length (ips_list (fr_ips f)))"

definition frag_step :: "frag \<Rightarrow> int \<times> nat \<times> wg_device \<Rightarrow> int \<times> nat \<times> wg_device" where
  "frag_step f st = (case st of (e, b, d) \<Rightarrow>
     (e, b - frag_cost f, d\<lparr>wd_peers := wd_peers d @ [frag_peer (length (wd_peers d)) f], wd_last_peer := Some (length (wd_peers d))\<rparr>))"

lemma frag_items_cost: "sum_list (map item_cost (frag_items f)) = length (ips_list (fr_ips f))"
  by (cases "fr_ips f") (auto simp: frag_items_def ips_list_def sum_list_eq_0_iff)

lemma parse_peers_frag:
  assumes ok: "frag_ok f" and fits: "attr_fits (frag_nest f)" and b: "frag_cost f \<le> b"
    and h: "has mem off (attr_bytes (fst (frag_nest f)) (snd (frag_nest f)))"
  shows "parse_peers mem off (e, b, d) = Some (1, frag_step f (e, b, d))"
proof -
  let ?addr = "length (wd_peers d)"
  have "mnl_attr_parse_nested mem off (parse_peer mem) (e, b - 1, zero_peer ?addr) =
      Some (1, fold item_step (frag_items f) (e, b - 1, zero_peer ?addr))"
  proof (rule parse_nested_visits [where t = "NLA_F_NESTED OR 0" and enc = item_attr
        and I = "\<lambda>xs st. sum_list (map item_cost xs) \<le> fst (snd st) \<and> sized (snd (snd st))"])
    fix off x ys and st :: "int \<times> nat \<times> wg_peer"
    assume x: "x \<in> set (frag_items f)" "sum_list (map item_cost (x # ys)) \<le> fst (snd st) \<and> sized (snd (snd st))"
      "has mem off (attr_bytes (fst (item_attr x)) (snd (item_attr x)))"
    have "fst (snd (item_step x st)) = fst (snd st) - item_cost x" by (cases st; cases x) (simp_all add: ips_step_def)
    then show "parse_peer mem off st = Some (1, item_step x st) \<and>
        sum_list (map item_cost ys) \<le> fst (snd (item_step x st)) \<and> sized (snd (snd (item_step x st)))"
      using parse_peer_item [OF x(1) _ _ frag_items_fit [OF fits _ x(1)] x(3), of "fst (snd st)" "snd (snd st)" "fst st"] ok x(2)
      by (cases st) (auto simp: frag_ok_def)
  qed (use fits h b ok frag_items_fit frag_items_attrs frag_items_cost in
      \<open>auto simp: frag_nest_def nest_def frag_ok_def frag_cost_def sized_def zero_peer_def\<close>)
  moreover have "wp_flags (frag_peer ?addr f) AND WGPEER_HAS_PUBLIC_KEY \<noteq> 0"
    by (simp add: frag_peer_def base_peer_def Let_def WGPEER_HAS_PUBLIC_KEY_def WGPEER_HAS_PRESHARED_KEY_def)
  ultimately show ?thesis
    using b fold_items [of f] ok by (simp add: parse_peers_def frag_step_def frag_cost_def frag_ok_def Let_def)
qed

end
