(* ===== verification/Wg_Fragments.thy ===== *)
theory Wg_Fragments
  imports Wg_Roundtrip
begin

text \<open>
  The fragments into which \<open>wg_set_device\<close> cuts the peers, read back and joined again: the peers
  result whole, and the number of allocations is bounded by the size of the configuration.
\<close>

section \<open>The fragments of a list of peers\<close>

text \<open>What is lost in reading: the pointers that only the reader keeps.\<close>

definition erase :: "wg_peer \<Rightarrow> wg_peer" where
  "erase p = p\<lparr>wp_addr := 0, wp_last_allowedip := False\<rparr>"

definition partial_peer :: "wg_peer \<Rightarrow> wg_allowedip list \<Rightarrow> wg_peer" where
  "partial_peer p aips = (base_peer 0 p (aips = []))\<lparr>wp_allowedips := pending p aips\<rparr>"

definition shown_peer :: "wg_peer \<Rightarrow> wg_peer" where
  "shown_peer p = partial_peer p []"

definition frag_peers :: "nat \<Rightarrow> frag list \<Rightarrow> wg_peer list" where
  "frag_peers n frs = map (\<lambda>(a, f). frag_peer a f) (enumerate n frs)"

lemma frag_peers_simps [simp]: "frag_peers n [] = []" "frag_peers n (f # frs) = frag_peer n f # frag_peers (Suc n) frs"
  by (simp_all add: frag_peers_def)

lemma frag_peer_simps [simp]:
  "wp_public_key (frag_peer n f) = wp_public_key (fr_peer f)" "wp_allowedips (frag_peer n f) = ips_list (fr_ips f)" "last_ok (frag_peer n f)"
  by (simp_all add: frag_peer_def base_peer_def last_ok_def Let_def)

lemma erase_frag:
  "erase ((frag_peer n f)\<lparr>wp_allowedips := as, wp_last_allowedip := l\<rparr>) = (base_peer 0 (fr_peer f) (fr_fresh f))\<lparr>wp_allowedips := as\<rparr>"
  "erase (frag_peer n f) = (base_peer 0 (fr_peer f) (fr_fresh f))\<lparr>wp_allowedips := ips_list (fr_ips f)\<rparr>"
  by (simp_all add: erase_def frag_peer_def base_peer_def zero_peer_def Let_def)

lemma group_cons_other:
  assumes "qs = [] \<or> wp_public_key (hd qs) \<noteq> wp_public_key q"
  shows "group_peers (q # qs) = q # group_peers qs"
  using assms by (cases qs) simp_all

lemma group_cons_same:
  assumes "wp_public_key r = wp_public_key q" "group_peers (r # qs) = g # gs"
  shows "group_peers (q # r # qs) = q\<lparr>wp_allowedips := wp_allowedips q @ wp_allowedips g, wp_last_allowedip := wp_last_allowedip g\<rparr> # gs"
  using assms by (auto simp: Let_def)

fun keys_differ :: "wg_peer list \<Rightarrow> bool" where
  "keys_differ (p # q # ps) \<longleftrightarrow> wp_public_key p \<noteq> wp_public_key q \<and> keys_differ (q # ps)"
| "keys_differ _ \<longleftrightarrow> True"

lemma keys_differ_tl: "keys_differ (p # ps) \<Longrightarrow> keys_differ ps"
  by (cases ps) simp_all

lemma emits_Nil: "emits [] [] frs ps' aips' \<Longrightarrow> frs = []"
  by (erule emits_NilE)

text \<open>Joining the fragments gives the peers; no fragment makes the joining go wrong.\<close>

lemma group_frags:
  "emits ps aips frs ps' aips' \<Longrightarrow> ps' = [] \<Longrightarrow> aips' = [] \<Longrightarrow> keys_differ ps \<Longrightarrow> aips = [] \<or> ps \<noteq> [] \<and> wp_allowedips (hd ps) \<noteq> [] \<Longrightarrow>
   continued_ok (frag_peers n frs) \<and>
   (case ps of [] \<Rightarrow> frs = []
    | p # qs \<Rightarrow> frs \<noteq> [] \<and> fr_peer (hd frs) = p \<and> (aips \<noteq> [] \<longrightarrow> ips_list (fr_ips (hd frs)) \<noteq> []) \<and>
        map erase (group_peers (frag_peers n frs)) = partial_peer p aips # map shown_peer qs)"
proof (induction arbitrary: n rule: emits.induct)
  case (emits_stop ps aips)
  then show ?case by simp
next
  case (emits_done ps frs ps' aips' p aips)
  let ?f = "Frag p (aips = []) (if wp_allowedips p = [] then None else Some (pending p aips))"
  have IH: "continued_ok (frag_peers (Suc n) frs)"
    "case ps of [] \<Rightarrow> frs = [] | p # qs \<Rightarrow> frs \<noteq> [] \<and> fr_peer (hd frs) = p \<and>
       map erase (group_peers (frag_peers (Suc n) frs)) = partial_peer p [] # map shown_peer qs"
    using emits_done.IH [of "Suc n"] emits_done.prems keys_differ_tl by (auto split: list.splits)
  have other: "frs = [] \<or> wp_public_key (fr_peer (hd frs)) \<noteq> wp_public_key p"
    using IH(2) emits_done.prems(3) by (cases ps) auto
  have ips: "ips_list (fr_ips ?f) = pending p aips" using emits_done.prems(4) by (auto simp: ips_list_def pending_def)
  have "map erase (group_peers (frag_peers (Suc n) frs)) = map shown_peer ps"
    using IH(2) by (cases ps) (auto simp: shown_peer_def)
  moreover have "group_peers (frag_peer n ?f # frag_peers (Suc n) frs) = frag_peer n ?f # group_peers (frag_peers (Suc n) frs)"
    using other by (intro group_cons_other) (cases frs; auto)
  moreover have "continued_ok (frag_peer n ?f # frag_peers (Suc n) frs)"
    using IH(1) other by (cases frs) auto
  moreover have "aips \<noteq> [] \<longrightarrow> ips_list (fr_ips ?f) \<noteq> []" unfolding ips by (simp add: pending_def)
  moreover have "erase (frag_peer n ?f) = partial_peer p aips" unfolding erase_frag(2) ips partial_peer_def by simp
  ultimately show ?case by (simp del: group_peers.simps split del: if_split)
next
  case (emits_part p aips ips rest ps frs ps' aips')
  let ?f = "Frag p (aips = []) ips"
  have IH: "continued_ok (frag_peers (Suc n) frs)" "frs \<noteq> []" "fr_peer (hd frs) = p" "ips_list (fr_ips (hd frs)) \<noteq> []"
    "map erase (group_peers (frag_peers (Suc n) frs)) = partial_peer p rest # map shown_peer ps"
    using emits_part.IH [of "Suc n"] emits_part.prems emits_part.hyps by auto
  obtain f' frs' where frs: "frs = f' # frs'" using IH(2) by (cases frs) auto
  obtain g gs where g: "group_peers (frag_peers (Suc n) frs) = g # gs" "erase g = partial_peer p rest" "map erase gs = map shown_peer ps"
    using IH(5) by (auto simp: map_eq_Cons_conv)
  have "wp_allowedips g = rest" using arg_cong [OF g(2), of wp_allowedips] emits_part.hyps(2) by (simp add: erase_def partial_peer_def pending_def)
  then have "group_peers (frag_peer n ?f # frag_peers (Suc n) frs) =
      (frag_peer n ?f)\<lparr>wp_allowedips := pending p aips, wp_last_allowedip := wp_last_allowedip g\<rparr> # gs"
    using group_cons_same [of "frag_peer (Suc n) f'" "frag_peer n ?f" "frag_peers (Suc (Suc n)) frs'" g gs] g(1) IH(3) emits_part.hyps(1)
    by (simp add: frs del: group_peers.simps)
  moreover have "continued_ok (frag_peer n ?f # frag_peers (Suc n) frs)" using IH(1,4) by (simp add: frs)
  ultimately show ?case using emits_part.hyps(4) g(3) by (auto simp add: erase_frag partial_peer_def simp del: group_peers.simps)
qed

lemma frags_ok:
  "emits ps aips frs ps' aips' \<Longrightarrow> \<forall>p\<in>set ps. peer_wf p \<Longrightarrow> \<forall>a\<in>set aips. allowedip_ok a \<Longrightarrow> \<forall>f\<in>set frs. frag_ok f"
proof (induction rule: emits.induct)
  case (emits_done ps frs ps' aips' p aips)
  then show ?case by (auto simp: frag_ok_def ips_list_def pending_def peer_wf_def)
next
  case (emits_part p aips ips rest ps frs ps' aips')
  have "\<forall>a\<in>set (pending p aips). allowedip_ok a" using emits_part.prems by (auto simp: pending_def peer_wf_def)
  then have a: "\<forall>a\<in>set (ips_list ips). allowedip_ok a" "\<forall>a\<in>set rest. allowedip_ok a" unfolding emits_part.hyps(1) by auto
  then show ?case using emits_part.IH emits_part.prems by (simp add: frag_ok_def)
qed simp


text \<open>The allocations that reading the fragments takes.\<close>

lemma frags_cost_bound:
  "emits ps aips frs ps' aips' \<Longrightarrow> aips = [] \<or> ps \<noteq> [] \<and> wp_allowedips (hd ps) \<noteq> [] \<Longrightarrow>
   sum_list (map frag_cost frs) \<le> 2 * work ps aips - (if aips = [] then 0 else 1)"
proof (induction rule: emits.induct)
  case (emits_done ps frs ps' aips' p aips)
  have "frag_cost (Frag p (aips = []) (if wp_allowedips p = [] then None else Some (pending p aips))) = Suc (length (pending p aips))"
    using emits_done.prems by (auto simp: frag_cost_def ips_list_def pending_def)
  moreover have "work (p # ps) aips = Suc (length (pending p aips)) + work ps []" by (cases ps) (simp_all add: work_def pending_def)
  ultimately show ?case using emits_done.IH by (cases "aips = []") (simp_all split del: if_split)
next
  case (emits_part p aips ips rest ps frs ps' aips')
  have w: "work (p # ps) aips = length (ips_list ips) + work (p # ps) rest"
    using emits_part.hyps(1,2) by (simp add: work_def pending_def)
  have "0 < work (p # ps) rest" by (simp add: work_def)
  then show ?case
    using emits_part.IH emits_part.hyps(2-4) w by (cases "ips_list ips") (auto simp: frag_cost_def)
qed simp

end
