(* ===== verification/Wg_Set_Get.thy ===== *)
theory Wg_Set_Get
  imports Wg_Fragments
begin

text \<open>
  Whole devices: a message of \<open>wg_set_device\<close> is read by \<open>read_device_cb\<close>, the messages together
  give all fragments, and joining the fragments gives the peers back.
\<close>

section \<open>Devices\<close>

definition add_frag :: "frag \<Rightarrow> wg_device \<Rightarrow> wg_device" where
  "add_frag f d = d\<lparr>wd_peers := wd_peers d @ [frag_peer (length (wd_peers d)) f], wd_last_peer := Some (length (wd_peers d))\<rparr>"

definition frags_cost :: "frag list \<Rightarrow> nat" where
  "frags_cost frs = sum_list (map frag_cost frs)"

lemma frags_cost_simps [simp]:
  "frags_cost [] = 0" "frags_cost (f # frs) = frag_cost f + frags_cost frs" "frags_cost (frs @ frs') = frags_cost frs + frags_cost frs'"
  by (simp_all add: frags_cost_def)

lemma fold_frag_step: "fold frag_step frs (e, b, d) = (e, b - frags_cost frs, fold add_frag frs d)"
  by (induction frs arbitrary: b d) (auto simp: frag_step_def add_frag_def)

lemma frag_nests_fit: "attr_fits (nest t (map frag_nest frs)) \<Longrightarrow> f \<in> set frs \<Longrightarrow> attr_fits (frag_nest f)"
  using attrs_bytes_fit [of "fst (frag_nest f)" "snd (frag_nest f)" "map frag_nest frs"] nest_types(4)
  by (auto simp: attr_fits_def nest_def frag_nest_def)

lemma parse_peers_nest:
  assumes ok: "\<forall>f\<in>set frs. frag_ok f" and fits: "attr_fits (nest t (map frag_nest frs))" and b: "frags_cost frs \<le> b"
    and h: "has mem off (attr_bytes (fst (nest t (map frag_nest frs))) (snd (nest t (map frag_nest frs))))"
  shows "mnl_attr_parse_nested mem off (parse_peers mem) (e, b, d) = Some (1, e, b - frags_cost frs, fold add_frag frs d)"
proof -
  have "mnl_attr_parse_nested mem off (parse_peers mem) (e, b, d) = Some (1, fold frag_step frs (e, b, d))"
  proof (rule parse_nested_visits [where t = "NLA_F_NESTED OR t" and enc = frag_nest and I = "\<lambda>xs st. frags_cost xs \<le> fst (snd st)"])
    fix off x ys and st :: "int \<times> nat \<times> wg_device"
    assume x: "x \<in> set frs" "frags_cost (x # ys) \<le> fst (snd st)" "has mem off (attr_bytes (fst (frag_nest x)) (snd (frag_nest x)))"
    then show "parse_peers mem off st = Some (1, frag_step x st) \<and> frags_cost ys \<le> fst (snd (frag_step x st))"
      using parse_peers_frag [of x "fst (snd st)" mem off "fst st" "snd (snd st)"] ok frag_nests_fit [OF fits x(1)]
      by (cases st) (auto simp: frag_step_def)
  qed (use fits b h frag_nests_fit in \<open>auto simp: nest_def\<close>)
  then show ?thesis by (simp add: fold_frag_step)
qed

datatype device_item = DAttr nat "u8 list" | DPeers "frag list"

fun ditem_attr :: "device_item \<Rightarrow> nat \<times> u8 list" where
  "ditem_attr (DAttr t d) = (t, d)"
| "ditem_attr (DPeers frs) = nest WGDEVICE_A_PEERS (map frag_nest frs)"

fun ditem_cost :: "device_item \<Rightarrow> nat" where
  "ditem_cost (DAttr t d) = 0"
| "ditem_cost (DPeers frs) = frags_cost frs"

definition message_items :: "wg_device \<Rightarrow> bool \<Rightarrow> frag list \<Rightarrow> device_item list" where
  "message_items dev first frs = DAttr WGDEVICE_A_IFNAME (name_bytes (wd_name dev)) #
     map (\<lambda>(t, d). DAttr t d) (if first then device_attrs dev else []) @ (if wd_peers dev = [] then [] else [DPeers frs])"

lemma message_items_attrs: "map ditem_attr (message_items dev first frs) = message_attrs dev first frs"
  by (auto simp: message_items_def message_attrs_def intro: map_idI)

text \<open>The effect of the plain attributes; the name is padded with zeros.\<close>

definition set_dattr :: "nat \<Rightarrow> u8 list \<Rightarrow> wg_device \<Rightarrow> wg_device" where
  "set_dattr t v d =
     (if t = WGDEVICE_A_IFNAME then d\<lparr>wd_name := butlast v @ replicate (16 - length (butlast v)) 0\<rparr>
      else if t = WGDEVICE_A_PRIVATE_KEY then d\<lparr>wd_private_key := v, wd_flags := wd_flags d OR WGDEVICE_HAS_PRIVATE_KEY\<rparr>
      else if t = WGDEVICE_A_LISTEN_PORT then d\<lparr>wd_listen_port := of_nat (le_nat v)\<rparr>
      else if t = WGDEVICE_A_FWMARK then d\<lparr>wd_fwmark := of_nat (le_nat v)\<rparr>
      else if t = WGDEVICE_A_PUBLIC_KEY then d\<lparr>wd_public_key := v, wd_flags := wd_flags d OR WGDEVICE_HAS_PUBLIC_KEY\<rparr>
      else if t = WGDEVICE_A_IFINDEX then d\<lparr>wd_ifindex := of_nat (le_nat v)\<rparr>
      else d)"

fun ditem_step :: "device_item \<Rightarrow> int \<times> nat \<times> wg_device \<Rightarrow> int \<times> nat \<times> wg_device" where
  "ditem_step (DAttr t v) (e, b, d) = (e, b, set_dattr t v d)"
| "ditem_step (DPeers frs) (e, b, d) = (e, b - frags_cost frs, fold add_frag frs d)"

lemma has_tl: "has mem off (c # cs) \<Longrightarrow> has mem (off + 1) cs" and has_hd: "has mem off (c # cs) \<Longrightarrow> rd mem off = Some c"
  using has_append [of mem off "[c]" cs] by (auto simp: has_def rd_def take_Suc_conv_app_nth nth_via_drop split: if_splits
      dest: arg_cong [of _ _ hd])

lemma c_strncpy_name:
  "has mem off (xs @ [0]) \<Longrightarrow> 0 \<notin> set xs \<Longrightarrow> length xs \<le> n \<Longrightarrow> c_strncpy mem off n = Some (xs @ replicate (n - length xs) 0)"
proof (induction xs arbitrary: off n)
  case Nil
  then show ?case using has_hd [of mem off 0 "[]"] by (cases n) auto
next
  case (Cons c cs)
  obtain m where n: "n = Suc m" using Cons.prems(3) by (cases n) auto
  have h: "has mem off (c # (cs @ [0]))" using Cons.prems(1) by simp
  have "c_strncpy mem (off + 1) m = Some (cs @ replicate (m - length cs) 0)"
    by (rule Cons.IH [OF has_tl [OF h]]) (use Cons.prems n in auto)
  then show ?case using has_hd [OF h] Cons.prems(2) n by auto
qed

text \<open>A device whose name is padded with zeros and whose peers can be read back.\<close>

definition device_wf :: "wg_device \<Rightarrow> bool" where
  "device_wf dev \<longleftrightarrow> device_ok dev \<and> (\<forall>p\<in>set (wd_peers dev). peer_wf p) \<and>
     (\<exists>name. wd_name dev = name @ replicate (16 - length name) 0 \<and> length name \<le> 15 \<and> 0 \<notin> set name)"

lemma device_name:
  assumes "device_wf dev"
  obtains name where "name_bytes (wd_name dev) = name @ [0]" "length name \<le> 15" "0 \<notin> set name"
    "wd_name dev = name @ replicate (16 - length name) 0"
proof -
  obtain name where n: "wd_name dev = name @ replicate (16 - length name) 0" "length name \<le> 15" "0 \<notin> set name"
    using assms by (auto simp: device_wf_def)
  have "takeWhile (\<lambda>c. c \<noteq> 0) (name @ replicate (16 - length name) 0) = name"
    by (rule takeWhile_append_hd) (use n(2,3) in auto)
  then show thesis using that n by (simp add: name_bytes_def)
qed

definition dsized :: "wg_device \<Rightarrow> bool" where
  "dsized d \<longleftrightarrow> length (wd_private_key d) = 32 \<and> length (wd_public_key d) = 32"

text \<open>The attributes of a device in requests and in dumps.\<close>

definition dattr_ok :: "nat \<Rightarrow> u8 list \<Rightarrow> bool" where
  "dattr_ok t v \<longleftrightarrow> t = WGDEVICE_A_IFNAME \<and> (\<exists>name. v = name @ [0] \<and> length name \<le> 15 \<and> 0 \<notin> set name) \<or>
     (t = WGDEVICE_A_PRIVATE_KEY \<or> t = WGDEVICE_A_PUBLIC_KEY) \<and> length v = 32 \<or> t = WGDEVICE_A_LISTEN_PORT \<and> length v = 2 \<or>
     (t = WGDEVICE_A_FWMARK \<or> t = WGDEVICE_A_IFINDEX \<or> t = WGDEVICE_A_FLAGS) \<and> length v = 4"

fun ditem_ok :: "device_item \<Rightarrow> bool" where
  "ditem_ok (DAttr t v) \<longleftrightarrow> dattr_ok t v"
| "ditem_ok (DPeers frs) \<longleftrightarrow> (\<forall>f\<in>set frs. frag_ok f)"

lemma device_attrs_ok: "(t, v) \<in> set (device_attrs dev) \<Longrightarrow> device_ok dev \<Longrightarrow> dattr_ok t v"
  by (auto simp: device_attrs_def device_ok_def dattr_ok_def split: if_splits)

lemma pad_name: "length name \<le> 15 \<Longrightarrow> replicate (15 - length name) 0 @ [0] = replicate (16 - length name) (0 :: u8)"
proof -
  assume "length name \<le> 15"
  then have "16 - length name = Suc (15 - length name)" by simp
  then show ?thesis by (simp only: replicate_append_same replicate_Suc)
qed

lemma parse_device_name:
  assumes n: "length name \<le> 15" "0 \<notin> set name" and h: "has mem off (attr_bytes WGDEVICE_A_IFNAME (name @ [0]))"
  shows "parse_device mem off (e, b, d) = Some (1, e, b, set_dattr WGDEVICE_A_IFNAME (name @ [0]) d)"
proof -
  have fits: "attr_fits (WGDEVICE_A_IFNAME, name @ [0])" using n(1) by (simp add: attr_fits_def wg_attrs)
  note fields = attr_fields [OF h fits]
  have copy: "c_strncpy mem (mnl_attr_get_str off) 15 = Some (name @ replicate (15 - length name) 0)"
    unfolding mnl_attr_get_str_def by (rule c_strncpy_name [OF fields(5) n(2,1)])
  have valid: "mnl_attr_validate mem off MNL_TYPE_STRING = Some (Inr ())"
    using fields(3) by (simp add: mnl_attr_validate_def attr_validate_def)
  show ?thesis using fields(2,3) copy valid pad_name [OF n(1)] by (simp add: parse_device_def when_valid_def set_dattr_def wg_attrs)
qed

lemma parse_device_attr:
  assumes v: "dattr_ok t v" and fits: "attr_fits (t, v)" and h: "has mem off (attr_bytes t v)" and d: "dsized d"
  shows "parse_device mem off (e, b, d) = Some (1, e, b, set_dattr t v d)"
proof -
  note fields = attr_fields(2,3) [OF h fits]
  have copy: "copy_payload mem off 32 k = Some v" if "length v = 32" "length k = 32" for k
    using copy_attr [OF h fits, of 32 k] that by simp
  note simps = parse_device_def when_valid_def set_dattr_def wg_attrs
  consider name where "t = WGDEVICE_A_IFNAME" "v = name @ [0]" "length name \<le> 15" "0 \<notin> set name"
    | "t = WGDEVICE_A_PRIVATE_KEY" "length v = 32" | "t = WGDEVICE_A_PUBLIC_KEY" "length v = 32" | "t = WGDEVICE_A_LISTEN_PORT" "length v = 2"
    | "t = WGDEVICE_A_FWMARK" "length v = 4" | "t = WGDEVICE_A_IFINDEX" "length v = 4" | "t = WGDEVICE_A_FLAGS"
    using v unfolding dattr_ok_def by blast
  then show ?thesis
  proof cases
    case 1
    then show ?thesis using parse_device_name [OF 1(3,4)] h by simp
  next
    case 2
    then show ?thesis using fields copy d by (simp add: simps dsized_def)
  next
    case 3
    then show ?thesis using fields copy d by (simp add: simps dsized_def)
  next
    case 4
    then show ?thesis using fields validate_attr [OF h fits, of MNL_TYPE_U16] get_number(1) [OF h fits] by (simp add: simps)
  next
    case 5
    then show ?thesis using fields validate_attr [OF h fits, of MNL_TYPE_U32] get_number(2) [OF h fits] by (simp add: simps)
  next
    case 6
    then show ?thesis using fields validate_attr [OF h fits, of MNL_TYPE_U32] get_number(2) [OF h fits] by (simp add: simps)
  next
    case 7
    then show ?thesis using fields by (simp add: simps)
  qed
qed

lemma set_dattr_sized: "dattr_ok t v \<Longrightarrow> dsized d \<Longrightarrow> dsized (set_dattr t v d)"
  by (auto simp: set_dattr_def dsized_def dattr_ok_def wg_attrs)

lemma fold_add_frag_fields: "wd_private_key (fold add_frag frs d) = wd_private_key d" "wd_public_key (fold add_frag frs d) = wd_public_key d"
  "wd_name (fold add_frag frs d) = wd_name d"
  by (induction frs arbitrary: d) (simp_all add: add_frag_def)

lemma parse_device_item:
  assumes x: "ditem_ok x" and fits: "attr_fits (ditem_attr x)" and h: "has mem off (attr_bytes (fst (ditem_attr x)) (snd (ditem_attr x)))"
    and b: "ditem_cost x \<le> b" and d: "dsized d"
  shows "parse_device mem off (e, b, d) = Some (1, ditem_step x (e, b, d)) \<and> dsized (snd (snd (ditem_step x (e, b, d))))"
proof (cases x)
  case (DAttr t v)
  then show ?thesis using parse_device_attr [OF _ _ _ d] set_dattr_sized [OF _ d] x fits h by simp
next
  case (DPeers frs)
  let ?n = "nest WGDEVICE_A_PEERS (map frag_nest frs)"
  have h': "has mem off (attr_bytes (NLA_F_NESTED OR WGDEVICE_A_PEERS) (snd ?n))" using h DPeers by (simp add: nest_def)
  have f': "attr_fits (NLA_F_NESTED OR WGDEVICE_A_PEERS, snd ?n)" using fits DPeers by (simp add: nest_def)
  have "mnl_attr_parse_nested mem off (parse_peers mem) (e, b, d) = Some (1, e, b - frags_cost frs, fold add_frag frs d)"
    by (rule parse_peers_nest [where t = WGDEVICE_A_PEERS]) (use x fits h b DPeers in auto)
  then show ?thesis
    using DPeers attr_fields(2,3) [OF h' f', unfolded nest_types] d
    by (simp add: parse_device_def wg_attrs dsized_def fold_add_frag_fields)
qed

section \<open>Messages\<close>

lemma message_items_ok:
  assumes "device_wf dev" "\<forall>f\<in>set frs. frag_ok f" "x \<in> set (message_items dev first frs)"
  shows "ditem_ok x"
proof -
  obtain name where "name_bytes (wd_name dev) = name @ [0]" "length name \<le> 15" "0 \<notin> set name"
    using assms(1) by (elim device_name)
  then have "dattr_ok WGDEVICE_A_IFNAME (name_bytes (wd_name dev))" by (auto simp: dattr_ok_def)
  then show ?thesis using assms device_attrs_ok by (auto simp: message_items_def device_wf_def split: if_splits)
qed

lemma ditem_fits:
  assumes "ditem_ok x" "x \<in> set items" "length (attrs_bytes (map ditem_attr items)) < 2 ^ 16 - 4"
  shows "attr_fits (ditem_attr x)"
proof -
  have "(fst (ditem_attr x), snd (ditem_attr x)) \<in> set (map ditem_attr items)" using assms(2) by simp
  then have "length (snd (ditem_attr x)) < 2 ^ 16 - 4" using attrs_bytes_fit [of "fst (ditem_attr x)" "snd (ditem_attr x)" "map ditem_attr items"] assms(3) by simp
  moreover have "fst (ditem_attr x) < 2 ^ 16"
    using assms(1) nest_types(6) by (cases x) (auto simp: nest_def dattr_ok_def wg_attrs)
  ultimately show ?thesis by (simp add: attr_fits_def)
qed

lemma ditem_cost: "sum_list (map ditem_cost (message_items dev first frs)) = (if wd_peers dev = [] then 0 else frags_cost frs)"
  by (auto simp: message_items_def o_def case_prod_beta sum_list_eq_0_iff)

text \<open>The effect of the attributes in front of the peers.\<close>

definition set_head :: "wg_device \<Rightarrow> bool \<Rightarrow> wg_device \<Rightarrow> wg_device" where
  "set_head dev first d = fold (\<lambda>(t, v). set_dattr t v) (if first then device_attrs dev else [])
     (set_dattr WGDEVICE_A_IFNAME (name_bytes (wd_name dev)) d)"

lemma fold_dattrs: "fold ditem_step (map (\<lambda>(t, v). DAttr t v) as) (e, b, d) = (e, b, fold (\<lambda>(t, v). set_dattr t v) as d)"
  by (induction "as" arbitrary: d) auto

lemma fold_message_items:
  assumes "wd_peers dev = [] \<longrightarrow> frs = []"
  shows "fold ditem_step (message_items dev first frs) (e, b, d) = (e, b - frags_cost frs, fold add_frag frs (set_head dev first d))"
  using assms fold_dattrs [of "if first then device_attrs dev else []" e b]
  by (simp add: message_items_def set_head_def)

lemma read_items:
  assumes b: "built mem hdr ([c, v, 0, 0] @ attrs_bytes (map ditem_attr items))" and ok: "\<forall>x\<in>set items. ditem_ok x"
    and cost: "sum_list (map ditem_cost items) \<le> n" and d: "dsized d"
  shows "read_device_cb mem 0 (e, n, d) = Some (1, fold ditem_step items (e, n, d))"
  unfolding read_device_cb_def
proof (rule parse_built [where extra = "[c, v, 0, 0]" and enc = ditem_attr
      and I = "\<lambda>xs st. sum_list (map ditem_cost xs) \<le> fst (snd st) \<and> dsized (snd (snd st))", OF b])
  have len: "length (attrs_bytes (map ditem_attr items)) < 2 ^ 16 - 4" using built_simps(3,4) [OF b] by simp
  have fits: "attr_fits (ditem_attr x)" if "x \<in> set items" for x using ditem_fits [OF _ that len] ok that by blast
  then show "\<forall>x\<in>set items. attr_fits (ditem_attr x)" by blast
  show "sum_list (map ditem_cost items) \<le> fst (snd (e, n, d)) \<and> dsized (snd (snd (e, n, d)))" using cost d by simp
  fix off x ys and st :: "int \<times> nat \<times> wg_device"
  assume x: "x \<in> set items" "sum_list (map ditem_cost (x # ys)) \<le> fst (snd st) \<and> dsized (snd (snd st))"
    "has mem off (attr_bytes (fst (ditem_attr x)) (snd (ditem_attr x)))"
  have "fst (snd (ditem_step x st)) = fst (snd st) - ditem_cost x" by (cases st; cases x) simp_all
  then show "parse_device mem off st = Some (1, ditem_step x st) \<and>
      sum_list (map ditem_cost ys) \<le> fst (snd (ditem_step x st)) \<and> dsized (snd (snd (ditem_step x st)))"
    using parse_device_item [OF _ fits [OF x(1)] x(3), of "fst (snd st)" "snd (snd st)" "fst st"] ok x(1,2) by (cases st) auto
qed (simp add: MNL_ALIGN_def)

section \<open>Receiving the messages\<close>

text \<open>
  A dump of the messages: the same attributes under the sequence number and the port of the reader,
  and the message that ends the dump.
\<close>

definition nl_replay :: "nat \<Rightarrow> nat \<Rightarrow> u8 list \<Rightarrow> u8 list" where
  "nl_replay seq portid m = take 8 m @ le_bytes 4 seq @ le_bytes 4 portid @ drop 16 m"

definition nl_dump :: "nat \<Rightarrow> nat \<Rightarrow> u8 list list \<Rightarrow> recv list" where
  "nl_dump seq portid ms = map (\<lambda>m. Recv_Data (nl_replay seq portid m) False 12) ms @ [Recv_Data (nl_done seq portid) False 12]"

lemma replay_message:
  "nl_replay seq portid (message nlg dev first tf) =
   nl_hdr (16 + length (message_body (nlg_version nlg) dev first (snd tf))) (unat (nlg_id nlg)) 5 seq portid @
   message_body (nlg_version nlg) dev first (snd tf)"
  by (simp add: nl_replay_def message_def Let_def msg_hdr_def nl_hdr_def)

declare mnlg_socket_recv_run.simps [simp del]

lemma recv_items:
  assumes items: "\<forall>x\<in>set items. ditem_ok x" "sum_list (map ditem_cost items) \<le> n" "dsized d"
    and m: "m = nl_hdr (16 + length body) t flags seq portid @ body" "body = [c, v, 0, 0] @ attrs_bytes (map ditem_attr items)"
    and hdr: "16 \<le> t" "t < 2 ^ 16" "flags < 2 ^ 16" "\<not> bit flags 4"
    and buf: "length m \<le> length buf" "length buf < 2 ^ 16" and ids: "seq < 2 ^ 32" "portid < 2 ^ 32"
  shows "\<exists>buf'. length buf' = length buf \<and>
    mnlg_socket_recv_run seq portid (Some read_device_cb) buf (e, n, d) (Recv_Data m False 12 # rs) =
    mnlg_socket_recv_run seq portid (Some read_device_cb) buf' (fold ditem_step items (e, n, d)) rs"
proof -
  let ?mem = "m @ drop (length m) buf"
  have len: "length m = 16 + length body" by (simp add: m(1))
  note recv = recvfrom_fits [OF buf(1)]
  have "length body = 4 + length (attrs_bytes (map ditem_attr items))" by (simp add: m(2))
  then have dvd: "4 dvd length body" using attrs_bytes_dvd [of "map ditem_attr items"] by presburger
  have cb: "read_device_cb ?mem 0 (e, n, d) = Some (1, fold ditem_step items (e, n, d))"
    by (rule read_items [OF received_built [OF dvd buf m(1), unfolded m(2)] items])
  have h: "has ?mem 0 (nl_hdr (length m) t flags seq portid)"
    using recv(3) unfolding len by (simp add: m(1) has_append)
  have n: "16 \<le> length m" "length m < 2 ^ 16" "4 dvd length m"
    using len buf dvd by (auto intro: dvd_add)
  obtain e' n' d' where step: "fold ditem_step items (e, n, d) = (e', n', d')" by (metis prod.collapse)
  have run: "mnl_cb_run2 ?mem (length m) seq portid (Some (read_device_cb ?mem)) (e, n, d) (mnlg_cb_array ?mem) 5 = Some (1, e', n', d')"
    unfolding mnl_cb_run2_def
    by (rule cb_run_data [where cb = "read_device_cb ?mem" and st = "(e, n, d)", OF h n hdr ids cb [unfolded step] zero_less_one])
  have "length m \<noteq> 0" using n(1) by linarith
  then show ?thesis using run recv(1,2) unfolding step by (intro exI [of _ ?mem]) (simp add: mnlg_socket_recv_run.simps)
qed

lemma recv_message:
  assumes wf: "device_wf dev" "\<forall>f\<in>set (snd tf). frag_ok f" "wd_peers dev = [] \<longrightarrow> snd tf = []" "frags_cost (snd tf) \<le> n" "dsized d"
    and buf: "length (message nlg dev first tf) \<le> length buf" "length buf < 2 ^ 16"
    and ids: "seq < 2 ^ 32" "portid < 2 ^ 32" "16 \<le> unat (nlg_id nlg)"
  shows "\<exists>buf'. length buf' = length buf \<and>
    mnlg_socket_recv_run seq portid (Some read_device_cb) buf (e, n, d) (Recv_Data (nl_replay seq portid (message nlg dev first tf)) False 12 # rs) =
    mnlg_socket_recv_run seq portid (Some read_device_cb) buf' (e, n - frags_cost (snd tf), fold add_frag (snd tf) (set_head dev first d)) rs"
proof -
  let ?items = "message_items dev first (snd tf)" and ?m = "nl_replay seq portid (message nlg dev first tf)"
  have ok: "\<forall>x\<in>set ?items. ditem_ok x" using message_items_ok [OF wf(1,2)] by blast
  have cost: "sum_list (map ditem_cost ?items) \<le> n" using wf(4) by (simp add: ditem_cost)
  have body: "message_body (nlg_version nlg) dev first (snd tf) = [1, of_nat (nlg_version nlg), 0, 0] @ attrs_bytes (map ditem_attr ?items)"
    by (simp add: message_items_attrs message_body_def)
  have id: "unat (nlg_id nlg) < 2 ^ 16" using unsigned_less [of "nlg_id nlg", where 'a = nat] by simp
  have fit: "length ?m \<le> length buf" unfolding replay_message using buf(1) by (simp add: message_def Let_def msg_hdr_def)
  from recv_items [OF ok cost wf(5) replay_message body ids(3) id _ flag_bits(2) fit buf(2) ids(1,2), of e rs] show ?thesis
    by (simp add: fold_message_items [OF wf(3)])
qed

lemma set_head_again: "device_wf dev \<Longrightarrow> wd_name d = wd_name dev \<Longrightarrow> set_head dev False d = d"
  by (auto simp: set_head_def set_dattr_def elim!: device_name)

lemma fold_add_frag_sized: "dsized (fold add_frag frs d) = dsized d"
  by (simp add: dsized_def fold_add_frag_fields)

lemma recv_following:
  assumes "device_wf dev" "16 \<le> unat (nlg_id nlg)" "seq < 2 ^ 32" "portid < 2 ^ 32"
  shows "\<forall>f\<in>set (concat (map snd tfs)). frag_ok f \<Longrightarrow> wd_peers dev = [] \<longrightarrow> tfs = [] \<Longrightarrow> frags_cost (concat (map snd tfs)) \<le> n \<Longrightarrow>
    dsized d \<Longrightarrow> wd_name d = wd_name dev \<Longrightarrow> \<forall>tf\<in>set tfs. length (message nlg dev False tf) \<le> length buf \<Longrightarrow>
    20 \<le> length buf \<Longrightarrow> length buf < 2 ^ 16 \<Longrightarrow>
    \<exists>buf'. mnlg_socket_recv_run seq portid (Some read_device_cb) buf (e, n, d) (nl_dump seq portid (map (message nlg dev False) tfs)) =
      Some ((0, 0, n - frags_cost (concat (map snd tfs)), fold add_frag (concat (map snd tfs)) d), buf', [])"
proof (induction tfs arbitrary: n d buf)
  case Nil
  then show ?case using recv_done [OF assms(3,4), of buf "Some read_device_cb" e "(n, d)"] by (simp add: nl_dump_def)
next
  case (Cons tf tfs)
  obtain buf' where b: "length buf' = length buf" "mnlg_socket_recv_run seq portid (Some read_device_cb) buf (e, n, d)
      (Recv_Data (nl_replay seq portid (message nlg dev False tf)) False 12 # nl_dump seq portid (map (message nlg dev False) tfs)) =
    mnlg_socket_recv_run seq portid (Some read_device_cb) buf' (e, n - frags_cost (snd tf), fold add_frag (snd tf) d)
      (nl_dump seq portid (map (message nlg dev False) tfs))"
    using recv_message [where tf = tf and dev = dev and n = n and d = d and buf = buf and nlg = nlg and first = False
        and seq = seq and portid = portid and e = e and rs = "nl_dump seq portid (map (message nlg dev False) tfs)"]
      assms Cons.prems set_head_again [OF assms(1) Cons.prems(5)] by auto
  have "nl_dump seq portid (map (message nlg dev False) (tf # tfs)) =
      Recv_Data (nl_replay seq portid (message nlg dev False tf)) False 12 # nl_dump seq portid (map (message nlg dev False) tfs)"
    by (simp add: nl_dump_def)
  then show ?case
    using b Cons.IH [of "n - frags_cost (snd tf)" "fold add_frag (snd tf) d" buf'] Cons.prems
    by (simp add: fold_add_frag_sized fold_add_frag_fields)
qed

text \<open>The device without its peers, as it is read back.\<close>

definition shown_head :: "wg_device \<Rightarrow> wg_device" where
  "shown_head dev = zero_device\<lparr>wd_name := wd_name dev,
     wd_private_key := (if wd_flags dev AND WGDEVICE_HAS_PRIVATE_KEY \<noteq> 0 then wd_private_key dev else replicate 32 0),
     wd_flags := (if wd_flags dev AND WGDEVICE_HAS_PRIVATE_KEY \<noteq> 0 then WGDEVICE_HAS_PRIVATE_KEY else 0),
     wd_listen_port := (if wd_flags dev AND WGDEVICE_HAS_LISTEN_PORT \<noteq> 0 then wd_listen_port dev else 0),
     wd_fwmark := (if wd_flags dev AND WGDEVICE_HAS_FWMARK \<noteq> 0 then wd_fwmark dev else 0)\<rparr>"

lemma set_head_first: "device_wf dev \<Longrightarrow> set_head dev True zero_device = shown_head dev"
proof -
  assume "device_wf dev"
  then have "butlast (name_bytes (wd_name dev)) @ replicate (16 - length (butlast (name_bytes (wd_name dev)))) 0 = wd_name dev"
    by (auto elim!: device_name)
  then show ?thesis
    by (simp add: set_head_def shown_head_def set_dattr_def device_attrs_def zero_device_def wg_attrs)
qed

lemma recv_dump:
  assumes wf: "device_wf dev" "16 \<le> unat (nlg_id nlg)" "seq < 2 ^ 32" "portid < 2 ^ 32"
    and frs: "\<forall>f\<in>set (snd tf @ concat (map snd tfs)). frag_ok f" "wd_peers dev = [] \<longrightarrow> snd tf = [] \<and> tfs = []"
      "frags_cost (snd tf @ concat (map snd tfs)) \<le> n"
    and buf: "\<forall>m\<in>set (message nlg dev True tf # map (message nlg dev False) tfs). length m \<le> length buf" "20 \<le> length buf" "length buf < 2 ^ 16"
  shows "\<exists>buf'. mnlg_socket_recv_run seq portid (Some read_device_cb) buf (e, n, zero_device)
      (nl_dump seq portid (message nlg dev True tf # map (message nlg dev False) tfs)) =
    Some ((0, 0, n - frags_cost (snd tf @ concat (map snd tfs)), fold add_frag (snd tf @ concat (map snd tfs)) (shown_head dev)), buf', [])"
proof -
  have zero: "dsized zero_device" "dsized (shown_head dev)" using wf(1) by (auto simp: dsized_def zero_device_def shown_head_def device_wf_def device_ok_def)
  obtain buf' where b: "length buf' = length buf" "mnlg_socket_recv_run seq portid (Some read_device_cb) buf (e, n, zero_device)
      (Recv_Data (nl_replay seq portid (message nlg dev True tf)) False 12 # nl_dump seq portid (map (message nlg dev False) tfs)) =
    mnlg_socket_recv_run seq portid (Some read_device_cb) buf' (e, n - frags_cost (snd tf), fold add_frag (snd tf) (shown_head dev))
      (nl_dump seq portid (map (message nlg dev False) tfs))"
    using recv_message [where tf = tf and dev = dev and n = n and d = zero_device and buf = buf and nlg = nlg and first = True
        and seq = seq and portid = portid and e = e and rs = "nl_dump seq portid (map (message nlg dev False) tfs)"]
      assms zero(1) set_head_first [OF wf(1)] by auto
  have "nl_dump seq portid (message nlg dev True tf # map (message nlg dev False) tfs) =
      Recv_Data (nl_replay seq portid (message nlg dev True tf)) False 12 # nl_dump seq portid (map (message nlg dev False) tfs)"
    by (simp add: nl_dump_def)
  then show ?thesis
    using b recv_following [OF wf, of tfs "n - frags_cost (snd tf)" "fold add_frag (snd tf) (shown_head dev)" buf' e] frs buf zero(2)
    by (simp add: fold_add_frag_sized fold_add_frag_fields shown_head_def)
qed

end
