(* ===== verification/Wg_Configure.thy ===== *)
theory Wg_Configure
  imports Wg_Set_Get
begin

text \<open>
  \<open>wg_set_device\<close> and \<open>wg_get_device\<close> as wholes: what the former sends to a kernel that
  acknowledges everything, and that the latter reads it back.
\<close>

section \<open>Setting and getting a device\<close>

text \<open>A socket that was opened, with a buffer for netlink messages.\<close>

definition opened :: "open_env \<Rightarrow> mnlg_socket \<Rightarrow> bool" where
  "opened env nlg \<longleftrightarrow> map_option fst (mnlg_socket_open env WG_GENL_NAME 1 {}) = Some (Inr nlg) \<and>
     272 \<le> length (nlg_buf nlg) \<and> length (nlg_buf nlg) < 2 ^ 16 \<and> nlg_portid nlg < 2 ^ 32"

text \<open>The device as it is read back, and the fields that can be compared.\<close>

definition shown_device :: "wg_device \<Rightarrow> wg_device" where
  "shown_device dev = (shown_head dev)\<lparr>wd_peers := map shown_peer (wd_peers dev)\<rparr>"

definition erase_device :: "wg_device \<Rightarrow> wg_device" where
  "erase_device d = d\<lparr>wd_peers := map erase (wd_peers d), wd_last_peer := None\<rparr>"

text \<open>The request for a device: a dump of the family, with the command \<open>WG_CMD_GET_DEVICE\<close> and the name.\<close>

definition get_msg :: "mnlg_socket \<Rightarrow> u8 list \<Rightarrow> nat \<Rightarrow> u8 list" where
  "get_msg nlg name now =
     (let body = [0, of_nat (nlg_version nlg), 0, 0] @ attr_bytes WGDEVICE_A_IFNAME (name_bytes name) in
      nl_hdr (16 + length body) (unat (nlg_id nlg)) 0x305 now 0 @ body)"

lemma get_request:
  assumes "device_ok dev" "272 \<le> length (nlg_buf nlg)" "length (nlg_buf nlg) < 2 ^ 16"
  obtains m1 m2 where "mnlg_msg_prepare (nlg_buf nlg) 0 0x305 (unat (nlg_id nlg)) (nlg_version nlg) now = Some m1"
    "mnl_attr_put_strz m1 0 WGDEVICE_A_IFNAME (wd_name dev) = Some m2" "length m2 = length (nlg_buf nlg)"
    "\<And>f :: u8 list \<Rightarrow> int + recv list. mnlg_socket_send f m2 = Some (f (get_msg nlg (wd_name dev) now))"
proof -
  have name: "strz (wd_name dev) = Some (name_bytes (wd_name dev))" "length (attrs_bytes [(WGDEVICE_A_IFNAME, name_bytes (wd_name dev))]) \<le> 20"
    using name_small(1) [of "wd_name dev"] name_small(2) [of "wd_name dev" WGDEVICE_A_IFNAME] assms(1) by (simp_all add: device_ok_def)
  let ?buf = "nlg_buf nlg" and ?v = "nlg_version nlg" and ?id = "unat (nlg_id nlg)"
  let ?attr = "attr_bytes WGDEVICE_A_IFNAME (name_bytes (wd_name dev))"
  obtain m1 where m1: "mnlg_msg_prepare ?buf 0 0x305 ?id ?v now = Some m1"
    "built m1 (msg_hdr ?id 0x305 now) [of_nat 0, of_nat ?v, 0, 0]" "length m1 = length ?buf"
    using msg_prepare_built [where buf = ?buf and cmd = 0 and flags = "0x305" and family = ?id and version = ?v and now = now] assms(2,3) by auto
  obtain m2 where m2: "mnl_attr_put m1 0 WGDEVICE_A_IFNAME (name_bytes (wd_name dev)) = Some m2" "length m2 = length ?buf"
    "built m2 (msg_hdr ?id 0x305 now) ([of_nat 0, of_nat ?v, 0, 0] @ ?attr)"
    using puts_always_put [of WGDEVICE_A_IFNAME "name_bytes (wd_name dev)"] m1(2,3) name(2) assms(2)
    unfolding puts_always_def by fastforce
  have zero: "le_bytes 4 0 = [0, 0, 0, 0]" by code_simp
  have "mnlg_socket_send f m2 = Some (f (get_msg nlg (wd_name dev) now))" for f :: "u8 list \<Rightarrow> int + recv list"
    using built_sent(2) [OF m2(3), of f] by (simp add: get_msg_def Let_def nl_hdr_def msg_hdr_def zero)
  then show thesis using that [OF m1(1) _ m2(2)] m2(1) name(1) by (simp add: mnl_attr_put_strz_def)
qed

lemma fold_add_frag:
  "wd_peers (fold add_frag frs d) = wd_peers d @ frag_peers (length (wd_peers d)) frs"
  "(fold add_frag frs d)\<lparr>wd_peers := ps, wd_last_peer := l\<rparr> = d\<lparr>wd_peers := ps, wd_last_peer := l\<rparr>"
  by (induction frs arbitrary: d) (simp_all add: add_frag_def)

lemma coalesce_frags:
  assumes "emits ps [] frs [] []" "keys_differ ps" and peers: "wd_peers h = []" "wd_last_peer h = None"
  obtains d where "coalesce_peers (fold add_frag frs h) = Some d" "erase_device d = h\<lparr>wd_peers := map shown_peer ps\<rparr>"
proof -
  let ?qs = "frag_peers 0 frs"
  have g: "continued_ok ?qs" "map erase (group_peers ?qs) = map shown_peer ps"
    using group_frags [OF assms(1) refl refl assms(2), of 0] by (auto simp: shown_peer_def split: list.splits)
  have "\<forall>q\<in>set ?qs. last_ok q" by (auto simp: frag_peers_def)
  then have c: "coalesce_list ?qs = Some (group_peers ?qs)" by (rule coalesce_list_groups [OF _ g(1)])
  let ?d = "(fold add_frag frs h)\<lparr>wd_peers := group_peers ?qs\<rparr>"
  have "coalesce_peers (fold add_frag frs h) = Some ?d"
    using c peers by (simp add: coalesce_peers_def fold_add_frag(1))
  moreover have "erase_device ?d = h\<lparr>wd_peers := map shown_peer ps\<rparr>"
    using fold_add_frag(2) [where frs = frs and d = h and ps = "map shown_peer ps" and l = None] g(2) peers
    by (simp add: erase_device_def)
  ultimately show thesis using that by blast
qed

lemma get_device_dump:
  assumes dev: "device_wf dev" "keys_differ (wd_peers dev)" and nlg: "16 \<le> unat (nlg_id nlg)"
    and env: "opened (ge_open genv) nlg'" "2 * work (wd_peers dev) [] < ge_budget genv" "ge_time genv < 2 ^ 32"
    and ms: "\<forall>m\<in>set (message nlg dev True tf # map (message nlg dev False) tfs). length m \<le> length (nlg_buf nlg')"
      "wd_peers dev = [] \<longrightarrow> tfs = []" "emits (wd_peers dev) [] (snd tf @ concat (map snd tfs)) [] []"
  shows "\<exists>d. wg_get_device (wd_name dev) [genv\<lparr>ge_kernel := answers (get_msg nlg' (wd_name dev) (ge_time genv))
      (nl_dump (ge_time genv) (nlg_portid nlg') (message nlg dev True tf # map (message nlg dev False) tfs))\<rparr>] = Some (Inr d) \<and> erase_device d = shown_device dev"
proof -
  let ?ms = "message nlg dev True tf # map (message nlg dev False) tfs" and ?frs = "snd tf @ concat (map snd tfs)"
  obtain live where o: "mnlg_socket_open (ge_open genv) WG_GENL_NAME 1 {} = Some (Inr nlg', live)"
    and buf: "272 \<le> length (nlg_buf nlg')" "length (nlg_buf nlg') < 2 ^ 16" "nlg_portid nlg' < 2 ^ 32"
    using env(1) by (auto simp: opened_def)
  obtain m1 m2 where m: "mnlg_msg_prepare (nlg_buf nlg') 0 0x305 (unat (nlg_id nlg')) (nlg_version nlg') (ge_time genv) = Some m1"
    "mnl_attr_put_strz m1 0 WGDEVICE_A_IFNAME (wd_name dev) = Some m2" "length m2 = length (nlg_buf nlg')"
    "\<And>f :: u8 list \<Rightarrow> int + recv list. mnlg_socket_send f m2 = Some (f (get_msg nlg' (wd_name dev) (ge_time genv)))"
    using get_request [OF _ buf(1,2)] dev(1) unfolding device_wf_def by blast
  have cost: "frags_cost ?frs \<le> ge_budget genv - 1"
    using frags_cost_bound [OF ms(3)] env(2) unfolding frags_cost_def by simp
  have ok: "\<forall>f\<in>set ?frs. frag_ok f" using frags_ok [OF ms(3)] dev(1) by (simp add: device_wf_def)
  have none: "wd_peers dev = [] \<longrightarrow> snd tf = [] \<and> tfs = []" using ms(2,3) emits_Nil [of ?frs "[]" "[]"] by auto
  obtain buf' where r: "mnlg_socket_recv_run (ge_time genv) (nlg_portid nlg') (Some read_device_cb) m2 (0, ge_budget genv - 1, zero_device)
      (nl_dump (ge_time genv) (nlg_portid nlg') ?ms) =
      Some ((0, 0, ge_budget genv - 1 - frags_cost ?frs, fold add_frag ?frs (shown_head dev)), buf', [])"
    using recv_dump [OF dev(1) nlg env(3) buf(3) ok none cost, of m2 0] ms(1) m(3) buf by auto
  obtain d where d: "coalesce_peers (fold add_frag ?frs (shown_head dev)) = Some d" "erase_device d = shown_device dev"
    using coalesce_frags [OF ms(3) dev(2), of "shown_head dev"] by (auto simp: shown_device_def shown_head_def zero_device_def)
  have "get_device_try 0 (wd_name dev) (genv\<lparr>ge_kernel := answers (get_msg nlg' (wd_name dev) (ge_time genv))
      (nl_dump (ge_time genv) (nlg_portid nlg') ?ms)\<rparr>) = Some (Inr (0, d))"
    using env(2) o m r d(1) by (simp add: get_device_try_def answers_def)
  then show ?thesis using d(2) by (simp add: wg_get_device_def)
qed

lemma configure_and_read:
  assumes "device_wf dev" "keys_differ (wd_peers dev)"
    and "opened env nlg" "16 \<le> unat (nlg_id nlg)" "Suc (work (wd_peers dev) []) \<le> fuel"
    and "opened (ge_open genv) nlg'" "length (nlg_buf nlg) \<le> length (nlg_buf nlg')"
    and "2 * work (wd_peers dev) [] < ge_budget genv" "ge_time genv < 2 ^ 32"
  shows "\<exists>ms d. wg_set_device fuel (recorder (nlg_portid nlg)) clock env dev k = Some (k @ ms, 0) \<and>
    wg_get_device (wd_name dev) [genv\<lparr>ge_kernel := answers (get_msg nlg' (wd_name dev) (ge_time genv))
      (nl_dump (ge_time genv) (nlg_portid nlg') ms)\<rparr>] = Some (Inr d) \<and>
    erase_device d = shown_device dev"
proof -
  have dev: "device_ok dev" using assms(1) by (simp add: device_wf_def)
  have o: "\<exists>live. mnlg_socket_open env WG_GENL_NAME 1 {} = Some (Inr nlg, live)" and buf: "272 \<le> length (nlg_buf nlg)"
    "length (nlg_buf nlg) < 2 ^ 16" "nlg_portid nlg < 2 ^ 32"
    using assms(3) by (auto simp: opened_def)
  obtain tf tfs where s: "set_device_loop fuel (recorder (nlg_portid nlg)) clock nlg dev k (nlg_buf nlg) [] [] =
      Some (k @ message nlg dev True tf # map (message nlg dev False) tfs, 0)"
    "\<forall>m\<in>set (message nlg dev True tf # map (message nlg dev False) tfs). length m \<le> length (nlg_buf nlg)"
    "wd_peers dev = [] \<longrightarrow> tfs = []" "emits (wd_peers dev) [] (snd tf @ concat (map snd tfs)) [] []"
    using set_device_messages [OF dev buf assms(5), of clock k] by auto
  have "\<forall>m\<in>set (message nlg dev True tf # map (message nlg dev False) tfs). length m \<le> length (nlg_buf nlg')"
    using s(2) assms(7) order_trans by blast
  then obtain d where "wg_get_device (wd_name dev) [genv\<lparr>ge_kernel := answers (get_msg nlg' (wd_name dev) (ge_time genv))
      (nl_dump (ge_time genv) (nlg_portid nlg') (message nlg dev True tf # map (message nlg dev False) tfs))\<rparr>] = Some (Inr d)"
    "erase_device d = shown_device dev"
    using get_device_dump [OF assms(1,2,4,6,8,9) _ s(3,4)] by blast
  then show ?thesis using o s(1) by (auto simp: wg_set_device_def)
qed

text \<open>A socket on a small buffer, and a device whose peers need more than one message.\<close>

definition small_open :: open_env where
  "small_open = sample_open\<lparr>oe_buf := Some (replicate 272 0)\<rparr>"

definition small_socket :: mnlg_socket where
  "small_socket = \<lparr>nlg_buf = [36, 0, 0, 0, 2, 0] @ replicate 266 0, nlg_id = 20, nlg_version = 1, nlg_portid = 7\<rparr>"

definition small_address :: "u8 \<Rightarrow> wg_allowedip" where
  "small_address a = \<lparr>ai_family = AF_INET, ai_ip = [10, 0, 0, a] @ replicate 12 0, ai_cidr = 32\<rparr>"

definition small_device :: wg_device where
  "small_device = zero_device\<lparr>wd_name := [119, 103, 48] @ replicate 13 0, wd_flags := WGDEVICE_HAS_PRIVATE_KEY OR WGDEVICE_HAS_LISTEN_PORT,
     wd_private_key := replicate 32 5, wd_listen_port := 51820,
     wd_peers := [sample_peer 0 1 (map small_address [1, 2, 3, 4]), sample_peer 1 2 (map small_address [5, 6])]\<rparr>"

lemma small_opened: "opened small_open small_socket"
  by code_simp

lemma small_device_wf: "device_wf small_device" "keys_differ (wd_peers small_device)" "work (wd_peers small_device) [] = 8"
proof -
  have "\<exists>name. wd_name small_device = name @ replicate (16 - length name) 0 \<and> length name \<le> 15 \<and> 0 \<notin> set name"
    by (intro exI [of _ "[119, 103, 48]"]) (simp add: small_device_def)
  moreover have "device_ok small_device" "\<forall>p\<in>set (wd_peers small_device). peer_wf p" by code_simp+
  ultimately show "device_wf small_device" by (simp add: device_wf_def)
qed code_simp+

text \<open>Claim C10: \<open>wg_set_device\<close> ends and returns 0 when the kernel acknowledges every message: there is
  one message plus at most one for every peer and every allowed address, and none is longer than
  the buffer into which it is written.\<close>

theorem wg_set_device_sends_all:
  assumes "device_ok dev" "opened env nlg" "Suc (work (wd_peers dev) []) \<le> fuel"
  shows "\<exists>ms. wg_set_device fuel (recorder (nlg_portid nlg)) clock env dev k = Some (k @ ms, 0) \<and>
    length ms \<le> Suc (work (wd_peers dev) []) \<and> (\<forall>m\<in>set ms. length m \<le> length (nlg_buf nlg))"
proof -
  have o: "\<exists>live. mnlg_socket_open env WG_GENL_NAME 1 {} = Some (Inr nlg, live)" and buf: "272 \<le> length (nlg_buf nlg)"
    "length (nlg_buf nlg) < 2 ^ 16" "nlg_portid nlg < 2 ^ 32"
    using assms(2) by (auto simp: opened_def)
  obtain tf tfs where s: "set_device_loop fuel (recorder (nlg_portid nlg)) clock nlg dev k (nlg_buf nlg) [] [] =
      Some (k @ message nlg dev True tf # map (message nlg dev False) tfs, 0)"
    "\<forall>m\<in>set (message nlg dev True tf # map (message nlg dev False) tfs). length m \<le> length (nlg_buf nlg)"
    "length tfs \<le> work (wd_peers dev) []"
    using set_device_messages [OF assms(1) buf assms(3), of clock k] by auto
  then show ?thesis using o by (intro exI [of _ "message nlg dev True tf # map (message nlg dev False) tfs"]) (auto simp: wg_set_device_def)
qed

lemma wg_set_device_sends_all_witness:
  "\<exists>ms. wg_set_device 9 (recorder 7) (\<lambda>_. 1) small_open small_device [] = Some ([] @ ms, 0) \<and>
    length ms \<le> 9 \<and> list_all (\<lambda>m. length m \<le> 272) ms"
proof -
  have "device_ok small_device" using small_device_wf(1) by (simp add: device_wf_def)
  from wg_set_device_sends_all [OF this small_opened, of 9 "\<lambda>_. 1" "[]"] show ?thesis
    using small_device_wf(3) by (simp add: small_socket_def list_all_iff)
qed

text \<open>Claim C1: a device that \<open>wg_set_device\<close> configures is read back by \<open>wg_get_device\<close> as it
  was: for every buffer size the configuration is cut into messages that the kernel acknowledges,
  the call returns 0 within the number of messages that the peers and allowed addresses allow. Then the
  latter asks for this device, and a kernel that answers just this request with a dump of the messages
  makes it return the name, keys, ports and marks of the device and all its
  peers, in order, with all their allowed addresses.\<close>

theorem wg_set_get_roundtrip:
  assumes "device_wf dev" "keys_differ (wd_peers dev)"
    and "opened env nlg" "16 \<le> unat (nlg_id nlg)" "Suc (work (wd_peers dev) []) \<le> fuel"
    and "opened (ge_open genv) nlg'" "length (nlg_buf nlg) \<le> length (nlg_buf nlg')"
    and "2 * work (wd_peers dev) [] < ge_budget genv" "ge_time genv < 2 ^ 32"
  shows "\<exists>ms d. wg_set_device fuel (recorder (nlg_portid nlg)) clock env dev [] = Some (ms, 0) \<and>
    wg_get_device (wd_name dev) [genv\<lparr>ge_kernel := answers (get_msg nlg' (wd_name dev) (ge_time genv))
      (nl_dump (ge_time genv) (nlg_portid nlg') ms)\<rparr>] = Some (Inr d) \<and>
    erase_device d = shown_device dev"
  using configure_and_read [OF assms, of clock "[]"] by simp

lemma wg_set_get_roundtrip_witness:
  "\<exists>ms d. wg_set_device 9 (recorder 7) (\<lambda>ms. of_nat (length ms)) small_open small_device [] = Some (ms, 0) \<and>
    wg_get_device (wd_name small_device)
      [\<lparr>ge_budget = 17, ge_open = small_open, ge_time = 1,
        ge_kernel = answers (get_msg small_socket (wd_name small_device) 1) (nl_dump 1 7 ms)\<rparr>] = Some (Inr d) \<and>
    erase_device d = shown_device small_device"
  using wg_set_get_roundtrip [OF small_device_wf(1,2) small_opened, of 9
      "\<lparr>ge_budget = 17, ge_open = small_open, ge_time = 1, ge_kernel = undefined\<rparr>" small_socket "\<lambda>ms. of_nat (length ms)"] small_opened small_device_wf(3)
  by (simp add: small_socket_def)

end
