(* ===== verification/String_List.thy ===== *)
theory String_List
  imports Netlink_Socket
begin

text \<open>
  The list of device names of \<open>wireguard.c\<close>: C strings one after the other in a growing buffer,
  closed by an empty one (\<open>struct string_list\<close>, \<open>string_list_add\<close>), and the macro
  \<open>wg_for_each_device_name\<close> of \<open>wireguard.h\<close> that walks over it. Sizes are numbers below
  \<open>2 ^ 64\<close> with the wrap-around of \<open>size_t\<close> written out.
\<close>

section \<open>The list and its walk\<close>

record string_list =
  sl_buffer :: "u8 list option"
  sl_len :: nat
  sl_cap :: nat

definition empty_list :: string_list where
  "empty_list = \<lparr>sl_buffer = None, sl_len = 0, sl_cap = 0\<rparr>"

text \<open>
  The allocator answers a request for \<open>n\<close> bytes with \<open>None\<close> or with the contents of the new
  block; \<open>realloc\<close> keeps what fits of the old one.
\<close>

type_synonym allocator = "nat \<Rightarrow> (nat \<Rightarrow> u8) option"

definition realloc_bytes :: "allocator \<Rightarrow> u8 list option \<Rightarrow> nat \<Rightarrow> u8 list option" where
  "realloc_bytes heap old n = do {
     fill \<leftarrow> heap n;
     let kept = take n (case old of None \<Rightarrow> [] | Some b \<Rightarrow> b);
     Some (kept @ map fill [length kept..<n]) }"

definition new_capacity :: "string_list \<Rightarrow> nat \<Rightarrow> nat" where
  "new_capacity l len =
     (let doubled = sl_cap l * 2 mod 2 ^ 64; needed = (sl_len l + len + 1) mod 2 ^ 64
      in if doubled < needed then needed else doubled)"

text \<open>\<open>Inl\<close> is the error number of a failed allocation; the list is then as it was.\<close>

definition ensure_room :: "allocator \<Rightarrow> string_list \<Rightarrow> nat \<Rightarrow> int + string_list" where
  "ensure_room heap l len =
     (if len \<ge> (sl_cap l + 2 ^ 64 - sl_len l) mod 2 ^ 64 then
        (case realloc_bytes heap (sl_buffer l) (new_capacity l len) of
           None \<Rightarrow> Inl ENOMEM
         | Some b \<Rightarrow> Inr (l\<lparr>sl_buffer := Some b, sl_cap := new_capacity l len\<rparr>))
      else Inr l)"

definition string_list_add :: "allocator \<Rightarrow> string_list \<Rightarrow> u8 list \<Rightarrow> (int + string_list) option" where
  "string_list_add heap l str = do {
     s \<leftarrow> strz str;
     let len = length s;
     if len = 1 then Some (Inr l)
     else
       (case ensure_room heap l len of
          Inl e \<Rightarrow> Some (Inl e)
        | Inr l \<Rightarrow> do {
            b \<leftarrow> sl_buffer l;
            b \<leftarrow> wr_block b (sl_len l) s;
            b \<leftarrow> wr_block b (sl_len l + len) [0];
            Some (Inr (l\<lparr>sl_buffer := Some b, sl_len := sl_len l + len\<rparr>)) }) }"

text \<open>The walk over the names; \<open>None\<close> when it leaves the buffer.\<close>

function for_each_device_name :: "u8 list \<Rightarrow> nat \<Rightarrow> u8 list list option" where
  "for_each_device_name names off =
     (if off \<ge> length names then None
      else do {
        s \<leftarrow> strz (drop off names);
        let len = length s - 1;
        if len = 0 then Some []
        else map_option ((#) (take len s)) (for_each_device_name names (off + len + 1)) })"
  by auto
termination
  by (relation "measure (\<lambda>(names, off). length names - off)") auto

declare for_each_device_name.simps [simp del]

section \<open>Invariant\<close>

text \<open>The bytes of a sequence of names.\<close>

definition joined :: "u8 list list \<Rightarrow> u8 list" where
  "joined names = concat (map (\<lambda>n. n @ [0]) names)"

definition name_ok :: "u8 list \<Rightarrow> bool" where
  "name_ok n \<longleftrightarrow> n \<noteq> [] \<and> 0 \<notin> set n"

lemma joined_simps [simp]: "joined [] = []" "joined (n # ns) = n @ 0 # joined ns" "joined (ns @ ms) = joined ns @ joined ms"
  by (simp_all add: joined_def)

text \<open>
  A list that holds \<open>names\<close>: its bytes are the names and the closing NUL, and the capacity is at
  most twice what is used.
\<close>

definition holds :: "string_list \<Rightarrow> u8 list list \<Rightarrow> bool" where
  "holds l names \<longleftrightarrow> (\<forall>n\<in>set names. name_ok n) \<and> sl_len l = length (joined names) \<and> sl_cap l \<le> 2 * sl_len l \<and>
     (case sl_buffer l of
        None \<Rightarrow> names = []
      | Some b \<Rightarrow> names \<noteq> [] \<and> length b = sl_cap l \<and> (\<exists>rest. b = joined names @ 0 # rest))"

lemma holds_empty: "holds empty_list []"
  by (simp add: holds_def empty_list_def)

lemma strz_name: "0 \<notin> set n \<Longrightarrow> strz (n @ 0 # rest) = Some (n @ [0])"
  by (auto simp: strz_def takeWhile_append)

lemma realloc_bytes_grows:
  assumes "heap n \<noteq> None" "length b \<le> n"
  shows "\<exists>rest. realloc_bytes heap (Some b) n = Some (b @ rest) \<and> length rest = n - length b"
    "\<exists>rest. realloc_bytes heap None n = Some rest \<and> length rest = n"
  using assms by (auto simp: realloc_bytes_def)

lemma write_name:
  assumes "length pre + length s < length b" "b = pre @ rest"
  shows "\<exists>rest'. (do { b \<leftarrow> wr_block b (length pre) s; wr_block b (length pre + length s) [0] }) = Some (pre @ s @ 0 # rest') \<and>
    length (pre @ s @ 0 # rest') = length b"
proof -
  obtain old x post where r: "rest = old @ x # post" "length old = length s"
  proof -
    have "length s < length rest" using assms by simp
    then show thesis
      using that [of "take (length s) rest" "rest ! length s" "drop (Suc (length s)) rest"] by (simp add: id_take_nth_drop)
  qed
  then show ?thesis using assms(2) by (intro exI [of _ post]) (simp add: wr_block_def)
qed

text \<open>There is room after the capacity check, and nothing wraps around.\<close>

lemma capacity_check:
  assumes "sl_len l \<le> sl_cap l" "sl_cap l \<le> 2 * sl_len l" "sl_len l + len < 2 ^ 62"
  shows "(sl_cap l + 2 ^ 64 - sl_len l) mod 2 ^ 64 = sl_cap l - sl_len l"
    and "new_capacity l len = max (2 * sl_cap l) (sl_len l + len + 1)"
proof -
  have "sl_cap l + 2 ^ 64 - sl_len l = (sl_cap l - sl_len l) + 2 ^ 64" using assms(1) by simp
  moreover have "sl_cap l - sl_len l < 2 ^ 64" using assms by simp
  ultimately show "(sl_cap l + 2 ^ 64 - sl_len l) mod 2 ^ 64 = sl_cap l - sl_len l" by (simp only: mod_add_self2 mod_less)
  have "sl_cap l * 2 mod 2 ^ 64 = 2 * sl_cap l" "(sl_len l + len + 1) mod 2 ^ 64 = sl_len l + len + 1" using assms by simp_all
  then show "new_capacity l len = max (2 * sl_cap l) (sl_len l + len + 1)" unfolding new_capacity_def Let_def by simp
qed

lemma holds_len: "holds l names \<Longrightarrow> sl_len l = length (joined names) \<and> sl_len l \<le> sl_cap l \<and> sl_cap l \<le> 2 * sl_len l"
  by (auto simp: holds_def split: option.splits)

lemma grow_buffer:
  assumes l: "holds l names" and heap: "\<forall>k. heap k \<noteq> None" and bound: "sl_len l + len < 2 ^ 62" and len: "0 < len"
  obtains l1 b rest where
    "ensure_room heap l len = Inr l1"
    "sl_buffer l1 = Some b" "b = joined names @ rest" "length b = sl_cap l1" "sl_len l1 = sl_len l"
    "sl_len l + len < sl_cap l1" "sl_cap l1 \<le> 2 * (sl_len l + len)"
proof -
  note ln = holds_len [OF l]
  have check: "(sl_cap l + 2 ^ 64 - sl_len l) mod 2 ^ 64 = sl_cap l - sl_len l" "new_capacity l len = max (2 * sl_cap l) (sl_len l + len + 1)"
    by (rule capacity_check; use ln bound in simp)+
  show thesis
  proof (cases "len \<ge> sl_cap l - sl_len l")
    case False
    then obtain b rest where "sl_buffer l = Some b" "length b = sl_cap l" "b = joined names @ 0 # rest"
      using l by (auto simp: holds_def split: option.splits)
    then show thesis using that [of l b "0 # rest"] False check(1) ln by (simp add: ensure_room_def)
  next
    case True
    let ?n = "new_capacity l len"
    obtain b rest where b: "realloc_bytes heap (sl_buffer l) ?n = Some b" "b = joined names @ rest" "length b = ?n"
    proof (cases "sl_buffer l")
      case None
      then show thesis using that l realloc_bytes_grows(2) [of heap ?n "[]"] heap by (auto simp: holds_def)
    next
      case (Some b)
      then obtain rest where o: "b = joined names @ 0 # rest" "length b = sl_cap l" using l by (auto simp: holds_def)
      have "length b \<le> ?n" using o(2) check(2) by simp
      then obtain r where r: "realloc_bytes heap (Some b) ?n = Some (b @ r)" "length r = ?n - length b"
        using realloc_bytes_grows(1) [of heap ?n b] heap by auto
      show thesis using that [of "b @ r" "0 # rest @ r"] r Some o \<open>length b \<le> ?n\<close> by simp
    qed
    have "sl_len l + len < ?n" "?n \<le> 2 * (sl_len l + len)" unfolding check(2) using True ln len by (auto simp: max_def)
    then show thesis
      using that [of "l\<lparr>sl_buffer := Some b, sl_cap := ?n\<rparr>" b rest] b True check(1) by (simp add: ensure_room_def)
  qed
qed

lemma string_list_add_holds:
  assumes l: "holds l names" and n: "name_ok n" and heap: "\<forall>k. heap k \<noteq> None" and bound: "length (joined (names @ [n])) < 2 ^ 62"
  shows "\<exists>l'. string_list_add heap l (n @ 0 # rest) = Some (Inr l') \<and> holds l' (names @ [n])"
proof -
  let ?s = "n @ [0]" and ?pre = "joined names"
  have s: "strz (n @ 0 # rest) = Some ?s" using n by (intro strz_name) (simp add: name_ok_def)
  have ln: "sl_len l = length ?pre" using holds_len [OF l] by simp
  obtain l1 b r where g:
    "ensure_room heap l (length ?s) = Inr l1"
    "sl_buffer l1 = Some b" "b = ?pre @ r" "length b = sl_cap l1" "sl_len l1 = sl_len l"
    "sl_len l + length ?s < sl_cap l1" "sl_cap l1 \<le> 2 * (sl_len l + length ?s)"
    by (rule grow_buffer [OF l heap, of "length ?s"]) (use bound ln in auto)
  obtain r' where w: "(do { b \<leftarrow> wr_block b (length ?pre) ?s; wr_block b (length ?pre + length ?s) [0] }) = Some (?pre @ ?s @ 0 # r')"
    "length (?pre @ ?s @ 0 # r') = length b"
    using write_name [of ?pre ?s b r] g(3,4,6) ln by auto
  let ?l' = "l1\<lparr>sl_buffer := Some (?pre @ ?s @ 0 # r'), sl_len := sl_len l1 + length ?s\<rparr>"
  obtain b1 where w1: "wr_block b (length ?pre) ?s = Some b1" "wr_block b1 (length ?pre + length ?s) [0] = Some (?pre @ ?s @ 0 # r')"
    using w(1) by (cases "wr_block b (length ?pre) ?s") auto
  have one: "length ?s \<noteq> 1" using n by (simp add: name_ok_def)
  have "string_list_add heap l (n @ 0 # rest) = Some (Inr ?l')"
    unfolding string_list_add_def s bind.bind_lunit Let_def g(1) if_not_P [OF one] sum.case g(2) g(5) ln w1 by simp
  moreover have "holds ?l' (names @ [n])"
    using l n g w(2) ln by (auto simp: holds_def)
  ultimately show ?thesis by blast
qed

text \<open>Walking over the list gives the names.\<close>

lemma walk_joined:
  "\<forall>n\<in>set names. name_ok n \<Longrightarrow> for_each_device_name (pre @ joined names @ 0 # rest) (length pre) = Some names"
proof (induction names arbitrary: pre)
  case Nil
  then show ?case by (subst for_each_device_name.simps) (simp add: strz_def)
next
  case (Cons n ns)
  have n: "n \<noteq> []" "0 \<notin> set n" using Cons.prems by (simp_all add: name_ok_def)
  have "for_each_device_name ((pre @ n @ [0]) @ joined ns @ 0 # rest) (length (pre @ n @ [0])) = Some ns"
    using Cons.prems by (intro Cons.IH) simp
  then show ?case
    using n strz_name [OF n(2), of "joined ns @ 0 # rest"] by (subst for_each_device_name.simps) simp
qed

text \<open>The names that a list holds; a list without a buffer has none.\<close>

definition listed :: "string_list \<Rightarrow> u8 list list option" where
  "listed l = (case sl_buffer l of None \<Rightarrow> Some [] | Some b \<Rightarrow> for_each_device_name b 0)"

lemma holds_listed: "holds l names \<Longrightarrow> listed l = Some names"
  using walk_joined [of names "[]"] by (auto simp: holds_def listed_def split: option.splits)

section \<open>The contract of a list of names\<close>

text \<open>
  What the code that collects names relies on: \<open>keeps\<close> relates a list to the names in it, a name that
  fits can be added behind the others, and the walk gives the names in order.
\<close>

locale name_list =
  fixes start :: 'l and add :: "'l \<Rightarrow> u8 list \<Rightarrow> (int + 'l) option" and walk :: "'l \<Rightarrow> u8 list list option"
    and keeps :: "'l \<Rightarrow> u8 list list \<Rightarrow> bool" and plain :: "u8 list \<Rightarrow> bool" and room :: "u8 list list \<Rightarrow> bool"
  assumes keeps_start: "keeps start []"
    and add_law: "keeps l ns \<Longrightarrow> plain n \<Longrightarrow> room (ns @ [n]) \<Longrightarrow> \<exists>l'. add l (n @ 0 # rest) = Some (Inr l') \<and> keeps l' (ns @ [n])"
    and walk_law: "keeps l ns \<Longrightarrow> walk l = Some ns"
    and room_prefix: "room (ns @ ms) \<Longrightarrow> room ns"
begin

primrec add_all :: "'l \<Rightarrow> u8 list list \<Rightarrow> (int + 'l) option" where
  "add_all l [] = Some (Inr l)"
| "add_all l (n # ns) = do { r \<leftarrow> add l (n @ [0]); case r of Inl e \<Rightarrow> Some (Inl e) | Inr l \<Rightarrow> add_all l ns }"

lemma add_all_keeps:
  "keeps l ns \<Longrightarrow> list_all plain ms \<Longrightarrow> room (ns @ ms) \<Longrightarrow> \<exists>l'. add_all l ms = Some (Inr l') \<and> keeps l' (ns @ ms)"
proof (induction ms arbitrary: l ns)
  case (Cons m ms)
  have "room (ns @ [m])" using room_prefix [of "ns @ [m]" ms] Cons.prems(3) by simp
  then obtain l' where l': "add l (m @ [0]) = Some (Inr l')" "keeps l' (ns @ [m])"
    using add_law [OF Cons.prems(1), of m "[]"] Cons.prems(2) by auto
  show ?case using Cons.IH [OF l'(2)] Cons.prems(2,3) l'(1) by simp
qed simp

lemma walk_add_all: "list_all plain ns \<Longrightarrow> room ns \<Longrightarrow> \<exists>l. add_all start ns = Some (Inr l) \<and> walk l = Some ns"
  using add_all_keeps [OF keeps_start, of ns] walk_law by auto

end

interpretation strings: name_list empty_list "string_list_add (\<lambda>n. Some (fill n))" listed holds name_ok "\<lambda>ns. length (joined ns) < 2 ^ 62"
  for fill
  by unfold_locales (use holds_empty string_list_add_holds holds_listed in auto)

end
