(* ===== verification/Wg_Interfaces.thy ===== *)
theory Wg_Interfaces
  imports String_List Wg_Device
begin

text \<open>
  Network interfaces (\<open>wireguard.c\<close>): listing the names of the WireGuard devices with a dump of
  all links, and creating and deleting a device. The environment of a call is that of
  \<open>mnlg_socket_open\<close>; the resources are the buffer and the socket.
\<close>

section \<open>Parsing links\<close>

definition IFLA_IFNAME :: nat where "IFLA_IFNAME = 3"
definition IFLA_LINKINFO :: nat where "IFLA_LINKINFO = 18"
definition IFLA_INFO_KIND :: nat where "IFLA_INFO_KIND = 1"
definition RTM_NEWLINK :: nat where "RTM_NEWLINK = 16"
definition RTM_DELLINK :: nat where "RTM_DELLINK = 17"
definition RTM_GETLINK :: nat where "RTM_GETLINK = 18"

lemmas rtnl_consts = IFLA_IFNAME_def IFLA_LINKINFO_def IFLA_INFO_KIND_def RTM_NEWLINK_def RTM_DELLINK_def RTM_GETLINK_def

text \<open>The name is a pointer into the buffer.\<close>

record link_interface =
  if_name :: "nat option"
  if_wireguard :: bool

text \<open>\<open>strcmp\<close> with a literal that includes its NUL: bytes are read up to the first difference.\<close>

primrec str_is :: "u8 list \<Rightarrow> nlbuf \<Rightarrow> nat \<Rightarrow> bool option" where
  "str_is [] mem off = Some True"
| "str_is (c # cs) mem off = do { d \<leftarrow> rd mem off; if d \<noteq> c then Some False else str_is cs mem (off + 1) }"

definition parse_linkinfo :: "nlbuf \<Rightarrow> nat \<Rightarrow> link_interface \<Rightarrow> (int \<times> link_interface) option" where
  "parse_linkinfo mem attr ifc = do {
     t \<leftarrow> mnl_attr_get_type mem attr;
     if t = IFLA_INFO_KIND then do {
       same \<leftarrow> str_is WG_GENL_NAME mem (mnl_attr_get_str attr);
       Some (1, if same then ifc\<lparr>if_wireguard := True\<rparr> else ifc) }
     else Some (1, ifc) }"

definition parse_infomsg :: "nlbuf \<Rightarrow> nat \<Rightarrow> link_interface \<Rightarrow> (int \<times> link_interface) option" where
  "parse_infomsg mem attr ifc = do {
     t \<leftarrow> mnl_attr_get_type mem attr;
     if t = IFLA_LINKINFO then mnl_attr_parse_nested mem attr (parse_linkinfo mem) ifc
     else if t = IFLA_IFNAME then Some (1, ifc\<lparr>if_name := Some (mnl_attr_get_str attr)\<rparr>)
     else Some (1, ifc) }"

definition read_devices_cb :: "allocator \<Rightarrow> nlbuf \<Rightarrow> string_list cb" where
  "read_devices_cb heap mem nlh st = (case st of (errno, l) \<Rightarrow> do {
     (ret, ifc) \<leftarrow> mnl_attr_parse mem nlh 16 (parse_infomsg mem) \<lparr>if_name = None, if_wireguard = False\<rparr>;
     if ret \<noteq> 1 then Some (ret, errno, l)
     else do {
       r \<leftarrow> (case if_name ifc of
               None \<Rightarrow> Some (Inr l)
             | Some name \<Rightarrow> if if_wireguard ifc then string_list_add heap l (drop name mem) else Some (Inr l));
       case r of
         Inl e \<Rightarrow> Some (- e, e, l)
       | Inr l \<Rightarrow> do { t \<leftarrow> nlmsg_type mem nlh; Some (if t \<noteq> 3 then 2 else 1, errno, l) } } })"

section \<open>Listing\<close>

text \<open>
  The receive loop. A dump that was interrupted leaves the names so far. A receive beyond the end
  of the replies blocks and is \<open>None\<close>.
\<close>

primrec fetch_loop :: "allocator \<Rightarrow> nat \<Rightarrow> nat \<Rightarrow> nlbuf \<Rightarrow> int \<times> string_list \<Rightarrow> recv list \<Rightarrow> (int \<times> string_list) option" where
  "fetch_loop heap seq portid buf st [] = None"
| "fetch_loop heap seq portid buf st (r # rs) =
     (case mnl_socket_recvfrom buf r of
        (buf, Inl e) \<Rightarrow> Some (- e, snd st)
      | (buf, Inr n) \<Rightarrow> do {
          (len, st) \<leftarrow> mnl_cb_run buf n seq portid (Some (read_devices_cb heap buf)) st;
          if len < 0 \<and> fst st \<noteq> EINTR then Some (- fst st, snd st)
          else if len = 2 then fetch_loop heap seq portid buf st rs
          else Some (0, snd st) })"

text \<open>The request for all links.\<close>

definition getlink_request :: "nlbuf \<Rightarrow> nat \<Rightarrow> nlbuf option" where
  "getlink_request buf now = do {
     buf \<leftarrow> mnl_nlmsg_put_header buf 0;
     buf \<leftarrow> wr_block buf 4 (le_bytes 2 RTM_GETLINK);
     buf \<leftarrow> wr_block buf 6 (le_bytes 2 0x305);
     buf \<leftarrow> wr_block buf 8 (le_bytes 4 now);
     (buf, ifm) \<leftarrow> mnl_nlmsg_put_extra_header buf 0 16;
     wr_block buf ifm [0] }"

definition fetch_device_names ::
  "allocator \<Rightarrow> open_env \<Rightarrow> string_list \<Rightarrow> resource set \<Rightarrow> (int \<times> string_list \<times> resource set) option" where
  "fetch_device_names heap env l live =
     (case oe_buf env of
        None \<Rightarrow> Some (- ENOMEM, l, live)
      | Some buf \<Rightarrow>
          (case mnl_socket_open env (insert Buf live) of
             (Inl e, live) \<Rightarrow> Some (- e, l, live - {Buf})
           | (Inr _, live) \<Rightarrow>
               let cleanup = mnl_socket_close (live - {Buf}) in
               (case mnl_socket_bind (oe_bind env) of
                  Inl e \<Rightarrow> Some (- e, l, cleanup)
                | Inr portid \<Rightarrow> do {
                    buf \<leftarrow> getlink_request buf (oe_time env);
                    len \<leftarrow> nlmsg_len buf 0;
                    sent \<leftarrow> mnl_socket_sendto (oe_kernel env) buf len;
                    case sent of
                      Inl e \<Rightarrow> Some (- e, l, cleanup)
                    | Inr replies \<Rightarrow> do {
                        (ret, l) \<leftarrow> fetch_loop heap (oe_time env) portid buf (0, l) replies;
                        Some (ret, l, cleanup) } })))"

text \<open>\<open>Inl\<close> is the error number; an empty list is a string of its own, for which \<open>strdup\<close> may fail.\<close>

definition wg_list_device_names :: "allocator \<Rightarrow> open_env \<Rightarrow> (int + u8 list) option" where
  "wg_list_device_names heap env = do {
     (ret, l, _) \<leftarrow> fetch_device_names heap env empty_list {};
     if ret \<noteq> 0 then Some (Inl (- ret))
     else (case sl_buffer l of
             Some b \<Rightarrow> Some (Inr b)
           | None \<Rightarrow> Some (case heap 1 of None \<Rightarrow> Inl ENOMEM | Some _ \<Rightarrow> Inr [0])) }"

section \<open>Adding and deleting\<close>

definition iface_request :: "nlbuf \<Rightarrow> nat \<Rightarrow> u8 list \<Rightarrow> bool \<Rightarrow> nlbuf option" where
  "iface_request buf now ifname add = do {
     buf \<leftarrow> mnl_nlmsg_put_header buf 0;
     buf \<leftarrow> wr_block buf 4 (le_bytes 2 (if add then RTM_NEWLINK else RTM_DELLINK));
     buf \<leftarrow> wr_block buf 6 (le_bytes 2 (5 OR (if add then 0x400 OR 0x200 else 0)));
     buf \<leftarrow> wr_block buf 8 (le_bytes 4 now);
     (buf, ifm) \<leftarrow> mnl_nlmsg_put_extra_header buf 0 16;
     buf \<leftarrow> wr_block buf ifm [0];
     buf \<leftarrow> mnl_attr_put_strz buf 0 IFLA_IFNAME ifname;
     (buf, nest) \<leftarrow> mnl_attr_nest_start buf 0 IFLA_LINKINFO;
     buf \<leftarrow> mnl_attr_put_strz buf 0 IFLA_INFO_KIND WG_GENL_NAME;
     mnl_attr_nest_end buf 0 nest }"

text \<open>
  The sequence number that the reply is compared with is read through \<open>nlh\<close>, which points into
  the buffer that holds the reply by then.
\<close>

definition add_del_iface ::
  "('k \<Rightarrow> u8 list \<Rightarrow> 'k \<times> (int + recv)) \<Rightarrow> open_env \<Rightarrow> u8 list \<Rightarrow> bool \<Rightarrow> 'k \<Rightarrow> resource set \<Rightarrow>
     (int \<times> 'k \<times> resource set) option" where
  "add_del_iface nl_kernel env ifname add k live =
     (case oe_buf env of
        None \<Rightarrow> Some (- ENOMEM, k, live)
      | Some buf \<Rightarrow>
          (case mnl_socket_open env (insert Buf live) of
             (Inl e, live) \<Rightarrow> Some (- e, k, live - {Buf})
           | (Inr _, live) \<Rightarrow>
               let cleanup = mnl_socket_close (live - {Buf}) in
               (case mnl_socket_bind (oe_bind env) of
                  Inl e \<Rightarrow> Some (- e, k, cleanup)
                | Inr portid \<Rightarrow> do {
                    buf \<leftarrow> iface_request buf (oe_time env) ifname add;
                    len \<leftarrow> nlmsg_len buf 0;
                    sent \<leftarrow> mnl_socket_sendto (nl_kernel k) buf len;
                    case sent of
                      (k, Inl e) \<Rightarrow> Some (- e, k, cleanup)
                    | (k, Inr r) \<Rightarrow>
                        (case mnl_socket_recvfrom buf r of
                           (buf, Inl e) \<Rightarrow> Some (- e, k, cleanup)
                         | (buf, Inr len) \<Rightarrow> do {
                             seq \<leftarrow> nlmsg_seq buf 0;
                             (ret, errno, _) \<leftarrow> mnl_cb_run buf len seq portid None (0, ());
                             Some (if ret < 0 then - errno else 0, k, cleanup) }) })))"

definition wg_add_device where
  "wg_add_device nl_kernel env device_name k = add_del_iface nl_kernel env device_name True k {}"

definition wg_del_device where
  "wg_del_device nl_kernel env device_name k = add_del_iface nl_kernel env device_name False k {}"

end
