(* ===== verification/Wg_Links.thy ===== *)
theory Wg_Links
  imports Wg_Interfaces Wg_Set_Get
begin

text \<open>
  What listing, adding and deleting interfaces does: a dump of links gives the names of those of
  kind \<open>wireguard\<close>, in order; the requests of \<open>wg_add_device\<close> and \<open>wg_del_device\<close> are links
  of that kind; their answer is checked against no sequence number.
\<close>

section \<open>Links\<close>

text \<open>
  A link in a dump: the interface header and any attributes. Those that matter are the name and, nested in
  the link information, with or without the flag of a nested attribute, the kind; there may be others in any
  number and order, inside and outside of the nest.
\<close>

datatype info_attr = Kind "u8 list" | Other_Info nat "u8 list"

datatype link_attr = Name "u8 list" | Link_Info bool "info_attr list" | Other_Attr nat "u8 list"

datatype link = Link (ln_info: "u8 list") (ln_attrs: "link_attr list")

definition wg_kind :: "u8 list" where
  "wg_kind = [119, 105, 114, 101, 103, 117, 97, 114, 100]"

fun enc_info :: "info_attr \<Rightarrow> nat \<times> u8 list" where
  "enc_info (Kind k) = (IFLA_INFO_KIND, k @ [0])"
| "enc_info (Other_Info t d) = (t, d)"

fun enc_attr :: "link_attr \<Rightarrow> nat \<times> u8 list" where
  "enc_attr (Name n) = (IFLA_IFNAME, n @ [0])"
| "enc_attr (Link_Info nested infos) =
     ((if nested then NLA_F_NESTED OR IFLA_LINKINFO else IFLA_LINKINFO), attrs_bytes (map enc_info infos))"
| "enc_attr (Other_Attr t d) = (t, d)"

definition link_body :: "link \<Rightarrow> u8 list" where
  "link_body ln = ln_info ln @ attrs_bytes (map enc_attr (ln_attrs ln))"

fun info_ok :: "info_attr \<Rightarrow> bool" where
  "info_ok (Kind k) \<longleftrightarrow> 0 \<notin> set k"
| "info_ok (Other_Info t d) \<longleftrightarrow> t mod 2 ^ 14 \<noteq> IFLA_INFO_KIND"

fun link_attr_ok :: "link_attr \<Rightarrow> bool" where
  "link_attr_ok (Name n) \<longleftrightarrow> name_ok n"
| "link_attr_ok (Link_Info nested infos) \<longleftrightarrow> (\<forall>i\<in>set infos. info_ok i \<and> attr_fits (enc_info i))"
| "link_attr_ok (Other_Attr t d) \<longleftrightarrow> t mod 2 ^ 14 \<noteq> IFLA_IFNAME \<and> t mod 2 ^ 14 \<noteq> IFLA_LINKINFO"

definition link_ok :: "link \<Rightarrow> bool" where
  "link_ok ln \<longleftrightarrow> length (ln_info ln) = 16 \<and> (\<forall>a\<in>set (ln_attrs ln). link_attr_ok a \<and> attr_fits (enc_attr a))"

text \<open>The name of a link is the last one given; it is a WireGuard device when one of its kinds says so.\<close>

definition name_of :: "link_attr list \<Rightarrow> u8 list option" where
  "name_of as = fold (\<lambda>a n. case a of Name m \<Rightarrow> Some m | _ \<Rightarrow> n) as None"

definition kind_wg :: "link_attr \<Rightarrow> bool" where
  "kind_wg a = (case a of Link_Info nested infos \<Rightarrow> Kind wg_kind \<in> set infos | _ \<Rightarrow> False)"

definition wg_of :: "link_attr list \<Rightarrow> bool" where
  "wg_of as = list_ex kind_wg as"

definition wg_name :: "link \<Rightarrow> u8 list list" where
  "wg_name ln = (case name_of (ln_attrs ln) of Some n \<Rightarrow> if wg_of (ln_attrs ln) then [n] else [] | None \<Rightarrow> [])"

definition wg_names :: "link list \<Rightarrow> u8 list list" where
  "wg_names lns = concat (map wg_name lns)"

lemma wg_names_simps [simp]:
  "wg_names [] = []" "wg_names (ln # lns) = wg_name ln @ wg_names lns" "wg_names (lns @ lns') = wg_names lns @ wg_names lns'"
  by (simp_all add: wg_names_def)

lemma name_of_snoc: "name_of (as @ [a]) = (case a of Name n \<Rightarrow> Some n | _ \<Rightarrow> name_of as)"
  by (simp add: name_of_def split: link_attr.split)

lemma wg_of_snoc: "wg_of (as @ [a]) \<longleftrightarrow> wg_of as \<or> kind_wg a"
  by (simp add: wg_of_def)

lemma name_of_ok: "\<forall>a\<in>set as. link_attr_ok a \<Longrightarrow> name_of as = Some n \<Longrightarrow> name_ok n"
  by (induction "as" rule: rev_induct) (auto simp: name_of_snoc name_of_def split: link_attr.splits)

lemma genl_name: "WG_GENL_NAME = wg_kind @ [0]" "0 \<notin> set wg_kind"
  by (simp_all add: WG_GENL_NAME_def wg_kind_def)

lemma str_is_has: "0 \<notin> set w \<Longrightarrow> 0 \<notin> set k \<Longrightarrow> has mem off (k @ [0]) \<Longrightarrow> str_is (w @ [0]) mem off = Some (k = w)"
proof (induction w arbitrary: k off)
  case Nil
  then show ?case by (cases k) (auto dest: has_hd)
next
  case (Cons c w)
  show ?case
  proof (cases k)
    case Nil
    then show ?thesis using Cons.prems has_hd [of mem off 0 "[]"] by simp
  next
    case (Cons d k')
    have h: "has mem off (d # (k' @ [0]))" using Cons.prems(3) Cons by simp
    then show ?thesis using has_hd [OF h] Cons.IH [of k' "off + 1"] has_tl [OF h] Cons.prems Cons by auto
  qed
qed

lemma name_at: "has mem off (n @ [0]) \<Longrightarrow> \<exists>rest. drop off mem = n @ 0 # rest"
  using append_take_drop_id [of "Suc (length n)" "drop off mem"] by (auto simp: has_def intro: sym)

lemma link_types: "(NLA_F_NESTED OR IFLA_LINKINFO) mod 2 ^ 14 = IFLA_LINKINFO" "NLA_F_NESTED OR IFLA_LINKINFO < 2 ^ 16"
  by code_simp+

lemma parse_linkinfo_attr:
  assumes i: "info_ok i" "attr_fits (enc_info i)" and h: "has mem off (attr_bytes (fst (enc_info i)) (snd (enc_info i)))"
  shows "parse_linkinfo mem off ifc = Some (1, if i = Kind wg_kind then ifc\<lparr>if_wireguard := True\<rparr> else ifc)"
proof (cases i)
  case (Kind k)
  have h: "has mem off (attr_bytes IFLA_INFO_KIND (k @ [0]))" and f: "attr_fits (IFLA_INFO_KIND, k @ [0])" using h i(2) Kind by simp_all
  have "str_is WG_GENL_NAME mem (mnl_attr_get_str off) = Some (k = wg_kind)"
    using str_is_has [OF genl_name(2) _ attr_fields(5) [OF h f]] i(1) Kind by (simp add: genl_name(1) mnl_attr_get_str_def)
  then show ?thesis using attr_fields(2) [OF h f] Kind by (simp add: parse_linkinfo_def rtnl_consts)
next
  case (Other_Info t d)
  then have "mnl_attr_get_type mem off = Some (t mod 2 ^ 14)" using attr_fields(2) [OF h] i(2) by simp
  then show ?thesis using i(1) Other_Info by (simp add: parse_linkinfo_def)
qed

lemma parse_linkinfo_nest:
  assumes a: "link_attr_ok (Link_Info nested infos)" "attr_fits (enc_attr (Link_Info nested infos))"
    and h: "has mem off (attr_bytes (fst (enc_attr (Link_Info nested infos))) (snd (enc_attr (Link_Info nested infos))))"
  shows "mnl_attr_parse_nested mem off (parse_linkinfo mem) ifc = Some (1, if Kind wg_kind \<in> set infos then ifc\<lparr>if_wireguard := True\<rparr> else ifc)"
proof -
  let ?step = "\<lambda>i ifc. if i = Kind wg_kind then ifc\<lparr>if_wireguard := True\<rparr> else ifc"
  have f: "attr_fits ((if nested then NLA_F_NESTED OR IFLA_LINKINFO else IFLA_LINKINFO), attrs_bytes (map enc_info infos))"
    using a(2) by simp
  have "mnl_attr_parse_nested mem off (parse_linkinfo mem) ifc = Some (1, fold ?step infos ifc)"
  proof (rule parse_nested_visits [where enc = enc_info and I = "\<lambda>_ _. True", OF _ f])
    fix off x ys and ifc :: link_interface
    assume "x \<in> set infos" "has mem off (attr_bytes (fst (enc_info x)) (snd (enc_info x)))"
    then show "parse_linkinfo mem off ifc = Some (1, ?step x ifc) \<and> True"
      using parse_linkinfo_attr a(1) by simp
  qed (use h a(1) in simp_all)
  moreover have "fold ?step infos ifc = (if Kind wg_kind \<in> set infos then ifc\<lparr>if_wireguard := True\<rparr> else ifc)"
    by (induction infos arbitrary: ifc) auto
  ultimately show ?thesis by simp
qed

text \<open>The interface after some attributes: the name is in the buffer, the kinds were compared.\<close>

definition link_read :: "nlbuf \<Rightarrow> link \<Rightarrow> link_attr list \<Rightarrow> link_interface \<Rightarrow> bool" where
  "link_read mem ln ys ifc \<longleftrightarrow> (\<exists>zs. ln_attrs ln = zs @ ys \<and> (if_wireguard ifc \<longleftrightarrow> wg_of zs) \<and>
     (case name_of zs of
        None \<Rightarrow> if_name ifc = None
      | Some n \<Rightarrow> \<exists>off. if_name ifc = Some off \<and> has mem off (n @ [0])))"

lemma parse_infomsg_attr:
  assumes ln: "link_ok ln" and I: "link_read mem ln (x # ys) ifc"
    and h: "has mem off (attr_bytes (fst (enc_attr x)) (snd (enc_attr x)))"
  shows "\<exists>ifc'. parse_infomsg mem off ifc = Some (1, ifc') \<and> link_read mem ln ys ifc'"
proof -
  obtain zs where zs: "ln_attrs ln = zs @ x # ys" "if_wireguard ifc \<longleftrightarrow> wg_of zs"
    "case name_of zs of None \<Rightarrow> if_name ifc = None | Some n \<Rightarrow> \<exists>off. if_name ifc = Some off \<and> has mem off (n @ [0])"
    using I by (auto simp: link_read_def)
  then have ok: "link_attr_ok x" "attr_fits (enc_attr x)" using ln by (simp_all add: link_ok_def)
  have "attr_fits (fst (enc_attr x), snd (enc_attr x))" using ok(2) by simp
  note fields = attr_fields [OF h this]
  have sfx: "ln_attrs ln = (zs @ [x]) @ ys" using zs(1) by simp
  show ?thesis
  proof (cases x)
    case (Name n)
    have "parse_infomsg mem off ifc = Some (1, ifc\<lparr>if_name := Some (mnl_attr_get_payload off)\<rparr>)"
      using fields(2) Name by (simp add: parse_infomsg_def rtnl_consts mnl_attr_get_str_def)
    moreover have "link_read mem ln ys (ifc\<lparr>if_name := Some (mnl_attr_get_payload off)\<rparr>)"
      unfolding link_read_def using fields(5) zs(2) Name sfx by (intro exI [of _ "zs @ [x]"]) (simp add: name_of_snoc wg_of_snoc kind_wg_def)
    ultimately show ?thesis by blast
  next
    case (Link_Info nested infos)
    let ?ifc = "if Kind wg_kind \<in> set infos then ifc\<lparr>if_wireguard := True\<rparr> else ifc"
    have "mnl_attr_get_type mem off = Some IFLA_LINKINFO"
      using fields(2) link_types(1) Link_Info by (simp add: rtnl_consts split: if_splits)
    then have "parse_infomsg mem off ifc = Some (1, ?ifc)"
      using parse_linkinfo_nest [OF ok [unfolded Link_Info] h [unfolded Link_Info]] by (simp add: parse_infomsg_def)
    moreover have "link_read mem ln ys ?ifc"
      unfolding link_read_def using zs(2,3) sfx by (intro exI [of _ "zs @ [x]"]) (simp add: Link_Info name_of_snoc wg_of_snoc kind_wg_def split: option.splits)
    ultimately show ?thesis by blast
  next
    case (Other_Attr t d)
    have "parse_infomsg mem off ifc = Some (1, ifc)" using fields(2) ok(1) Other_Attr by (simp add: parse_infomsg_def)
    moreover have "link_read mem ln ys ifc"
      unfolding link_read_def using zs(2,3) sfx by (intro exI [of _ "zs @ [x]"]) (simp add: Other_Attr name_of_snoc wg_of_snoc kind_wg_def)
    ultimately show ?thesis by blast
  qed
qed

lemma total_allocator: "\<forall>k. heap k \<noteq> None \<Longrightarrow> \<exists>fill. heap = (\<lambda>n. Some (fill n))"
  by (intro exI [of _ "\<lambda>n. the (heap n)"]) auto

text \<open>The message of a link, wherever it lies in the buffer.\<close>

definition link_msg :: "nat \<Rightarrow> nat \<Rightarrow> link \<Rightarrow> u8 list" where
  "link_msg seq portid ln = nl_hdr (16 + length (link_body ln)) RTM_NEWLINK 2 seq portid @ link_body ln"

lemma link_body_dvd: "link_ok ln \<Longrightarrow> 4 dvd length (link_body ln)"
  using attrs_bytes_dvd by (auto simp: link_body_def link_ok_def intro: dvd_add)

lemma read_link:
  assumes h: "has mem nlh (link_msg seq portid ln)" and ln: "link_ok ln" and n: "length (link_msg seq portid ln) < 2 ^ 16"
    and ids: "seq < 2 ^ 32" "portid < 2 ^ 32"
    and l: "holds l names" and heap: "\<forall>k. heap k \<noteq> None" and bound: "length (joined (names @ wg_name ln)) < 2 ^ 62"
  shows "\<exists>l'. read_devices_cb heap mem nlh (e, l) = Some (2, e, l') \<and> holds l' (names @ wg_name ln)"
proof -
  let ?init = "\<lparr>if_name = None, if_wireguard = False\<rparr>" and ?as = "attrs_bytes (map enc_attr (ln_attrs ln))"
  have info: "length (ln_info ln) = 16" using ln by (simp add: link_ok_def)
  have hd: "has mem nlh (nl_hdr (16 + length (link_body ln)) RTM_NEWLINK 2 seq portid)" and attrs: "has mem (nlh + 32) ?as"
    using h info by (simp_all add: link_msg_def link_body_def has_append add.assoc)
  have len: "16 + length (link_body ln) < 2 ^ 16" using n by (simp add: link_msg_def)
  then have f: "nlmsg_len mem nlh = Some (16 + length (link_body ln))" "nlmsg_type mem nlh = Some RTM_NEWLINK"
    using header_at(1,2) [OF hd] ids by (simp_all add: rtnl_consts)
  have "4 dvd 16 + length (link_body ln)" using link_body_dvd [OF ln] by (intro dvd_add) simp_all
  then have tail: "mnl_nlmsg_get_payload_tail mem nlh = Some (nlh + 32 + length ?as)"
    using f(1) len info by (simp add: mnl_nlmsg_get_payload_tail_def align32 align_of_dvd link_body_def)
  have start: "mnl_nlmsg_get_payload_offset nlh 16 = nlh + 32" by (simp add: mnl_nlmsg_get_payload_offset_def hdr_lens MNL_ALIGN_def)
  have "\<exists>ifc. attr_loop mem (nlh + 32 + length ?as) (parse_infomsg mem) (nlh + 32) 1 ?init = Some (1, ifc) \<and> link_read mem ln [] ifc"
  proof (rule attr_loop_inv [where enc = enc_attr and I = "link_read mem ln", OF attrs])
    show "link_read mem ln (ln_attrs ln) ?init" by (simp add: link_read_def wg_of_def name_of_def)
  qed (use ln parse_infomsg_attr [OF ln] in \<open>auto simp: link_ok_def\<close>)
  then obtain ifc where p: "mnl_attr_parse mem nlh 16 (parse_infomsg mem) ?init = Some (1, ifc)" "if_wireguard ifc \<longleftrightarrow> wg_of (ln_attrs ln)"
      "case name_of (ln_attrs ln) of None \<Rightarrow> if_name ifc = None | Some n \<Rightarrow> \<exists>off. if_name ifc = Some off \<and> has mem off (n @ [0])"
    by (auto simp: mnl_attr_parse_def tail start link_read_def)
  show ?thesis
  proof (cases "name_of (ln_attrs ln)")
    case None
    then show ?thesis using p f(2) l by (auto simp: read_devices_cb_def wg_name_def rtnl_consts)
  next
    case (Some n)
    then obtain off where off: "if_name ifc = Some off" "has mem off (n @ [0])" using p(3) by auto
    obtain rest where rest: "drop off mem = n @ 0 # rest" using name_at [OF off(2)] by blast
    obtain fill where fill: "heap = (\<lambda>n. Some (fill n))" using heap total_allocator by blast
    have "name_ok n" using name_of_ok [OF _ Some] ln by (simp add: link_ok_def)
    then have "\<exists>l'. string_list_add heap l (n @ 0 # rest) = Some (Inr l') \<and> holds l' (names @ [n])" if "wg_of (ln_attrs ln)"
      using strings.add_law [OF l, of n fill rest] bound that unfolding fill by (auto simp: wg_name_def Some)
    then show ?thesis using p(1,2) off(1) rest f(2) l by (auto simp: read_devices_cb_def wg_name_def Some rtnl_consts)
  qed
qed

section \<open>Listing\<close>

text \<open>
  A dump: datagrams with one or more links each, and a last one with any number of links, perhaps none,
  and the message that ends the dump.
\<close>

definition link_datagram :: "nat \<Rightarrow> nat \<Rightarrow> link list \<Rightarrow> u8 list" where
  "link_datagram seq portid lns = concat (map (link_msg seq portid) lns)"

definition link_dump :: "nat \<Rightarrow> nat \<Rightarrow> link list list \<Rightarrow> link list \<Rightarrow> recv list" where
  "link_dump seq portid lnss lns = map (\<lambda>lns. Recv_Data (link_datagram seq portid lns) False 12) lnss @
     [Recv_Data (link_datagram seq portid lns @ nl_done seq portid) False 12]"

definition dump_ok :: "nat \<Rightarrow> nat \<Rightarrow> nat \<Rightarrow> link list list \<Rightarrow> link list \<Rightarrow> bool" where
  "dump_ok room seq portid lnss lns \<longleftrightarrow> (\<forall>ln\<in>set (concat lnss @ lns). link_ok ln) \<and> [] \<notin> set lnss \<and>
     (\<forall>lns\<in>set lnss. length (link_datagram seq portid lns) \<le> room) \<and> length (link_datagram seq portid lns) + 20 \<le> room"

text \<open>The callback sees the links of a datagram one by one.\<close>

lemma run_links:
  assumes ids: "seq < 2 ^ 32" "portid < 2 ^ 32" and heap: "\<forall>k. heap k \<noteq> None"
  shows "\<forall>ln\<in>set lns. link_ok ln \<Longrightarrow> has mem off (link_datagram seq portid lns) \<Longrightarrow> length (link_datagram seq portid lns) + extra < 2 ^ 16 \<Longrightarrow>
    holds l names \<Longrightarrow> length (joined (names @ wg_names lns)) < 2 ^ 62 \<Longrightarrow>
    \<exists>l'. cb_run mem seq portid (Some (read_devices_cb heap mem)) ctl k off (int (length (link_datagram seq portid lns) + extra)) ret (e, l) =
      cb_run mem seq portid (Some (read_devices_cb heap mem)) ctl k (off + length (link_datagram seq portid lns)) (int extra)
        (if lns = [] then ret else 2) (e, l') \<and> holds l' (names @ wg_names lns)"
proof (induction lns arbitrary: off l names ret)
  case Nil
  then show ?case by (auto simp: link_datagram_def)
next
  case (Cons ln lns)
  let ?m = "link_msg seq portid ln" and ?rest = "link_datagram seq portid lns"
  let ?run = "cb_run mem seq portid (Some (read_devices_cb heap mem)) ctl k"
  have split: "link_datagram seq portid (ln # lns) = ?m @ ?rest" by (simp add: link_datagram_def)
  have h: "has mem off ?m" "has mem (off + length ?m) ?rest" using Cons.prems(2) by (simp_all add: split has_append)
  have ln: "link_ok ln" using Cons.prems(1) by simp
  have len: "length ?m + length ?rest + extra < 2 ^ 16" using Cons.prems(3) by (simp add: split)
  have n: "16 \<le> length ?m" "4 dvd length ?m" using link_body_dvd [OF ln] by (auto simp: link_msg_def intro: dvd_add)
  have hd: "has mem off (nl_hdr (length ?m) RTM_NEWLINK 2 seq portid)" using h(1) by (simp add: link_msg_def has_append)
  have bound: "length (joined (names @ wg_name ln)) < 2 ^ 62" using Cons.prems(5) by simp
  obtain l1 where cb: "read_devices_cb heap mem off (e, l) = Some (2, e, l1)" and l1: "holds l1 (names @ wg_name ln)"
    using read_link [OF h(1) ln _ ids Cons.prems(4) heap bound, of e] len by auto
  have "?run off (int (length ?m + length ?rest + extra)) ret (e, l) =
      ?run (off + length ?m) (int (length ?m + length ?rest + extra - length ?m)) 2 (e, l1)"
    by (rule cb_run_next [where cb = "read_devices_cb heap mem" and st = "(e, l)", OF hd n(1) _ len n(2) _ _ _ flag_bits(3) ids cb])
      (simp_all add: rtnl_consts)
  moreover obtain l' where "?run (off + length ?m) (int (length ?rest + extra)) 2 (e, l1) =
      ?run (off + length ?m + length ?rest) (int extra) (if lns = [] then 2 else 2) (e, l')" "holds l' ((names @ wg_name ln) @ wg_names lns)"
    using Cons.IH [OF _ h(2) _ l1, of 2] Cons.prems(1,5) len by auto
  ultimately show ?case unfolding split by (auto simp: add.assoc)
qed

declare fetch_loop.simps [simp del]

lemma fetch_datagram:
  assumes lns: "\<forall>ln\<in>set lns. link_ok ln" "lns \<noteq> []" and ids: "seq < 2 ^ 32" "portid < 2 ^ 32"
    and buf: "length (link_datagram seq portid lns) \<le> length buf" "length buf < 2 ^ 16"
    and l: "holds l names" and heap: "\<forall>k. heap k \<noteq> None" and bound: "length (joined (names @ wg_names lns)) < 2 ^ 62"
  shows "\<exists>buf' l'. fetch_loop heap seq portid buf (e, l) (Recv_Data (link_datagram seq portid lns) False 12 # rs) =
      fetch_loop heap seq portid buf' (e, l') rs \<and> length buf' = length buf \<and> holds l' (names @ wg_names lns)"
proof -
  let ?m = "link_datagram seq portid lns"
  let ?mem = "?m @ drop (length ?m) buf"
  note recv = recvfrom_fits [OF buf(1)]
  have len: "length ?m + 0 < 2 ^ 16" using buf by simp
  obtain l' where "mnl_cb_run ?mem (length ?m) seq portid (Some (read_devices_cb heap ?mem)) (e, l) = Some (2, e, l')"
    "holds l' (names @ wg_names lns)"
    using run_links [OF ids heap lns(1) recv(3) len l bound, of "\<lambda>_. None" 0 1 e] lns(2) by (auto simp: mnl_cb_run_def cb_run_end)
  then show ?thesis
    using recv(1,2) by (intro exI [of _ ?mem] exI [of _ l']) (simp add: fetch_loop.simps)
qed

lemma fetch_last:
  assumes lns: "\<forall>ln\<in>set lns. link_ok ln" and ids: "seq < 2 ^ 32" "portid < 2 ^ 32"
    and buf: "length (link_datagram seq portid lns) + 20 \<le> length buf" "length buf < 2 ^ 16"
    and l: "holds l names" and heap: "\<forall>k. heap k \<noteq> None" and bound: "length (joined (names @ wg_names lns)) < 2 ^ 62"
  shows "\<exists>l'. fetch_loop heap seq portid buf (e, l) [Recv_Data (link_datagram seq portid lns @ nl_done seq portid) False 12] = Some (0, l') \<and>
    holds l' (names @ wg_names lns)"
proof -
  let ?d = "link_datagram seq portid lns"
  let ?m = "?d @ nl_done seq portid"
  let ?mem = "?m @ drop (length ?m) buf"
  have len: "length ?m = length ?d + 20" by (simp add: nl_done_def)
  have fits: "length ?m \<le> length buf" using buf(1) len by simp
  note recv = recvfrom_fits [OF fits]
  have h: "has ?mem 0 ?d" "has ?mem (0 + length ?d) (nl_hdr 20 3 2 seq portid)"
    using recv(3) by (simp_all add: nl_done_def has_append)
  have small: "length ?d + 20 < 2 ^ 16" using buf by simp
  obtain l' where run: "mnl_cb_run ?mem (length ?d + 20) seq portid (Some (read_devices_cb heap ?mem)) (e, l) =
      cb_run ?mem seq portid (Some (read_devices_cb heap ?mem)) (\<lambda>_. None) 0 (0 + length ?d) (int 20) (if lns = [] then 1 else 2) (e, l')"
    and l': "holds l' (names @ wg_names lns)"
    using run_links [OF ids heap lns h(1) small l bound, of "\<lambda>_. None" 0 1 e] unfolding mnl_cb_run_def by blast
  have "cb_run ?mem seq portid (Some (read_devices_cb heap ?mem)) (\<lambda>_. None) 0 (0 + length ?d) (int 20) ret (e, l') = Some (0, e, l')" for ret
    by (rule cb_run_stops [where st = "(e, l')" and cb = mnl_cb_stop, OF h(2) _ _ _ _ _ flag_bits(3) ids])
      (simp_all add: select_cb_def default_cb_array_def mnl_cb_stop_def)
  then show ?thesis using recv(1) run l' unfolding len by (auto simp: fetch_loop.simps)
qed

lemma fetch_links:
  assumes ids: "seq < 2 ^ 32" "portid < 2 ^ 32" and heap: "\<forall>k. heap k \<noteq> None"
  shows "dump_ok (length buf) seq portid lnss lns \<Longrightarrow> length buf < 2 ^ 16 \<Longrightarrow> holds l names \<Longrightarrow>
    length (joined (names @ wg_names (concat lnss @ lns))) < 2 ^ 62 \<Longrightarrow>
    \<exists>l'. fetch_loop heap seq portid buf (e, l) (link_dump seq portid lnss lns) = Some (0, l') \<and> holds l' (names @ wg_names (concat lnss @ lns))"
proof (induction lnss arbitrary: buf l names)
  case Nil
  then show ?case using fetch_last [OF _ ids, of lns buf l names heap e] heap by (simp add: link_dump_def dump_ok_def)
next
  case (Cons lns1 lnss)
  have lns1: "\<forall>ln\<in>set lns1. link_ok ln" "lns1 \<noteq> []" "length (link_datagram seq portid lns1) \<le> length buf"
    "length (joined (names @ wg_names lns1)) < 2 ^ 62" and rest: "dump_ok (length buf) seq portid lnss lns"
    using Cons.prems(1,4) by (auto simp: dump_ok_def)
  obtain buf' l' where s: "fetch_loop heap seq portid buf (e, l) (Recv_Data (link_datagram seq portid lns1) False 12 # link_dump seq portid lnss lns) =
      fetch_loop heap seq portid buf' (e, l') (link_dump seq portid lnss lns)" "length buf' = length buf" "holds l' (names @ wg_names lns1)"
    using fetch_datagram [OF lns1(1,2) ids lns1(3) Cons.prems(2,3) heap lns1(4)] by blast
  have "link_dump seq portid (lns1 # lnss) lns = Recv_Data (link_datagram seq portid lns1) False 12 # link_dump seq portid lnss lns"
    by (simp add: link_dump_def)
  then show ?case using Cons.IH [OF _ _ s(3), of buf'] rest Cons.prems(2,4) s(1,2) by simp
qed

section \<open>Sockets and requests\<close>

text \<open>A route netlink socket that was opened and bound, with its buffer and port.\<close>

definition bound_socket :: "open_env \<Rightarrow> nlbuf \<Rightarrow> nat \<Rightarrow> bool" where
  "bound_socket env buf portid \<longleftrightarrow> oe_buf env = Some buf \<and> oe_nl env \<and> oe_socket env = None \<and> mnl_socket_bind (oe_bind env) = Inr portid \<and>
     96 \<le> length buf \<and> length buf < 2 ^ 16 \<and> portid < 2 ^ 32 \<and> oe_time env < 2 ^ 32"

lemma bound_socket_open:
  "bound_socket env buf portid \<Longrightarrow> mnl_socket_open env live = (Inr (), insert Fd (insert Nl live))"
  by (simp add: bound_socket_def mnl_socket_open_def Let_def)

text \<open>The header of a request to route netlink.\<close>

lemma zeros16: "replicate 16 (0 :: u8) = [0] @ replicate 15 0"
  by (simp add: numeral_eq_Suc)

lemma le_zero: "le_bytes 4 0 = [0, 0, 0, 0]"
  by code_simp

lemma rtnl_header_built:
  assumes "32 \<le> length buf" "length buf < 2 ^ 16"
  obtains m1 m2 m3 m4 m5 where "mnl_nlmsg_put_header buf 0 = Some m1" "wr_block m1 4 (le_bytes 2 t) = Some m2"
    "wr_block m2 6 (le_bytes 2 flags) = Some m3" "wr_block m3 8 (le_bytes 4 now) = Some m4"
    "mnl_nlmsg_put_extra_header m4 0 16 = Some (m5, 16)" "wr_block m5 16 [0] = Some m5"
    "built m5 (le_bytes 2 t @ le_bytes 2 flags @ le_bytes 4 now @ [0, 0, 0, 0]) (replicate 16 0)" "length m5 = length buf"
proof (rule header_built [of 16 buf t flags now])
  fix m1 m2 m3 m4 m5
  assume w: "mnl_nlmsg_put_header buf 0 = Some m1" "wr_block m1 4 (le_bytes 2 t) = Some m2"
    "wr_block m2 6 (le_bytes 2 flags) = Some m3" "wr_block m3 8 (le_bytes 4 now) = Some m4"
    "mnl_nlmsg_put_extra_header m4 0 16 = Some (m5, 16)"
    and b: "built m5 (le_bytes 2 t @ le_bytes 2 flags @ le_bytes 4 now @ [0, 0, 0, 0]) (replicate 16 0)" and len: "length m5 = length buf"
  obtain c where c: "m5 = (le_bytes 4 32 @ le_bytes 2 t @ le_bytes 2 flags @ le_bytes 4 now @ [0, 0, 0, 0]) @ [0] @ replicate 15 0 @ c"
    using b unfolding zeros16 by (auto simp: built_def)
  have "wr_block m5 16 [0] = Some m5" unfolding c by (rule wr_block_at) simp_all
  then show thesis by (rule that [OF w _ b len])
qed (use assms in simp_all)

text \<open>The request for a dump of all links.\<close>

definition getlink_msg :: "nat \<Rightarrow> u8 list" where
  "getlink_msg now = nl_hdr 32 RTM_GETLINK 0x305 now 0 @ replicate 16 0"

lemma getlink_request_ok:
  assumes "32 \<le> length buf" "length buf < 2 ^ 16"
  shows "\<exists>mem. getlink_request buf now = Some mem \<and> length mem = length buf \<and> nlmsg_len mem 0 = Some 32 \<and>
    (\<forall>f :: u8 list \<Rightarrow> int + recv list. mnl_socket_sendto f mem 32 = Some (f (getlink_msg now)))"
proof (rule rtnl_header_built [OF assms, of RTM_GETLINK "0x305" now])
  fix m1 m2 m3 m4 m5
  assume w: "mnl_nlmsg_put_header buf 0 = Some m1" "wr_block m1 4 (le_bytes 2 RTM_GETLINK) = Some m2"
    "wr_block m2 6 (le_bytes 2 0x305) = Some m3" "wr_block m3 8 (le_bytes 4 now) = Some m4"
    "mnl_nlmsg_put_extra_header m4 0 16 = Some (m5, 16)" "wr_block m5 16 [0] = Some m5"
    and b: "built m5 (le_bytes 2 RTM_GETLINK @ le_bytes 2 0x305 @ le_bytes 4 now @ [0, 0, 0, 0]) (replicate 16 0)"
    and len: "length m5 = length buf"
  have "getlink_request buf now = Some m5" unfolding getlink_request_def by (simp only: w bind.bind_lunit prod.case)
  moreover have "mnl_socket_sendto f m5 32 = Some (f (getlink_msg now))" for f :: "u8 list \<Rightarrow> int + recv list"
    using built_sent(1) [OF b, of f] by (simp add: getlink_msg_def nl_hdr_def le_zero)
  ultimately show ?thesis using len built_simps(5) [OF b] by simp
qed

text \<open>The request to create or delete an interface is a link of the WireGuard kind.\<close>

definition iface_link :: "u8 list \<Rightarrow> link" where
  "iface_link name = Link (replicate 16 0) [Name name, Link_Info True [Kind wg_kind]]"

definition iface_msg :: "nat \<Rightarrow> u8 list \<Rightarrow> bool \<Rightarrow> u8 list" where
  "iface_msg now name add =
     nl_hdr (16 + length (link_body (iface_link name))) (if add then RTM_NEWLINK else RTM_DELLINK) (if add then 0x605 else 5) now 0 @
     link_body (iface_link name)"

lemma iface_request_built:
  assumes name: "0 \<notin> set name" "length name \<le> 15" and buf: "96 \<le> length buf" "length buf < 2 ^ 16"
  shows "\<exists>mem. iface_request buf now (name @ 0 # rest) add = Some mem \<and> length mem = length buf \<and>
    nlmsg_len mem 0 = Some (length (iface_msg now name add)) \<and>
    (\<forall>f :: u8 list \<Rightarrow> 'k \<times> (int + recv). mnl_socket_sendto f mem (length (iface_msg now name add)) = Some (f (iface_msg now name add)))"
proof -
  let ?t = "if add then RTM_NEWLINK else RTM_DELLINK" and ?f = "5 OR (if add then 0x400 OR 0x200 else 0) :: nat"
  let ?hdr = "le_bytes 2 ?t @ le_bytes 2 ?f @ le_bytes 4 now @ [0, 0, 0, 0]" and ?z = "replicate 16 0 :: u8 list"
  let ?name = "attr_bytes IFLA_IFNAME (name @ [0])" and ?kind = "attr_bytes IFLA_INFO_KIND (wg_kind @ [0])"
  obtain m1 m2 m3 m4 m5 where w: "mnl_nlmsg_put_header buf 0 = Some m1" "wr_block m1 4 (le_bytes 2 ?t) = Some m2"
    "wr_block m2 6 (le_bytes 2 ?f) = Some m3" "wr_block m3 8 (le_bytes 4 now) = Some m4"
    "mnl_nlmsg_put_extra_header m4 0 16 = Some (m5, 16)" "wr_block m5 16 [0] = Some m5" and b5: "built m5 ?hdr ?z" "length m5 = length buf"
    by (rule rtnl_header_built [of buf ?t ?f now]) (use buf in simp_all)
  have al: "MNL_ALIGN (length (name @ [0])) \<le> 16" "MNL_ALIGN (length (wg_kind @ [0])) = 12"
    using name(2) align_mono [of "Suc (length name)" 16] by (simp_all add: wg_kind_def MNL_ALIGN_def)
  obtain m6 where b6: "mnl_attr_put m5 0 IFLA_IFNAME (name @ [0]) = Some m6" "built m6 ?hdr (?z @ ?name)" "length m6 = length buf"
    using put_built [OF b5(1), of "name @ [0]" IFLA_IFNAME] al(1) buf(1) b5(2) by auto
  obtain m7 j where b7: "mnl_attr_nest_start m6 0 IFLA_LINKINFO = Some (m7, 16 + length (?z @ ?name))" "length j = 2"
    "built m7 ?hdr ((?z @ ?name) @ j @ le_bytes 2 (NLA_F_NESTED OR IFLA_LINKINFO))" "length m7 = length buf"
    using nest_start_built [OF b6(2), of IFLA_LINKINFO] al(1) buf(1) b6(3) by auto
  obtain m8 where b8: "mnl_attr_put m7 0 IFLA_INFO_KIND (wg_kind @ [0]) = Some m8"
    "built m8 ?hdr (((?z @ ?name) @ j @ le_bytes 2 (NLA_F_NESTED OR IFLA_LINKINFO)) @ ?kind)" "length m8 = length buf"
    using put_built [OF b7(3), of "wg_kind @ [0]" IFLA_INFO_KIND] al buf(1) b7(2,4) by auto
  obtain m9 where b9: "mnl_attr_nest_end m8 0 (16 + length (?z @ ?name)) = Some m9"
    "built m9 ?hdr ((?z @ ?name) @ attr_bytes (NLA_F_NESTED OR IFLA_LINKINFO) ?kind)" "length m9 = length buf"
    using nest_end_built [of m8 ?hdr "?z @ ?name" j "NLA_F_NESTED OR IFLA_LINKINFO" ?kind] b8(2,3) b7(2) built_simps(2) [OF b6(2)] by auto
  have s: "strz (name @ 0 # rest) = Some (name @ [0])" "strz WG_GENL_NAME = Some (wg_kind @ [0])"
    using strz_name [OF name(1)] strz_name [OF genl_name(2), of "[]"] by (simp_all add: genl_name(1))
  have req: "iface_request buf now (name @ 0 # rest) add = Some m9"
    unfolding iface_request_def mnl_attr_put_strz_def s by (simp only: w b6(1) b7(1) b8(1) b9(1) bind.bind_lunit prod.case)
  have body: "link_body (iface_link name) = (?z @ ?name) @ attr_bytes (NLA_F_NESTED OR IFLA_LINKINFO) ?kind"
    by (simp add: link_body_def iface_link_def)
  have "5 OR (0x400 OR 0x200) = (0x605 :: nat)" "5 OR 0 = (5 :: nat)" by code_simp+
  then have f: "?f = (if add then 0x605 else 5)" by (simp only: if_distrib [of "\<lambda>x. 5 OR x"])
  have msg: "iface_msg now name add = le_bytes 4 (16 + length (link_body (iface_link name))) @ ?hdr @ link_body (iface_link name)"
    unfolding iface_msg_def nl_hdr_def f le_zero by simp
  have n: "length (iface_msg now name add) = 16 + length (link_body (iface_link name))" by (simp add: iface_msg_def)
  have b: "built m9 ?hdr (link_body (iface_link name))" unfolding body by (rule b9(2))
  have "nlmsg_len m9 0 = Some (length (iface_msg now name add))" unfolding n by (rule built_simps(5) [OF b])
  moreover have "mnl_socket_sendto f m9 (length (iface_msg now name add)) = Some (f (iface_msg now name add))"
    for f :: "u8 list \<Rightarrow> 'k \<times> (int + recv)"
    using built_sent(1) [OF b, folded msg] unfolding n .
  ultimately show ?thesis by (intro exI [of _ m9] conjI allI req b9(3))
qed

section \<open>Listing all devices\<close>

lemma list_device_names_walk:
  assumes "bound_socket env buf portid" "oe_kernel env (getlink_msg (oe_time env)) = Inr (link_dump (oe_time env) portid lnss lns)"
    and "dump_ok (length buf) (oe_time env) portid lnss lns" "\<forall>n. heap n \<noteq> None" "length (joined (wg_names (concat lnss @ lns))) < 2 ^ 62"
  shows "\<exists>names. wg_list_device_names heap env = Some (Inr names) \<and>
    for_each_device_name names 0 = Some (wg_names (concat lnss @ lns))"
proof -
  have s: "oe_buf env = Some buf" "mnl_socket_bind (oe_bind env) = Inr portid" "96 \<le> length buf" "length buf < 2 ^ 16" "portid < 2 ^ 32"
    "oe_time env < 2 ^ 32" using assms(1) by (simp_all add: bound_socket_def)
  obtain mem where m: "getlink_request buf (oe_time env) = Some mem" "length mem = length buf" "nlmsg_len mem 0 = Some 32"
    "mnl_socket_sendto (oe_kernel env) mem 32 = Some (oe_kernel env (getlink_msg (oe_time env)))"
    using getlink_request_ok [of buf "oe_time env"] s(3,4) by auto
  obtain l where l: "fetch_loop heap (oe_time env) portid mem (0, empty_list) (link_dump (oe_time env) portid lnss lns) = Some (0, l)"
    "holds l (wg_names (concat lnss @ lns))"
    using fetch_links [OF s(6,5) assms(4), of mem lnss lns empty_list "[]" 0] assms(3) m(2) s(4) assms(5) strings.keeps_start by auto
  have f: "\<exists>live. fetch_device_names heap env empty_list {} = Some (0, l, live)"
    using s(1,2) m(1,3,4) l(1) assms(2) bound_socket_open [OF assms(1)] by (simp add: fetch_device_names_def Let_def)
  obtain fill where fill: "heap 1 = Some fill" using assms(4) by (metis not_None_eq)
  show ?thesis
  proof (cases "sl_buffer l")
    case None
    then have "wg_names (concat lnss @ lns) = []" using l(2) by (simp add: holds_def)
    then show ?thesis using f None fill walk_joined [of "[]" "[]" "[]"] by (auto simp: wg_list_device_names_def)
  next
    case (Some b)
    then show ?thesis using f strings.walk_law [OF l(2)] by (auto simp: wg_list_device_names_def listed_def)
  qed
qed

section \<open>Properties\<close>

text \<open>Claim C13: for every dump of links with which the kernel answers the request for them, in datagrams that
  fit into the buffer and hold any number of links, each with any attributes before, between and behind its
  name and its kind, \<open>wg_list_device_names\<close> returns a string of strings over which
  \<open>wg_for_each_device_name\<close> walks exactly the names of the links of kind \<open>wireguard\<close>, in
  the order of the dump and without leaving the buffer, however often the list had to grow.\<close>

theorem wg_list_device_names_complete:
  assumes "bound_socket env buf portid" "oe_kernel env (getlink_msg (oe_time env)) = Inr (link_dump (oe_time env) portid lnss lns)"
    and "dump_ok (length buf) (oe_time env) portid lnss lns" "\<forall>n. heap n \<noteq> None" "length (joined (wg_names (concat lnss @ lns))) < 2 ^ 62"
  shows "\<exists>names. wg_list_device_names heap env = Some (Inr names) \<and>
    for_each_device_name names 0 = Some (wg_names (concat lnss @ lns))"
  by (rule list_device_names_walk [OF assms])

definition rtnl_open :: "recv list \<Rightarrow> open_env" where
  "rtnl_open replies = sample_open\<lparr>oe_buf := Some (replicate 96 0), oe_kernel := answers (getlink_msg 1) replies\<rparr>"

lemma rtnl_bound: "bound_socket (rtnl_open replies) (replicate 96 0) 7"
  by (simp add: bound_socket_def rtnl_open_def sample_open_def mnl_socket_bind_def AF_NETLINK_def)

text \<open>
  Three links as the kernel reports them, with further attributes around the name and the kind, the first two
  in a datagram of their own.
\<close>

definition sample_link :: "u8 \<Rightarrow> u8 list \<Rightarrow> u8 list \<Rightarrow> link" where
  "sample_link b name k = Link (replicate 16 b) [Other_Attr 4 [b, b], Name name, Link_Info False [Other_Info 2 [b], Kind k], Other_Attr 13 []]"

definition sample_links :: "link list" where
  "sample_links = [sample_link 1 [119, 103, 48] wg_kind, sample_link 2 [118] [118]]"

definition rtnl_wide :: "recv list \<Rightarrow> open_env" where
  "rtnl_wide replies = sample_open\<lparr>oe_buf := Some (replicate 500 0), oe_kernel := answers (getlink_msg 1) replies\<rparr>"

lemma wg_list_device_names_complete_witness:
  "\<exists>names. wg_list_device_names (\<lambda>n. Some (\<lambda>i. 255))
      (rtnl_wide (link_dump 1 7 [sample_links, [Link (replicate 16 0) [Name [108, 111]]]] [sample_link 3 [119, 103, 49] wg_kind])) =
    Some (Inr names) \<and> for_each_device_name names 0 = Some [[119, 103, 48], [119, 103, 49]]"
proof -
  let ?lnss = "[sample_links, [Link (replicate 16 0) [Name [108, 111]]]]" and ?lns = "[sample_link 3 [119, 103, 49] wg_kind]"
  have bound: "bound_socket (rtnl_wide replies) (replicate 500 0) 7" for replies
    by (simp add: bound_socket_def rtnl_wide_def sample_open_def mnl_socket_bind_def AF_NETLINK_def)
  have ok: "dump_ok 500 1 7 ?lnss ?lns" by code_simp
  have names: "wg_names (concat ?lnss @ ?lns) = [[119, 103, 48], [119, 103, 49]]" by code_simp
  show ?thesis
    using wg_list_device_names_complete [OF bound, of "link_dump 1 7 ?lnss ?lns" ?lnss ?lns "\<lambda>n. Some (\<lambda>i. 255)"] ok unfolding names
    by (simp add: rtnl_wide_def sample_open_def answers_def)
qed

text \<open>An answer of the kernel: a message of type \<open>NLMSG_ERROR\<close> with an error number, 0 for success.\<close>

definition nl_answer :: "nat \<Rightarrow> nat \<Rightarrow> int \<Rightarrow> u8 list \<Rightarrow> u8 list" where
  "nl_answer seq portid e m = nl_hdr 36 2 0 seq portid @ le_bytes 4 (nat (- e mod 2 ^ 32)) @ take 16 m"

lemma as_int_error: "0 \<le> e \<Longrightarrow> e < 2 ^ 31 \<Longrightarrow> as_int (nat (- e mod 2 ^ 32)) = - e"
proof -
  assume e: "0 \<le> e" "e < 2 ^ 31"
  show ?thesis
  proof (cases "e = 0")
    case False
    then have "- e mod 2 ^ 32 = 2 ^ 32 - e" using e by (simp add: zmod_zminus1_eq_if)
    then show ?thesis using e False by (simp add: as_int_def)
  qed (simp add: as_int_def)
qed

lemma answer_received:
  assumes ids: "seq < 2 ^ 32" "portid < 2 ^ 32" and e: "0 \<le> e" "e < 2 ^ 31" and m: "16 \<le> length m" and buf: "36 \<le> length buf"
  shows "\<exists>mem ret. mnl_socket_recvfrom buf (Recv_Data (nl_answer seq portid e m) False 12) = (mem, Inr 36) \<and> nlmsg_seq mem 0 = Some seq \<and>
    mnl_cb_run mem 36 seq portid None (0, ()) = Some (ret, e, ()) \<and> (ret < 0 \<longleftrightarrow> e \<noteq> 0)"
proof -
  let ?m = "nl_answer seq portid e m"
  let ?mem = "?m @ drop (length ?m) buf"
  have len: "length ?m = 36" using m by (simp add: nl_answer_def)
  have fits: "length ?m \<le> length buf" using buf len by simp
  note recv = recvfrom_fits [OF fits]
  have h: "has ?mem 0 (nl_hdr 36 2 0 seq portid)" "has ?mem 16 (le_bytes 4 (nat (- e mod 2 ^ 32)))"
    using recv(3) by (simp_all add: nl_answer_def has_append)
  note f = header_fields [OF h(1) _ _ _ ids]
  have lt: "nat (- e mod 2 ^ 32) < 256 ^ 4" by (simp add: nat_less_iff)
  have payload: "mnl_nlmsg_get_payload 0 = 16" and size: "mnl_nlmsg_size 20 = 36" by code_simp+
  have "rd_le ?mem 16 4 = Some (nat (- e mod 2 ^ 32))" by (rule rd_le_has [OF h(2) lt])
  then have cb: "mnl_cb_error ?mem 0 (0, ()) = Some (if e = 0 then 0 else - 1, e, ())"
    using as_int_error [OF e] e f(1) unfolding mnl_cb_error_def payload size by (auto simp: netlink_error_def)
  have bit: "\<not> bit (0 :: nat) 4" by simp
  have "cb_run ?mem seq portid None (\<lambda>_. None) 0 0 (int 36) 1 (0, ()) = Some (if e = 0 then 0 else - 1, e, ())"
    by (rule cb_run_control [where st = "(0, ())" and cb = "mnl_cb_error ?mem", OF h(1) _ _ _ _ bit ids])
      (simp_all add: select_cb_def default_cb_array_def cb)
  then show ?thesis
    using recv(1) len f(4) by (intro exI [of _ ?mem] exI [of _ "if e = 0 then 0 else - 1"]) (simp add: mnl_cb_run_def)
qed

text \<open>The exchange of one request and its answer, for any kernel.\<close>

lemma iface_request_answered:
  fixes nl_kernel :: "'k \<Rightarrow> u8 list \<Rightarrow> 'k \<times> (int + recv)"
  assumes "bound_socket env buf portid" "name_ok name" "length name \<le> 15" "seq < 2 ^ 32" "0 \<le> e" "e < 2 ^ 31"
    and answer: "nl_kernel k (iface_msg (oe_time env) name add) =
      (k', Inr (Recv_Data (nl_answer seq portid e (iface_msg (oe_time env) name add)) False 12))"
  shows "add_del_iface nl_kernel env (name @ 0 # rest) add k {} = Some (- e, k', {})"
proof -
  let ?m = "iface_msg (oe_time env) name add"
  have s: "oe_buf env = Some buf" "mnl_socket_bind (oe_bind env) = Inr portid" "96 \<le> length buf" "length buf < 2 ^ 16" "portid < 2 ^ 32"
    using assms(1) by (simp_all add: bound_socket_def)
  obtain mem where m: "iface_request buf (oe_time env) (name @ 0 # rest) add = Some mem" "length mem = length buf"
    "nlmsg_len mem 0 = Some (length ?m)"
    "\<And>f :: u8 list \<Rightarrow> 'k \<times> (int + recv). mnl_socket_sendto f mem (length ?m) = Some (f ?m)"
    using iface_request_built [of name buf "oe_time env" rest add] assms(2,3) s(3,4) by (auto simp: name_ok_def)
  have "16 \<le> length ?m" by (simp add: iface_msg_def)
  then obtain mem' ret where r: "mnl_socket_recvfrom mem (Recv_Data (nl_answer seq portid e ?m) False 12) = (mem', Inr 36)"
    "nlmsg_seq mem' 0 = Some seq" "mnl_cb_run mem' 36 seq portid None (0, ()) = Some (ret, e, ())" "ret < 0 \<longleftrightarrow> e \<noteq> 0"
    using answer_received [OF assms(4) s(5) assms(5,6), of ?m mem] m(2) s(3) by auto
  have live: "mnl_socket_close (insert Fd (insert Nl {Buf}) - {Buf}) = {}" by (auto simp: mnl_socket_close_def)
  show ?thesis
    using s(1,2) m r live bound_socket_open [OF assms(1)] answer by (simp add: add_del_iface_def Let_def)
qed

lemma iface_request_sent:
  assumes "bound_socket env buf portid" "name_ok name" "length name \<le> 15" "seq < 2 ^ 32" "0 \<le> e" "e < 2 ^ 31"
  shows "add_del_iface (\<lambda>ms m. (ms @ [m], Inr (Recv_Data (nl_answer seq portid e m) False 12))) env (name @ 0 # rest) add ms {} =
    Some (- e, ms @ [iface_msg (oe_time env) name add], {})"
  by (rule iface_request_answered [OF assms]) simp

text \<open>Claim C26: \<open>wg_add_device\<close> and \<open>wg_del_device\<close> send one request, a link with the name of the
  device and the WireGuard kind, return 0 when the kernel reports success and the negative error
  number otherwise, and release the buffer and the socket. The sequence number of the answer plays
  no role: it is compared with itself, because \<open>nlh\<close> points into the buffer that was overwritten.\<close>

theorem add_del_iface_request:
  assumes "bound_socket env buf portid" "name_ok name" "length name \<le> 15" "seq < 2 ^ 32" "0 \<le> e" "e < 2 ^ 31"
  shows "add_del_iface (\<lambda>ms m. (ms @ [m], Inr (Recv_Data (nl_answer seq portid e m) False 12))) env (name @ 0 # rest) add ms {} =
    Some (- e, ms @ [iface_msg (oe_time env) name add], {})"
  by (rule iface_request_sent [OF assms])

lemma add_del_iface_request_witness:
  "add_del_iface (\<lambda>ms m. (ms @ [m], Inr (Recv_Data (nl_answer 99 7 17 m) False 12))) (rtnl_open []) [119, 103, 48, 0] True [] {} =
    Some (- 17, [iface_msg 1 [119, 103, 48] True], {})"
  using add_del_iface_request [OF rtnl_bound, of "[119, 103, 48]" 99 17 "[]" "[]" True "[]"]
  by (simp add: name_ok_def rtnl_open_def sample_open_def)

end
