(* ===== verification/Field25519.thy ===== *)
theory Field25519
  imports Prelude
begin

text \<open>
  Arithmetic modulo \<open>2 ^ 255 - 19\<close> on sixteen limbs (\<open>wireguard.c\<close>, \<open>carry\<close> to
  \<open>invert\<close>). A limb is an \<open>int64_t\<close>. Signed overflow is undefined in C: every addition,
  subtraction and multiplication of limbs goes through \<open>chk64\<close>, whose value is \<open>None\<close>
  outside the range of the type. The shifts are arithmetic, the masks work on the two's complement.
\<close>

type_synonym fe = "int list"

definition chk64 :: "int \<Rightarrow> int option" where
  "chk64 x = (if - (2 ^ 63) \<le> x \<and> x < 2 ^ 63 then Some x else None)"

lemma chk64_Some [simp]: "\<bar>x\<bar> < 2 ^ 63 \<Longrightarrow> chk64 x = Some x"
  by (auto simp: chk64_def)

section \<open>Operations\<close>

definition carry_step :: "fe \<Rightarrow> nat \<Rightarrow> fe option" where
  "carry_step x i = do {
     c \<leftarrow> chk64 ((if i = 15 then 38 else 1) * drop_bit 16 (x ! i));
     v \<leftarrow> chk64 (x ! ((i + 1) mod 16) + c);
     let x = x[(i + 1) mod 16 := v];
     Some (x[i := x ! i AND 0xffff]) }"

definition carry :: "fe \<Rightarrow> fe option" where
  "carry x = c_fold carry_step x [0..<16]"

definition cswap :: "fe \<Rightarrow> fe \<Rightarrow> int \<Rightarrow> fe \<times> fe" where
  "cswap p q b =
     (let c = NOT (b - 1); t = map (\<lambda>i. c AND (p ! i XOR q ! i)) [0..<16] in
      (map (\<lambda>i. p ! i XOR t ! i) [0..<16], map (\<lambda>i. q ! i XOR t ! i) [0..<16]))"

definition fe_add :: "fe \<Rightarrow> fe \<Rightarrow> fe option" where
  "fe_add a b = c_map (\<lambda>i. chk64 (a ! i + b ! i)) [0..<16]"

definition fe_subtract :: "fe \<Rightarrow> fe \<Rightarrow> fe option" where
  "fe_subtract a b = c_map (\<lambda>i. chk64 (a ! i - b ! i)) [0..<16]"

definition mult_step :: "fe \<Rightarrow> fe \<Rightarrow> int list \<Rightarrow> nat \<times> nat \<Rightarrow> int list option" where
  "mult_step a b t ij = (case ij of (i, j) \<Rightarrow> do {
     c \<leftarrow> chk64 (a ! i * b ! j);
     v \<leftarrow> chk64 (t ! (i + j) + c);
     Some (t[i + j := v]) })"

definition fold_step :: "int list \<Rightarrow> nat \<Rightarrow> int list option" where
  "fold_step t i = do {
     c \<leftarrow> chk64 (38 * t ! (i + 16));
     v \<leftarrow> chk64 (t ! i + c);
     Some (t[i := v]) }"

definition multmod :: "fe \<Rightarrow> fe \<Rightarrow> fe option" where
  "multmod a b = do {
     t \<leftarrow> c_fold (mult_step a b) (replicate 31 0) (List.product [0..<16] [0..<16]);
     t \<leftarrow> c_fold fold_step t [0..<15];
     x \<leftarrow> carry (take 16 t);
     carry x }"

definition invert_step :: "fe \<Rightarrow> fe \<Rightarrow> nat \<Rightarrow> fe option" where
  "invert_step i c a = do {
     c \<leftarrow> multmod c c;
     if a \<noteq> 2 \<and> a \<noteq> 4 then multmod c i else Some c }"

definition invert :: "fe \<Rightarrow> fe option" where
  "invert i = c_fold (invert_step i) i (rev [0..<254])"

text \<open>
  \<open>pack\<close>: the scratch array \<open>m\<close> is written slot by slot before it is read, so that its
  initial contents do not matter; here they are zero.
\<close>

definition pack_step :: "fe \<Rightarrow> fe \<Rightarrow> nat \<Rightarrow> fe option" where
  "pack_step t m i = do {
     v \<leftarrow> chk64 (t ! i - 0xffff - (drop_bit 16 (m ! (i - 1)) AND 1));
     Some (m[i := v, i - 1 := m ! (i - 1) AND 0xffff]) }"

definition pack_round :: "fe \<Rightarrow> fe option" where
  "pack_round t = do {
     m0 \<leftarrow> chk64 (t ! 0 - 0xffed);
     m \<leftarrow> c_fold (pack_step t) ((replicate 16 0)[0 := m0]) [1..<15];
     m15 \<leftarrow> chk64 (t ! 15 - 0x7fff - (drop_bit 16 (m ! 14) AND 1));
     let m = m[15 := m15];
     let b = drop_bit 16 (m ! 15) AND 1;
     let m = m[14 := m ! 14 AND 0xffff];
     Some (fst (cswap t m (1 - b))) }"

definition pack :: "fe \<Rightarrow> u8 list option" where
  "pack n = do {
     t \<leftarrow> carry n;
     t \<leftarrow> carry t;
     t \<leftarrow> carry t;
     t \<leftarrow> pack_round t;
     t \<leftarrow> pack_round t;
     Some (concat (map (\<lambda>i. [word_of_int (t ! i AND 0xff), word_of_int (drop_bit 8 (t ! i))]) [0..<16])) }"

section \<open>The number a limb list stands for\<close>

primrec val :: "int list \<Rightarrow> int" where
  "val [] = 0"
| "val (x # xs) = x + 2 ^ 16 * val xs"

definition P25519 :: int where
  "P25519 = 2 ^ 255 - 19"

lemma val_append: "val (xs @ ys) = val xs + 2 ^ (16 * length xs) * val ys"
  by (induction xs) (auto simp: algebra_simps power_add)

lemma pow16_Suc: "(2 :: int) ^ (16 * Suc n) = 65536 * 2 ^ (16 * n)"
  by (simp add: power_add)

lemma val_update: "i < length xs \<Longrightarrow> val (xs[i := v]) = val xs + (v - xs ! i) * 2 ^ (16 * i)"
proof (induction xs arbitrary: i)
  case (Cons x xs)
  show ?case
  proof (cases i)
    case (Suc n)
    then have "val (xs[n := v]) = val xs + (v - xs ! n) * 2 ^ (16 * n)" using Cons by simp
    then show ?thesis using Suc by (simp only: pow16_Suc) (simp add: algebra_simps)
  qed simp
qed simp

lemma val_replicate_zero [simp]: "val (replicate n 0) = 0"
  by (induction n) auto

lemma val_take_Suc: "n < length xs \<Longrightarrow> val (take (Suc n) xs) = val (take n xs) + xs ! n * 2 ^ (16 * n)"
  by (simp add: take_Suc_conv_app_nth val_append min_def)

lemma val_sum: "n \<le> length xs \<Longrightarrow> sum_list (map (\<lambda>i. xs ! i * 2 ^ (16 * i)) [0..<n]) = val (take n xs)"
  by (induction n) (simp_all add: val_take_Suc)

text \<open>Sixteen limbs of sixteen bits: the canonical digits of a number below \<open>2 ^ 256\<close>.\<close>

definition limbs :: "int list \<Rightarrow> bool" where
  "limbs w \<longleftrightarrow> length w = 16 \<and> (\<forall>i<16. 0 \<le> w ! i \<and> w ! i < 2 ^ 16)"

lemma val_bounds:
  assumes "\<forall>x\<in>set xs. 0 \<le> x \<and> x < 2 ^ 16"
  shows "0 \<le> val xs \<and> val xs < 2 ^ (16 * length xs)"
  using assms
proof (induction xs)
  case (Cons x xs)
  then have x: "0 \<le> x" "x < 65536" and v: "0 \<le> val xs" "val xs < 2 ^ (16 * length xs)" by auto
  then have "val xs \<le> 2 ^ (16 * length xs) - 1" by linarith
  then have "65536 * val xs \<le> 65536 * (2 ^ (16 * length xs) - 1)" by (rule mult_left_mono) simp
  moreover have "2 ^ (16 * length (x # xs)) = (65536 :: int) * 2 ^ (16 * length xs)"
    using pow16_Suc [of "length xs"] by simp
  ultimately show ?case using x v(1) by simp
qed simp

lemma val_limbs: "limbs w \<Longrightarrow> 0 \<le> val w \<and> val w < 2 ^ 256"
proof -
  assume w: "limbs w"
  then have "\<forall>x\<in>set w. 0 \<le> x \<and> x < 2 ^ 16" unfolding limbs_def by (metis in_set_conv_nth)
  from val_bounds [OF this] show ?thesis using w unfolding limbs_def by auto
qed

lemma val_abs_bound:
  assumes "\<forall>x\<in>set xs. \<bar>x\<bar> \<le> B"
  shows "65535 * \<bar>val xs\<bar> \<le> B * (2 ^ (16 * length xs) - 1)"
  using assms
proof (induction xs)
  case (Cons x xs)
  let ?N = "(2 :: int) ^ (16 * length xs)"
  have IH: "65535 * \<bar>val xs\<bar> \<le> B * (?N - 1)" and x: "\<bar>x\<bar> \<le> B" using Cons by auto
  have "\<bar>val (x # xs)\<bar> \<le> \<bar>x\<bar> + 65536 * \<bar>val xs\<bar>"
    using abs_triangle_ineq [of x "65536 * val xs"] by (simp add: abs_mult)
  then have "65535 * \<bar>val (x # xs)\<bar> \<le> 65535 * \<bar>x\<bar> + 65536 * (65535 * \<bar>val xs\<bar>)" by linarith
  also have "\<dots> \<le> 65535 * B + 65536 * (B * (?N - 1))" using IH x by linarith
  also have "\<dots> = B * (65536 * ?N - 1)" by (simp add: algebra_simps)
  finally show ?case using pow16_Suc [of "length xs"] by simp
qed simp

section \<open>Carrying\<close>

lemma mask16: "(x :: int) AND 0xffff = x mod 2 ^ 16"
  using take_bit_eq_mask [of 16 x] by (simp add: take_bit_eq_mod mask_eq_exp_minus_1 and.commute)

lemma shift16: "drop_bit 16 (x :: int) = x div 2 ^ 16"
  by (simp add: drop_bit_eq_div)

lemma div16_abs: "2 * \<bar>(x :: int) div 2 ^ 16\<bar> \<le> \<bar>x\<bar> + 1"
proof -
  define q r where "q = x div 65536" "r = x mod 65536"
  then have "x = 65536 * q + r" "0 \<le> r" "r < 65536" by simp_all
  then have "2 * \<bar>q\<bar> \<le> \<bar>x\<bar> + 1" by linarith
  then show ?thesis by (simp add: q_r_def)
qed

lemma div_mod_unique: "(x :: int) = w + c * N \<Longrightarrow> 0 \<le> w \<Longrightarrow> w < N \<Longrightarrow> x div N = c \<and> x mod N = w"
  by (simp add: mod_pos_pos_trivial div_pos_pos_trivial)

definition carry_inv :: "fe \<Rightarrow> int \<Rightarrow> nat \<Rightarrow> fe \<Rightarrow> bool" where
  "carry_inv x B k y \<longleftrightarrow> length y = 16 \<and> (\<forall>i<k. 0 \<le> y ! i \<and> y ! i < 2 ^ 16) \<and>
     (\<forall>i. k < i \<and> i < 16 \<longrightarrow> y ! i = x ! i) \<and> \<bar>y ! k - x ! k\<bar> \<le> B \<and> val y = val x"

lemma carry_step_inv:
  assumes x: "length x = 16" "\<forall>i<16. \<bar>x ! i\<bar> \<le> B" "B \<le> 2 ^ 56" and k: "k < 15" and inv: "carry_inv x B k y"
  shows "\<exists>y'. carry_step y k = Some y' \<and> carry_inv x B (Suc k) y'"
proof -
  have y: "length y = 16" "y ! Suc k = x ! Suc k" "\<bar>y ! k - x ! k\<bar> \<le> B" "val y = val x"
    using inv k by (auto simp: carry_inv_def)
  define c where "c = y ! k div 2 ^ 16"
  then have c': "y ! k div 65536 = c" by simp
  have xb: "\<bar>x ! k\<bar> \<le> B" "\<bar>x ! Suc k\<bar> \<le> B" using x(2) k by auto
  then have yk: "\<bar>y ! k\<bar> \<le> 2 * B" using y(3) by linarith
  have cb: "\<bar>c\<bar> \<le> B" using div16_abs [of "y ! k"] yk by (simp add: c_def)
  have small: "\<bar>c\<bar> < 2 ^ 63" "\<bar>y ! Suc k + c\<bar> < 2 ^ 63" using cb xb(2) y(2) x(3) by auto
  let ?y = "y[Suc k := y ! Suc k + c, k := y ! k mod 2 ^ 16]"
  have "carry_step y k = Some ?y"
    using k small by (simp add: carry_step_def mask16 shift16 c' Let_def)
  moreover have "carry_inv x B (Suc k) ?y"
    unfolding carry_inv_def
  proof (intro conjI allI impI)
    have m: "y ! k mod 2 ^ 16 - y ! k = - c * 65536"
      by (simp add: c_def minus_div_mult_eq_mod [symmetric])
    have "val ?y = val y + c * 2 ^ (16 * Suc k) + (y ! k mod 2 ^ 16 - y ! k) * 2 ^ (16 * k)"
      using y(1) k by (simp add: val_update)
    then show "val ?y = val x" unfolding m pow16_Suc y(4) by simp
    show "\<bar>?y ! Suc k - x ! Suc k\<bar> \<le> B" using y k cb by simp
    show "?y ! i = x ! i" if "Suc k < i \<and> i < 16" for i using that inv by (simp add: carry_inv_def)
    show "0 \<le> ?y ! i" "?y ! i < 2 ^ 16" if "i < Suc k" for i
      using that inv k y(1) by (cases "i = k"; simp add: carry_inv_def)+
  qed (use y in simp)
  ultimately show ?thesis by blast
qed

text \<open>
  One pass of \<open>carry\<close> splits the number into its digits below \<open>2 ^ 256\<close> and what exceeds them,
  which comes back at the lowest limb, multiplied by 38.
\<close>

lemma carry_spec:
  assumes x: "length x = 16" "\<forall>i<16. \<bar>x ! i\<bar> \<le> B" "B \<le> 2 ^ 56"
  shows "\<exists>w. carry x = Some (w[0 := w ! 0 + 38 * (val x div 2 ^ 256)]) \<and> limbs w \<and> val w = val x mod 2 ^ 256"
proof -
  have "0 \<le> B" using x(2) by (metis abs_ge_zero order_trans zero_less_numeral)
  then have "carry_inv x B 0 x" using x(1) by (simp add: carry_inv_def)
  then have "\<exists>y. c_fold carry_step x [0..<15] = Some y \<and> carry_inv x B 15 y"
    by (intro c_fold_upt_invariant) (use carry_step_inv [OF x] in auto)
  then obtain y where y: "c_fold carry_step x [0..<15] = Some y" "carry_inv x B 15 y" by blast
  define c where "c = y ! 15 div 2 ^ 16"
  then have c': "y ! 15 div 65536 = c" by simp
  define w where "w = y[15 := y ! 15 mod 2 ^ 16]"
  have len: "length y = 16" and v: "val y = val x" and y15: "\<bar>y ! 15 - x ! 15\<bar> \<le> B"
    and low: "\<forall>i<15. 0 \<le> y ! i \<and> y ! i < 2 ^ 16" using y(2) by (auto simp: carry_inv_def)
  have lw: "limbs w" unfolding limbs_def w_def
  proof (intro conjI allI impI)
    fix i :: nat assume "i < 16"
    then have "i < 15 \<or> i = 15" by arith
    then show "0 \<le> y[15 := y ! 15 mod 2 ^ 16] ! i" "y[15 := y ! 15 mod 2 ^ 16] ! i < 2 ^ 16"
      using low len by auto
  qed (simp add: len)
  have m: "y ! 15 mod 2 ^ 16 - y ! 15 = - c * 65536"
    by (simp add: c_def minus_div_mult_eq_mod [symmetric])
  have "val w = val x + (y ! 15 mod 2 ^ 16 - y ! 15) * 2 ^ 240"
    using len by (simp add: w_def val_update v)
  then have "val x = val w + c * 2 ^ 256" unfolding m by simp
  then have cw: "val x div 2 ^ 256 = c" "val x mod 2 ^ 256 = val w"
    using div_mod_unique val_limbs [OF lw] by blast+
  have "\<bar>y ! 15\<bar> \<le> 2 * B" using y15 x(2) [rule_format, of 15] by simp
  then have cb: "\<bar>c\<bar> \<le> B" using div16_abs [of "y ! 15"] by (simp add: c_def)
  have y0: "0 \<le> y ! 0 \<and> y ! 0 < 2 ^ 16" using low by simp
  have small: "\<bar>38 * c\<bar> < 2 ^ 63" "\<bar>y ! 0 + 38 * c\<bar> < 2 ^ 63" using cb x(3) y0 by auto
  have "carry_step y 15 = Some (y[0 := y ! 0 + 38 * c, 15 := y ! 15 mod 2 ^ 16])"
    using small by (simp add: carry_step_def mask16 shift16 c' Let_def)
  also have "y[0 := y ! 0 + 38 * c, 15 := y ! 15 mod 2 ^ 16] = w[0 := w ! 0 + 38 * c]"
    by (simp add: w_def list_update_swap)
  finally have last_step: "carry_step y 15 = Some (w[0 := w ! 0 + 38 * c])" .
  have "[0..<16] = [0..<15] @ [15 :: nat]" using upt_Suc_append [of 0 15] by simp
  then have "carry x = Some (w[0 := w ! 0 + 38 * c])"
    unfolding carry_def using y(1) last_step by (simp only: c_fold_append bind.bind_lunit c_fold.simps)
  then show ?thesis using lw cw by metis
qed

lemma P25519_256: "(2 :: int) ^ 256 = 2 * P25519 + 38"
  by (simp add: P25519_def)

lemma carry_mod:
  assumes "limbs w" "val w = v mod 2 ^ 256"
  shows "val (w[0 := w ! 0 + 38 * (v div 2 ^ 256)]) mod P25519 = v mod P25519"
proof -
  let ?c = "v div 2 ^ 256"
  have "val (w[0 := w ! 0 + 38 * ?c]) = val w + 38 * ?c"
    using assms(1) by (simp add: val_update limbs_def)
  moreover have "v = val w + ?c * 2 ^ 256" unfolding assms(2) by (simp only: mod_div_mult_eq)
  then have "v = val w + 38 * ?c + P25519 * (2 * ?c)" unfolding P25519_256 by (simp add: algebra_simps)
  ultimately show ?thesis by (metis mod_mult_self2)
qed

section \<open>Multiplication\<close>

text \<open>
  \<open>small\<close> holds of sums and differences of two products, which is all the code multiplies;
  \<open>reduced\<close> is what a product is.
\<close>

definition small :: "fe \<Rightarrow> bool" where
  "small x \<longleftrightarrow> length x = 16 \<and> (\<forall>i<16. \<bar>x ! i\<bar> \<le> 2 ^ 18)"

definition reduced :: "fe \<Rightarrow> bool" where
  "reduced x \<longleftrightarrow> length x = 16 \<and> - 38 \<le> x ! 0 \<and> x ! 0 \<le> 65573 \<and>
     (\<forall>i. 0 < i \<and> i < 16 \<longrightarrow> 0 \<le> x ! i \<and> x ! i < 2 ^ 16)"

definition mult_inv :: "fe \<Rightarrow> fe \<Rightarrow> (nat \<times> nat) list \<Rightarrow> int list \<Rightarrow> bool" where
  "mult_inv a b done t \<longleftrightarrow> length t = 31 \<and> (\<forall>k<31. \<bar>t ! k\<bar> \<le> 2 ^ 36 * int (length done)) \<and>
     val t = sum_list (map (\<lambda>(i, j). a ! i * b ! j * 2 ^ (16 * (i + j))) done)"

lemma mult_step_inv:
  assumes "small a" "small b" "i < 16" "j < 16" "length done < 256" "mult_inv a b done t"
  shows "\<exists>t'. mult_step a b t (i, j) = Some t' \<and> mult_inv a b (done @ [(i, j)]) t'"
proof -
  have p: "\<bar>a ! i * b ! j\<bar> \<le> 2 ^ 36"
  proof -
    have "\<bar>a ! i * b ! j\<bar> \<le> 2 ^ 18 * 2 ^ 18"
      unfolding abs_mult using assms(1-4) by (intro mult_mono) (auto simp: small_def)
    then show ?thesis by simp
  qed
  have t: "length t = 31" "\<bar>t ! (i + j)\<bar> \<le> 2 ^ 36 * int (length done)"
    using assms(3,4,6) by (auto simp: mult_inv_def)
  have "2 ^ 36 * int (length done) \<le> 2 ^ 44" using assms(5) by simp
  then have tb: "\<bar>t ! (i + j)\<bar> \<le> 2 ^ 44" using t(2) by (rule order_trans [rotated])
  have "\<bar>t ! (i + j) + a ! i * b ! j\<bar> \<le> 2 ^ 44 + 2 ^ 36"
    by (rule order_trans [OF abs_triangle_ineq add_mono [OF tb p]])
  then have sm: "\<bar>a ! i * b ! j\<bar> < 2 ^ 63" "\<bar>t ! (i + j) + a ! i * b ! j\<bar> < 2 ^ 63"
    using p by simp_all
  let ?t = "t[i + j := t ! (i + j) + a ! i * b ! j]"
  have "mult_step a b t (i, j) = Some ?t" using sm by (simp add: mult_step_def)
  moreover have "mult_inv a b (done @ [(i, j)]) ?t"
    unfolding mult_inv_def
  proof (intro conjI allI impI)
    show "val ?t = sum_list (map (\<lambda>(i, j). a ! i * b ! j * 2 ^ (16 * (i + j))) (done @ [(i, j)]))"
      using assms(3,4,6) t(1) by (simp add: val_update mult_inv_def)
    fix k :: nat assume "k < 31"
    then have "\<bar>t ! k\<bar> \<le> 2 ^ 36 * int (length done)" using assms(6) by (simp add: mult_inv_def)
    then show "\<bar>?t ! k\<bar> \<le> 2 ^ 36 * int (length (done @ [(i, j)]))"
      using p t(1) \<open>k < 31\<close> by (cases "k = i + j") (auto simp: abs_le_iff algebra_simps)
  qed (simp add: t)
  ultimately show ?thesis by blast
qed

lemma val_product:
  assumes "length a = 16" "length b = 16"
  shows "sum_list (map (\<lambda>(i, j). a ! i * b ! j * 2 ^ (16 * (i + j))) (List.product [0..<16] [0..<16])) = val a * val b"
proof -
  have "sum_list (map (\<lambda>(i, j). a ! i * b ! j * 2 ^ (16 * (i + j))) (List.product is js)) =
      sum_list (map (\<lambda>i. a ! i * 2 ^ (16 * i)) is) * sum_list (map (\<lambda>j. b ! j * 2 ^ (16 * j)) js)" for "is" js
    by (induction "is") (simp_all add: comp_def distrib_right sum_list_const_mult [symmetric] power_add algebra_simps)
  then show ?thesis using val_sum [of 16 a] val_sum [of 16 b] assms by simp
qed

lemma mult_loop:
  assumes "small a" "small b"
  shows "\<exists>t. c_fold (mult_step a b) (replicate 31 0) (List.product [0..<16] [0..<16]) = Some t \<and>
    length t = 31 \<and> (\<forall>k<31. \<bar>t ! k\<bar> \<le> 2 ^ 44) \<and> val t = val a * val b"
proof -
  let ?ps = "List.product [0..<16] [0..<16 :: nat]"
  have "\<exists>t. c_fold (mult_step a b) (replicate 31 0) ?ps = Some t \<and> mult_inv a b ?ps t"
  proof (rule c_fold_invariant)
    show "mult_inv a b [] (replicate 31 0)" by (simp add: mult_inv_def)
    fix "done" :: "(nat \<times> nat) list" and x t
    assume pre: "done @ [x] \<in> set (prefixes ?ps)" and inv: "mult_inv a b done t"
    then have "prefix (done @ [x]) ?ps" by (simp only: in_set_prefixes)
    then have "length (done @ [x]) \<le> length ?ps" "x \<in> set ?ps" using prefix_length_le set_mono_prefix by fastforce+
    then have "length done < 256" "fst x < 16" "snd x < 16" by auto
    then show "\<exists>t'. mult_step a b t x = Some t' \<and> mult_inv a b (done @ [x]) t'"
      using mult_step_inv [OF assms _ _ _ inv, of "fst x" "snd x"] by simp
  qed
  then show ?thesis using val_product [of a b] assms by (auto simp: mult_inv_def small_def)
qed

text \<open>Folding the upper fifteen limbs back: \<open>2 ^ 256\<close> is 38 modulo the prime.\<close>

definition fold_inv :: "int list \<Rightarrow> nat \<Rightarrow> int list \<Rightarrow> bool" where
  "fold_inv t k u \<longleftrightarrow> length u = 31 \<and> (\<forall>i. k \<le> i \<and> i < 31 \<longrightarrow> u ! i = t ! i) \<and> (\<forall>i<31. \<bar>u ! i\<bar> \<le> 2 ^ 50) \<and>
     val (take 16 u) = val (take 16 t) + 38 * val (take k (drop 16 t))"

lemma fold_step_inv:
  assumes t: "length t = 31" "\<forall>k<31. \<bar>t ! k\<bar> \<le> 2 ^ 44" and k: "k < 15" and inv: "fold_inv t k u"
  shows "\<exists>u'. fold_step u k = Some u' \<and> fold_inv t (Suc k) u'"
proof -
  have u: "length u = 31" "u ! k = t ! k" "u ! (k + 16) = t ! (k + 16)"
    "val (take 16 u) = val (take 16 t) + 38 * val (take k (drop 16 t))" using inv k by (auto simp: fold_inv_def)
  have tb: "\<bar>t ! k\<bar> \<le> 2 ^ 44" "\<bar>t ! (k + 16)\<bar> \<le> 2 ^ 44" using t(2) k by auto
  then have sm: "\<bar>38 * t ! (k + 16)\<bar> < 2 ^ 63" "\<bar>t ! k + 38 * t ! (k + 16)\<bar> < 2 ^ 63"
    and b: "\<bar>t ! k + 38 * t ! (k + 16)\<bar> \<le> 2 ^ 50" by (auto simp: abs_le_iff abs_less_iff)
  let ?u = "u[k := t ! k + 38 * t ! (k + 16)]"
  have "fold_step u k = Some ?u" using sm u by (simp add: fold_step_def)
  moreover have "fold_inv t (Suc k) ?u"
    unfolding fold_inv_def
  proof (intro conjI allI impI)
    have "take 16 ?u = (take 16 u)[k := t ! k + 38 * t ! (k + 16)]" using k by (simp add: take_update_swap)
    then have "val (take 16 ?u) = val (take 16 u) + 38 * t ! (k + 16) * 2 ^ (16 * k)"
      using u k by (simp add: val_update)
    moreover have "val (take (Suc k) (drop 16 t)) = val (take k (drop 16 t)) + t ! (k + 16) * 2 ^ (16 * k)"
      using t(1) k by (subst val_take_Suc) (simp_all add: add.commute)
    ultimately show "val (take 16 ?u) = val (take 16 t) + 38 * val (take (Suc k) (drop 16 t))"
      using u(4) by (simp add: algebra_simps)
    show "\<bar>?u ! i\<bar> \<le> 2 ^ 50" if "i < 31" for i
      using that inv b u(1) by (cases "i = k") (auto simp: fold_inv_def)
    show "?u ! i = t ! i" if "Suc k \<le> i \<and> i < 31" for i using that inv by (simp add: fold_inv_def)
  qed (simp add: u)
  ultimately show ?thesis by blast
qed

lemma fold_loop:
  assumes t: "length t = 31" "\<forall>k<31. \<bar>t ! k\<bar> \<le> 2 ^ 44"
  shows "\<exists>u. c_fold fold_step t [0..<15] = Some u \<and> length u = 31 \<and> (\<forall>i<31. \<bar>u ! i\<bar> \<le> 2 ^ 50) \<and>
    val (take 16 u) mod P25519 = val t mod P25519"
proof -
  have "\<bar>t ! i\<bar> \<le> 2 ^ 50" if "i < 31" for i
    using t(2) that by (rule_tac order_trans [of _ "2 ^ 44"]) auto
  then have "fold_inv t 0 t" using t(1) by (simp add: fold_inv_def)
  then have "\<exists>u. c_fold fold_step t [0..<15] = Some u \<and> fold_inv t 15 u"
    by (intro c_fold_upt_invariant) (use fold_step_inv [OF t] in auto)
  then obtain u where u: "c_fold fold_step t [0..<15] = Some u" "fold_inv t 15 u" by blast
  have "val t = val (take 16 t) + 2 ^ 256 * val (drop 16 t)"
    using val_append [of "take 16 t" "drop 16 t"] t(1) by simp
  also have "\<dots> = val (take 16 u) + P25519 * (2 * val (drop 16 t))"
    using u(2) t(1) unfolding P25519_256 by (simp add: fold_inv_def algebra_simps)
  finally show ?thesis using u by (auto simp: fold_inv_def)
qed

text \<open>The first pass of \<open>carry\<close> after a product leaves the lowest limb large, the second reduces it.\<close>

lemma carry_wide:
  assumes x: "length x = 16" "\<forall>i<16. \<bar>x ! i\<bar> \<le> 2 ^ 50"
  shows "\<exists>w c. carry x = Some (w[0 := w ! 0 + 38 * c]) \<and> limbs w \<and> \<bar>c\<bar> \<le> 2 ^ 35 \<and>
    val (w[0 := w ! 0 + 38 * c]) mod P25519 = val x mod P25519"
proof -
  have "(2::int) ^ 50 \<le> 2 ^ 56" by simp
  from carry_spec [OF x this] obtain w where
    w: "carry x = Some (w[0 := w ! 0 + 38 * (val x div 2 ^ 256)])" "limbs w" "val w = val x mod 2 ^ 256" by blast
  have "65535 * \<bar>val x\<bar> \<le> 2 ^ 50 * (2 ^ (16 * length x) - 1)"
    using x by (intro val_abs_bound) (auto simp: in_set_conv_nth)
  then have "65535 * \<bar>val x\<bar> \<le> 2 ^ 50 * 2 ^ 256" using x(1) by simp
  then have "\<bar>val x\<bar> < 2 ^ 35 * 2 ^ 256" by simp
  then have "- (2 ^ 35) * 2 ^ 256 \<le> val x" "val x < 2 ^ 35 * 2 ^ 256" by linarith+
  then have "- (2 ^ 35) \<le> val x div 2 ^ 256" "val x div 2 ^ 256 < 2 ^ 35"
    by (auto intro: div_int_pos_iff simp: div_less_iff_less_mult less_eq_div_iff_mult_less_eq)
  then show ?thesis using w carry_mod [OF w(2,3)] by (intro exI [of _ w] exI [of _ "val x div 2 ^ 256"]) auto
qed

lemma carry_narrow:
  assumes w: "limbs w" and c: "\<bar>c\<bar> \<le> 2 ^ 35"
  defines "x \<equiv> w[0 := w ! 0 + 38 * c]"
  shows "\<exists>y. carry x = Some y \<and> reduced y \<and> val y mod P25519 = val x mod P25519"
proof -
  have len: "length w = 16" and w0: "0 \<le> w ! 0" "w ! 0 < 2 ^ 16" using w by (auto simp: limbs_def)
  have xb: "\<forall>i<16. \<bar>x ! i\<bar> \<le> 2 ^ 42"
  proof (intro allI impI)
    fix i :: nat assume "i < 16"
    then have "0 \<le> w ! i" "w ! i < 2 ^ 16" using w by (auto simp: limbs_def)
    then show "\<bar>x ! i\<bar> \<le> 2 ^ 42" using c len \<open>i < 16\<close> by (cases "i = 0") (auto simp: x_def)
  qed
  have xl: "length x = 16" by (simp add: x_def len)
  have "(2::int) ^ 42 \<le> 2 ^ 56" by simp
  from carry_spec [OF xl xb this] obtain u where
    u: "carry x = Some (u[0 := u ! 0 + 38 * (val x div 2 ^ 256)])" "limbs u" "val u = val x mod 2 ^ 256" by blast
  have "val x = val w + 38 * c" unfolding x_def using len by (simp add: val_update)
  then have "- (2 ^ 256) \<le> val x" "val x < 2 * 2 ^ 256" using val_limbs [OF w] c by auto
  then have d: "- 1 \<le> val x div 2 ^ 256" "val x div 2 ^ 256 \<le> 1"
    by (auto simp: div_less_iff_less_mult less_eq_div_iff_mult_less_eq)
  have ub: "\<forall>i<16. 0 \<le> u ! i \<and> u ! i < 2 ^ 16" "length u = 16" using u(2) by (auto simp: limbs_def)
  define k where "k = val x div 2 ^ 256"
  have "0 \<le> u ! 0" "u ! 0 < 2 ^ 16" "- 1 \<le> k" "k \<le> 1" using ub d by (auto simp: k_def)
  then have "- 38 \<le> u ! 0 + 38 * k" "u ! 0 + 38 * k \<le> 65573" by simp_all
  then have "reduced (u[0 := u ! 0 + 38 * k])" unfolding reduced_def using ub by simp
  then have "reduced (u[0 := u ! 0 + 38 * (val x div 2 ^ 256)])" by (simp only: k_def)
  then show ?thesis using u carry_mod [OF u(2,3)] by blast
qed

lemma multmod_spec:
  assumes "small a" "small b"
  shows "\<exists>r. multmod a b = Some r \<and> reduced r \<and> val r mod P25519 = val a * val b mod P25519"
proof -
  from mult_loop [OF assms] obtain t where
    t: "c_fold (mult_step a b) (replicate 31 0) (List.product [0..<16] [0..<16]) = Some t"
      "length t = 31" "\<forall>k<31. \<bar>t ! k\<bar> \<le> 2 ^ 44" "val t = val a * val b" by blast
  from fold_loop [OF t(2,3)] obtain u where
    u: "c_fold fold_step t [0..<15] = Some u" "length u = 31" "\<forall>i<31. \<bar>u ! i\<bar> \<le> 2 ^ 50"
      "val (take 16 u) mod P25519 = val t mod P25519" by blast
  have "length (take 16 u) = 16" "\<forall>i<16. \<bar>take 16 u ! i\<bar> \<le> 2 ^ 50" using u(2,3) by auto
  from carry_wide [OF this] obtain w c where w: "carry (take 16 u) = Some (w[0 := w ! 0 + 38 * c])" "limbs w"
    "\<bar>c\<bar> \<le> 2 ^ 35" "val (w[0 := w ! 0 + 38 * c]) mod P25519 = val (take 16 u) mod P25519" by blast
  from carry_narrow [OF w(2,3)] obtain r where r: "carry (w[0 := w ! 0 + 38 * c]) = Some r" "reduced r"
    "val r mod P25519 = val (w[0 := w ! 0 + 38 * c]) mod P25519" by blast
  have "multmod a b = Some r" unfolding multmod_def using t(1) u(1) w(1) r(1) by (simp only: bind.bind_lunit)
  then show ?thesis using r w(4) u(4) t(4) by metis
qed

section \<open>Addition, subtraction, exchange\<close>

lemma reduced_small: "reduced x \<Longrightarrow> small x"
proof -
  assume x: "reduced x"
  have "\<bar>x ! i\<bar> \<le> 2 ^ 18" if "i < 16" for i
    using x that by (cases "i = 0") (fastforce simp: reduced_def abs_le_iff)+
  then show ?thesis using x by (simp add: small_def reduced_def)
qed

lemma reduced_abs: "reduced x \<Longrightarrow> i < 16 \<Longrightarrow> \<bar>x ! i\<bar> \<le> 65573"
  by (cases "i = 0") (fastforce simp: reduced_def abs_le_iff)+

lemma val_map2:
  "val (map (\<lambda>i. a ! i + b ! i) [0..<n]) = val (map (\<lambda>i. a ! i) [0..<n]) + val (map (\<lambda>i. b ! i) [0..<n])"
  "val (map (\<lambda>i. a ! i - b ! i) [0..<n]) = val (map (\<lambda>i. a ! i) [0..<n]) - val (map (\<lambda>i. b ! i) [0..<n])"
  by (induction n) (simp_all add: val_append algebra_simps)

lemma map_nth16: "length a = 16 \<Longrightarrow> map (\<lambda>i. a ! i) [0..<16] = a"
  by (metis map_nth)

lemma fe_add_spec:
  assumes "reduced a" "reduced b"
  shows "\<exists>r. fe_add a b = Some r \<and> small r \<and> val r = val a + val b"
proof -
  have b: "\<bar>a ! i + b ! i\<bar> \<le> 2 ^ 18" if "i < 16" for i
    using reduced_abs [OF assms(1) that] reduced_abs [OF assms(2) that] by auto
  then have "\<bar>a ! i + b ! i\<bar> < 2 ^ 63" if "i < 16" for i using b [OF that] by simp
  then have "fe_add a b = Some (map (\<lambda>i. a ! i + b ! i) [0..<16])"
    unfolding fe_add_def by (intro c_map_Some) simp
  moreover have "small (map (\<lambda>i. a ! i + b ! i) [0..<16])" using b by (simp add: small_def)
  moreover have "val (map (\<lambda>i. a ! i + b ! i) [0..<16]) = val a + val b"
    using assms by (simp only: val_map2 map_nth16 reduced_def)
  ultimately show ?thesis by blast
qed

lemma fe_subtract_spec:
  assumes "reduced a" "reduced b"
  shows "\<exists>r. fe_subtract a b = Some r \<and> small r \<and> val r = val a - val b"
proof -
  have b: "\<bar>a ! i - b ! i\<bar> \<le> 2 ^ 18" if "i < 16" for i
    using reduced_abs [OF assms(1) that] reduced_abs [OF assms(2) that] by auto
  then have "\<bar>a ! i - b ! i\<bar> < 2 ^ 63" if "i < 16" for i using b [OF that] by simp
  then have "fe_subtract a b = Some (map (\<lambda>i. a ! i - b ! i) [0..<16])"
    unfolding fe_subtract_def by (intro c_map_Some) simp
  moreover have "small (map (\<lambda>i. a ! i - b ! i) [0..<16])" using b by (simp add: small_def)
  moreover have "val (map (\<lambda>i. a ! i - b ! i) [0..<16]) = val a - val b"
    using assms by (simp only: val_map2 map_nth16 reduced_def)
  ultimately show ?thesis by blast
qed

text \<open>\<open>cswap\<close> with a condition of 0 or 1 keeps or exchanges its arguments.\<close>

lemma cswap_spec:
  assumes "length p = 16" "length q = 16" "b = 0 \<or> b = 1"
  shows "cswap p q b = (if b = 1 then (q, p) else (p, q))"
proof -
  have "p ! i XOR (p ! i XOR q ! i) = q ! i" "q ! i XOR (p ! i XOR q ! i) = p ! i" for i
    by (simp_all add: xor.assoc [symmetric]) (simp add: xor.commute xor.left_commute)
  then have "map (\<lambda>i. p ! i XOR (p ! i XOR q ! i)) [0..<16] = q" "map (\<lambda>i. q ! i XOR (p ! i XOR q ! i)) [0..<16] = p"
    using map_nth16 [OF assms(1)] map_nth16 [OF assms(2)] by simp_all
  moreover have "map (\<lambda>i. f i XOR map g [0..<16] ! i) [0..<16] = map (\<lambda>i. f i XOR g i) [0..<16 :: nat]" for f g :: "nat \<Rightarrow> int"
    by simp
  ultimately show ?thesis
    using assms(3) map_nth16 [OF assms(1)] map_nth16 [OF assms(2)] by (auto simp only: cswap_def Let_def) simp_all
qed

section \<open>Inversion\<close>

text \<open>The exponent that the square-and-multiply loop has reached before step \<open>a\<close>.\<close>

primrec inv_exp :: "nat list \<Rightarrow> nat" where
  "inv_exp [] = 1"
| "inv_exp (a # as) = (if a \<noteq> 2 \<and> a \<noteq> 4 then 2 * inv_exp as + 1 else 2 * inv_exp as)"

lemma inv_exp_ones: "5 \<le> m \<Longrightarrow> inv_exp [m..<m + n] = 2 ^ (n + 1) - 1"
proof (induction n arbitrary: m)
  case (Suc n)
  have "[m..<m + Suc n] = m # [Suc m..<Suc m + n]" by (simp add: upt_conv_Cons)
  moreover have "inv_exp [Suc m..<Suc m + n] = 2 ^ (n + 1) - 1" using Suc.IH [of "Suc m"] Suc.prems by linarith
  moreover obtain w where "(2 :: nat) ^ n = Suc w" by (metis not0_implies_Suc power_not_zero zero_neq_numeral)
  ultimately show ?case using Suc.prems by (simp del: upt_Suc)
qed simp

lemma inv_exp_final: "inv_exp [0..<254] = 2 ^ 255 - 21"
proof -
  have "[0..<254] = 0 # 1 # 2 # 3 # 4 # [5..<5 + 249]" by (simp add: upt_conv_Cons del: upt_Suc)
  then show ?thesis using inv_exp_ones [of 5 249] by (simp del: upt_Suc)
qed

lemma mod_power_step:
  fixes x y m :: int
  assumes "y mod m = x ^ e mod m"
  shows "y * y mod m = x ^ (2 * e) mod m" "y * y * x mod m = x ^ (2 * e + 1) mod m"
proof -
  show "y * y mod m = x ^ (2 * e) mod m"
    by (metis assms mod_mult_cong mult_2 power_add)
  then show "y * y * x mod m = x ^ (2 * e + 1) mod m"
    by (metis mod_mult_left_eq power_add power_one_right)
qed

lemma invert_step_spec:
  assumes "reduced x" "reduced c" "val c mod P25519 = val x ^ e mod P25519"
  shows "\<exists>r. invert_step x c a = Some r \<and> reduced r \<and>
    val r mod P25519 = val x ^ (if a \<noteq> 2 \<and> a \<noteq> 4 then 2 * e + 1 else 2 * e) mod P25519"
proof -
  from multmod_spec [OF reduced_small [OF assms(2)] reduced_small [OF assms(2)]]
  obtain s where s: "multmod c c = Some s" "reduced s" "val s mod P25519 = val c * val c mod P25519" by blast
  from multmod_spec [OF reduced_small [OF s(2)] reduced_small [OF assms(1)]]
  obtain r where r: "multmod s x = Some r" "reduced r" "val r mod P25519 = val s * val x mod P25519" by blast
  have "val r mod P25519 = val c * val c * val x mod P25519" using r(3) s(3) by (metis mod_mult_left_eq)
  then show ?thesis using s r mod_power_step [OF assms(3)] by (auto simp: invert_step_def)
qed

lemma invert_spec:
  assumes "reduced x"
  shows "\<exists>r. invert x = Some r \<and> reduced r \<and> val r mod P25519 = val x ^ (2 ^ 255 - 21) mod P25519"
proof -
  have "\<exists>r. c_fold (invert_step x) x (rev as) = Some r \<and> reduced r \<and> val r mod P25519 = val x ^ inv_exp as mod P25519" for as
  proof (induction as)
    case Nil
    then show ?case using assms by simp
  next
    case (Cons a as)
    then show ?case using invert_step_spec [OF assms, of _ "inv_exp as" a] by (fastforce simp: c_fold_append)
  qed
  from this [of "[0..<254]"] show ?thesis unfolding invert_def inv_exp_final .
qed

section \<open>Packing\<close>

definition p_limbs :: "int list" where
  "p_limbs = 0xffed # replicate 14 0xffff @ [0x7fff]"

lemma borrow_bit:
  assumes "- (2 ^ 16) \<le> (x :: int)" "x < 2 ^ 16"
  shows "drop_bit 16 x AND 1 = (if x < 0 then 1 else 0)" "x AND 0xffff = x + 2 ^ 16 * (drop_bit 16 x AND 1)"
proof -
  have "x div 2 ^ 16 = (if x < 0 then - 1 else 0)"
  proof (cases "x < 0")
    case True
    then have "(x + 2 ^ 16) div 2 ^ 16 = 0" using assms by (intro div_pos_pos_trivial) auto
    then show ?thesis using True by simp
  qed (use assms in simp)
  then show bit: "drop_bit 16 x AND 1 = (if x < 0 then 1 else 0)" by (simp add: drop_bit_eq_div)
  have "x mod 2 ^ 16 = (if x < 0 then x + 2 ^ 16 else x)"
  proof (cases "x < 0")
    case True
    then have "(x + 2 ^ 16) mod 2 ^ 16 = x + 2 ^ 16" using assms by (intro mod_pos_pos_trivial) auto
    then show ?thesis using True by simp
  qed (use assms in simp)
  then show "x AND 0xffff = x + 2 ^ 16 * (drop_bit 16 x AND 1)" unfolding mask16 bit by auto
qed

definition pack_inv :: "fe \<Rightarrow> nat \<Rightarrow> fe \<Rightarrow> bool" where
  "pack_inv t k m \<longleftrightarrow> length m = 16 \<and> (\<forall>i. i + 1 < k \<longrightarrow> 0 \<le> m ! i \<and> m ! i < 2 ^ 16) \<and>
     (\<forall>i. k \<le> i \<and> i < 16 \<longrightarrow> m ! i = 0) \<and> - (2 ^ 16) \<le> m ! (k - 1) \<and> m ! (k - 1) < 2 ^ 16 \<and>
     val m = val (take k t) - val (take k p_limbs)"

lemma p_limbs_nth: "0 < i \<Longrightarrow> i < 15 \<Longrightarrow> p_limbs ! i = 0xffff"
  by (auto simp: p_limbs_def nth_append nth_Cons')

lemma pack_borrow:
  assumes t: "limbs t" and k: "0 < k" "k < 16" and inv: "pack_inv t k m"
    and d: "p_limbs ! k = d" "0 \<le> d" "d \<le> 0xffff"
  defines "v \<equiv> t ! k - d - (drop_bit 16 (m ! (k - 1)) AND 1)"
  shows "chk64 v = Some v" "pack_inv t (Suc k) (m[k := v, k - 1 := m ! (k - 1) AND 0xffff])"
proof -
  have tk: "0 \<le> t ! k" "t ! k < 2 ^ 16" "length t = 16" using t k by (auto simp: limbs_def)
  have m: "length m = 16" "- (2 ^ 16) \<le> m ! (k - 1)" "m ! (k - 1) < 2 ^ 16" "m ! k = 0"
    "val m = val (take k t) - val (take k p_limbs)" using inv k by (auto simp: pack_inv_def)
  define b where "b = drop_bit 16 (m ! (k - 1)) AND 1"
  have b: "0 \<le> b" "b \<le> 1" "m ! (k - 1) AND 0xffff = m ! (k - 1) + 2 ^ 16 * b"
    using borrow_bit [OF m(2,3)] by (auto simp: b_def)
  have v: "v = t ! k - d - b" by (simp add: v_def b_def)
  have vb: "- (2 ^ 16) \<le> v" "v < 2 ^ 16" using tk d b unfolding v by simp_all
  then show "chk64 v = Some v" by (intro chk64_Some) auto
  have low: "0 \<le> m ! (k - 1) AND 0xffff" "m ! (k - 1) AND 0xffff < 2 ^ 16" unfolding mask16 by simp_all
  let ?m = "m[k := v, k - 1 := m ! (k - 1) AND 0xffff]"
  show "pack_inv t (Suc k) ?m"
    unfolding pack_inv_def
  proof (intro conjI allI impI)
    have "val ?m = val m + v * 2 ^ (16 * k) + 2 ^ 16 * b * 2 ^ (16 * (k - 1))"
      using m k b(3) by (simp add: val_update)
    also have "2 ^ 16 * b * 2 ^ (16 * (k - 1)) = b * 2 ^ (16 * k)"
      using pow16_Suc [of "k - 1"] k by simp
    finally have "val ?m = val m + (t ! k - d) * 2 ^ (16 * k)"
      by (simp add: v algebra_simps)
    moreover have "length p_limbs = 16" by (simp add: p_limbs_def)
    ultimately show "val ?m = val (take (Suc k) t) - val (take (Suc k) p_limbs)"
      using m(5) tk(3) k d(1) by (simp add: val_take_Suc algebra_simps)
    show "0 \<le> ?m ! i" "?m ! i < 2 ^ 16" if "i + 1 < Suc k" for i
      using that inv low m(1) k by (cases "i = k - 1"; simp add: pack_inv_def)+
    show "?m ! i = 0" if "Suc k \<le> i \<and> i < 16" for i using that inv k by (auto simp: pack_inv_def)
    show "- (2 ^ 16) \<le> ?m ! (Suc k - 1)" "?m ! (Suc k - 1) < 2 ^ 16" using vb m(1) k by simp_all
  qed (simp add: m)
qed

lemma val_p_limbs: "val p_limbs = P25519"
  by (simp add: p_limbs_def numeral_eq_Suc P25519_def)

lemma sign_of_digits:
  fixes w N v :: int
  assumes "0 \<le> w \<and> w < N"
  shows "w + v * N < 0 \<longleftrightarrow> v < 0"
proof
  assume "v < 0"
  then have "v * N \<le> (- 1) * N" using assms by (intro mult_right_mono) auto
  then show "w + v * N < 0" using assms by simp
next
  assume "w + v * N < 0"
  then have "v * N < 0" using assms by linarith
  then show "v < 0" using assms by (simp add: mult_less_0_iff)
qed

text \<open>One round subtracts the prime if that leaves the number non-negative.\<close>

text \<open>The subtraction of the prime, limb by limb; only the top limb of the result can be negative.\<close>

lemma pack_subtract:
  assumes t: "limbs t"
  obtains m v u where "c_fold (pack_step t) ((replicate 16 0)[0 := t ! 0 - 0xffed]) [1..<15] = Some m" "length m = 16"
    "v = t ! 15 - 0x7fff - (drop_bit 16 (m ! 14) AND 1)" "chk64 v = Some v" "u = m[15 := v, 14 := m ! 14 AND 0xffff]"
    "u ! 15 = v" "\<forall>i<15. 0 \<le> u ! i \<and> u ! i < 2 ^ 16" "- (2 ^ 16) \<le> v" "v < 2 ^ 16" "val u = val t - P25519"
proof -
  have t0: "0 \<le> t ! 0" "t ! 0 < 2 ^ 16" "length t = 16" using t by (auto simp: limbs_def)
  let ?m0 = "(replicate 16 0)[0 := t ! 0 - 0xffed]"
  have "pack_inv t 1 ?m0"
    unfolding pack_inv_def using t0 by (auto simp: val_update take_Suc_conv_app_nth p_limbs_def hd_conv_nth take_Suc)
  then have "\<exists>m. c_fold (pack_step t) ?m0 [1..<15] = Some m \<and> pack_inv t 15 m"
  proof (rule c_fold_upt_invariant [rotated])
    fix i m assume i: "1 \<le> i" "i < 15" and inv: "pack_inv t i m"
    show "\<exists>m'. pack_step t m i = Some m' \<and> pack_inv t (Suc i) m'"
      using pack_borrow [OF t _ _ inv p_limbs_nth [of i]] i by (simp add: pack_step_def)
  qed simp
  then obtain m where m: "c_fold (pack_step t) ?m0 [1..<15] = Some m" "pack_inv t 15 m" by blast
  define v where "v = t ! 15 - 0x7fff - (drop_bit 16 (m ! 14) AND 1)"
  define u where "u = m[15 := v, 14 := m ! 14 AND 0xffff]"
  have "p_limbs ! 15 = 0x7fff" by (simp add: p_limbs_def nth_append)
  from pack_borrow [OF t _ _ m(2) this]
  have v: "chk64 v = Some v" and inv: "pack_inv t 16 u" by (simp_all add: v_def u_def)
  have len: "length m = 16" "length u = 16" using m(2) inv by (auto simp: pack_inv_def)
  have "u ! 15 = v" "\<forall>i<15. 0 \<le> u ! i \<and> u ! i < 2 ^ 16" "- (2 ^ 16) \<le> v" "v < 2 ^ 16" "val u = val t - P25519"
    using inv t0(3) len val_p_limbs by (auto simp: pack_inv_def u_def p_limbs_def)
  then show thesis by (rule that [OF m(1) len(1) v_def v u_def])
qed

lemma pack_round_spec:
  assumes t: "limbs t"
  shows "\<exists>t'. pack_round t = Some t' \<and> limbs t' \<and> val t' = (if val t < P25519 then val t else val t - P25519)"
proof -
  have t0: "0 \<le> t ! 0" "t ! 0 < 2 ^ 16" "length t = 16" using t by (auto simp: limbs_def)
  obtain m v u where m: "c_fold (pack_step t) ((replicate 16 0)[0 := t ! 0 - 0xffed]) [1..<15] = Some m" and lm: "length m = 16"
    and v_def: "v = t ! 15 - 0x7fff - (drop_bit 16 (m ! 14) AND 1)" and v: "chk64 v = Some v"
    and u_def: "u = m[15 := v, 14 := m ! 14 AND 0xffff]" and u15: "u ! 15 = v"
    and ulow: "\<forall>i<15. 0 \<le> u ! i \<and> u ! i < 2 ^ 16" and vb: "- (2 ^ 16) \<le> v" "v < 2 ^ 16" and uv: "val u = val t - P25519"
    by (rule pack_subtract [OF t])
  have len: "length m = 16" "length u = 16" using lm by (simp_all add: u_def)
  define b where "b = drop_bit 16 v AND 1"
  have b: "b = (if v < 0 then 1 else 0)" using borrow_bit [OF vb] by (simp add: b_def)
  have "val u = val (take 15 u) + v * 2 ^ 240"
    using val_take_Suc [of 15 u] len u15 by simp
  moreover have "\<forall>x\<in>set (take 15 u). 0 \<le> x \<and> x < 2 ^ 16"
    using ulow len by (auto simp: in_set_conv_nth)
  from val_bounds [OF this] have "0 \<le> val (take 15 u) \<and> val (take 15 u) < 2 ^ 240" using len by simp
  ultimately have neg: "v < 0 \<longleftrightarrow> val t < P25519"
    using uv sign_of_digits [of "val (take 15 u)" "2 ^ 240" v] by auto
  have m0: "chk64 (t ! 0 - 0xffed) = Some (t ! 0 - 0xffed)" using t0 by (intro chk64_Some) auto
  have "pack_round t = Some (fst (cswap t u (1 - b)))"
    unfolding pack_round_def m0 bind.bind_lunit m v_def [symmetric] v Let_def
    using len by (simp add: u_def b_def)
  also have "fst (cswap t u (1 - b)) = (if v < 0 then t else u)"
    using cswap_spec [OF t0(3) len(2), of "1 - b"] b by auto
  finally have run: "pack_round t = Some (if v < 0 then t else u)" .
  have "limbs u" if "\<not> v < 0"
    unfolding limbs_def
  proof (intro conjI allI impI)
    fix i :: nat assume "i < 16"
    then have "i < 15 \<or> i = 15" by arith
    then show "0 \<le> u ! i" "u ! i < 2 ^ 16" using ulow u15 vb that by auto
  qed (rule len)
  then show ?thesis using run neg uv t by auto
qed

text \<open>The bytes of a number, least significant first.\<close>

primrec le_val :: "u8 list \<Rightarrow> int" where
  "le_val [] = 0"
| "le_val (x # xs) = uint x + 256 * le_val xs"

lemma limb_bytes:
  assumes "0 \<le> x" "x < 2 ^ 16"
  shows "uint (word_of_int (x AND 0xff) :: u8) + 256 * uint (word_of_int (drop_bit 8 x) :: u8) = x"
proof -
  have "x AND 0xff = x mod 256"
    using take_bit_eq_mask [of 8 x] by (simp add: take_bit_eq_mod mask_eq_exp_minus_1 and.commute)
  moreover have "drop_bit 8 x = x div 256" "0 \<le> x div 256" "x div 256 < 256"
    using assms by (simp_all add: drop_bit_eq_div pos_imp_zdiv_nonneg_iff)
  ultimately show ?thesis by (simp add: uint_word_of_int)
qed

lemma limbs_bytes:
  assumes "\<forall>x\<in>set xs. 0 \<le> x \<and> x < 2 ^ 16"
  shows "le_val (concat (map (\<lambda>x. [word_of_int (x AND 0xff), word_of_int (drop_bit 8 x)]) xs)) = val xs"
  using assms
proof (induction xs)
  case (Cons x xs)
  then show ?case using limb_bytes [of x] by (simp add: algebra_simps)
qed simp

lemma carry_limbs:
  assumes "limbs w"
  shows "\<exists>w'. carry w = Some w' \<and> limbs w' \<and> val w' = val w"
proof -
  have "length w = 16" "\<forall>i<16. \<bar>w ! i\<bar> \<le> 2 ^ 16" "(2::int) ^ 16 \<le> 2 ^ 56" using assms by (auto simp: limbs_def)
  from carry_spec [OF this] obtain u where
    u: "carry w = Some (u[0 := u ! 0 + 38 * (val w div 2 ^ 256)])" "limbs u" "val u = val w mod 2 ^ 256" by blast
  moreover have "val w div 2 ^ 256 = 0" "val w mod 2 ^ 256 = val w" using val_limbs [OF assms] by auto
  ultimately show ?thesis by (intro exI [of _ u]) (simp only: list_update_id add_0_right mult_zero_right)
qed

lemma val_head:
  assumes "length x = 16" "\<forall>i. 0 < i \<and> i < 16 \<longrightarrow> 0 \<le> x ! i \<and> x ! i < 2 ^ 16"
  shows "\<exists>h. val x = x ! 0 + 2 ^ 16 * h \<and> 0 \<le> h \<and> h < 2 ^ 240"
proof -
  obtain y ys where x: "x = y # ys" using assms(1) by (cases x) auto
  have "\<forall>z\<in>set ys. 0 \<le> z \<and> z < 2 ^ 16"
    using assms unfolding x by (force simp: in_set_conv_nth)
  from val_bounds [OF this] have "0 \<le> val ys \<and> val ys < 2 ^ 240" using assms(1) by (simp add: x)
  then show ?thesis by (intro exI [of _ "val ys"]) (simp add: x)
qed

lemma limbs_update0: "limbs u \<Longrightarrow> 0 \<le> v \<Longrightarrow> v < 2 ^ 16 \<Longrightarrow> limbs (u[0 := v])"
  by (auto simp: limbs_def nth_list_update)

text \<open>One pass is enough to bring a product to sixteen digits.\<close>

lemma carry_reduced:
  assumes "reduced x"
  shows "\<exists>w. carry x = Some w \<and> limbs w \<and> val w mod P25519 = val x mod P25519"
proof -
  have b: "length x = 16" "\<forall>i<16. \<bar>x ! i\<bar> \<le> 2 ^ 18" "(2::int) ^ 18 \<le> 2 ^ 56"
    using reduced_small [OF assms] by (auto simp: small_def)
  from carry_spec [OF b] obtain u where
    u: "carry x = Some (u[0 := u ! 0 + 38 * (val x div 2 ^ 256)])" "limbs u" "val u = val x mod 2 ^ 256" by blast
  define k where "k = val x div 2 ^ 256"
  obtain h where h: "val x = x ! 0 + 2 ^ 16 * h" "0 \<le> h" "h < 2 ^ 240"
    using val_head [of x] assms unfolding reduced_def by blast
  have x0: "- 38 \<le> x ! 0" "x ! 0 \<le> 65573" using assms by (auto simp: reduced_def)
  have V: "- 38 \<le> val x" "val x \<le> 2 ^ 256 + 37" using h x0 by simp_all
  have u0: "0 \<le> u ! 0" "u ! 0 < 2 ^ 16" "length u = 16" using u(2) by (auto simp: limbs_def)
  obtain g where g: "val u = u ! 0 + 2 ^ 16 * g" "0 \<le> g" "g < 2 ^ 240"
    using val_head [of u] u(2) unfolding limbs_def by blast
  have split: "val u = val x - k * 2 ^ 256" unfolding u(3) k_def by (simp only: minus_div_mult_eq_mod)
  have vu: "0 \<le> val u" "val u < 2 ^ 256" using val_limbs [OF u(2)] by auto
  have "- 2 < k" "k < 2" using split vu V by simp_all
  then consider "k = 0" | "k = 1" | "k = - 1" by fastforce
  then have "limbs (u[0 := u ! 0 + 38 * k])"
  proof cases
    case 1
    then show ?thesis using u(2) by simp
  next
    case 2
    then have "val u \<le> 37" using split V by simp
    then show ?thesis using 2 g(1,2) u0 by (intro limbs_update0 [OF u(2)]) auto
  next
    case 3
    then have "2 ^ 256 - 38 \<le> val u" using split V by simp
    then show ?thesis using 3 g(1,3) u0 by (intro limbs_update0 [OF u(2)]) auto
  qed
  then show ?thesis using u carry_mod [OF u(2,3)] unfolding k_def by blast
qed

lemma pack_spec:
  assumes "reduced x"
  shows "\<exists>bs. pack x = Some bs \<and> length bs = 32 \<and> le_val bs = val x mod P25519"
proof -
  from carry_reduced [OF assms] obtain t1 where t1: "carry x = Some t1" "limbs t1" "val t1 mod P25519 = val x mod P25519" by blast
  from carry_limbs [OF t1(2)] obtain t2 where t2: "carry t1 = Some t2" "limbs t2" "val t2 = val t1" by blast
  from carry_limbs [OF t2(2)] obtain t3 where t3: "carry t2 = Some t3" "limbs t3" "val t3 = val t2" by blast
  from pack_round_spec [OF t3(2)] obtain t4 where t4: "pack_round t3 = Some t4" "limbs t4"
    "val t4 = (if val t3 < P25519 then val t3 else val t3 - P25519)" by blast
  from pack_round_spec [OF t4(2)] obtain t5 where t5: "pack_round t4 = Some t5" "limbs t5"
    "val t5 = (if val t4 < P25519 then val t4 else val t4 - P25519)" by blast
  let ?bs = "concat (map (\<lambda>i. [word_of_int (t5 ! i AND 0xff), word_of_int (drop_bit 8 (t5 ! i))]) [0..<16]) :: u8 list"
  have "pack x = Some ?bs" unfolding pack_def t1(1) t2(1) t3(1) t4(1) t5(1) bind.bind_lunit ..
  moreover have "length ?bs = 32" by (subst length_concat_blocks [where k = 2]) simp_all
  moreover have "le_val ?bs = val t5"
  proof -
    have l5: "length t5 = 16" "\<forall>x\<in>set t5. 0 \<le> x \<and> x < 2 ^ 16" using t5(2) by (auto simp: limbs_def in_set_conv_nth)
    have "?bs = concat (map (\<lambda>x. [word_of_int (x AND 0xff), word_of_int (drop_bit 8 x)]) (map (\<lambda>i. t5 ! i) [0..<16]))"
      by (simp only: map_map comp_def)
    then show ?thesis using limbs_bytes [OF l5(2)] map_nth16 [OF l5(1)] by simp
  qed
  moreover have "val t5 = val x mod P25519"
  proof -
    have t3b: "0 \<le> val t3" "val t3 < 2 * P25519 + 38"
      using val_limbs [OF t3(2)] unfolding P25519_256 by blast+
    have p: "38 < P25519" by (simp add: P25519_def)
    have "0 \<le> val t4" "val t4 < P25519 + 38" using t3b p t4(3) by (simp_all split: if_splits)
    then have "0 \<le> val t5" "val t5 < P25519" using p t5(3) by (simp_all split: if_splits)
    moreover have "val t4 mod P25519 = val t3 mod P25519" "val t5 mod P25519 = val t4 mod P25519"
      by (simp add: t4(3), subst t5(3), simp)
    then have "val t5 mod P25519 = val x mod P25519" using t1(3) t2(3) t3(3) by simp
    ultimately show ?thesis by simp
  qed
  ultimately show ?thesis by (intro exI [of _ ?bs]) simp
qed

end
