(* ===== verification/Curve25519.thy ===== *)
theory Curve25519
  imports Field25519
begin

text \<open>
  Key generation (\<open>wireguard.c\<close>, \<open>clamp_key\<close> to \<open>wg_generate_preshared_key\<close>): the
  Montgomery ladder on Curve25519 over the field arithmetic of \<open>Field25519\<close>, refined to the
  reference ladder of integers modulo the prime, and the collection of random bytes from the
  system. The entropy sources are parameters.
\<close>

section \<open>The ladder\<close>

type_synonym key_bytes = "u8 list"

definition clamp_key :: "key_bytes \<Rightarrow> key_bytes" where
  "clamp_key z = (let z = z[31 := (z ! 31 AND 127) OR 64] in z[0 := z ! 0 AND 248])"

record ladder =
  la :: fe
  lb :: fe
  lc :: fe
  ld :: fe

definition ladder_step :: "key_bytes \<Rightarrow> ladder \<Rightarrow> nat \<Rightarrow> ladder option" where
  "ladder_step z st i = do {
     let r = drop_bit (i mod 8) (uint (z ! (i div 8))) AND 1;
     let (a, b) = cswap (la st) (lb st) r;
     let (c, d) = cswap (lc st) (ld st) r;
     e \<leftarrow> fe_add a c;
     a \<leftarrow> fe_subtract a c;
     c \<leftarrow> fe_add b d;
     b \<leftarrow> fe_subtract b d;
     d \<leftarrow> multmod e e;
     f \<leftarrow> multmod a a;
     a \<leftarrow> multmod c a;
     c \<leftarrow> multmod b e;
     e \<leftarrow> fe_add a c;
     a \<leftarrow> fe_subtract a c;
     b \<leftarrow> multmod a a;
     c \<leftarrow> fe_subtract d f;
     a \<leftarrow> multmod c (0xdb41 # 1 # replicate 14 0);
     a \<leftarrow> fe_add a d;
     c \<leftarrow> multmod c a;
     a \<leftarrow> multmod d f;
     d \<leftarrow> multmod b (9 # replicate 15 0);
     b \<leftarrow> multmod e e;
     let (a, b) = cswap a b r;
     let (c, d) = cswap c d r;
     Some \<lparr>la = a, lb = b, lc = c, ld = d\<rparr> }"

definition ladder_start :: ladder where
  "ladder_start = \<lparr>la = 1 # replicate 15 0, lb = 9 # replicate 15 0, lc = replicate 16 0, ld = 1 # replicate 15 0\<rparr>"

definition wg_generate_public_key :: "key_bytes \<Rightarrow> key_bytes option" where
  "wg_generate_public_key private_key = do {
     let z = clamp_key private_key;
     st \<leftarrow> c_fold (ladder_step z) ladder_start (rev [0..<255]);
     c \<leftarrow> invert (lc st);
     a \<leftarrow> multmod (la st) c;
     pack a }"

section \<open>Random keys\<close>

text \<open>
  The results of the system calls: \<open>getentropy\<close> (\<open>None\<close> when it is missing or fails),
  the bytes the \<open>getrandom\<close> system call delivered, whether \<open>/dev/urandom\<close> opens, and the
  bytes successive reads deliver. A failed assertion is \<open>None\<close>.
\<close>

record entropy =
  ent_getentropy :: "key_bytes option"
  ent_getrandom :: "u8 list"
  ent_open :: bool
  ent_reads :: "u8 list list"

fun read_urandom :: "u8 list list \<Rightarrow> u8 list \<Rightarrow> key_bytes option" where
  "read_urandom reads key =
     (if length key < 32 then
        (case reads of
           [] \<Rightarrow> None
         | bs # rest \<Rightarrow>
             let ret = take (32 - length key) bs in
             if ret = [] then None else read_urandom rest (key @ ret))
      else Some key)"

definition wg_generate_preshared_key :: "entropy \<Rightarrow> key_bytes option" where
  "wg_generate_preshared_key env =
     (case ent_getentropy env of
        Some key \<Rightarrow> Some key
      | None \<Rightarrow>
          if length (ent_getrandom env) = 32 then Some (ent_getrandom env)
          else if \<not> ent_open env then None
          else read_urandom (ent_reads env) [])"

definition wg_generate_private_key :: "entropy \<Rightarrow> key_bytes option" where
  "wg_generate_private_key env = map_option clamp_key (wg_generate_preshared_key env)"

section \<open>The contract of the field arithmetic\<close>

text \<open>
  A representation of residues: \<open>red\<close> holds of products, \<open>small\<close> of what may be
  multiplied, \<open>v\<close> is the number represented.
\<close>

locale residue_arith =
  fixes add sub mul :: "'f \<Rightarrow> 'f \<Rightarrow> 'f option" and red small :: "'f \<Rightarrow> bool" and v :: "'f \<Rightarrow> int" and p :: int
  assumes add_law: "red a \<Longrightarrow> red b \<Longrightarrow> \<exists>r. add a b = Some r \<and> small r \<and> v r = v a + v b"
    and sub_law: "red a \<Longrightarrow> red b \<Longrightarrow> \<exists>r. sub a b = Some r \<and> small r \<and> v r = v a - v b"
    and mul_law: "small a \<Longrightarrow> small b \<Longrightarrow> \<exists>r. mul a b = Some r \<and> red r \<and> v r mod p = v a * v b mod p"
    and red_small: "red a \<Longrightarrow> small a"
begin

definition rep :: "'f \<Rightarrow> int \<Rightarrow> bool" where
  "rep a x \<longleftrightarrow> red a \<and> v a mod p = x mod p"

definition wide :: "'f \<Rightarrow> int \<Rightarrow> bool" where
  "wide a x \<longleftrightarrow> small a \<and> v a mod p = x mod p"

lemma rep_wide: "rep a x \<Longrightarrow> wide a x"
  by (simp add: rep_def wide_def red_small)

lemma add_rep: "rep a x \<Longrightarrow> rep b y \<Longrightarrow> \<exists>r. add a b = Some r \<and> wide r (x + y)"
  unfolding rep_def wide_def using add_law [of a b] mod_add_cong [of "v a" p x "v b" y] by auto

lemma sub_rep: "rep a x \<Longrightarrow> rep b y \<Longrightarrow> \<exists>r. sub a b = Some r \<and> wide r (x - y)"
  unfolding rep_def wide_def using sub_law [of a b] mod_diff_cong [of "v a" p x "v b" y] by auto

lemma mul_rep: "wide a x \<Longrightarrow> wide b y \<Longrightarrow> \<exists>r. mul a b = Some r \<and> rep r (x * y)"
  unfolding rep_def wide_def using mul_law [of a b] mod_mult_cong [of "v a" p x "v b" y] by auto

lemma square_rep: "wide a x \<Longrightarrow> \<exists>r. mul a a = Some r \<and> rep r (x * x)"
  by (rule mul_rep)

lemma rep_mod: "rep a (x mod p) \<longleftrightarrow> rep a x"
  by (simp add: rep_def)

end

interpretation fe: residue_arith fe_add fe_subtract multmod reduced small val P25519
proof
  fix a b
  show "\<exists>r. fe_add a b = Some r \<and> small r \<and> val r = val a + val b" if "reduced a" "reduced b"
    using that by (rule fe_add_spec)
  show "\<exists>r. fe_subtract a b = Some r \<and> small r \<and> val r = val a - val b" if "reduced a" "reduced b"
    using that by (rule fe_subtract_spec)
  show "\<exists>r. multmod a b = Some r \<and> reduced r \<and> val r mod P25519 = val a * val b mod P25519" if "small a" "small b"
    using that by (rule multmod_spec)
  show "small a" if "reduced a" using that by (rule reduced_small)
qed

section \<open>The reference ladder\<close>

definition xdbl :: "int \<times> int \<Rightarrow> int \<times> int" where
  "xdbl P = (case P of (x, z) \<Rightarrow>
     let aa = (x + z) * (x + z); bb = (x - z) * (x - z); e = aa - bb in
     (aa * bb mod P25519, e * (e * 121665 + aa) mod P25519))"

definition xadd :: "int \<times> int \<Rightarrow> int \<times> int \<Rightarrow> int \<times> int" where
  "xadd P Q = (case (P, Q) of ((x2, z2), (x3, z3)) \<Rightarrow>
     let da = (x3 - z3) * (x2 + z2); cb = (x3 + z3) * (x2 - z2) in
     ((cb + da) * (cb + da) mod P25519, (cb - da) * (cb - da) * 9 mod P25519))"

text \<open>Double-and-add, from the most significant bit: the two points differ by the base point.\<close>

definition ref_step :: "int \<Rightarrow> (int \<times> int) \<times> (int \<times> int) \<Rightarrow> nat \<Rightarrow> (int \<times> int) \<times> (int \<times> int)" where
  "ref_step k PQ i = (case PQ of (P, Q) \<Rightarrow>
     if k div 2 ^ i mod 2 = 1 then (xadd P Q, xdbl Q) else (xdbl P, xadd P Q))"

definition x25519_base :: "int \<Rightarrow> int" where
  "x25519_base k =
     (case foldl (ref_step k) ((1, 0), (9, 1)) (rev [0..<255]) of
        ((x, z), _) \<Rightarrow> x * z ^ (2 ^ 255 - 21) mod P25519)"

lemma xadd_commute: "xadd P Q = xadd Q P"
  by (cases P; cases Q) (simp add: xadd_def Let_def algebra_simps)

section \<open>Refinement\<close>

definition rep_state :: "ladder \<Rightarrow> (int \<times> int) \<times> (int \<times> int) \<Rightarrow> bool" where
  "rep_state st PQ \<longleftrightarrow> (case PQ of ((x2, z2), (x3, z3)) \<Rightarrow>
     fe.rep (la st) x2 \<and> fe.rep (lc st) z2 \<and> fe.rep (lb st) x3 \<and> fe.rep (ld st) z3)"

definition ladder_core :: "fe \<Rightarrow> fe \<Rightarrow> fe \<Rightarrow> fe \<Rightarrow> (fe \<times> fe \<times> fe \<times> fe) option" where
  "ladder_core a b c d = do {
     e \<leftarrow> fe_add a c;
     a \<leftarrow> fe_subtract a c;
     c \<leftarrow> fe_add b d;
     b \<leftarrow> fe_subtract b d;
     d \<leftarrow> multmod e e;
     f \<leftarrow> multmod a a;
     a \<leftarrow> multmod c a;
     c \<leftarrow> multmod b e;
     e \<leftarrow> fe_add a c;
     a \<leftarrow> fe_subtract a c;
     b \<leftarrow> multmod a a;
     c \<leftarrow> fe_subtract d f;
     a \<leftarrow> multmod c (0xdb41 # 1 # replicate 14 0);
     a \<leftarrow> fe_add a d;
     c \<leftarrow> multmod c a;
     a \<leftarrow> multmod d f;
     d \<leftarrow> multmod b (9 # replicate 15 0);
     b \<leftarrow> multmod e e;
     Some (a, b, c, d) }"

lemma ladder_step_core:
  "ladder_step z st i =
     (let r = drop_bit (i mod 8) (uint (z ! (i div 8))) AND 1;
          (a, b) = cswap (la st) (lb st) r; (c, d) = cswap (lc st) (ld st) r in do {
      (a, b, c, d) \<leftarrow> ladder_core a b c d;
      let (a, b) = cswap a b r;
      let (c, d) = cswap c d r;
      Some \<lparr>la = a, lb = b, lc = c, ld = d\<rparr> })"
  unfolding ladder_step_def ladder_core_def Let_def by (simp add: case_prod_unfold)

lemma small_constants: "fe.wide (0xdb41 # 1 # replicate 14 0) 121665" "fe.wide (9 # replicate 15 0) 9"
  unfolding fe.wide_def small_def by (simp_all add: nth_Cons' less_Suc_eq numeral_eq_Suc)

lemma ladder_core_spec:
  assumes "fe.rep a x2" "fe.rep b x3" "fe.rep c z2" "fe.rep d z3"
  shows "\<exists>a' b' c' d'. ladder_core a b c d = Some (a', b', c', d') \<and>
    fe.rep a' (fst (xdbl (x2, z2))) \<and> fe.rep c' (snd (xdbl (x2, z2))) \<and>
    fe.rep b' (fst (xadd (x2, z2) (x3, z3))) \<and> fe.rep d' (snd (xadd (x2, z2) (x3, z3)))"
proof -
  obtain e1 where e1: "fe_add a c = Some e1" "fe.wide e1 (x2 + z2)" using fe.add_rep assms by blast
  obtain a1 where a1: "fe_subtract a c = Some a1" "fe.wide a1 (x2 - z2)" using fe.sub_rep assms by blast
  obtain c1 where c1: "fe_add b d = Some c1" "fe.wide c1 (x3 + z3)" using fe.add_rep assms by blast
  obtain b1 where b1: "fe_subtract b d = Some b1" "fe.wide b1 (x3 - z3)" using fe.sub_rep assms by blast
  let ?aa = "(x2 + z2) * (x2 + z2)" and ?bb = "(x2 - z2) * (x2 - z2)"
  let ?cb = "(x3 + z3) * (x2 - z2)" and ?da = "(x3 - z3) * (x2 + z2)"
  obtain d1 where d1: "multmod e1 e1 = Some d1" "fe.rep d1 ?aa" using fe.square_rep e1(2) by blast
  obtain f1 where f1: "multmod a1 a1 = Some f1" "fe.rep f1 ?bb" using fe.square_rep a1(2) by blast
  obtain a2 where a2: "multmod c1 a1 = Some a2" "fe.rep a2 ?cb" using fe.mul_rep c1(2) a1(2) by blast
  obtain c2 where c2: "multmod b1 e1 = Some c2" "fe.rep c2 ?da" using fe.mul_rep b1(2) e1(2) by blast
  obtain e2 where e2: "fe_add a2 c2 = Some e2" "fe.wide e2 (?cb + ?da)" using fe.add_rep a2(2) c2(2) by blast
  obtain a3 where a3: "fe_subtract a2 c2 = Some a3" "fe.wide a3 (?cb - ?da)" using fe.sub_rep a2(2) c2(2) by blast
  obtain b2 where b2: "multmod a3 a3 = Some b2" "fe.rep b2 ((?cb - ?da) * (?cb - ?da))" using fe.square_rep a3(2) by blast
  obtain c3 where c3: "fe_subtract d1 f1 = Some c3" "fe.wide c3 (?aa - ?bb)" using fe.sub_rep d1(2) f1(2) by blast
  obtain a4 where a4: "multmod c3 (0xdb41 # 1 # replicate 14 0) = Some a4" "fe.rep a4 ((?aa - ?bb) * 121665)"
    using fe.mul_rep [OF c3(2) small_constants(1)] by blast
  obtain a5 where a5: "fe_add a4 d1 = Some a5" "fe.wide a5 ((?aa - ?bb) * 121665 + ?aa)" using fe.add_rep a4(2) d1(2) by blast
  obtain c4 where c4: "multmod c3 a5 = Some c4" "fe.rep c4 ((?aa - ?bb) * ((?aa - ?bb) * 121665 + ?aa))"
    using fe.mul_rep c3(2) a5(2) by blast
  obtain a6 where a6: "multmod d1 f1 = Some a6" "fe.rep a6 (?aa * ?bb)"
    using fe.mul_rep fe.rep_wide d1(2) f1(2) by blast
  obtain d2 where d2: "multmod b2 (9 # replicate 15 0) = Some d2" "fe.rep d2 ((?cb - ?da) * (?cb - ?da) * 9)"
    using fe.mul_rep [OF fe.rep_wide small_constants(2)] b2(2) by blast
  obtain b3 where b3: "multmod e2 e2 = Some b3" "fe.rep b3 ((?cb + ?da) * (?cb + ?da))" using fe.square_rep e2(2) by blast
  have "ladder_core a b c d = Some (a6, b3, c4, d2)"
    unfolding ladder_core_def
    by (simp only: bind.bind_lunit e1 a1 c1 b1 d1 f1 a2 c2 e2 a3 b2 c3 a4 a5 c4 a6 d2 b3)
  then show ?thesis
    using a6(2) b3(2) c4(2) d2(2) by (simp add: xdbl_def xadd_def Let_def fe.rep_mod)
qed

lemma rep_length: "fe.rep a x \<Longrightarrow> length a = 16"
  by (simp add: fe.rep_def reduced_def)

lemma ladder_step_spec:
  assumes rep: "rep_state st PQ" and bit: "drop_bit (i mod 8) (uint (z ! (i div 8))) AND 1 = k div 2 ^ i mod 2"
  shows "\<exists>st'. ladder_step z st i = Some st' \<and> rep_state st' (ref_step k PQ i)"
proof -
  obtain x2 z2 x3 z3 where PQ: "PQ = ((x2, z2), (x3, z3))" by (cases PQ) auto
  have R: "fe.rep (la st) x2" "fe.rep (lc st) z2" "fe.rep (lb st) x3" "fe.rep (ld st) z3"
    using rep by (auto simp: rep_state_def PQ)
  define r where "r = drop_bit (i mod 8) (uint (z ! (i div 8))) AND 1"
  have r: "r = 0 \<or> r = 1" "r = k div 2 ^ i mod 2" using bit by (auto simp: r_def)
  note sw = cswap_spec [OF rep_length rep_length r(1)]
  show ?thesis
  proof (cases "r = 1")
    case True
    obtain a b c d where core: "ladder_core (lb st) (la st) (ld st) (lc st) = Some (a, b, c, d)"
      "fe.rep a (fst (xdbl (x3, z3)))" "fe.rep c (snd (xdbl (x3, z3)))"
      "fe.rep b (fst (xadd (x3, z3) (x2, z2)))" "fe.rep d (snd (xadd (x3, z3) (x2, z2)))"
      using ladder_core_spec [OF R(3,1,4,2)] by blast
    have "ladder_step z st i = Some \<lparr>la = b, lb = a, lc = d, ld = c\<rparr>"
      unfolding ladder_step_core r_def [symmetric] Let_def sw [OF R(1,3)] sw [OF R(2,4)]
      using True core(1) sw [OF core(2,4)] sw [OF core(3,5)] by simp
    then show ?thesis
      using core True r(2) xadd_commute [of "(x3, z3)"] by (simp add: rep_state_def ref_step_def PQ case_prod_unfold)
  next
    case False
    then have r0: "r = 0" using r(1) by simp
    obtain a b c d where core: "ladder_core (la st) (lb st) (lc st) (ld st) = Some (a, b, c, d)"
      "fe.rep a (fst (xdbl (x2, z2)))" "fe.rep c (snd (xdbl (x2, z2)))"
      "fe.rep b (fst (xadd (x2, z2) (x3, z3)))" "fe.rep d (snd (xadd (x2, z2) (x3, z3)))"
      using ladder_core_spec [OF R(1,3,2,4)] by blast
    have "ladder_step z st i = Some \<lparr>la = a, lb = b, lc = c, ld = d\<rparr>"
      unfolding ladder_step_core r_def [symmetric] Let_def sw [OF R(1,3)] sw [OF R(2,4)]
      using r0 core(1) sw [OF core(2,4)] sw [OF core(3,5)] by simp
    then show ?thesis using core r0 r(2) by (simp add: rep_state_def ref_step_def PQ case_prod_unfold)
  qed
qed

text \<open>The bits of the scalar are the bits of its bytes.\<close>

lemma le_val_bit:
  "i div 8 < length z \<Longrightarrow> drop_bit (i mod 8) (uint (z ! (i div 8))) AND 1 = le_val z div 2 ^ i mod 2"
proof (induction z arbitrary: i)
  case (Cons x xs)
  show ?case
  proof (cases "i < 8")
    case True
    then have "(256 :: int) = 2 ^ i * (2 * 2 ^ (7 - i))"
      using power_add [of "2 :: int" i "Suc (7 - i)"] by simp
    then have "le_val (x # xs) = 2 ^ i * (2 * (2 ^ (7 - i) * le_val xs)) + uint x"
      by (metis (no_types, opaque_lifting) add.commute le_val.simps(2) mult.assoc)
    then have "le_val (x # xs) div 2 ^ i = 2 * (2 ^ (7 - i) * le_val xs) + uint x div 2 ^ i"
      by (simp only: div_mult_self4 power_not_zero) simp
    then have "le_val (x # xs) div 2 ^ i mod 2 = uint x div 2 ^ i mod 2" by (simp only: mod_mult_self4)
    then show ?thesis using True by (simp add: drop_bit_eq_div and_one_eq)
  next
    case False
    then obtain j where j: "i = j + 8" by (metis add.commute le_Suc_ex not_less)
    have "(x2 + 256 * y) div 2 ^ (j + 8) = y div 2 ^ j" if "0 \<le> x2" "x2 < 256" for x2 y :: int
    proof -
      have "(2 :: int) ^ (j + 8) = 256 * 2 ^ j" by (simp add: power_add)
      then have "(x2 + 256 * y) div 2 ^ (j + 8) = (x2 + 256 * y) div 256 div 2 ^ j" by (simp only: zdiv_zmult2_eq zero_le_power)
      then show ?thesis using that by simp
    qed
    from this [of "uint x" "le_val xs"] have "le_val (x # xs) div 2 ^ i = le_val xs div 2 ^ j"
      using uint_bounded [of x] by (simp add: j)
    moreover have "i div 8 = Suc (j div 8)" "i mod 8 = j mod 8" by (simp_all add: j)
    ultimately show ?thesis using Cons.IH [of j] Cons.prems by simp
  qed
qed simp

lemma ladder_loop:
  assumes "length z = 32"
  shows "n \<le> 255 \<Longrightarrow> \<exists>st. c_fold (ladder_step z) ladder_start (rev [n..<255]) = Some st \<and>
    rep_state st (foldl (ref_step (le_val z)) ((1, 0), (9, 1)) (rev [n..<255]))"
proof (induction "255 - n" arbitrary: n)
  case 0
  have "reduced (x # replicate 15 0)" if "x \<in> {0, 1, 9}" for x
    using that by (auto simp: reduced_def nth_Cons')
  moreover have "replicate 16 0 = (0 :: int) # replicate 15 0" by (simp add: numeral_eq_Suc)
  ultimately have "rep_state ladder_start ((1, 0), (9, 1))"
    by (simp add: rep_state_def ladder_start_def fe.rep_def)
  then show ?case using 0 by simp
next
  case (Suc m)
  then have n: "n < 255" "m = 255 - Suc n" "Suc n \<le> 255" by auto
  from Suc.hyps(1) [OF n(2,3)] obtain st where
    st: "c_fold (ladder_step z) ladder_start (rev [Suc n..<255]) = Some st"
      "rep_state st (foldl (ref_step (le_val z)) ((1, 0), (9, 1)) (rev [Suc n..<255]))" by blast
  have "n div 8 < length z" using n assms by simp
  from ladder_step_spec [OF st(2) le_val_bit [OF this]] st(1) n(1) show ?case
    by (simp add: upt_conv_Cons c_fold_append del: upt_Suc)
qed

section \<open>Clamping\<close>

lemma le_val_update: "i < length xs \<Longrightarrow> le_val (xs[i := x]) = le_val xs + (uint x - uint (xs ! i)) * 256 ^ i"
proof (induction xs arbitrary: i)
  case (Cons y xs)
  show ?case
  proof (cases i)
    case (Suc n)
    then have "le_val (xs[n := x]) = le_val xs + (uint x - uint (xs ! n)) * 256 ^ n" using Cons by simp
    then show ?thesis using Suc by (simp only: power_Suc) (simp add: algebra_simps)
  qed simp
qed simp

lemma le_val_append: "le_val (xs @ ys) = le_val xs + 256 ^ length xs * le_val ys"
  by (induction xs) (auto simp: algebra_simps)

lemma le_val_range: "0 \<le> le_val xs \<and> le_val xs < 256 ^ length xs"
proof (induction xs)
  case (Cons x xs)
  have "0 \<le> uint x" "uint x < 256" using uint_bounded [of x] by simp_all
  then show ?case using Cons by simp
qed simp

lemma clamp_bytes: "\<forall>x\<in>set [0..255]. x AND 248 = x - x mod 8 \<and> (x AND 127) OR 64 = x mod 64 + (64 :: int)"
  by code_simp

lemma clamp_u8:
  "uint ((x :: u8) AND 248) = uint x - uint x mod 8" "uint ((x AND 127) OR 64 :: u8) = uint x mod 64 + 64"
proof -
  have "uint x \<in> set [0..255]" using uint_bounded [of x] by simp
  then show "uint (x AND 248) = uint x - uint x mod 8" "uint ((x AND 127) OR 64) = uint x mod 64 + 64"
    using clamp_bytes by (simp_all add: unsigned_and_eq unsigned_or_eq)
qed

definition clamp_scalar :: "int \<Rightarrow> int" where
  "clamp_scalar k = 2 ^ 254 + 8 * (k div 8 mod 2 ^ 251)"

text \<open>The clamped scalar, split at the top byte.\<close>

lemma clamp_scalar_split:
  assumes lo: "0 \<le> lo" "lo < 2 ^ 248"
  shows "clamp_scalar (lo + 2 ^ 248 * t) = lo - lo mod 8 + (t mod 64) * 2 ^ 248 + 2 ^ 254"
proof -
  let ?z = "lo + 2 ^ 248 * t" and ?w = "lo div 8 + 2 ^ 245 * (t mod 64)"
  have "?z = 8 * (2 ^ 245 * t) + lo" by simp
  then have "?z div 8 = lo div 8 + 2 ^ 245 * t" by (simp only: div_mult_self4)
  moreover have "2 ^ 245 * t = 2 ^ 245 * (t mod 64) + 2 ^ 251 * (t div 64)"
  proof -
    define q s where "q = t div 64" "s = t mod 64"
    then have "t = s + 64 * q" by simp
    then have "2 ^ 245 * t = 2 ^ 245 * s + 2 ^ 251 * q" by simp
    then show ?thesis unfolding q_s_def .
  qed
  ultimately have "?z div 8 = ?w + 2 ^ 251 * (t div 64)" by linarith
  moreover have "0 \<le> ?w" "?w < 2 ^ 251"
  proof -
    have "0 \<le> lo div 8" "lo div 8 < 2 ^ 245" using lo by (simp_all add: pos_imp_zdiv_nonneg_iff)
    moreover have "0 \<le> t mod 64" "t mod 64 \<le> 63" using pos_mod_bound [of 64 t] by simp_all
    ultimately show "0 \<le> ?w" "?w < 2 ^ 251" by simp_all
  qed
  ultimately have "?z div 8 mod 2 ^ 251 = ?w" by (simp only: mod_mult_self2 mod_pos_pos_trivial)
  then show ?thesis unfolding clamp_scalar_def by (simp add: minus_mod_eq_mult_div [symmetric])
qed

lemma le_val_clamp:
  assumes "length z = 32"
  shows "le_val (clamp_key z) = clamp_scalar (le_val z)"
proof -
  define lo where "lo = le_val (take 31 z)"
  define t where "t = uint (z ! 31)"
  have z: "z = take 31 z @ [z ! 31]" using assms take_Suc_conv_app_nth [of 31 z] by simp
  have L: "le_val z = lo + 2 ^ 248 * t"
    using le_val_append [of "take 31 z" "[z ! 31]"] z assms by (simp add: lo_def t_def)
  have lo: "0 \<le> lo" "lo < 2 ^ 248" using le_val_range [of "take 31 z"] assms by (simp_all add: lo_def)
  have lo8: "lo mod 8 = uint (z ! 0) mod 8"
  proof -
    obtain x xs where "take 31 z = x # xs" "x = z ! 0" using assms by (cases z) (auto simp: take_Cons')
    then have "lo = uint (z ! 0) + 8 * (32 * le_val xs)" by (simp add: lo_def)
    then show ?thesis by (simp only: mod_mult_self2)
  qed
  have "le_val (clamp_key z) = le_val z + (t mod 64 + 64 - t) * 2 ^ 248 - uint (z ! 0) mod 8"
    using assms by (simp add: clamp_key_def Let_def le_val_update clamp_u8 t_def)
  also have "\<dots> = lo - lo mod 8 + (t mod 64) * 2 ^ 248 + 2 ^ 254"
    unfolding L lo8 by (simp add: algebra_simps)
  also have "\<dots> = clamp_scalar (le_val z)" unfolding L by (rule clamp_scalar_split [OF lo, symmetric])
  finally show ?thesis .
qed

lemma clamp_scalar_idem: "clamp_scalar (clamp_scalar k) = clamp_scalar k"
proof -
  have "clamp_scalar k div 8 = k div 8 mod 2 ^ 251 + 2 ^ 251" by (simp add: clamp_scalar_def)
  then show ?thesis by (simp add: clamp_scalar_def)
qed

lemma length_clamp_key [simp]: "length (clamp_key z) = length z"
  by (simp add: clamp_key_def Let_def)

lemma public_key_spec:
  assumes "length key = 32"
  shows "\<exists>pub. wg_generate_public_key key = Some pub \<and> length pub = 32 \<and>
    le_val pub = x25519_base (clamp_scalar (le_val key))"
proof -
  let ?z = "clamp_key key"
  obtain st where st: "c_fold (ladder_step ?z) ladder_start (rev [0..<255]) = Some st"
    "rep_state st (foldl (ref_step (le_val ?z)) ((1, 0), (9, 1)) (rev [0..<255]))"
    using ladder_loop [of ?z 0] assms by auto
  obtain x2 z2 x3 z3 where PQ: "foldl (ref_step (le_val ?z)) ((1, 0), (9, 1)) (rev [0..<255]) = ((x2, z2), (x3, z3))"
    by (metis prod.collapse)
  have R: "fe.rep (la st) x2" "fe.rep (lc st) z2" using st(2) unfolding PQ by (simp_all add: rep_state_def)
  obtain c where c: "invert (lc st) = Some c" "reduced c" "val c mod P25519 = val (lc st) ^ (2 ^ 255 - 21) mod P25519"
    using invert_spec R(2) unfolding fe.rep_def by blast
  have "fe.rep c (z2 ^ (2 ^ 255 - 21))" using c R(2) unfolding fe.rep_def by (metis power_mod)
  then obtain a where a: "multmod (la st) c = Some a" "fe.rep a (x2 * z2 ^ (2 ^ 255 - 21))"
    using fe.mul_rep [OF fe.rep_wide [OF R(1)] fe.rep_wide] by blast
  obtain pub where pub: "pack a = Some pub" "length pub = 32" "le_val pub = val a mod P25519"
    using pack_spec a(2) unfolding fe.rep_def by blast
  have "wg_generate_public_key key = Some pub"
    unfolding wg_generate_public_key_def Let_def st(1) bind.bind_lunit c(1) a(1) pub(1) ..
  moreover have "le_val pub = x25519_base (le_val ?z)"
    using pub(3) a(2) unfolding x25519_base_def PQ by (simp add: fe.rep_def)
  ultimately show ?thesis using pub(2) le_val_clamp [OF assms] by auto
qed

section \<open>Reading random bytes\<close>

declare read_urandom.simps [simp del]

lemma read_urandom_length: "read_urandom reads key = Some k \<Longrightarrow> length key \<le> 32 \<Longrightarrow> length k = 32"
proof (induction reads key rule: read_urandom.induct)
  case (1 reads key)
  show ?case
  proof (cases "length key < 32")
    case True
    then obtain bs rest where r: "reads = bs # rest" using 1(2) by (cases reads) (auto simp: read_urandom.simps [of "[]"])
    let ?ret = "take (32 - length key) bs"
    have "?ret \<noteq> []" "read_urandom rest (key @ ?ret) = Some k"
      using 1(2) True r by (auto simp: read_urandom.simps [of "bs # rest"] Let_def split: if_splits)
    moreover have "length (key @ ?ret) \<le> 32" using True by simp
    ultimately show ?thesis using 1(1) [OF True r refl] by blast
  next
    case False
    then show ?thesis using 1 by (simp add: read_urandom.simps [of reads])
  qed
qed

text \<open>Enough non-empty reads fill the key.\<close>

lemma read_urandom_total:
  "32 \<le> length key + length reads \<Longrightarrow> [] \<notin> set reads \<Longrightarrow> \<exists>k. read_urandom reads key = Some k"
proof (induction reads key rule: read_urandom.induct)
  case (1 reads key)
  show ?case
  proof (cases "length key < 32")
    case True
    then obtain bs rest where r: "reads = bs # rest" using 1(2) by (cases reads) auto
    let ?ret = "take (32 - length key) bs"
    have ne: "?ret \<noteq> []" using 1(3) r True by auto
    then have "1 \<le> length ?ret" by (cases ?ret) auto
    then have "32 \<le> length (key @ ?ret) + length rest" using 1(2) r by (simp only: length_append list.size)
    then have "\<exists>k. read_urandom rest (key @ ?ret) = Some k" using 1(1) [OF True r refl ne] 1(3) r by simp
    then show ?thesis using True r ne by (simp add: read_urandom.simps [of "bs # rest"] Let_def)
  next
    case False
    then show ?thesis by (simp add: read_urandom.simps [of reads])
  qed
qed

lemma clamp_key_idem:
  assumes "length z = 32"
  shows "clamp_key (clamp_key z) = clamp_key z"
proof -
  have "(x AND 127 OR 64) AND 127 OR 64 = x AND 127 OR (64 :: u8)" for x :: u8
    unfolding word_uint_eq_iff clamp_u8 by simp
  moreover have "x AND 248 AND 248 = x AND (248 :: u8)" for x :: u8 by (simp add: and.assoc)
  ultimately show ?thesis using assms by (simp add: clamp_key_def Let_def list_update_swap)
qed

section \<open>Properties\<close>

text \<open>Claim C3: \<open>wg_generate_public_key\<close> never overflows a 64-bit limb and computes the function it
  stands for: read as numbers, the 32 bytes it returns are the canonical residue of the
  x-coordinate that the double-and-add ladder from the base point 9 reaches with the clamped
  private key, with the inverse taken as the power of \<open>p - 2\<close>.\<close>

theorem wg_generate_public_key_refines:
  assumes "length private_key = 32"
  shows "\<exists>pub. wg_generate_public_key private_key = Some pub \<and> length pub = 32 \<and>
    le_val pub = x25519_base (clamp_scalar (le_val private_key))"
  using assms by (rule public_key_spec)

lemma wg_generate_public_key_refines_witness:
  "length (replicate 32 7 :: key_bytes) = 32 \<and>
   (\<exists>pub. wg_generate_public_key (replicate 32 7) = Some pub \<and> length pub = 32 \<and>
     le_val pub = x25519_base (clamp_scalar (le_val (replicate 32 7))))"
  using wg_generate_public_key_refines [of "replicate 32 7"] by simp

text \<open>Claim C22: the product of limb lists with entries up to \<open>2 ^ 18\<close> in magnitude is computed
  without overflow; its limbs are back in the range of sixteen bits, up to 38 at the lowest one,
  and its value is the product modulo \<open>2 ^ 255 - 19\<close>.\<close>

theorem multmod_correct:
  assumes "length a = 16" "length b = 16" "\<forall>i<16. \<bar>a ! i\<bar> \<le> 2 ^ 18" "\<forall>i<16. \<bar>b ! i\<bar> \<le> 2 ^ 18"
  shows "\<exists>r. multmod a b = Some r \<and> length r = 16 \<and> (\<forall>i<16. - 38 \<le> r ! i \<and> r ! i \<le> 65573) \<and>
    val r mod (2 ^ 255 - 19) = val a * val b mod (2 ^ 255 - 19)"
proof -
  obtain r where r: "multmod a b = Some r" "reduced r" "val r mod P25519 = val a * val b mod P25519"
    using multmod_spec [of a b] assms by (auto simp: small_def)
  have "- 38 \<le> r ! i \<and> r ! i \<le> 65573" if "i < 16" for i
    using r(2) that by (cases "i = 0") (fastforce simp: reduced_def)+
  then show ?thesis using r by (auto simp: reduced_def P25519_def)
qed

lemma multmod_correct_witness:
  "length (replicate 16 65536 :: fe) = 16 \<and> length (replicate 16 3 :: fe) = 16 \<and>
   list_all (\<lambda>x. \<bar>x\<bar> \<le> 2 ^ 18) (replicate 16 65536 :: fe) \<and> list_all (\<lambda>x. \<bar>x\<bar> \<le> 2 ^ 18) (replicate 16 3 :: fe) \<and>
   (\<exists>r. multmod (replicate 16 65536) (replicate 16 3) = Some r \<and> length r = 16 \<and>
     list_all (\<lambda>x. - 38 \<le> x \<and> x \<le> 65573) r \<and>
     val r mod (2 ^ 255 - 19) = val (replicate 16 65536) * val (replicate 16 3) mod (2 ^ 255 - 19))"
proof -
  have hyps: "length (replicate 16 65536 :: fe) = 16" "length (replicate 16 3 :: fe) = 16"
    "\<forall>i<16. \<bar>replicate 16 65536 ! i\<bar> \<le> (2 :: int) ^ 18" "\<forall>i<16. \<bar>replicate 16 3 ! i\<bar> \<le> (2 :: int) ^ 18" by simp_all
  obtain r where "multmod (replicate 16 65536) (replicate 16 3) = Some r" "length r = 16"
    "\<forall>i<16. - 38 \<le> r ! i \<and> r ! i \<le> 65573"
    "val r mod (2 ^ 255 - 19) = val (replicate 16 65536) * val (replicate 16 3) mod (2 ^ 255 - 19)"
    using multmod_correct [OF hyps] by blast
  then show ?thesis unfolding list_all_length by (intro conjI exI [of _ r]) simp_all
qed

text \<open>Claim C36: a private key that \<open>wg_generate_private_key\<close> returns has 32 bytes and is clamped
  already, for every behaviour of the entropy sources that the system interfaces allow.\<close>

theorem wg_generate_private_key_clamped:
  assumes "wg_generate_private_key env = Some key" "\<And>k. ent_getentropy env = Some k \<Longrightarrow> length k = 32"
  shows "length key = 32 \<and> clamp_key key = key \<and> le_val key mod 8 = 0 \<and> 2 ^ 254 \<le> le_val key \<and> le_val key < 2 ^ 255"
proof -
  obtain k where k: "wg_generate_preshared_key env = Some k" "key = clamp_key k"
    using assms(1) by (auto simp: wg_generate_private_key_def)
  have len: "length k = 32"
    using k(1) assms(2) read_urandom_length [of "ent_reads env" "[]"]
    by (auto simp: wg_generate_preshared_key_def split: option.splits if_splits)
  have "0 \<le> x mod 2 ^ 251 \<and> x mod 2 ^ 251 < (2 :: int) ^ 251" for x by simp
  from this [of "le_val k div 8"] show ?thesis
    using k(2) clamp_key_idem [OF len] le_val_clamp [OF len] len by (simp add: clamp_scalar_def)
qed

lemma wg_generate_private_key_clamped_witness:
  "wg_generate_private_key \<lparr>ent_getentropy = Some (replicate 32 255), ent_getrandom = [], ent_open = False, ent_reads = []\<rparr> =
     Some (clamp_key (replicate 32 255)) \<and>
   length (clamp_key (replicate 32 255)) = 32 \<and> clamp_key (clamp_key (replicate 32 255)) = clamp_key (replicate 32 255) \<and>
   le_val (clamp_key (replicate 32 255)) mod 8 = 0 \<and> 2 ^ 254 \<le> le_val (clamp_key (replicate 32 255)) \<and>
   le_val (clamp_key (replicate 32 255)) < 2 ^ 255"
proof -
  let ?env = "\<lparr>ent_getentropy = Some (replicate 32 255), ent_getrandom = [], ent_open = False, ent_reads = []\<rparr>"
  have e: "wg_generate_private_key ?env = Some (clamp_key (replicate 32 255))"
    by (simp add: wg_generate_private_key_def wg_generate_preshared_key_def)
  have l: "ent_getentropy ?env = Some k \<Longrightarrow> length k = 32" for k by auto
  show ?thesis using wg_generate_private_key_clamped [OF e l] e by blast
qed

text \<open>Claim C37: with 32 non-empty reads the fallback to \<open>/dev/urandom\<close> ends with a whole key.\<close>

theorem wg_generate_preshared_key_terminates:
  assumes "ent_getentropy env = None" "ent_open env" "32 \<le> length (ent_reads env)" "[] \<notin> set (ent_reads env)"
  shows "\<exists>k. wg_generate_preshared_key env = Some k \<and> length k = 32"
proof -
  obtain k where "read_urandom (ent_reads env) [] = Some k" using read_urandom_total [of "[]"] assms(3,4) by auto
  then show ?thesis
    using assms(1,2) read_urandom_length [of "ent_reads env" "[]" k] by (auto simp: wg_generate_preshared_key_def)
qed

lemma wg_generate_preshared_key_terminates_witness:
  "ent_getentropy \<lparr>ent_getentropy = None, ent_getrandom = [], ent_open = True, ent_reads = replicate 32 [1]\<rparr> = None \<and>
   (\<exists>k. wg_generate_preshared_key
      \<lparr>ent_getentropy = None, ent_getrandom = [], ent_open = True, ent_reads = replicate 32 [1]\<rparr> = Some k \<and> length k = 32)"
  using wg_generate_preshared_key_terminates
    [of "\<lparr>ent_getentropy = None, ent_getrandom = [], ent_open = True, ent_reads = replicate 32 [1]\<rparr>"] by simp

end
