(* ===== verification/Wg_Host.thy ===== *)
theory Wg_Host
  imports Wg_Configure Wg_Links Curve25519
begin

text \<open>
  The other side of the library: a kernel that reads the requests, keeps WireGuard devices and answers from
  its state. It decodes attributes with a decoder of its own, refuses what it does not know, and reports
  what it knows about a device, which is not the request that configured it: the public key of a device is
  computed, and peers are reported with the attributes the kernel adds.
\<close>

section \<open>Decoding\<close>

function tlv :: "u8 list \<Rightarrow> (nat \<times> u8 list) list" where
  "tlv bs = (let n = le_nat (take 2 bs) in
     if 4 \<le> n \<and> n \<le> length bs
     then (le_nat (take 2 (drop 2 bs)) mod 2 ^ 14, take (n - 4) (drop 4 bs)) # tlv (drop (MNL_ALIGN n) bs)
     else [])"
  by pat_completeness auto
termination
proof (relation "measure length")
  fix bs :: "u8 list" and n
  assume "n = le_nat (take 2 bs)" "4 \<le> n \<and> n \<le> length bs"
  then show "(drop (MNL_ALIGN n) bs, bs) \<in> measure length" using align_ge [of n] by auto
qed simp

declare tlv.simps [simp del] mnlg_socket_recv_run.simps [simp del]

lemma tlv_attrs: "\<forall>a\<in>set as. attr_fits a \<Longrightarrow> tlv (attrs_bytes as) = map (\<lambda>(t, d). (t mod 2 ^ 14, d)) as"
proof (induction "as")
  case Nil
  then show ?case by (simp add: tlv.simps)
next
  case (Cons a "as")
  obtain t d where a: "a = (t, d)" by (cases a)
  let ?pad = "replicate (MNL_ALIGN (length d) - length d) (0 :: u8)"
  have fits: "t < 2 ^ 16" "length d < 2 ^ 16 - 4" using Cons.prems a by (auto simp: attr_fits_def)
  have bytes: "attrs_bytes (a # as) = le_bytes 2 (4 + length d) @ le_bytes 2 t @ d @ ?pad @ attrs_bytes as"
    by (simp add: a attr_bytes_def)
  have n: "le_nat (take 2 (attrs_bytes (a # as))) = 4 + length d" and ty: "le_nat (take 2 (drop 2 (attrs_bytes (a # as)))) = t"
    using fits unfolding bytes by (simp_all add: le_nat_bytes)
  have rest: "drop (MNL_ALIGN (4 + length d)) (attrs_bytes (a # as)) = attrs_bytes as"
    using align_ge [of "length d"] unfolding bytes by (simp add: align_add4)
  have "take (length d) (drop 4 (attrs_bytes (a # as))) = d" unfolding bytes by simp
  moreover have "4 + length d \<le> length (attrs_bytes (a # as))" unfolding bytes by simp
  moreover have "tlv (attrs_bytes as) = map (\<lambda>(t, d). (t mod 2 ^ 14, d)) as" using Cons by simp
  ultimately show ?case unfolding tlv.simps [of "attrs_bytes (a # as)"] n ty Let_def by (simp add: rest del: attrs_bytes_simps) (simp add: a)
qed

section \<open>Devices\<close>

text \<open>What the kernel keeps of a device: its private key if it was given one, its port and the keys of its peers.\<close>

record conf =
  cf_key :: "wg_key option"
  cf_port :: u16
  cf_peers :: "wg_key list"

text \<open>
  A peer of a request. Only what the example sends is understood: a public key and the flag that replaces
  allowed addresses, of which there are none. A known peer is kept.
\<close>

definition add_peer :: "(nat \<times> u8 list) list \<Rightarrow> wg_key list \<Rightarrow> wg_key list option" where
  "add_peer as ps =
     (case map_of as WGPEER_A_PUBLIC_KEY of
        None \<Rightarrow> None
      | Some key \<Rightarrow>
          if length key = 32 \<and> list_all (\<lambda>(t, d). t = WGPEER_A_PUBLIC_KEY \<or> t = WGPEER_A_FLAGS \<and> le_nat d = 2) as
          then Some (if key \<in> set ps then ps else ps @ [key]) else None)"

primrec add_peers :: "(nat \<times> u8 list) list list \<Rightarrow> wg_key list \<Rightarrow> wg_key list option" where
  "add_peers [] ps = Some ps"
| "add_peers (as # ass) ps = do { ps \<leftarrow> add_peer as ps; add_peers ass ps }"

text \<open>The attributes of a request, one after the other.\<close>

definition set_attr_conf :: "nat \<Rightarrow> u8 list \<Rightarrow> conf \<Rightarrow> conf option" where
  "set_attr_conf t v c =
     (if t = WGDEVICE_A_IFNAME then Some c
      else if t = WGDEVICE_A_PRIVATE_KEY \<and> length v = 32 then Some (c\<lparr>cf_key := Some v\<rparr>)
      else if t = WGDEVICE_A_LISTEN_PORT \<and> length v = 2 then Some (c\<lparr>cf_port := of_nat (le_nat v)\<rparr>)
      else if t = WGDEVICE_A_PEERS then do { ps \<leftarrow> add_peers (map (\<lambda>(_, p). tlv p) (tlv v)) (cf_peers c); Some (c\<lparr>cf_peers := ps\<rparr>) }
      else None)"

primrec set_conf :: "(nat \<times> u8 list) list \<Rightarrow> conf \<Rightarrow> conf option" where
  "set_conf [] c = Some c"
| "set_conf (a # as) c = do { c \<leftarrow> set_attr_conf (fst a) (snd a) c; set_conf as c }"

definition public_of :: "wg_key \<Rightarrow> wg_key" where
  "public_of key = le_bytes 32 (nat (x25519_base (clamp_scalar (le_val key))))"

section \<open>The kernel\<close>

text \<open>Other links, in the datagrams in which they are dumped, and the WireGuard devices in order of creation.\<close>

record host =
  ho_links :: "link list list"
  ho_wg :: "(u8 list \<times> conf) list"

definition EEXIST :: int where "EEXIST = 17"
definition ENODEV :: int where "ENODEV = 19"

definition msg_seq :: "u8 list \<Rightarrow> nat" where
  "msg_seq m = le_nat (take 4 (drop 8 m))"

definition host_reply :: "nat \<Rightarrow> int \<Rightarrow> u8 list \<Rightarrow> recv" where
  "host_reply portid e m = Recv_Data (nl_answer (msg_seq m) portid e m) False 12"

text \<open>Creating and deleting links of the WireGuard kind. The name is a string at a fixed place of the request.\<close>

definition host_rtnl :: "nat \<Rightarrow> host \<Rightarrow> u8 list \<Rightarrow> host \<times> (int + recv)" where
  "host_rtnl portid h m =
     (let name = takeWhile (\<lambda>b. b \<noteq> 0) (drop 36 m) in
      if m = iface_msg (msg_seq m) name True then
        (if name \<in> set (map fst (ho_wg h)) then (h, Inr (host_reply portid EEXIST m))
         else (h\<lparr>ho_wg := ho_wg h @ [(name, \<lparr>cf_key = None, cf_port = 0, cf_peers = []\<rparr>)]\<rparr>, Inr (host_reply portid 0 m)))
      else if m = iface_msg (msg_seq m) name False then
        (if name \<in> set (map fst (ho_wg h)) then (h\<lparr>ho_wg := filter (\<lambda>(n, c). n \<noteq> name) (ho_wg h)\<rparr>, Inr (host_reply portid 0 m))
         else (h, Inr (host_reply portid ENODEV m)))
      else (h, Inr (host_reply portid EINVAL m)))"

text \<open>Configuring a device.\<close>

definition host_set :: "mnlg_socket \<Rightarrow> host \<Rightarrow> u8 list \<Rightarrow> host \<times> (int + recv list)" where
  "host_set nlg h m =
     (let as = tlv (drop 20 m); refuse = (\<lambda>e. (h, Inr [host_reply (nlg_portid nlg) e m])) in
      if take 20 m \<noteq> nl_hdr (length m) (unat (nlg_id nlg)) 5 (msg_seq m) 0 @ [1, of_nat (nlg_version nlg), 0, 0] then refuse EINVAL
      else (case map_of as WGDEVICE_A_IFNAME of
              None \<Rightarrow> refuse EINVAL
            | Some v \<Rightarrow>
                let name = takeWhile (\<lambda>b. b \<noteq> 0) v in
                (case map_of (ho_wg h) name of
                   None \<Rightarrow> refuse ENODEV
                 | Some c \<Rightarrow>
                     (case set_conf as c of
                        None \<Rightarrow> refuse EINVAL
                      | Some c \<Rightarrow> (h\<lparr>ho_wg := map (\<lambda>(n, b). (n, if n = name then c else b)) (ho_wg h)\<rparr>,
                                   Inr [Recv_Data (nl_ack (nlg_portid nlg) m) False 12])))))"

text \<open>The dump of all links.\<close>

definition wg_link :: "u8 list \<Rightarrow> link" where
  "wg_link name = Link (replicate 16 0) [Name name, Other_Attr 4 (le_bytes 4 1420), Link_Info False [Kind wg_kind]]"

definition dumped_links :: "host \<Rightarrow> link list list" where
  "dumped_links h = ho_links h @ map (\<lambda>(n, c). [wg_link n]) (ho_wg h)"

definition host_links :: "nat \<Rightarrow> host \<Rightarrow> u8 list \<Rightarrow> int + recv list" where
  "host_links portid h m =
     (if m = getlink_msg (msg_seq m) then Inr (link_dump (msg_seq m) portid (dumped_links h) []) else Inr [host_reply portid EINVAL m])"

text \<open>
  The dump of a device: a message with its attributes, then one for every peer, reported with the preshared
  key and the interval that it does not have.
\<close>

definition dumped_peer :: "wg_key \<Rightarrow> wg_peer" where
  "dumped_peer key = (zero_peer 0)\<lparr>wp_public_key := key,
     wp_flags := WGPEER_HAS_PUBLIC_KEY OR WGPEER_HAS_PRESHARED_KEY OR WGPEER_HAS_PERSISTENT_KEEPALIVE_INTERVAL\<rparr>"

definition dump_items :: "u8 list \<Rightarrow> conf \<Rightarrow> device_item list list" where
  "dump_items name c =
     ([DAttr WGDEVICE_A_LISTEN_PORT (le_bytes 2 (unat (cf_port c))), DAttr WGDEVICE_A_FWMARK (le_bytes 4 0),
       DAttr WGDEVICE_A_IFNAME (name @ [0])] @
      (case cf_key c of None \<Rightarrow> []
       | Some key \<Rightarrow> [DAttr WGDEVICE_A_PRIVATE_KEY key, DAttr WGDEVICE_A_PUBLIC_KEY (public_of key)])) #
     map (\<lambda>key. [DPeers [Frag (dumped_peer key) True None]]) (cf_peers c)"

definition items_msg :: "mnlg_socket \<Rightarrow> nat \<Rightarrow> device_item list \<Rightarrow> u8 list" where
  "items_msg nlg seq items =
     (let body = [0, of_nat (nlg_version nlg), 0, 0] @ attrs_bytes (map ditem_attr items) in
      nl_hdr (16 + length body) (unat (nlg_id nlg)) 2 seq (nlg_portid nlg) @ body)"

definition host_get :: "mnlg_socket \<Rightarrow> host \<Rightarrow> u8 list \<Rightarrow> int + recv list" where
  "host_get nlg h m =
     (let name = takeWhile (\<lambda>b. b \<noteq> 0) (drop 24 m) in
      if m = get_msg nlg name (msg_seq m) then
        (case map_of (ho_wg h) name of
           None \<Rightarrow> Inr [host_reply (nlg_portid nlg) ENODEV m]
         | Some c \<Rightarrow> Inr (map (\<lambda>items. Recv_Data (items_msg nlg (msg_seq m) items) False 12) (dump_items name c) @
                          [Recv_Data (nl_done (msg_seq m) (nlg_portid nlg)) False 12]))
      else Inr [host_reply (nlg_portid nlg) EINVAL m])"

definition conf_ok :: "conf \<Rightarrow> bool" where
  "conf_ok c \<longleftrightarrow> list_all (\<lambda>k. length k = 32) (cf_peers c) \<and> distinct (cf_peers c) \<and> (case cf_key c of None \<Rightarrow> True | Some k \<Rightarrow> length k = 32)"

definition host_ok :: "host \<Rightarrow> bool" where
  "host_ok h \<longleftrightarrow> distinct (map fst (ho_wg h)) \<and> list_all (\<lambda>(n, c). name_ok n \<and> length n \<le> 15 \<and> conf_ok c) (ho_wg h)"


section \<open>Creating and deleting\<close>

lemma seq_back: "now < 2 ^ 32 \<Longrightarrow> le_nat (le_bytes 4 now) = now"
  by (simp add: le_nat_bytes)

lemma hdr_seq: "now < 2 ^ 32 \<Longrightarrow> msg_seq (nl_hdr n t flags now portid @ body) = now"
  by (simp add: msg_seq_def nl_hdr_def seq_back)

lemma iface_msg_read:
  assumes "0 \<notin> set name" "now < 2 ^ 32"
  shows "msg_seq (iface_msg now name add) = now" "takeWhile (\<lambda>b. b \<noteq> 0) (drop 36 (iface_msg now name add)) = name"
proof -
  show "msg_seq (iface_msg now name add) = now" using hdr_seq [OF assms(2)] by (simp add: iface_msg_def)
  have "takeWhile (\<lambda>b. b \<noteq> 0) (name @ 0 # xs) = name" for xs using assms(1) by (induction name) auto
  then show "takeWhile (\<lambda>b. b \<noteq> 0) (drop 36 (iface_msg now name add)) = name"
    by (simp add: iface_msg_def link_body_def iface_link_def attr_bytes_def)
qed

lemma iface_msg_differ: "iface_msg now name True \<noteq> iface_msg now name False"
proof
  assume "iface_msg now name True = iface_msg now name False"
  then have "take 2 (drop 4 (iface_msg now name True)) = take 2 (drop 4 (iface_msg now name False))" by simp
  then have "le_bytes 2 RTM_NEWLINK = le_bytes 2 RTM_DELLINK" by (simp add: iface_msg_def nl_hdr_def)
  then show False by code_simp
qed

lemma host_rtnl_iface:
  assumes "0 \<notin> set name" "now < 2 ^ 32"
  shows "host_rtnl portid h (iface_msg now name True) =
      (if name \<in> set (map fst (ho_wg h)) then (h, Inr (host_reply portid EEXIST (iface_msg now name True)))
       else (h\<lparr>ho_wg := ho_wg h @ [(name, \<lparr>cf_key = None, cf_port = 0, cf_peers = []\<rparr>)]\<rparr>, Inr (host_reply portid 0 (iface_msg now name True))))"
    "host_rtnl portid h (iface_msg now name False) =
      (if name \<in> set (map fst (ho_wg h))
       then (h\<lparr>ho_wg := filter (\<lambda>(n, c). n \<noteq> name) (ho_wg h)\<rparr>, Inr (host_reply portid 0 (iface_msg now name False)))
       else (h, Inr (host_reply portid ENODEV (iface_msg now name False))))"
  using iface_msg_read [OF assms] iface_msg_differ [of now name] by (simp_all add: host_rtnl_def Let_def)

lemma host_rtnl_answered:
  assumes s: "bound_socket env buf portid" and n: "name_ok name" "length name \<le> 15" and e: "e = 0 \<or> e = EEXIST \<or> e = ENODEV"
    and "host_rtnl portid h (iface_msg (oe_time env) name add) = (h', Inr (host_reply portid e (iface_msg (oe_time env) name add)))"
  shows "add_del_iface (host_rtnl portid) env (name @ 0 # rest) add h {} = Some (- e, h', {})"
proof (rule iface_request_answered [OF s n])
  have now: "oe_time env < 2 ^ 32" using s by (simp add: bound_socket_def)
  then show "host_rtnl portid h (iface_msg (oe_time env) name add) =
      (h', Inr (Recv_Data (nl_answer (oe_time env) portid e (iface_msg (oe_time env) name add)) False 12))"
    using assms(5) iface_msg_read(1) [OF _ now] n(1) by (simp add: host_reply_def name_ok_def)
qed (use s e in \<open>auto simp: bound_socket_def EEXIST_def ENODEV_def\<close>)

section \<open>Listing\<close>

lemma dumped_names: "wg_names (concat (dumped_links h)) = wg_names (concat (ho_links h)) @ map fst (ho_wg h)"
proof -
  have "wg_name (wg_link n) = [n]" for n by (simp add: wg_link_def wg_name_def name_of_def wg_of_def kind_wg_def)
  then have "wg_names (concat (map (\<lambda>(n, c). [wg_link n]) xs)) = map fst xs" for xs :: "(u8 list \<times> conf) list"
    by (induction xs) auto
  then show ?thesis by (simp add: dumped_links_def)
qed

lemma wg_link_fits:
  assumes "name_ok n" "length n \<le> 15"
  shows "link_ok (wg_link n)" "length (link_datagram seq portid [wg_link n]) \<le> 96"
proof -
  have kind: "length (attr_bytes IFLA_INFO_KIND (wg_kind @ [0])) = 16" by code_simp
  show "link_ok (wg_link n)"
    using assms kind by (simp add: link_ok_def wg_link_def attr_fits_def rtnl_consts genl_name(2) wg_kind_def)
  have "MNL_ALIGN (Suc (length n)) \<le> 16" using align_mono [of "Suc (length n)" 16] assms(2) by (simp add: MNL_ALIGN_def)
  moreover have "MNL_ALIGN (length (attr_bytes IFLA_INFO_KIND (wg_kind @ [0]))) = 16" "MNL_ALIGN 4 = 4" unfolding kind by code_simp+
  ultimately show "length (link_datagram seq portid [wg_link n]) \<le> 96"
    using kind by (simp add: link_datagram_def link_msg_def link_body_def wg_link_def)
qed

lemma dumped_ok:
  assumes h: "host_ok h" and links: "dump_ok room seq portid (ho_links h) []" and room: "96 \<le> room"
  shows "dump_ok room seq portid (dumped_links h) []"
proof -
  have ok: "link_ok (wg_link n)" "length (link_datagram seq portid [wg_link n]) \<le> room" if "(n, c) \<in> set (ho_wg h)" for n c
    using h that wg_link_fits(1) [of n] wg_link_fits(2) [of n seq portid] room by (auto simp: host_ok_def list_all_iff)
  then show ?thesis using links by (auto simp: dump_ok_def dumped_links_def link_datagram_def)
qed

section \<open>Reading a device\<close>

lemma items_step:
  "\<forall>x\<in>set items. ditem_ok x \<Longrightarrow> dsized d \<Longrightarrow>
   \<exists>d'. fold ditem_step items (e, n, d) = (e, n - sum_list (map ditem_cost items), d') \<and> dsized d'"
proof (induction items arbitrary: n d)
  case (Cons x items)
  obtain d1 where "ditem_step x (e, n, d) = (e, n - ditem_cost x, d1)" "dsized d1"
    using Cons.prems set_dattr_sized fold_add_frag_sized by (cases x) auto
  then show ?case using Cons.IH [of d1 "n - ditem_cost x"] Cons.prems by auto
qed simp

lemma recv_dumped:
  assumes hdr: "16 \<le> unat (nlg_id nlg)" and ids: "seq < 2 ^ 32" "nlg_portid nlg < 2 ^ 32"
  shows "\<forall>items\<in>set itemss. (\<forall>x\<in>set items. ditem_ok x) \<and> length (items_msg nlg seq items) \<le> length buf \<Longrightarrow>
    sum_list (map ditem_cost (concat itemss)) \<le> n \<Longrightarrow> dsized d \<Longrightarrow> 20 \<le> length buf \<Longrightarrow> length buf < 2 ^ 16 \<Longrightarrow>
    \<exists>buf'. mnlg_socket_recv_run seq (nlg_portid nlg) (Some read_device_cb) buf (0, n, d)
      (map (\<lambda>items. Recv_Data (items_msg nlg seq items) False 12) itemss @ [Recv_Data (nl_done seq (nlg_portid nlg)) False 12]) =
    Some ((0, fold ditem_step (concat itemss) (0, n, d)), buf', [])"
proof (induction itemss arbitrary: n d buf)
  case Nil
  then show ?case using recv_done [OF ids, of buf "Some read_device_cb" 0 "(n, d)"] by simp
next
  case (Cons items itemss)
  have id: "unat (nlg_id nlg) < 2 ^ 16" using unsigned_less [of "nlg_id nlg", where 'a = nat] by simp
  have ok: "\<forall>x\<in>set items. ditem_ok x" "length (items_msg nlg seq items) \<le> length buf" "sum_list (map ditem_cost items) \<le> n"
    using Cons.prems(1,2) by simp_all
  obtain d' where step: "fold ditem_step items (0, n, d) = (0, n - sum_list (map ditem_cost items), d')" "dsized d'"
    using items_step [OF ok(1) Cons.prems(3)] by blast
  let ?body = "[0, of_nat (nlg_version nlg), 0, 0] @ attrs_bytes (map ditem_attr items)"
  let ?rs = "map (\<lambda>items. Recv_Data (items_msg nlg seq items) False 12) itemss @ [Recv_Data (nl_done seq (nlg_portid nlg)) False 12]"
  have m: "items_msg nlg seq items = nl_hdr (16 + length ?body) (unat (nlg_id nlg)) 2 seq (nlg_portid nlg) @ ?body"
    by (simp add: items_msg_def)
  obtain buf' where b: "length buf' = length buf" "mnlg_socket_recv_run seq (nlg_portid nlg) (Some read_device_cb) buf (0, n, d)
      (Recv_Data (items_msg nlg seq items) False 12 # ?rs) =
    mnlg_socket_recv_run seq (nlg_portid nlg) (Some read_device_cb) buf' (0, n - sum_list (map ditem_cost items), d') ?rs"
    using recv_items [OF ok(1,3) Cons.prems(3) m refl hdr id _ flag_bits(3) ok(2) Cons.prems(5) ids, of 0 ?rs] unfolding step(1) by auto
  have "\<exists>buf''. mnlg_socket_recv_run seq (nlg_portid nlg) (Some read_device_cb) buf' (0, n - sum_list (map ditem_cost items), d') ?rs =
      Some ((0, fold ditem_step (concat itemss) (0, n - sum_list (map ditem_cost items), d')), buf'', [])"
    by (rule Cons.IH) (use Cons.prems b(1) step(2) in simp_all)
  then show ?case using b(2) step(1) by simp
qed

text \<open>The device as it is dumped, without its peers.\<close>

definition dumped_head :: "u8 list \<Rightarrow> conf \<Rightarrow> wg_device" where
  "dumped_head name c =
     (let d = zero_device\<lparr>wd_listen_port := cf_port c, wd_name := name @ replicate (16 - length name) 0\<rparr> in
      case cf_key c of None \<Rightarrow> d
      | Some key \<Rightarrow> d\<lparr>wd_private_key := key, wd_public_key := public_of key, wd_flags := WGDEVICE_HAS_PRIVATE_KEY OR WGDEVICE_HAS_PUBLIC_KEY\<rparr>)"

lemma dumped_step:
  "fold ditem_step (concat (dump_items name c)) (e, n, zero_device) =
   (e, n - length (cf_peers c), fold add_frag (map (\<lambda>k. Frag (dumped_peer k) True None) (cf_peers c)) (dumped_head name c))"
proof -
  have peers: "fold ditem_step (concat (map (\<lambda>key. [DPeers [Frag (dumped_peer key) True None]]) ks)) (e, n, d) =
      (e, n - length ks, fold add_frag (map (\<lambda>k. Frag (dumped_peer k) True None) ks) d)" for ks n d
    by (induction ks arbitrary: n d) (simp_all add: frag_cost_def ips_list_def)
  have port: "of_nat (le_nat (le_bytes 2 (unat x))) = x" for x :: u16
    using unsigned_less [of x, where 'a = nat] by (simp add: le_nat_bytes)
  have zero: "le_nat (le_bytes 4 0) = 0" by code_simp
  have "fold ditem_step (hd (dump_items name c)) (e, n, zero_device) = (e, n, dumped_head name c)"
    by (cases "cf_key c") (simp_all add: dump_items_def dumped_head_def set_dattr_def wg_attrs zero_device_def port zero Let_def)
  then show ?thesis using peers by (simp add: dump_items_def)
qed

lemma public_of_length [simp]: "length (public_of key) = 32"
  by (simp add: public_of_def)

lemma dumped_attrs:
  "peer_attrs (dumped_peer k) True =
   [(WGPEER_A_PUBLIC_KEY, k), (WGPEER_A_PRESHARED_KEY, replicate 32 0), (WGPEER_A_PERSISTENT_KEEPALIVE_INTERVAL, [0, 0])]"
proof -
  let ?f = "WGPEER_HAS_PUBLIC_KEY OR WGPEER_HAS_PRESHARED_KEY OR WGPEER_HAS_PERSISTENT_KEEPALIVE_INTERVAL"
  have fam: "endpoint_family (replicate 28 0) \<noteq> AF_INET" "endpoint_family (replicate 28 0) \<noteq> AF_INET6" by code_simp+
  have flags: "?f AND WGPEER_HAS_PRESHARED_KEY \<noteq> 0" "?f AND WGPEER_HAS_PERSISTENT_KEEPALIVE_INTERVAL \<noteq> 0"
    "?f AND WGPEER_REMOVE_ME = 0" "?f AND WGPEER_REPLACE_ALLOWEDIPS = 0" "le_bytes 2 (unat 0) = [0, 0]" by code_simp+
  show ?thesis using flags by (simp add: peer_attrs_def peer_flags_def dumped_peer_def zero_peer_def fam)
qed

lemma dump_items_ok:
  assumes n: "name_ok name" "length name \<le> 15" and c: "conf_ok c" and items: "items \<in> set (dump_items name c)"
  shows "\<forall>x\<in>set items. ditem_ok x" "length (items_msg nlg seq items) \<le> 272"
proof -
  have peer: "peer_wf (dumped_peer k)" if "k \<in> set (cf_peers c)" for k
    using that c by (auto simp: conf_ok_def list_all_iff peer_wf_def peer_ok_def dumped_peer_def zero_peer_def)
  then show "\<forall>x\<in>set items. ditem_ok x"
    using items n c by (auto simp: dump_items_def dattr_ok_def frag_ok_def ips_list_def name_ok_def conf_ok_def split: option.splits)
  have al: "MNL_ALIGN (Suc (length name)) \<le> 16" "MNL_ALIGN 32 = 32" "MNL_ALIGN (Suc (Suc 0)) = 4" "MNL_ALIGN 2 = 4" "MNL_ALIGN 4 = 4"
    using align_mono [of "Suc (length name)" 16] n(2) by (simp_all add: MNL_ALIGN_def)
  show "length (items_msg nlg seq items) \<le> 272"
  proof (cases "items = hd (dump_items name c)")
    case True
    then show ?thesis using c al by (auto simp: dump_items_def items_msg_def Let_def conf_ok_def split: option.splits)
  next
    case False
    then obtain k where k: "k \<in> set (cf_peers c)" "items = [DPeers [Frag (dumped_peer k) True None]]"
      using items by (auto simp: dump_items_def)
    have "length (attrs_bytes (frag_attrs (Frag (dumped_peer k) True None))) = 80"
      using k(1) c by (simp add: conf_ok_def list_all_iff frag_attrs_def ips_attrs_def dumped_attrs al)
    then show ?thesis using k(2) by (simp add: items_msg_def Let_def nest_def frag_nest_def MNL_ALIGN_def)
  qed
qed

text \<open>Only the string at the start of the name matters.\<close>

lemma get_device_name: "strz n = strz n' \<Longrightarrow> wg_get_device n envs = wg_get_device n' envs"
proof -
  assume n: "strz n = strz n'"
  have "get_device_try ret n env = get_device_try ret n' env" for ret env
    unfolding get_device_try_def mnl_attr_put_strz_def n ..
  note attempt = this
  have "get_device_loop ret n envs = get_device_loop ret n' envs" for ret
  proof (induction envs arbitrary: ret)
    case (Cons env envs)
    show ?case unfolding get_device_loop.simps attempt Cons ..
  qed simp
  then show ?thesis by (simp add: wg_get_device_def)
qed

lemma takeWhile_string: "0 \<notin> set name \<Longrightarrow> takeWhile (\<lambda>b. b \<noteq> 0) (name @ 0 # xs) = (name :: u8 list)" "0 \<notin> set name \<Longrightarrow> takeWhile (\<lambda>b. b \<noteq> 0) name = name"
  by (induction name) auto

lemma host_get_msg:
  assumes "0 \<notin> set name" "now < 2 ^ 32"
  shows "host_get nlg h (get_msg nlg name now) =
    (case map_of (ho_wg h) name of
       None \<Rightarrow> Inr [host_reply (nlg_portid nlg) ENODEV (get_msg nlg name now)]
     | Some c \<Rightarrow> Inr (map (\<lambda>items. Recv_Data (items_msg nlg now items) False 12) (dump_items name c) @
                      [Recv_Data (nl_done now (nlg_portid nlg)) False 12]))"
proof -
  have "msg_seq (get_msg nlg name now) = now" using hdr_seq [OF assms(2)] by (simp add: get_msg_def Let_def)
  moreover have "takeWhile (\<lambda>b. b \<noteq> 0) (drop 24 (get_msg nlg name now)) = name"
    using assms(1) by (simp add: get_msg_def Let_def attr_bytes_def name_bytes_def takeWhile_string)
  ultimately show ?thesis by (simp add: host_get_def split: option.split)
qed

lemma emits_whole: "emits (map dumped_peer ks) [] (map (\<lambda>k. Frag (dumped_peer k) True None) ks) [] []"
proof (induction ks)
  case (Cons k ks)
  then show ?case using emits_done [OF Cons, of "dumped_peer k" "[]"] by (simp add: dumped_peer_def zero_peer_def)
qed (simp add: emits_stop)

lemma dumped_differ: "distinct ks \<Longrightarrow> keys_differ (map dumped_peer ks)"
proof (induction ks)
  case (Cons k ks)
  then show ?case by (cases ks) (simp_all add: dumped_peer_def)
qed simp

lemma dump_cost: "sum_list (map ditem_cost (concat (dump_items name c))) = length (cf_peers c)"
proof -
  have "sum_list (map ditem_cost (concat (map (\<lambda>key. [DPeers [Frag (dumped_peer key) True None]]) ks))) = length ks" for ks
    by (induction ks) (simp_all add: frag_cost_def ips_list_def)
  then show ?thesis by (cases "cf_key c") (simp_all add: dump_items_def)
qed

text \<open>A device of the kernel is read with its name, keys and peers.\<close>

lemma host_device_read:
  assumes h: "host_ok h" "(name, c) \<in> set (ho_wg h)" and nlg: "16 \<le> unat (nlg_id nlg)"
    and env: "opened (ge_open genv) nlg" "length (cf_peers c) < ge_budget genv" "ge_time genv < 2 ^ 32"
  shows "\<exists>d. wg_get_device (name @ [0]) [genv\<lparr>ge_kernel := host_get nlg h\<rparr>] = Some (Inr d) \<and>
    erase_device d = (dumped_head name c)\<lparr>wd_peers := map shown_peer (map dumped_peer (cf_peers c))\<rparr>"
proof -
  have n: "name_ok name" "length name \<le> 15" "conf_ok c" and map: "map_of (ho_wg h) name = Some c"
    using h by (auto simp: host_ok_def list_all_iff)
  have z: "0 \<notin> set name" using n(1) by (simp add: name_ok_def)
  let ?dev = "zero_device\<lparr>wd_name := name @ 0 # replicate (15 - length name) 0\<rparr>" and ?now = "ge_time genv"
  have dev: "device_ok ?dev" using n(2) by (simp add: device_ok_def zero_device_def)
  obtain live where o: "mnlg_socket_open (ge_open genv) WG_GENL_NAME 1 {} = Some (Inr nlg, live)"
    and buf: "272 \<le> length (nlg_buf nlg)" "length (nlg_buf nlg) < 2 ^ 16" "nlg_portid nlg < 2 ^ 32"
    using env(1) by (auto simp: opened_def)
  have "get_msg nlg (wd_name ?dev) ?now = get_msg nlg name ?now"
    using z by (simp add: get_msg_def name_bytes_def takeWhile_string)
  then obtain m1 m2 where m: "mnlg_msg_prepare (nlg_buf nlg) 0 0x305 (unat (nlg_id nlg)) (nlg_version nlg) ?now = Some m1"
    "mnl_attr_put_strz m1 0 WGDEVICE_A_IFNAME (wd_name ?dev) = Some m2" "length m2 = length (nlg_buf nlg)"
    "\<And>f :: u8 list \<Rightarrow> int + recv list. mnlg_socket_send f m2 = Some (f (get_msg nlg name ?now))"
    using get_request [OF dev buf(1,2), of ?now thesis] by simp
  note items = dump_items_ok [OF n]
  have cost: "sum_list (map ditem_cost (concat (dump_items name c))) \<le> ge_budget genv - 1"
    using env(2) by (simp add: dump_cost)
  have ok: "(\<forall>x\<in>set is. ditem_ok x) \<and> length (items_msg nlg ?now is) \<le> length m2" if "is \<in> set (dump_items name c)" for "is"
    using items(1) [OF that] order_trans [OF items(2) [OF that]] m(3) buf(1) by simp
  have zero: "dsized zero_device" by (simp add: dsized_def zero_device_def)
  obtain buf' where r: "mnlg_socket_recv_run ?now (nlg_portid nlg) (Some read_device_cb) m2 (0, ge_budget genv - 1, zero_device)
      (map (\<lambda>items. Recv_Data (items_msg nlg ?now items) False 12) (dump_items name c) @ [Recv_Data (nl_done ?now (nlg_portid nlg)) False 12]) =
      Some ((0, fold ditem_step (concat (dump_items name c)) (0, ge_budget genv - 1, zero_device)), buf', [])"
    using recv_dumped [OF nlg env(3) buf(3) ballI [OF ok] cost zero] m(3) buf by auto
  have peers: "wd_peers (dumped_head name c) = []" "wd_last_peer (dumped_head name c) = None"
    by (auto simp: dumped_head_def zero_device_def Let_def split: option.split)
  have "distinct (cf_peers c)" using n(3) by (simp add: conf_ok_def)
  then obtain d where d: "coalesce_peers (fold add_frag (map (\<lambda>k. Frag (dumped_peer k) True None) (cf_peers c)) (dumped_head name c)) = Some d"
    "erase_device d = (dumped_head name c)\<lparr>wd_peers := map shown_peer (map dumped_peer (cf_peers c))\<rparr>"
    using coalesce_frags [OF emits_whole dumped_differ peers] by blast
  have "get_device_try 0 (wd_name ?dev) (genv\<lparr>ge_kernel := host_get nlg h\<rparr>) = Some (Inr (0, d))"
    using env(2) o m r d(1) host_get_msg [OF z env(3), of nlg h] map by (simp add: get_device_try_def dumped_step)
  then have "wg_get_device (wd_name ?dev) [genv\<lparr>ge_kernel := host_get nlg h\<rparr>] = Some (Inr d)" by (simp add: wg_get_device_def)
  moreover have "strz (name @ [0]) = strz (wd_name ?dev)" using strz_name [OF z] by simp
  note get_device_name [OF this, of "[genv\<lparr>ge_kernel := host_get nlg h\<rparr>]"]
  ultimately show ?thesis using d(2) by (intro exI [of _ d] conjI) (simp only:)
qed

end
