(* ===== verification/Wg_Test.thy ===== *)
theory Wg_Test
  imports Wg_Host
begin

text \<open>
  The example client of the library (\<open>test.c\<close>): it makes a device with one peer, configures it, lists
  all devices with their peers and deletes the device again. What the kernel answers depends on its
  state, which the calls pass on. Standard output is a list of lines; what goes to standard error
  and the release of the structures read are left out.
\<close>

section \<open>Listing\<close>

definition bytes_text :: "u8 list \<Rightarrow> string" where
  "bytes_text bs = map (\<lambda>b. char_of (unat b)) bs"

definition key_text :: "wg_key \<Rightarrow> string" where
  "key_text key = takeWhile (\<lambda>c. c \<noteq> CHR 0x00) (wg_key_to_base64 key)"

text \<open>The body of the loop over the names; a device that cannot be read is passed over.\<close>

definition device_lines :: "u8 list \<Rightarrow> int + wg_device \<Rightarrow> string list" where
  "device_lines name r =
     (case r of
        Inl _ \<Rightarrow> []
      | Inr device \<Rightarrow>
          (if wd_flags device AND WGDEVICE_HAS_PUBLIC_KEY \<noteq> 0
           then bytes_text name @ '' has public key '' @ key_text (wd_public_key device)
           else bytes_text name @ '' has no public key'')
          # map (\<lambda>peer. '' - peer '' @ key_text (wp_public_key peer)) (wd_peers device))"

primrec list_names :: "(u8 list \<Rightarrow> get_env list) \<Rightarrow> u8 list list \<Rightarrow> string list option" where
  "list_names get [] = Some []"
| "list_names get (name # names) = do {
     r \<leftarrow> wg_get_device (name @ [0]) (get name);
     out \<leftarrow> list_names get names;
     Some (device_lines name r @ out) }"

text \<open>\<open>Inl\<close> is the code of \<open>exit\<close>.\<close>

definition list_devices :: "allocator \<Rightarrow> open_env \<Rightarrow> (u8 list \<Rightarrow> get_env list) \<Rightarrow> (int + string list) option" where
  "list_devices heap env get = do {
     r \<leftarrow> wg_list_device_names heap env;
     case r of
       Inl _ \<Rightarrow> Some (Inl 1)
     | Inr device_names \<Rightarrow> do {
         names \<leftarrow> for_each_device_name device_names 0;
         out \<leftarrow> list_names get names;
         Some (Inr out) } }"

section \<open>The program\<close>

definition test_name :: "u8 list" where
  "test_name = [119, 103, 116, 101, 115, 116, 48]"

definition test_device :: "wg_key \<Rightarrow> wg_key \<Rightarrow> wg_device" where
  "test_device public_key private_key = zero_device\<lparr>
     wd_name := test_name @ replicate 9 0,
     wd_listen_port := 1234,
     wd_flags := WGDEVICE_HAS_PRIVATE_KEY OR WGDEVICE_HAS_LISTEN_PORT,
     wd_private_key := private_key,
     wd_peers := [(zero_peer 0)\<lparr>wp_flags := WGPEER_HAS_PUBLIC_KEY OR WGPEER_REPLACE_ALLOWEDIPS, wp_public_key := public_key\<rparr>],
     wd_last_peer := Some 0\<rparr>"

text \<open>The world of the program: random bytes, allocator, clock and the answers of the kernel.\<close>

record 'k test_env =
  te_temp :: entropy
  te_private :: entropy
  te_heap :: allocator
  te_rtnl :: "'k \<Rightarrow> u8 list \<Rightarrow> 'k \<times> (int + recv)"
  te_genl :: "'k \<Rightarrow> u8 list \<Rightarrow> 'k \<times> (int + recv list)"
  te_clock :: "'k \<Rightarrow> u32"
  te_add :: open_env
  te_set :: open_env
  te_del :: open_env
  te_links :: "'k \<Rightarrow> open_env"
  te_get :: "'k \<Rightarrow> u8 list \<Rightarrow> get_env list"

text \<open>The exit code, the state of the kernel and the output; fuel is that of \<open>wg_set_device\<close>.\<close>

definition test_main :: "nat \<Rightarrow> 'k test_env \<Rightarrow> 'k \<Rightarrow> (int \<times> 'k \<times> string list) option" where
  "test_main fuel env k = do {
     temp_private_key \<leftarrow> wg_generate_private_key (te_temp env);
     public_key \<leftarrow> wg_generate_public_key temp_private_key;
     private_key \<leftarrow> wg_generate_private_key (te_private env);
     let new_device = test_device public_key private_key;
     (ret, k, _) \<leftarrow> wg_add_device (te_rtnl env) (te_add env) (wd_name new_device) k;
     if ret < 0 then Some (1, k, [])
     else do {
       (k, ret) \<leftarrow> wg_set_device fuel (te_genl env) (te_clock env) (te_set env) new_device k;
       if ret < 0 then Some (1, k, [])
       else do {
         r \<leftarrow> list_devices (te_heap env) (te_links env k) (te_get env k);
         case r of
           Inl code \<Rightarrow> Some (code, k, [])
         | Inr out \<Rightarrow> do {
             (ret, k, _) \<leftarrow> wg_del_device (te_rtnl env) (te_del env) (wd_name new_device) k;
             Some (if ret < 0 then 1 else 0, k, out) } } } }"

section \<open>Parts of the run\<close>

declare set_device_loop.simps [simp del]

lemma test_name_plain: "0 \<notin> set test_name" "length test_name = 7" "name_ok test_name"
  by (simp_all add: test_name_def name_ok_def)

definition test_peer :: "wg_key \<Rightarrow> wg_peer" where
  "test_peer pub = (zero_peer 0)\<lparr>wp_flags := WGPEER_HAS_PUBLIC_KEY OR WGPEER_REPLACE_ALLOWEDIPS, wp_public_key := pub\<rparr>"

lemma test_device_ok:
  assumes "length pub = 32" "length priv = 32"
  shows "device_ok (test_device pub priv)" "wd_peers (test_device pub priv) = [test_peer pub]" "work [test_peer pub] [] = 1"
    "wd_name (test_device pub priv) = test_name @ 0 # replicate 8 0"
proof -
  have z: "replicate 9 0 = (0 :: u8) # replicate 8 0" by (simp add: numeral_eq_Suc)
  show "wd_name (test_device pub priv) = test_name @ 0 # replicate 8 0" by (simp add: test_device_def z)
  show "wd_peers (test_device pub priv) = [test_peer pub]" by (simp add: test_device_def test_peer_def)
  show "device_ok (test_device pub priv)"
    using assms test_name_plain(2) by (auto simp: device_ok_def peer_ok_def test_device_def zero_device_def zero_peer_def)
  show "work [test_peer pub] [] = 1" by (simp add: work_def pending_def test_peer_def zero_peer_def)
qed

text \<open>The attributes of the one message that configures the device.\<close>

definition test_frag :: "wg_key \<Rightarrow> frag" where
  "test_frag pub = Frag (test_peer pub) True None"

lemma test_peer_attrs: "frag_attrs (test_frag pub) = [(WGPEER_A_PUBLIC_KEY, pub), (WGPEER_A_FLAGS, le_bytes 4 2)]"
proof -
  let ?f = "WGPEER_HAS_PUBLIC_KEY OR WGPEER_REPLACE_ALLOWEDIPS"
  have "endpoint_family (replicate 28 0) \<noteq> AF_INET" "endpoint_family (replicate 28 0) \<noteq> AF_INET6"
    "?f AND WGPEER_HAS_PRESHARED_KEY = 0" "?f AND WGPEER_HAS_PERSISTENT_KEEPALIVE_INTERVAL = 0" "?f AND WGPEER_REMOVE_ME = 0"
    "?f AND WGPEER_REPLACE_ALLOWEDIPS \<noteq> 0" by code_simp+
  then show ?thesis
    by (simp add: frag_attrs_def ips_attrs_def peer_attrs_def peer_flags_def test_frag_def test_peer_def zero_peer_def WGPEER_F_REPLACE_ALLOWEDIPS_def)
qed

lemma test_message_attrs:
  assumes "length pub = 32" "length priv = 32"
  shows "message_attrs (test_device pub priv) True [test_frag pub] =
    [(WGDEVICE_A_IFNAME, test_name @ [0]), (WGDEVICE_A_PRIVATE_KEY, priv), (WGDEVICE_A_LISTEN_PORT, le_bytes 2 1234),
     nest WGDEVICE_A_PEERS [frag_nest (test_frag pub)]]"
proof -
  let ?f = "WGDEVICE_HAS_PRIVATE_KEY OR WGDEVICE_HAS_LISTEN_PORT"
  have "?f AND WGDEVICE_HAS_PRIVATE_KEY \<noteq> 0" "?f AND WGDEVICE_HAS_LISTEN_PORT \<noteq> 0" "?f AND WGDEVICE_HAS_FWMARK = 0"
    "?f AND WGDEVICE_REPLACE_PEERS = 0" "unat (1234 :: u16) = 1234" by code_simp+
  moreover have "name_bytes (test_name @ 0 # replicate 8 0) = test_name @ [0]"
    using test_name_plain(1) by (simp add: name_bytes_def takeWhile_string)
  ultimately show ?thesis
    using test_device_ok [OF assms] by (simp add: message_attrs_def device_attrs_def) (simp add: test_device_def)
qed

text \<open>The kernel understands it.\<close>

definition test_conf :: "wg_key \<Rightarrow> wg_key \<Rightarrow> conf" where
  "test_conf pub priv = \<lparr>cf_key = Some priv, cf_port = 1234, cf_peers = [pub]\<rparr>"

lemma test_conf_set:
  assumes k: "length pub = 32" "length priv = 32"
  shows "set_conf (tlv (attrs_bytes (message_attrs (test_device pub priv) True [test_frag pub]))) \<lparr>cf_key = None, cf_port = 0, cf_peers = []\<rparr> =
      Some (test_conf pub priv)"
    "map_of (tlv (attrs_bytes (message_attrs (test_device pub priv) True [test_frag pub]))) WGDEVICE_A_IFNAME = Some (test_name @ [0])"
proof -
  let ?p = "[(WGPEER_A_PUBLIC_KEY, pub), (WGPEER_A_FLAGS, le_bytes 4 2)]"
  have len: "length (attrs_bytes ?p) = 44" "MNL_ALIGN 44 = 44" using k by (simp_all add: MNL_ALIGN_def)
  have fits: "\<forall>a\<in>set (message_attrs (test_device pub priv) True [test_frag pub]). attr_fits a"
    unfolding test_message_attrs [OF k] using k len nest_types(6) test_name_plain(2)
    by (simp add: attr_fits_def wg_attrs nest_def frag_nest_def test_peer_attrs)
  note tlv = tlv_attrs [OF this, unfolded test_message_attrs [OF k]]
  have "tlv (attrs_bytes [frag_nest (test_frag pub)]) = [(0, attrs_bytes ?p)]"
    using tlv_attrs [of "[frag_nest (test_frag pub)]"] nest_types(1,4) len by (simp add: frag_nest_def nest_def test_peer_attrs attr_fits_def)
  moreover have "tlv (attrs_bytes ?p) = ?p" using tlv_attrs [of ?p] k by (simp add: attr_fits_def wg_attrs)
  moreover have "le_nat (le_bytes 4 2) = 2" "of_nat (le_nat (le_bytes 2 1234)) = (1234 :: u16)" by code_simp+
  ultimately show "set_conf (tlv (attrs_bytes (message_attrs (test_device pub priv) True [test_frag pub])))
      \<lparr>cf_key = None, cf_port = 0, cf_peers = []\<rparr> = Some (test_conf pub priv)"
    unfolding test_message_attrs [OF k] tlv using k nest_types(3)
    by (simp add: set_attr_conf_def nest_def wg_attrs add_peer_def test_conf_def)
  show "map_of (tlv (attrs_bytes (message_attrs (test_device pub priv) True [test_frag pub]))) WGDEVICE_A_IFNAME = Some (test_name @ [0])"
    unfolding test_message_attrs [OF k] tlv by (simp add: wg_attrs)
qed

text \<open>Setting the device takes one message, after which the kernel has its configuration.\<close>

lemma host_set_test:
  assumes k: "length pub = 32" "length priv = 32"
    and h: "test_name \<notin> set (map fst ds)" "ho_wg h = ds @ [(test_name, \<lparr>cf_key = None, cf_port = 0, cf_peers = []\<rparr>)]"
  shows "host_set nlg h (message nlg (test_device pub priv) True (now, [test_frag pub])) =
    (h\<lparr>ho_wg := ds @ [(test_name, test_conf pub priv)]\<rparr>,
     Inr [Recv_Data (nl_ack (nlg_portid nlg) (message nlg (test_device pub priv) True (now, [test_frag pub]))) False 12])"
proof -
  let ?m = "message nlg (test_device pub priv) True (now, [test_frag pub])"
  let ?as = "attrs_bytes (message_attrs (test_device pub priv) True [test_frag pub])"
  have m: "?m = nl_hdr (20 + length ?as) (unat (nlg_id nlg)) 5 (unat now) 0 @ [1, of_nat (nlg_version nlg), 0, 0] @ ?as"
    by (simp add: message_def message_body_def msg_hdr_def nl_hdr_def le_zero)
  have "unat now < 2 ^ 32" using unsigned_less [of now, where 'a = nat] by simp
  then have hd: "take 20 ?m = nl_hdr (length ?m) (unat (nlg_id nlg)) 5 (msg_seq ?m) 0 @ [1, of_nat (nlg_version nlg), 0, 0]" "drop 20 ?m = ?as"
    using hdr_seq [of "unat now"] unfolding m by simp_all
  have "map (\<lambda>(n, b). (n, if n = test_name then c else b)) ds = ds" for c
    using h(1) by (intro map_idI) force
  moreover have "map_of ds test_name = None" using h(1) by (simp add: map_of_eq_None_iff)
  then have "map_of (ho_wg h) test_name = Some \<lparr>cf_key = None, cf_port = 0, cf_peers = []\<rparr>" by (simp add: h(2) map_add_def)
  moreover have "takeWhile (\<lambda>b. b \<noteq> 0) (test_name @ [0]) = test_name" using test_name_plain(1) by (simp add: takeWhile_string)
  ultimately show ?thesis unfolding host_set_def hd(2) Let_def using hd(1) by (simp add: test_conf_set [OF k] h(2))
qed

lemma test_device_set:
  assumes k: "length pub = 32" "length priv = 32" and s: "opened env nlg" "0 < fuel"
    and h: "test_name \<notin> set (map fst ds)" "ho_wg h = ds @ [(test_name, \<lparr>cf_key = None, cf_port = 0, cf_peers = []\<rparr>)]"
  shows "wg_set_device fuel (host_set nlg) clock env (test_device pub priv) h = Some (h\<lparr>ho_wg := ds @ [(test_name, test_conf pub priv)]\<rparr>, 0)"
proof -
  note dev = test_device_ok [OF k]
  have o: "\<exists>live. mnlg_socket_open env WG_GENL_NAME 1 {} = Some (Inr nlg, live)" and buf: "272 \<le> length (nlg_buf nlg)"
    "length (nlg_buf nlg) < 2 ^ 16" "nlg_portid nlg < 2 ^ 32"
    using s(1) by (auto simp: opened_def)
  obtain n where n: "fuel = Suc n" using s(2) by (cases fuel) auto
  let ?m = "message nlg (test_device pub priv) True"
  have side: "\<forall>p\<in>set ([] :: wg_peer list). peer_ok p" "([] :: wg_peer list) = [] \<longrightarrow> ([] :: wg_allowedip list) = []"
    "([] :: wg_peer list) \<noteq> [] \<longrightarrow> [test_peer pub] \<noteq> []" "[test_peer pub] \<noteq> []" by simp_all
  obtain tf ps' aips' buf' where st: "\<forall>k'. host_set nlg h (?m tf) = (k', Inr [Recv_Data (nl_ack (nlg_portid nlg) (?m tf)) False 12]) \<longrightarrow>
      set_device_loop (Suc n) (host_set nlg) clock nlg (test_device pub priv) h (nlg_buf nlg) [] [] =
        (if ps' \<noteq> [] then set_device_loop n (host_set nlg) clock nlg (test_device pub priv) k' buf' ps' aips' else Some (k', 0))"
    "emits [test_peer pub] [] (snd tf) ps' aips'" "ps' = [] \<longrightarrow> aips' = []" "work ps' aips' < work [test_peer pub] []"
    using set_device_exchange [OF dev(1) buf side(1,2), of "host_set nlg" h n clock, unfolded dev(2) simp_thms if_True] side(4) by blast
  have ps: "ps' = []" using st(4) unfolding dev(3) by (cases ps') (simp_all add: work_def)
  have e: "wp_allowedips (test_peer pub) = []" by (simp add: test_peer_def zero_peer_def)
  have "snd tf = [test_frag pub]"
    using st(2) ps e by (auto simp: test_frag_def elim!: emits_ConsE dest: emits_Nil split: if_splits)
  then have tf: "tf = (fst tf, [test_frag pub])" by (metis prod.collapse)
  have "set_device_loop fuel (host_set nlg) clock nlg (test_device pub priv) h (nlg_buf nlg) [] [] =
      Some (h\<lparr>ho_wg := ds @ [(test_name, test_conf pub priv)]\<rparr>, 0)"
    using st(1) host_set_test [OF k h, of nlg "fst tf", folded tf] ps n by simp
  then show ?thesis using o by (auto simp: wg_set_device_def)
qed

text \<open>What is printed for the devices of the kernel.\<close>

fun conf_lines :: "u8 list \<times> conf \<Rightarrow> string list" where
  "conf_lines (name, c) =
     (case cf_key c of
        Some key \<Rightarrow> bytes_text name @ '' has public key '' @ key_text (public_of key)
      | None \<Rightarrow> bytes_text name @ '' has no public key'')
     # map (\<lambda>key. '' - peer '' @ key_text key) (cf_peers c)"

lemma dumped_lines:
  assumes "erase_device d = (dumped_head name c)\<lparr>wd_peers := map shown_peer (map dumped_peer (cf_peers c))\<rparr>"
  shows "device_lines name (Inr d) = conf_lines (name, c)"
proof -
  have f: "wd_flags d = wd_flags (dumped_head name c)" "wd_public_key d = wd_public_key (dumped_head name c)"
    using arg_cong [OF assms, of wd_flags] arg_cong [OF assms, of wd_public_key] by (simp_all add: erase_device_def)
  have "map wp_public_key (wd_peers d) = cf_peers c"
    using arg_cong [OF assms, of "\<lambda>d. map wp_public_key (wd_peers d)"]
    by (simp add: erase_device_def erase_def o_def shown_peer_def partial_peer_def base_peer_def dumped_peer_def Let_def)
  then have p: "map (\<lambda>peer. '' - peer '' @ key_text (wp_public_key peer)) (wd_peers d) = map (\<lambda>key. '' - peer '' @ key_text key) (cf_peers c)"
    by (metis (no_types, lifting) list.map_comp comp_def map_eq_conv)
  have "(WGDEVICE_HAS_PRIVATE_KEY OR WGDEVICE_HAS_PUBLIC_KEY) AND WGDEVICE_HAS_PUBLIC_KEY \<noteq> 0" by code_simp
  then show ?thesis unfolding device_lines_def sum.case p
    by (cases "cf_key c") (simp_all add: f dumped_head_def Let_def zero_device_def)
qed

lemma list_names_host:
  assumes "host_ok h" "16 \<le> unat (nlg_id nlg)" "opened (ge_open genv) nlg" "ge_time genv < 2 ^ 32"
    and "\<And>name. get name = [genv\<lparr>ge_kernel := host_get nlg h\<rparr>]"
  shows "set ds \<subseteq> set (ho_wg h) \<Longrightarrow> \<forall>(n, c)\<in>set ds. length (cf_peers c) < ge_budget genv \<Longrightarrow>
    list_names get (map fst ds) = Some (concat (map conf_lines ds))"
proof (induction ds)
  case (Cons a ds)
  obtain n c where a: "a = (n, c)" by (cases a)
  obtain d where "wg_get_device (n @ [0]) [genv\<lparr>ge_kernel := host_get nlg h\<rparr>] = Some (Inr d)"
    "erase_device d = (dumped_head n c)\<lparr>wd_peers := map shown_peer (map dumped_peer (cf_peers c))\<rparr>"
    using host_device_read [OF assms(1) _ assms(2,3) _ assms(4), where name = n and c = c] Cons.prems a by auto
  then show ?case using Cons dumped_lines [where d = d and name = n and c = c] assms(5) a by simp
qed simp

lemma list_devices_host:
  assumes h: "host_ok h" "wg_names (concat (ho_links h)) = []" "dump_ok (length buf) (oe_time env) portid (ho_links h) []"
    and s: "bound_socket env buf portid" "\<forall>n. heap n \<noteq> None" "length (joined (map fst (ho_wg h))) < 2 ^ 62"
    and get: "16 \<le> unat (nlg_id nlg)" "opened (ge_open genv) nlg" "ge_time genv < 2 ^ 32"
      "\<forall>(n, c)\<in>set (ho_wg h). length (cf_peers c) < ge_budget genv"
  shows "list_devices heap (env\<lparr>oe_kernel := host_links portid h\<rparr>) (\<lambda>name. [genv\<lparr>ge_kernel := host_get nlg h\<rparr>]) =
    Some (Inr (concat (map conf_lines (ho_wg h))))"
proof -
  let ?env = "env\<lparr>oe_kernel := host_links portid h\<rparr>"
  have b: "bound_socket ?env buf portid" and now: "oe_time env < 2 ^ 32" "96 \<le> length buf" using s(1) by (simp_all add: bound_socket_def)
  have "oe_kernel ?env (getlink_msg (oe_time ?env)) = Inr (link_dump (oe_time ?env) portid (dumped_links h) [])"
    using hdr_seq [OF now(1)] by (simp add: host_links_def getlink_msg_def)
  moreover have "dump_ok (length buf) (oe_time ?env) portid (dumped_links h) []" using dumped_ok [OF h(1,3) now(2)] by simp
  ultimately obtain names where "wg_list_device_names heap ?env = Some (Inr names)" "for_each_device_name names 0 = Some (map fst (ho_wg h))"
    using list_device_names_walk [OF b _ _ s(2), of "dumped_links h" "[]"] h(2) s(3) dumped_names [of h] by auto
  then show ?thesis using list_names_host [OF h(1) get(1,2,3) refl order_refl get(4)] by (simp add: list_devices_def)
qed

lemma public_of_generated: "wg_generate_public_key key = Some pub \<Longrightarrow> length key = 32 \<Longrightarrow> public_of key = pub"
proof -
  assume g: "wg_generate_public_key key = Some pub" and l: "length key = 32"
  have p: "length pub = 32" "le_val pub = x25519_base (clamp_scalar (le_val key))" using public_key_spec [OF l] g by auto
  have "le_val bs = int (le_nat bs)" for bs by (induction bs) simp_all
  then have "nat (le_val pub) = le_nat pub" by simp
  then have "public_of key = le_bytes 32 (le_nat pub)" unfolding public_of_def p(2) [symmetric] by simp
  then show ?thesis using le_bytes_nat [of pub] p(1) by simp
qed

section \<open>Properties\<close>

text \<open>Claim C5: the example runs from end to end over all parts of the library. The kernel is one that keeps
  WireGuard devices: it creates a device unless there is one of this name, configures it only when it
  exists, lists its links from its state, reports a device with the public key that belongs to the private key
  it was given, and deletes only what exists; it answers any other request with an error. Whatever devices and other links there are
  before, if none is called \<open>wgtest0\<close>, the example ends with 0 and leaves the kernel as it was. It has
  printed every device with its public key and the keys of its peers, among them the new one: its own
  public key is the one the library computes from the second random key, and its peer is the one of the
  first.\<close>

theorem test_main_end_to_end:
  assumes keys: "wg_generate_preshared_key (te_temp env) = Some r" "length r = 32"
      "wg_generate_preshared_key (te_private env) = Some r'" "length r' = 32"
    and host: "host_ok h" "test_name \<notin> set (map fst (ho_wg h))"
    and rtnl: "te_rtnl env = host_rtnl portid" "bound_socket (te_add env) buf portid" "bound_socket (te_del env) buf' portid"
    and genl: "te_genl env = host_set nlg" "opened (te_set env) nlg" "0 < fuel"
    and links: "te_links env = (\<lambda>h. lenv\<lparr>oe_kernel := host_links portid h\<rparr>)" "bound_socket lenv lbuf portid"
      "dump_ok (length lbuf) (oe_time lenv) portid (ho_links h) []" "wg_names (concat (ho_links h)) = []"
      "\<forall>n. te_heap env n \<noteq> None" "length (joined (map fst (ho_wg h))) + 8 < 2 ^ 62"
    and get: "te_get env = (\<lambda>h name. [genv\<lparr>ge_kernel := host_get nlg' h\<rparr>])" "opened (ge_open genv) nlg'" "16 \<le> unat (nlg_id nlg')"
      "ge_time genv < 2 ^ 32" "1 < ge_budget genv" "\<forall>(n, c)\<in>set (ho_wg h). length (cf_peers c) < ge_budget genv"
  shows "\<exists>own pub. wg_generate_public_key (clamp_key r') = Some own \<and> wg_generate_public_key (clamp_key r) = Some pub \<and>
    test_main fuel env h = Some (0, h, concat (map conf_lines (ho_wg h)) @
      [''wgtest0 has public key '' @ key_text own, '' - peer '' @ key_text pub])"
proof -
  obtain pub own where pub: "wg_generate_public_key (clamp_key r) = Some pub" "length pub = 32"
    and own: "wg_generate_public_key (clamp_key r') = Some own"
    using public_key_spec [of "clamp_key r"] public_key_spec [of "clamp_key r'"] keys(2,4) by auto
  have priv: "length (clamp_key r') = 32" using keys(4) by simp
  let ?dev = "test_device pub (clamp_key r')" and ?c = "test_conf pub (clamp_key r')"
  let ?new = "h\<lparr>ho_wg := ho_wg h @ [(test_name, \<lparr>cf_key = None, cf_port = 0, cf_peers = []\<rparr>)]\<rparr>"
  let ?set = "h\<lparr>ho_wg := ho_wg h @ [(test_name, ?c)]\<rparr>"
  note dev = test_device_ok [OF pub(2) priv]
  have now: "oe_time (te_add env) < 2 ^ 32" "oe_time (te_del env) < 2 ^ 32" using rtnl(2,3) by (simp_all add: bound_socket_def)
  have add: "wg_add_device (te_rtnl env) (te_add env) (wd_name ?dev) h = Some (0, ?new, {})"
    using host_rtnl_answered [OF rtnl(2) test_name_plain(3), of 0 h True ?new "replicate 8 0"]
      host_rtnl_iface(1) [OF test_name_plain(1) now(1), of portid h] host(2) test_name_plain(2)
    by (simp add: wg_add_device_def dev(4) rtnl(1))
  have set: "wg_set_device fuel (te_genl env) (te_clock env) (te_set env) ?dev ?new = Some (?set, 0)"
    using test_device_set [OF pub(2) priv genl(2,3) host(2), of ?new] by (simp add: genl(1))
  have line: "conf_lines (test_name, ?c) = [''wgtest0 has public key '' @ key_text own, '' - peer '' @ key_text pub]"
  proof -
    have "bytes_text test_name = ''wgtest0''" by code_simp
    then show ?thesis by (simp add: test_conf_def public_of_generated [OF own priv])
  qed
  have "host_ok ?set" using host test_name_plain pub(2) priv by (simp add: host_ok_def conf_ok_def test_conf_def)
  moreover have "\<forall>(n, c)\<in>set (ho_wg ?set). length (cf_peers c) < ge_budget genv" using get(5,6) by (simp add: test_conf_def)
  ultimately have list: "list_devices (te_heap env) (te_links env ?set) (te_get env ?set) =
      Some (Inr (concat (map conf_lines (ho_wg h)) @ conf_lines (test_name, ?c)))"
    using list_devices_host [OF _ _ _ links(2,5) _ get(3,2,4), of ?set] links(3,4,6) test_name_plain(2)
    by (simp add: links(1) get(1))
  have "filter (\<lambda>(n, c). n \<noteq> test_name) (ho_wg h) = ho_wg h" using host(2) by (intro filter_True) force
  then have del: "wg_del_device (te_rtnl env) (te_del env) (wd_name ?dev) ?set = Some (0, h, {})"
    using host_rtnl_answered [OF rtnl(3) test_name_plain(3), of 0 ?set False h "replicate 8 0"]
      host_rtnl_iface(2) [OF test_name_plain(1) now(2), of portid ?set] test_name_plain(2)
    by (simp add: wg_del_device_def dev(4) rtnl(1))
  have gen: "wg_generate_private_key (te_temp env) = Some (clamp_key r)" "wg_generate_private_key (te_private env) = Some (clamp_key r')"
    using keys by (simp_all add: wg_generate_private_key_def)
  have "test_main fuel env h = Some (0, h, concat (map conf_lines (ho_wg h)) @ conf_lines (test_name, ?c))"
    unfolding test_main_def Let_def gen pub(1) bind.bind_lunit add prod.case if_not_P [OF less_irrefl] set list sum.case del by simp
  then show ?thesis using pub(1) own unfolding line by blast
qed

text \<open>A world with the small socket, two other interfaces, one of them a WireGuard device, and keys from \<open>getentropy\<close>.\<close>

definition test_host :: host where
  "test_host = \<lparr>ho_links = [[Link (replicate 16 1) [Name [108, 111], Other_Attr 4 [0, 0, 1, 0]]]],
     ho_wg = [([119, 103, 48], \<lparr>cf_key = Some (replicate 32 3), cf_port = 51820, cf_peers = [replicate 32 4, replicate 32 5]\<rparr>)]\<rparr>"

definition test_entropy :: "u8 \<Rightarrow> entropy" where
  "test_entropy b = \<lparr>ent_getentropy = Some (replicate 32 b), ent_getrandom = [], ent_open = False, ent_reads = []\<rparr>"

definition test_get :: get_env where
  "test_get = \<lparr>ge_budget = 17, ge_open = small_open, ge_time = 1, ge_kernel = (\<lambda>_. Inl EINVAL)\<rparr>"

definition test_world :: "host test_env" where
  "test_world = \<lparr>te_temp = test_entropy 7, te_private = test_entropy 9, te_heap = \<lambda>n. Some (\<lambda>i. 255),
     te_rtnl = host_rtnl 7, te_genl = host_set small_socket, te_clock = \<lambda>h. of_nat (length (ho_wg h)),
     te_add = rtnl_open [], te_set = small_open, te_del = rtnl_open [], te_links = \<lambda>h. (rtnl_open [])\<lparr>oe_kernel := host_links 7 h\<rparr>,
     te_get = \<lambda>h name. [test_get\<lparr>ge_kernel := host_get small_socket h\<rparr>]\<rparr>"

lemma test_main_end_to_end_witness:
  "\<exists>own pub. wg_generate_public_key (clamp_key (replicate 32 9)) = Some own \<and> wg_generate_public_key (clamp_key (replicate 32 7)) = Some pub \<and>
    test_main 1 test_world test_host = Some (0, test_host, concat (map conf_lines (ho_wg test_host)) @
      [''wgtest0 has public key '' @ key_text own, '' - peer '' @ key_text pub])"
proof (rule test_main_end_to_end [where portid = 7 and nlg = small_socket and nlg' = small_socket and genv = test_get
      and lenv = "rtnl_open []" and lbuf = "replicate 96 0" and buf = "replicate 96 0" and buf' = "replicate 96 0"])
  show "opened (te_set test_world) small_socket" "opened (ge_open test_get) small_socket"
    using small_opened by (simp_all add: test_world_def test_get_def)
  show "bound_socket (te_add test_world) (replicate 96 0) 7" "bound_socket (te_del test_world) (replicate 96 0) 7"
    "bound_socket (rtnl_open []) (replicate 96 0) 7"
    using rtnl_bound by (simp_all add: test_world_def)
  show "host_ok test_host" "test_name \<notin> set (map fst (ho_wg test_host))" "wg_names (concat (ho_links test_host)) = []" by code_simp+
  have "dump_ok 96 1 7 (ho_links test_host) []" by code_simp
  then show "dump_ok (length (replicate 96 (0 :: u8))) (oe_time (rtnl_open [])) 7 (ho_links test_host) []"
    by (simp add: rtnl_open_def sample_open_def)
qed (simp_all add: test_world_def test_entropy_def wg_generate_preshared_key_def small_socket_def test_get_def test_host_def)

text \<open>Claim C40: when there is a device called \<open>wgtest0\<close> already, the example ends with 1 after the first
  request: nothing is configured, printed or deleted.\<close>

theorem test_main_name_taken:
  assumes keys: "wg_generate_preshared_key (te_temp env) = Some r" "length r = 32"
      "wg_generate_preshared_key (te_private env) = Some r'" "length r' = 32"
    and rtnl: "te_rtnl env = host_rtnl portid" "bound_socket (te_add env) buf portid" and host: "test_name \<in> set (map fst (ho_wg h))"
  shows "test_main fuel env h = Some (1, h, [])"
proof -
  obtain pub where pub: "wg_generate_public_key (clamp_key r) = Some pub" "length pub = 32"
    using public_key_spec [of "clamp_key r"] keys(2) by auto
  have priv: "length (clamp_key r') = 32" using keys(4) by simp
  have now: "oe_time (te_add env) < 2 ^ 32" using rtnl(2) by (simp add: bound_socket_def)
  have "wg_add_device (te_rtnl env) (te_add env) (wd_name (test_device pub (clamp_key r'))) h = Some (- EEXIST, h, {})"
    using host_rtnl_answered [OF rtnl(2) test_name_plain(3), of EEXIST h True h "replicate 8 0"]
      host_rtnl_iface(1) [OF test_name_plain(1) now, of portid h] host test_name_plain(2)
    by (simp add: wg_add_device_def test_device_ok(4) [OF pub(2) priv] rtnl(1))
  moreover have "wg_generate_private_key (te_temp env) = Some (clamp_key r)" "wg_generate_private_key (te_private env) = Some (clamp_key r')"
    using keys by (simp_all add: wg_generate_private_key_def)
  ultimately show ?thesis using pub(1) by (simp add: test_main_def EEXIST_def)
qed

lemma test_main_name_taken_witness:
  "test_main 1 test_world (test_host\<lparr>ho_wg := [(test_name, test_conf (replicate 32 1) (replicate 32 2))]\<rparr>) =
   Some (1, test_host\<lparr>ho_wg := [(test_name, test_conf (replicate 32 1) (replicate 32 2))]\<rparr>, [])"
  by (rule test_main_name_taken [where r = "replicate 32 7" and r' = "replicate 32 9" and portid = 7 and buf = "replicate 96 0"])
    (use rtnl_bound in \<open>simp_all add: test_world_def test_entropy_def wg_generate_preshared_key_def\<close>)

end
