(* ===== verification/Wg_Free.thy ===== *)
theory Wg_Free
  imports Prelude
begin

text \<open>
  \<open>wg_free_device\<close> of \<open>wireguard.c\<close> on the level of pointers: the objects of a device are cells
  of a heap, linked by their addresses. Reading or freeing a cell that is not there, because it was
  freed before, is undefined (\<open>None\<close>). The loops keep the next pointer before they free a cell.
\<close>

section \<open>Cells\<close>

datatype cell =
    Device_Cell (first_peer: "nat option")
  | Peer_Cell (first_allowedip: "nat option") (next_peer: "nat option")
  | Allowedip_Cell (next_allowedip: "nat option")

type_synonym cells = "nat \<rightharpoonup> cell"

definition free_cell :: "cells \<Rightarrow> nat \<Rightarrow> cells option" where
  "free_cell h p = (if h p = None then None else Some (h(p := None)))"

definition read_next_allowedip :: "cells \<Rightarrow> nat option \<Rightarrow> nat option option" where
  "read_next_allowedip h p =
     (case p of None \<Rightarrow> Some None | Some a \<Rightarrow> (case h a of Some (Allowedip_Cell n) \<Rightarrow> Some n | _ \<Rightarrow> None))"

definition read_next_peer :: "cells \<Rightarrow> nat option \<Rightarrow> nat option option" where
  "read_next_peer h p =
     (case p of None \<Rightarrow> Some None | Some a \<Rightarrow> (case h a of Some (Peer_Cell _ n) \<Rightarrow> Some n | _ \<Rightarrow> None))"

text \<open>The two loops; their variables are the current and the next object.\<close>

partial_function (option) free_allowedips :: "cells \<Rightarrow> nat option \<Rightarrow> nat option \<Rightarrow> cells option" where
  "free_allowedips h allowedip na =
     (case allowedip of
        None \<Rightarrow> Some h
      | Some a \<Rightarrow> do {
          h \<leftarrow> free_cell h a;
          na' \<leftarrow> read_next_allowedip h na;
          free_allowedips h na na' })"

partial_function (option) free_peers :: "cells \<Rightarrow> nat option \<Rightarrow> nat option \<Rightarrow> cells option" where
  "free_peers h peer np =
     (case peer of
        None \<Rightarrow> Some h
      | Some p \<Rightarrow> (case h p of
          Some (Peer_Cell first _) \<Rightarrow> do {
            na \<leftarrow> read_next_allowedip h first;
            h \<leftarrow> free_allowedips h first na;
            h \<leftarrow> free_cell h p;
            np' \<leftarrow> read_next_peer h np;
            free_peers h np np' }
        | _ \<Rightarrow> None))"

declare free_allowedips.simps [code] free_peers.simps [code]

definition wg_free_device :: "cells \<Rightarrow> nat option \<Rightarrow> cells option" where
  "wg_free_device h dev =
     (case dev of
        None \<Rightarrow> Some h
      | Some d \<Rightarrow> (case h d of
          Some (Device_Cell first) \<Rightarrow> do {
            np \<leftarrow> read_next_peer h first;
            h \<leftarrow> free_peers h first np;
            free_cell h d }
        | _ \<Rightarrow> None))"

section \<open>Linked lists\<close>

text \<open>\<open>path h p as\<close>: from the pointer \<open>p\<close> the cells at the addresses \<open>as\<close> are linked.\<close>

primrec allowedip_path :: "cells \<Rightarrow> nat option \<Rightarrow> nat list \<Rightarrow> bool" where
  "allowedip_path h p [] \<longleftrightarrow> p = None"
| "allowedip_path h p (a # as) \<longleftrightarrow> p = Some a \<and> (\<exists>n. h a = Some (Allowedip_Cell n) \<and> allowedip_path h n as)"

text \<open>A peer is its address with the addresses of its allowed addresses.\<close>

primrec peer_path :: "cells \<Rightarrow> nat option \<Rightarrow> (nat \<times> nat list) list \<Rightarrow> bool" where
  "peer_path h p [] \<longleftrightarrow> p = None"
| "peer_path h p (q # qs) \<longleftrightarrow> p = Some (fst q) \<and>
     (\<exists>first n. h (fst q) = Some (Peer_Cell first n) \<and> allowedip_path h first (snd q) \<and> peer_path h n qs)"

definition peer_addrs :: "(nat \<times> nat list) list \<Rightarrow> nat list" where
  "peer_addrs qs = concat (map (\<lambda>(p, as). p # as) qs)"

lemma peer_addrs_simps [simp]: "peer_addrs [] = []" "peer_addrs (q # qs) = (fst q # snd q) @ peer_addrs qs"
  by (simp_all add: peer_addrs_def case_prod_beta)

text \<open>Cells that are not part of a list may change.\<close>

lemma allowedip_path_frame: "allowedip_path h p as \<Longrightarrow> \<forall>a\<in>set as. h' a = h a \<Longrightarrow> allowedip_path h' p as"
  by (induction "as" arbitrary: p) auto

lemma peer_path_frame: "peer_path h p qs \<Longrightarrow> \<forall>a\<in>set (peer_addrs qs). h' a = h a \<Longrightarrow> peer_path h' p qs"
proof (induction qs arbitrary: p)
  case (Cons q qs)
  then show ?case by (auto intro!: allowedip_path_frame [of h _ "snd q" h'])
qed simp

lemma free_allowedips_path:
  "allowedip_path h p as \<Longrightarrow> distinct as \<Longrightarrow> read_next_allowedip h p = Some n \<Longrightarrow>
   free_allowedips h p n = Some (\<lambda>x. if x \<in> set as then None else h x)"
proof (induction "as" arbitrary: h p n)
  case Nil
  then show ?case by (subst free_allowedips.simps) simp
next
  case (Cons a "as")
  then obtain m where a: "p = Some a" "h a = Some (Allowedip_Cell m)" "allowedip_path h m as" by auto
  have n: "n = m" using Cons.prems(3) a by (simp add: read_next_allowedip_def)
  let ?h = "h(a := None)"
  have path: "allowedip_path ?h m as" using a(3) Cons.prems(2) by (intro allowedip_path_frame [OF a(3)]) auto
  then obtain m' where m': "read_next_allowedip ?h m = Some m'"
    by (cases "as") (auto simp: read_next_allowedip_def)
  have "free_allowedips h p n = free_allowedips ?h m m'"
    by (subst free_allowedips.simps) (simp add: a n free_cell_def m')
  also have "\<dots> = Some (\<lambda>x. if x \<in> set as then None else ?h x)"
    by (rule Cons.IH [OF path _ m']) (use Cons.prems(2) in simp)
  also have "(\<lambda>x. if x \<in> set as then None else ?h x) = (\<lambda>x. if x \<in> set (a # as) then None else h x)"
    by auto
  finally show ?case .
qed

lemma path_next_allowedip: "allowedip_path h p as \<Longrightarrow> \<exists>n. read_next_allowedip h p = Some n"
  by (cases "as") (auto simp: read_next_allowedip_def)

lemma path_next_peer: "peer_path h p qs \<Longrightarrow> \<exists>n. read_next_peer h p = Some n"
  by (cases qs) (auto simp: read_next_peer_def)

lemma free_peers_path:
  "peer_path h p qs \<Longrightarrow> distinct (peer_addrs qs) \<Longrightarrow> read_next_peer h p = Some n \<Longrightarrow>
   free_peers h p n = Some (\<lambda>x. if x \<in> set (peer_addrs qs) then None else h x)"
proof (induction qs arbitrary: h p n)
  case Nil
  then show ?case by (subst free_peers.simps) simp
next
  case (Cons q qs)
  then obtain first m where q: "p = Some (fst q)" "h (fst q) = Some (Peer_Cell first m)" "allowedip_path h first (snd q)" "peer_path h m qs"
    by auto
  have n: "n = m" using Cons.prems(3) q by (simp add: read_next_peer_def)
  have d: "fst q \<notin> set (snd q)" "distinct (snd q)" "distinct (peer_addrs qs)" "set (fst q # snd q) \<inter> set (peer_addrs qs) = {}"
    using Cons.prems(2) by auto
  let ?h1 = "\<lambda>x. if x \<in> set (snd q) then None else h x" and ?h2 = "\<lambda>x. if x \<in> set (fst q # snd q) then None else h x"
  obtain na where na: "read_next_allowedip h first = Some na" using path_next_allowedip [OF q(3)] by blast
  have f: "free_allowedips h first na = Some ?h1" by (rule free_allowedips_path [OF q(3) d(2) na])
  have h2: "free_cell ?h1 (fst q) = Some ?h2" using q(2) d(1) by (auto simp: free_cell_def)
  have path: "peer_path ?h2 m qs" using d(4) by (intro peer_path_frame [OF q(4)]) auto
  obtain m' where m': "read_next_peer ?h2 m = Some m'" using path_next_peer [OF path] by blast
  have "free_peers h p n = free_peers ?h2 m m'"
    by (subst free_peers.simps) (simp only: q(1,2) n na f h2 m' option.case cell.case bind.bind_lunit)
  also have "\<dots> = Some (\<lambda>x. if x \<in> set (peer_addrs qs) then None else ?h2 x)" by (rule Cons.IH [OF path d(3) m'])
  also have "(\<lambda>x. if x \<in> set (peer_addrs qs) then None else ?h2 x) = (\<lambda>x. if x \<in> set (peer_addrs (q # qs)) then None else h x)"
    by auto
  finally show ?case .
qed

text \<open>Claim C19: \<open>wg_free_device\<close> frees the device, every peer and every allowed address exactly once, reads
  nothing that it has freed, and leaves all other objects as they are.\<close>

theorem wg_free_device_exact:
  assumes "h d = Some (Device_Cell first)" "peer_path h first qs" "distinct (d # peer_addrs qs)"
  shows "wg_free_device h (Some d) = Some (\<lambda>x. if x \<in> set (d # peer_addrs qs) then None else h x)"
proof -
  obtain np where np: "read_next_peer h first = Some np" using path_next_peer [OF assms(2)] by blast
  have "free_peers h first np = Some (\<lambda>x. if x \<in> set (peer_addrs qs) then None else h x)"
    by (rule free_peers_path [OF assms(2) _ np]) (use assms(3) in simp)
  then show ?thesis using assms(1,3) np by (auto simp: wg_free_device_def free_cell_def)
qed

lemma wg_free_device_exact_witness:
  "map_option (\<lambda>h. map h [0, 1, 2, 3, 4, 5]) (wg_free_device [0 \<mapsto> Device_Cell (Some 1), 1 \<mapsto> Peer_Cell (Some 2) (Some 4),
     2 \<mapsto> Allowedip_Cell (Some 3), 3 \<mapsto> Allowedip_Cell None, 4 \<mapsto> Peer_Cell None None, 5 \<mapsto> Allowedip_Cell None] (Some 0)) =
   Some [None, None, None, None, None, Some (Allowedip_Cell None)]"
proof -
  let ?h = "[0 \<mapsto> Device_Cell (Some 1), 1 \<mapsto> Peer_Cell (Some 2) (Some 4), 2 \<mapsto> Allowedip_Cell (Some 3), 3 \<mapsto> Allowedip_Cell None,
    4 \<mapsto> Peer_Cell None None, 5 \<mapsto> Allowedip_Cell None] :: cells"
  have "wg_free_device ?h (Some 0) = Some (\<lambda>x. if x \<in> set (0 # peer_addrs [(1, [2, 3]), (4, [])]) then None else ?h x)"
    by (rule wg_free_device_exact) simp_all
  then show ?thesis by simp
qed

end
