(* ===== verification/Sticky_Sockets.thy ===== *)
theory Sticky_Sockets
  imports C_Stdio
begin

text \<open>
  Sticky sockets (\<open>sticky-sockets.c\<close>): an endpoint remembers the address and the interface at which
  a packet arrived, and the answer leaves from there, until the system refuses it. The unions of
  \<open>struct magic_endpoint\<close> are byte sequences, so that their members overlap as they do in C. The
  system calls and \<open>inet_ntop\<close> are parameters; a failed call is \<open>Inl\<close> of its error number.
\<close>

section \<open>Endpoints\<close>

record magic_endpoint =
  me_addr :: "u8 list"
  me_src :: "u8 list"

text \<open>\<open>overlay old bs\<close> replaces the first bytes of a union.\<close>

definition overlay :: "u8 list \<Rightarrow> u8 list \<Rightarrow> u8 list" where
  "overlay old bs = bs @ drop (length bs) old"

definition zero_endpoint :: magic_endpoint where
  "zero_endpoint = \<lparr>me_addr = replicate 28 0, me_src = replicate 16 0\<rparr>"

definition endpoint_ok :: "magic_endpoint \<Rightarrow> bool" where
  "endpoint_ok ep \<longleftrightarrow> length (me_addr ep) = 28 \<and> length (me_src ep) = 16"

definition AF_INET :: nat where "AF_INET = 2"
definition AF_INET6 :: nat where "AF_INET6 = 10"
definition EINVAL :: int where "EINVAL = 22"

abbreviation sa_family :: "u8 list \<Rightarrow> nat" where
  "sa_family addr \<equiv> le_nat (take 2 addr)"

abbreviation src4 :: "magic_endpoint \<Rightarrow> u8 list" where
  "src4 ep \<equiv> take 4 (me_src ep)"

abbreviation src_if4 :: "magic_endpoint \<Rightarrow> u8 list" where
  "src_if4 ep \<equiv> take 4 (drop 4 (me_src ep))"

abbreviation src6 :: "magic_endpoint \<Rightarrow> u8 list" where
  "src6 ep \<equiv> take 16 (me_src ep)"

abbreviation sin6_scope_id :: "u8 list \<Rightarrow> u8 list" where
  "sin6_scope_id addr \<equiv> take 4 (drop 24 addr)"

section \<open>Sending and receiving\<close>

text \<open>A control message and a whole message; the control data is the packet information.\<close>

record cmsg =
  cm_len :: nat
  cm_level :: nat
  cm_type :: nat
  cm_data :: "u8 list"

record msghdr =
  mh_name :: "u8 list"
  mh_data :: "u8 list"
  mh_control :: cmsg

definition pktinfo4 :: "u8 list \<Rightarrow> cmsg" where
  "pktinfo4 data = \<lparr>cm_len = 28, cm_level = 0, cm_type = 8, cm_data = data\<rparr>"

definition pktinfo6 :: "u8 list \<Rightarrow> cmsg" where
  "pktinfo6 data = \<lparr>cm_len = 36, cm_level = 41, cm_type = 50, cm_data = data\<rparr>"

definition packet4 :: "magic_endpoint \<Rightarrow> u8 list \<Rightarrow> msghdr" where
  "packet4 ep buffer = \<lparr>mh_name = take 16 (me_addr ep), mh_data = buffer,
     mh_control = pktinfo4 (src_if4 ep @ src4 ep @ replicate 4 0)\<rparr>"

definition packet6 :: "magic_endpoint \<Rightarrow> u8 list \<Rightarrow> msghdr" where
  "packet6 ep buffer =
     (let ifindex = (if src6 ep \<noteq> replicate 16 0 then sin6_scope_id (me_addr ep) else replicate 4 0) in
      \<lparr>mh_name = take 28 (me_addr ep), mh_data = buffer, mh_control = pktinfo6 (src6 ep @ ifindex)\<rparr>)"

definition magic_send4 ::
  "('k \<Rightarrow> msghdr \<Rightarrow> 'k \<times> (int + nat)) \<Rightarrow> magic_endpoint \<Rightarrow> u8 list \<Rightarrow> 'k \<Rightarrow> 'k \<times> magic_endpoint \<times> (int + nat)" where
  "magic_send4 sendmsg ep buffer k =
     (let msg = packet4 ep buffer in
      case sendmsg k msg of (k, ret) \<Rightarrow>
        if ret = Inl EINVAL then
          let ep = ep\<lparr>me_src := overlay (me_src ep) (replicate 8 0)\<rparr> in
          (case sendmsg k (msg\<lparr>mh_control := pktinfo4 (replicate 12 0)\<rparr>) of (k, ret) \<Rightarrow> (k, ep, ret))
        else (k, ep, ret))"

definition magic_send6 ::
  "('k \<Rightarrow> msghdr \<Rightarrow> 'k \<times> (int + nat)) \<Rightarrow> magic_endpoint \<Rightarrow> u8 list \<Rightarrow> 'k \<Rightarrow> 'k \<times> magic_endpoint \<times> (int + nat)" where
  "magic_send6 sendmsg ep buffer k =
     (let msg = packet6 ep buffer in
      case sendmsg k msg of (k, ret) \<Rightarrow>
        if ret = Inl EINVAL then
          let ep = ep\<lparr>me_src := replicate 16 0\<rparr> in
          (case sendmsg k (msg\<lparr>mh_control := pktinfo6 (replicate 20 0)\<rparr>) of (k, ret) \<Rightarrow> (k, ep, ret))
        else (k, ep, ret))"

text \<open>
  What \<open>recvmsg\<close> delivers: the sender, the data and the control message, if there is one. Without
  one the buffer for it keeps what was on the stack, \<open>stack\<close>.
\<close>

record delivery =
  dl_name :: "u8 list"
  dl_data :: "u8 list"
  dl_control :: "cmsg option"

definition received :: "u8 list \<Rightarrow> delivery \<Rightarrow> u8 list \<times> nat" where
  "received buffer d = (let got = take (length buffer) (dl_data d) in (overlay buffer got, length got))"

definition magic_receive4 ::
  "cmsg \<Rightarrow> int + delivery \<Rightarrow> magic_endpoint \<Rightarrow> u8 list \<Rightarrow> magic_endpoint \<times> u8 list \<times> (int + nat)" where
  "magic_receive4 stack r ep buffer =
     (case r of
        Inl e \<Rightarrow> (ep, buffer, Inl e)
      | Inr d \<Rightarrow>
          let (buffer, n) = received buffer d;
              ep = ep\<lparr>me_addr := overlay (me_addr ep) (take 16 (dl_name d))\<rparr>;
              c = (case dl_control d of None \<Rightarrow> stack | Some c \<Rightarrow> c);
              ep = (if cm_level c = 0 \<and> cm_type c = 8 \<and> cm_len c \<ge> 28
                    then ep\<lparr>me_src := overlay (me_src ep) (take 4 (drop 4 (cm_data c)) @ take 4 (cm_data c))\<rparr>
                    else ep) in
          (ep, buffer, Inr n))"

definition magic_receive6 ::
  "cmsg \<Rightarrow> int + delivery \<Rightarrow> magic_endpoint \<Rightarrow> u8 list \<Rightarrow> magic_endpoint \<times> u8 list \<times> (int + nat)" where
  "magic_receive6 stack r ep buffer =
     (case r of
        Inl e \<Rightarrow> (ep, buffer, Inl e)
      | Inr d \<Rightarrow>
          let (buffer, n) = received buffer d;
              ep = ep\<lparr>me_addr := overlay (me_addr ep) (take 28 (dl_name d))\<rparr>;
              c = (case dl_control d of None \<Rightarrow> stack | Some c \<Rightarrow> c);
              ep = (if cm_level c = 41 \<and> cm_type c = 50 \<and> cm_len c \<ge> 36
                    then ep\<lparr>me_src := take 16 (cm_data c), me_addr := take 24 (me_addr ep) @ take 4 (drop 16 (cm_data c))\<rparr>
                    else ep) in
          (ep, buffer, Inr n))"

definition magic_endpoint_clearsrc :: "magic_endpoint \<Rightarrow> magic_endpoint" where
  "magic_endpoint_clearsrc ep =
     (if sa_family (me_addr ep) = AF_INET then ep\<lparr>me_src := overlay (me_src ep) (replicate 8 0)\<rparr>
      else if sa_family (me_addr ep) = AF_INET6 then ep\<lparr>me_src := replicate 16 0\<rparr>
      else zero_endpoint)"

definition magic_endpoint_set :: "magic_endpoint \<Rightarrow> u8 list \<Rightarrow> magic_endpoint" where
  "magic_endpoint_set ep addr =
     magic_endpoint_clearsrc
       (if sa_family addr = AF_INET then ep\<lparr>me_addr := overlay (me_addr ep) (take 16 addr)\<rparr>
        else if sa_family addr = AF_INET6 then ep\<lparr>me_addr := overlay (me_addr ep) (take 28 addr)\<rparr>
        else ep)"

section \<open>Sockets\<close>

text \<open>The system calls on descriptors; a negative result is a failure.\<close>

datatype sock_call = Sys_Socket nat nat nat | Sys_Setsockopt int nat nat | Sys_Bind int "u8 list" | Sys_Close int

type_synonym 'k sys = "'k \<Rightarrow> sock_call \<Rightarrow> 'k \<times> int"

definition htons :: "u16 \<Rightarrow> u8 list" where
  "htons port = [of_nat (unat port div 256), of_nat (unat port mod 256)]"

definition any_addr4 :: "u16 \<Rightarrow> u8 list" where
  "any_addr4 port = le_bytes 2 AF_INET @ htons port @ replicate 12 0"

definition any_addr6 :: "u16 \<Rightarrow> u8 list" where
  "any_addr6 port = le_bytes 2 AF_INET6 @ htons port @ replicate 24 0"

text \<open>The code behind the label \<open>err\<close>, and a call that leads there when it fails.\<close>

definition sock_err :: "'k sys \<Rightarrow> int \<Rightarrow> int \<Rightarrow> 'k \<Rightarrow> 'k \<times> int" where
  "sock_err sys fd ret k = (fst (sys k (Sys_Close fd)), ret)"

definition or_err :: "'k sys \<Rightarrow> int \<Rightarrow> sock_call \<Rightarrow> ('k \<Rightarrow> 'k \<times> int) \<Rightarrow> 'k \<Rightarrow> 'k \<times> int" where
  "or_err sys fd call rest k = (case sys k call of (k, ret) \<Rightarrow> if ret < 0 then sock_err sys fd ret k else rest k)"

definition magic_create_sock4 :: "'k sys \<Rightarrow> u16 \<Rightarrow> 'k \<Rightarrow> 'k \<times> int" where
  "magic_create_sock4 sys listen_port k =
     (case sys k (Sys_Socket AF_INET 2 0) of (k, fd) \<Rightarrow>
        if fd < 0 then (k, fd)
        else
          or_err sys fd (Sys_Setsockopt fd 0 8)
            (or_err sys fd (Sys_Bind fd (any_addr4 listen_port))
              (\<lambda>k. (k, fd))) k)"

definition magic_create_sock6 :: "'k sys \<Rightarrow> u16 \<Rightarrow> 'k \<Rightarrow> 'k \<times> int" where
  "magic_create_sock6 sys listen_port k =
     (case sys k (Sys_Socket AF_INET6 2 0) of (k, fd) \<Rightarrow>
        if fd < 0 then (k, fd)
        else
          or_err sys fd (Sys_Setsockopt fd 41 49)
            (or_err sys fd (Sys_Setsockopt fd 41 26)
              (or_err sys fd (Sys_Bind fd (any_addr6 listen_port))
                (\<lambda>k. (k, fd)))) k)"

section \<open>The program\<close>

text \<open>
  The system as the program sees it, the two halves of \<open>main\<close> with their output lines, and the choice
  between them. Messages to standard error are left out.
\<close>

record 'k system =
  ks_sys :: "'k sys"
  ks_recvmsg :: "'k \<Rightarrow> 'k \<times> (int + delivery)"
  ks_sendmsg :: "'k \<Rightarrow> msghdr \<Rightarrow> 'k \<times> (int + nat)"
  ks_sleep :: "'k \<Rightarrow> 'k"
  ks_ntop :: "nat \<Rightarrow> u8 list \<Rightarrow> string option"
  ks_stack :: cmsg

definition signed32 :: "u8 list \<Rightarrow> int" where
  "signed32 bs = (let n = le_nat bs in if n < 2 ^ 31 then int n else int n - 2 ^ 32)"

definition received_lines :: "u8 list \<Rightarrow> string \<Rightarrow> string \<Rightarrow> string list" where
  "received_lines ifindex src dst =
     [''if:'' @ dec_int (signed32 ifindex) @ '' src:'' @ src @ '' dst:'' @ dst,
      ''Received a packet. Sleeping for 10 seconds before replying, so you have time to mess with your networking setup.'']"

definition magic_main6 :: "'k system \<Rightarrow> 'k \<Rightarrow> 'k \<times> int \<times> string list" where
  "magic_main6 w k =
     (case magic_create_sock6 (ks_sys w) 51820 k of (k, sock) \<Rightarrow>
      if sock < 0 then (k, 1, [])
      else case ks_recvmsg w k of (k, r) \<Rightarrow>
      case magic_receive6 (ks_stack w) r zero_endpoint (replicate 1024 0) of (ep, buffer, ret) \<Rightarrow>
      if isl ret then (k, 1, [])
      else case ks_ntop w AF_INET6 (src6 ep) of
        None \<Rightarrow> (k, 1, [])
      | Some srcaddr \<Rightarrow>
      (case ks_ntop w AF_INET6 (take 16 (drop 8 (me_addr ep))) of
        None \<Rightarrow> (k, 1, [])
      | Some dstaddr \<Rightarrow>
          let out = received_lines (sin6_scope_id (me_addr ep)) srcaddr dstaddr in
          case magic_send6 (ks_sendmsg w) ep buffer (ks_sleep w k) of (k, ep, ret) \<Rightarrow>
          if isl ret then (k, 1, out)
          else (fst (ks_sys w k (Sys_Close sock)), 0, out)))"

definition magic_main4 :: "'k system \<Rightarrow> 'k \<Rightarrow> 'k \<times> int \<times> string list" where
  "magic_main4 w k =
     (case magic_create_sock4 (ks_sys w) 51820 k of (k, sock) \<Rightarrow>
      if sock < 0 then (k, 1, [])
      else case ks_recvmsg w k of (k, r) \<Rightarrow>
      case magic_receive4 (ks_stack w) r zero_endpoint (replicate 1024 0) of (ep, buffer, ret) \<Rightarrow>
      if isl ret then (k, 1, [])
      else case ks_ntop w AF_INET (src4 ep) of
        None \<Rightarrow> (k, 1, [])
      | Some srcaddr \<Rightarrow>
      (case ks_ntop w AF_INET (take 4 (drop 4 (me_addr ep))) of
        None \<Rightarrow> (k, 1, [])
      | Some dstaddr \<Rightarrow>
          let out = received_lines (src_if4 ep) srcaddr dstaddr in
          case magic_send4 (ks_sendmsg w) ep buffer (ks_sleep w k) of (k, ep, ret) \<Rightarrow>
          if isl ret then (k, 1, out)
          else (fst (ks_sys w k (Sys_Close sock)), 0, out)))"

definition magic_main :: "'k system \<Rightarrow> string list \<Rightarrow> 'k \<Rightarrow> 'k \<times> int \<times> string list" where
  "magic_main w argv k =
     (if length argv = 2 \<and> argv ! 1 = ''-4'' then magic_main4 w k
      else if length argv = 2 \<and> argv ! 1 = ''-6'' then magic_main6 w k
      else (k, 1, []))"

section \<open>Properties\<close>

text \<open>A network that takes every message and keeps a record.\<close>

definition sent :: "msghdr list \<Rightarrow> msghdr \<Rightarrow> msghdr list \<times> (int + nat)" where
  "sent ms m = (ms @ [m], Inr (length (mh_data m)))"

text \<open>Claim C20: the answer to a packet goes to its sender and leaves from the address and the interface at
  which the packet arrived: after a receive whose control message tells them, the next send hands
  the same address and interface to the system, for IPv4 and for IPv6.\<close>

theorem magic_reply_sticky:
  assumes "endpoint_ok ep" "length src_four = 4" "length hdr_four = 4" "length ifindex = 4" "length name_four = 16"
    and "length src_six = 16" "length name_six = 28" "src_six \<noteq> replicate 16 0"
  shows "(case magic_receive4 stack (Inr \<lparr>dl_name = name_four, dl_data = data, dl_control = Some (pktinfo4 (ifindex @ src_four @ hdr_four))\<rparr>) ep buffer of
      (ep', buffer', _) \<Rightarrow> magic_send4 sent ep' reply ms =
        (ms @ [\<lparr>mh_name = name_four, mh_data = reply, mh_control = pktinfo4 (ifindex @ src_four @ replicate 4 0)\<rparr>], ep', Inr (length reply))) \<and>
    (case magic_receive6 stack (Inr \<lparr>dl_name = name_six, dl_data = data, dl_control = Some (pktinfo6 (src_six @ ifindex))\<rparr>) ep buffer of
      (ep', buffer', _) \<Rightarrow> magic_send6 sent ep' reply ms =
        (ms @ [\<lparr>mh_name = take 24 name_six @ ifindex, mh_data = reply, mh_control = pktinfo6 (src_six @ ifindex)\<rparr>], ep', Inr (length reply)))"
  using assms
  by (simp add: magic_receive4_def magic_receive6_def magic_send4_def magic_send6_def packet4_def packet6_def sent_def received_def pktinfo4_def pktinfo6_def
      overlay_def endpoint_ok_def Let_def)

lemma magic_reply_sticky_witness:
  "(case magic_receive4 (pktinfo4 []) (Inr \<lparr>dl_name = replicate 16 9, dl_data = [7], dl_control = Some (pktinfo4 ([2, 0, 0, 0] @ [10, 0, 0, 1] @ [10, 0, 0, 1]))\<rparr>)
      zero_endpoint (replicate 3 0) of
      (ep', buffer', _) \<Rightarrow> magic_send4 sent ep' [1] [] =
        ([\<lparr>mh_name = replicate 16 9, mh_data = [1], mh_control = pktinfo4 ([2, 0, 0, 0] @ [10, 0, 0, 1] @ replicate 4 0)\<rparr>], ep', Inr 1))"
  using magic_reply_sticky [where ep = zero_endpoint and src_four = "[10, 0, 0, 1]" and hdr_four = "[10, 0, 0, 1]" and ifindex = "[2, 0, 0, 0]"
      and name_four = "replicate 16 9" and src_six = "replicate 16 1" and name_six = "replicate 28 9" and stack = "pktinfo4 []" and data = "[7]"
      and buffer = "replicate 3 0" and reply = "[1]" and ms = "[]"]
  by (simp add: endpoint_ok_def zero_endpoint_def)

text \<open>A network that refuses sources that are not valid any more.\<close>

definition routed :: "(u8 list \<Rightarrow> bool) \<Rightarrow> msghdr list \<Rightarrow> msghdr \<Rightarrow> msghdr list \<times> (int + nat)" where
  "routed valid ms m =
     (if valid (cm_data (mh_control m)) then (ms @ [m], Inr (length (mh_data m))) else (ms, Inl EINVAL))"

definition via :: "(u8 list \<Rightarrow> bool) \<Rightarrow> msghdr \<Rightarrow> msghdr" where
  "via valid m = (if valid (cm_data (mh_control m)) then m
     else m\<lparr>mh_control := (mh_control m)\<lparr>cm_data := replicate (length (cm_data (mh_control m))) 0\<rparr>\<rparr>)"

section \<open>The contract of a sticky socket\<close>

text \<open>
  What both address families have in common: the control message of a packet is the source of the
  endpoint in the encoding \<open>info\<close>, and a send that is refused is repeated once without the source,
  which the endpoint forgets.
\<close>

locale sticky =
  fixes send :: "(msghdr list \<Rightarrow> msghdr \<Rightarrow> msghdr list \<times> (int + nat)) \<Rightarrow> magic_endpoint \<Rightarrow> u8 list \<Rightarrow> msghdr list \<Rightarrow>
      msghdr list \<times> magic_endpoint \<times> (int + nat)"
    and packet :: "magic_endpoint \<Rightarrow> u8 list \<Rightarrow> msghdr" and info :: "u8 list \<Rightarrow> cmsg"
    and source :: "magic_endpoint \<Rightarrow> u8 list" and forget :: "magic_endpoint \<Rightarrow> magic_endpoint" and width :: nat
  assumes send_law: "send sendmsg ep buffer ms = (case sendmsg ms (packet ep buffer) of (ms, ret) \<Rightarrow>
        if ret = Inl EINVAL then (case sendmsg ms ((packet ep buffer)\<lparr>mh_control := info (replicate width 0)\<rparr>) of (ms, ret) \<Rightarrow> (ms, forget ep, ret))
        else (ms, ep, ret))"
    and packet_law: "mh_data (packet ep buffer) = buffer" "mh_control (packet ep buffer) = info (source ep)"
    and info_law: "cm_data (info d) = d" "(info d)\<lparr>cm_data := d'\<rparr> = info d'"
    and source_law: "endpoint_ok ep \<Longrightarrow> length (source ep) = width" "endpoint_ok ep \<Longrightarrow> source (forget ep) = replicate width 0"
    and forget_law: "me_addr (forget ep) = me_addr ep"
begin

lemma send_recovers:
  assumes "endpoint_ok ep" "valid (replicate width 0)"
  shows "\<exists>ep'. send (routed valid) ep buffer ms = (ms @ [via valid (packet ep buffer)], ep', Inr (length buffer)) \<and>
    me_addr ep' = me_addr ep \<and> valid (cm_data (mh_control (packet ep' next_buffer)))"
  using assms source_law [OF assms(1)]
  by (cases "valid (source ep)") (simp_all add: send_law routed_def via_def packet_law info_law forget_law)

text \<open>Once the source is accepted, a send leaves the endpoint as it is.\<close>

lemma send_keeps:
  assumes "valid (source ep)"
  shows "send (routed valid) ep buffer ms = (ms @ [packet ep buffer], ep, Inr (length buffer))"
  using assms by (simp add: send_law routed_def packet_law info_law)

end

interpretation v4: sticky magic_send4 packet4 pktinfo4 "\<lambda>ep. src_if4 ep @ src4 ep @ replicate 4 0"
  "\<lambda>ep. ep\<lparr>me_src := overlay (me_src ep) (replicate 8 0)\<rparr>" 12
  by unfold_locales (auto simp: magic_send4_def packet4_def pktinfo4_def overlay_def endpoint_ok_def Let_def
      replicate_add [symmetric] split: prod.splits simp flip: replicate_add)

interpretation v6: sticky magic_send6 packet6 pktinfo6
  "\<lambda>ep. src6 ep @ (if src6 ep \<noteq> replicate 16 0 then sin6_scope_id (me_addr ep) else replicate 4 0)" "\<lambda>ep. ep\<lparr>me_src := replicate 16 0\<rparr>" 20
  by unfold_locales (auto simp: magic_send6_def packet6_def pktinfo6_def endpoint_ok_def Let_def
      split: prod.splits simp flip: replicate_add)

text \<open>Claim C21: a send succeeds even when the remembered source is not valid any more: the packet is then
  sent without a source, to the same destination, and the endpoint forgets the source, so that
  later packets are accepted at the first try.\<close>

theorem magic_send_recovers:
  assumes "endpoint_ok ep" "valid (replicate 12 0)" "valid (replicate 20 0)"
  shows "\<exists>ep4 ep6. magic_send4 (routed valid) ep buffer ms = (ms @ [via valid (packet4 ep buffer)], ep4, Inr (length buffer)) \<and>
    me_addr ep4 = me_addr ep \<and> valid (cm_data (mh_control (packet4 ep4 next_buffer))) \<and>
    magic_send6 (routed valid) ep buffer ms = (ms @ [via valid (packet6 ep buffer)], ep6, Inr (length buffer)) \<and>
    me_addr ep6 = me_addr ep \<and> valid (cm_data (mh_control (packet6 ep6 next_buffer)))"
  using v4.send_recovers [of ep valid, OF assms(1,2)] v6.send_recovers [of ep valid, OF assms(1,3)] by meson

lemma magic_send_recovers_witness:
  "\<exists>ep4 ep6. magic_send4 (routed (\<lambda>d. d = replicate (length d) 0)) (zero_endpoint\<lparr>me_src := replicate 16 1\<rparr>) [5] [] =
      ([via (\<lambda>d. d = replicate (length d) 0) (packet4 (zero_endpoint\<lparr>me_src := replicate 16 1\<rparr>) [5])], ep4, Inr 1) \<and>
    me_addr ep4 = replicate 28 0 \<and>
    magic_send6 (routed (\<lambda>d. d = replicate (length d) 0)) (zero_endpoint\<lparr>me_src := replicate 16 1\<rparr>) [5] [] =
      ([via (\<lambda>d. d = replicate (length d) 0) (packet6 (zero_endpoint\<lparr>me_src := replicate 16 1\<rparr>) [5])], ep6, Inr 1)"
  using magic_send_recovers [of "zero_endpoint\<lparr>me_src := replicate 16 1\<rparr>" "\<lambda>d. d = replicate (length d) 0" "[5]" "[]" "[]"]
  by (auto simp: endpoint_ok_def zero_endpoint_def)

text \<open>Without a control message the decision rests on what was on the stack.\<close>

lemma magic_receive4_stale:
  assumes "length data = 12" "endpoint_ok ep"
  shows "me_src (fst (magic_receive4 (pktinfo4 data) (Inr \<lparr>dl_name = name, dl_data = bytes, dl_control = None\<rparr>) ep buffer)) =
    overlay (me_src ep) (take 4 (drop 4 data) @ take 4 data)"
  using assms by (simp add: magic_receive4_def received_def pktinfo4_def Let_def)

text \<open>A kernel with a table of descriptors, in which any call may fail.\<close>

fun desc_sys :: "(sock_call \<Rightarrow> int) \<Rightarrow> (int set) sys" where
  "desc_sys result live (Sys_Close fd) = (live - {fd}, 0)"
| "desc_sys result live (Sys_Socket d t p) =
     (if 0 \<le> result (Sys_Socket d t p) then insert (result (Sys_Socket d t p)) live else live, result (Sys_Socket d t p))"
| "desc_sys result live call = (live, result call)"

text \<open>A socket that cannot be set up is closed again; one that is returned is the only new descriptor.\<close>

lemma magic_create_sock_no_leak:
  assumes "\<forall>call. result call \<notin> live"
  shows "case magic_create_sock4 (desc_sys result) port live of (live', fd) \<Rightarrow> live' = (if fd < 0 then live else insert fd live)"
    "case magic_create_sock6 (desc_sys result) port live of (live', fd) \<Rightarrow> live' = (if fd < 0 then live else insert fd live)"
  using assms by (auto simp: magic_create_sock4_def magic_create_sock6_def or_err_def sock_err_def)

end
