(* ===== verification/Extract_Keys.thy ===== *)
theory Extract_Keys
  imports C_Stdio
begin

text \<open>
  The key extractor (\<open>extract-keys.c\<close>): it looks up the socket of a WireGuard interface in
  \<open>/proc/net/udp\<close>, follows the pointers from there through the memory of the kernel and prints the
  session keys of all peers. The memory (\<open>/dev/kmem\<close>), \<open>b64_ntop\<close> and the offsets of the kernel
  structures, which \<open>config.c\<close> prints into a header, are parameters. A call of \<open>exit\<close> is
  \<open>Inl\<close> of its code with the output so far; an access outside an array and a loop that does not end
  are \<open>None\<close>.
\<close>

section \<open>Kernel memory\<close>

text \<open>
  The device: whether a position can be sought, and the error number and the bytes that a read of a
  number of bytes delivers, perhaps too few.
\<close>

record kmem =
  km_seek :: "u64 \<Rightarrow> int option"
  km_read :: "u64 \<Rightarrow> nat \<Rightarrow> int \<times> u8 list"

text \<open>The constants of the generated \<open>config.h\<close>.\<close>

record config =
  SOCK_DEVICE_OFFSET :: u64
  DEVICE_NAME_OFFSET :: u64
  IFNAMSIZ :: nat
  DEVICE_PEERS_OFFSET :: u64
  PEERS_PEER_OFFSET :: u64
  PEER_CURRENTKEY_OFFSET :: u64
  PEER_PREVIOUSKEY_OFFSET :: u64
  PEER_NEXTKEY_OFFSET :: u64
  KEY_LOCALID_OFFSET :: u64
  KEY_REMOTEID_OFFSET :: u64
  KEY_SENDING_OFFSET :: u64
  KEY_RECEIVING_OFFSET :: u64

definition read_kmem :: "kmem \<Rightarrow> nat \<Rightarrow> u64 \<Rightarrow> int + u8 list" where
  "read_kmem m len addr =
     (case km_seek m addr of
        Some e \<Rightarrow> Inl e
      | None \<Rightarrow> (case km_read m addr len of (e, bytes) \<Rightarrow> if length bytes \<noteq> len then Inl e else Inr bytes))"

definition read_int :: "kmem \<Rightarrow> u64 \<Rightarrow> int + u32" where
  "read_int m addr = (case read_kmem m 4 addr of Inl e \<Rightarrow> Inl e | Inr bs \<Rightarrow> Inr (of_nat (le_nat bs)))"

definition read_long :: "kmem \<Rightarrow> u64 \<Rightarrow> int + u64" where
  "read_long m addr = (case read_kmem m 8 addr of Inl e \<Rightarrow> Inl e | Inr bs \<Rightarrow> Inr (of_nat (le_nat bs)))"

section \<open>Finding the interface\<close>

text \<open>
  The pointer walks of the three \<open>while\<close> loops, backwards from the end of the line; the pointer is
  an index, and reading in front of the line is \<open>None\<close>.
\<close>

primrec back_while :: "(char \<Rightarrow> bool) \<Rightarrow> string \<Rightarrow> nat \<Rightarrow> nat option" where
  "back_while P line 0 = None"
| "back_while P line (Suc i) = (if P (line ! i) then back_while P line i else Some i)"

primrec back_start :: "string \<Rightarrow> nat \<Rightarrow> nat option" where
  "back_start line 0 = None"
| "back_start line (Suc i) =
     (if i = 0 then None else if line ! (i - 1) \<noteq> CHR '' '' then back_start line i else Some i)"

text \<open>\<open>strtoul\<close> with base 16: blanks, a sign, an optional \<open>0x\<close>, digits; too large a number saturates.\<close>

definition hex_value :: "char \<Rightarrow> nat option" where
  "hex_value c =
     (let n = of_char c :: nat in
      if 48 \<le> n \<and> n \<le> 57 then Some (n - 48)
      else if 97 \<le> n \<and> n \<le> 102 then Some (n - 87)
      else if 65 \<le> n \<and> n \<le> 70 then Some (n - 55)
      else None)"

definition hex_number :: "string \<Rightarrow> nat" where
  "hex_number s = foldl (\<lambda>v c. v * 16 + the (hex_value c)) 0 (takeWhile (\<lambda>c. hex_value c \<noteq> None) s)"

definition blank :: "char \<Rightarrow> bool" where
  "blank c \<longleftrightarrow> c = CHR '' '' \<or> c \<in> {CHR 0x09, CHR 0x0A, CHR 0x0B, CHR 0x0C, CHR 0x0D}"

definition strtoul16 :: "string \<Rightarrow> u64" where
  "strtoul16 str =
     (let s = dropWhile blank str;
          neg = (s \<noteq> [] \<and> hd s = CHR ''-'');
          s = (if s \<noteq> [] \<and> (hd s = CHR ''-'' \<or> hd s = CHR ''+'') then tl s else s);
          s = (if take 1 s = ''0'' \<and> length s > 2 \<and> (s ! 1 = CHR ''x'' \<or> s ! 1 = CHR ''X'') \<and> hex_value (s ! 2) \<noteq> None then drop 2 s else s);
          n = hex_number s in
      if n \<ge> 2 ^ 64 then - 1 else if neg then - of_nat n else of_nat n)"

text \<open>The address of the socket in a line of \<open>/proc/net/udp\<close>.\<close>

definition line_socket :: "string \<Rightarrow> u64 option" where
  "line_socket got = do {
     let line = takeWhile (\<lambda>c. c \<noteq> CHR 0x00) got;
     p \<leftarrow> (if line = [] then None else back_while (\<lambda>c. c = CHR '' '') line (length line - 1));
     p \<leftarrow> back_while (\<lambda>c. c \<noteq> CHR '' '') line p;
     p \<leftarrow> back_start line p;
     Some (strtoul16 (drop p line)) }"

definition c_string :: "u8 list \<Rightarrow> string" where
  "c_string bs = map (\<lambda>b. char_of (unat b)) (takeWhile (\<lambda>b. b \<noteq> 0) bs)"

text \<open>The device of a socket, if its name is that of the interface; 0 stands for \<open>continue\<close>.\<close>

definition socket_device :: "kmem \<Rightarrow> config \<Rightarrow> string \<Rightarrow> u64 \<Rightarrow> int + u64" where
  "socket_device m cfg interface sock =
     (if sock = 0 then Inr 0
      else case read_long m (sock + SOCK_DEVICE_OFFSET cfg) of
        Inl e \<Rightarrow> Inl e
      | Inr addr \<Rightarrow>
          if addr = 0 then Inr 0
          else (case read_kmem m (IFNAMSIZ cfg) (addr + DEVICE_NAME_OFFSET cfg) of
                  Inl e \<Rightarrow> Inl e
                | Inr name \<Rightarrow> Inr (if c_string name = interface then addr else 0)))"

function find_loop :: "kmem \<Rightarrow> config \<Rightarrow> string \<Rightarrow> string \<Rightarrow> (int + u64) option" where
  "find_loop m cfg interface s =
     (case c_fgets 256 s of
        None \<Rightarrow> Some (Inr 0)
      | Some (line, s) \<Rightarrow> do {
          sock \<leftarrow> line_socket line;
          case socket_device m cfg interface sock of
            Inl e \<Rightarrow> Some (Inl e)
          | Inr addr \<Rightarrow> if addr \<noteq> 0 then Some (Inr addr) else find_loop m cfg interface s })"
  by pat_completeness auto
termination
  by (relation "measure (\<lambda>(m, cfg, interface, s). length s)") (auto dest: c_fgets_shrinks)

declare find_loop.simps [simp del]

text \<open>\<open>Inl\<close> of the stream is the error number of \<open>fopen\<close>; the first line is the heading.\<close>

definition find_interface :: "kmem \<Rightarrow> config \<Rightarrow> string \<Rightarrow> int + string \<Rightarrow> (int + u64) option" where
  "find_interface m cfg interface f =
     (case f of
        Inl e \<Rightarrow> Some (Inl e)
      | Inr s \<Rightarrow>
          (case c_fgets 256 s of
             None \<Rightarrow> Some (Inr 0)
           | Some (_, s) \<Rightarrow> find_loop m cfg interface s))"

section \<open>Walking the peers\<close>

type_synonym 'a printed = "(int + 'a) \<times> string list"

definition key_line :: "u32 \<Rightarrow> string \<Rightarrow> string" where
  "key_line index key = ''0x'' @ hex_digits 8 (unat index) @ '' '' @ key"

text \<open>The two indices and the two keys are read before anything is printed.\<close>

definition read_keypair :: "kmem \<Rightarrow> config \<Rightarrow> u64 \<Rightarrow> int + u32 \<times> u32 \<times> u8 list \<times> u8 list" where
  "read_keypair m cfg key =
     (case read_int m (key + KEY_LOCALID_OFFSET cfg) of
        Inl e \<Rightarrow> Inl e
      | Inr local_index \<Rightarrow>
     (case read_int m (key + KEY_REMOTEID_OFFSET cfg) of
        Inl e \<Rightarrow> Inl e
      | Inr remote_index \<Rightarrow>
     (case read_kmem m 32 (key + KEY_SENDING_OFFSET cfg) of
        Inl e \<Rightarrow> Inl e
      | Inr sending \<Rightarrow>
     (case read_kmem m 32 (key + KEY_RECEIVING_OFFSET cfg) of
        Inl e \<Rightarrow> Inl e
      | Inr receiving \<Rightarrow> Inr (local_index, remote_index, sending, receiving)))))"

definition print_key :: "kmem \<Rightarrow> config \<Rightarrow> (u8 list \<Rightarrow> string) \<Rightarrow> u64 \<Rightarrow> string list \<Rightarrow> bool printed" where
  "print_key m cfg b64_ntop key out =
     (if key = 0 then (Inr False, out)
      else case read_keypair m cfg key of
        Inl e \<Rightarrow> (Inl e, out)
      | Inr (local_index, remote_index, sending, receiving) \<Rightarrow>
          (Inr True, out @ [key_line local_index (b64_ntop receiving), key_line remote_index (b64_ntop sending)]))"

text \<open>The key at a pointer of the peer; \<open>found\<close> stays set.\<close>

definition peer_key ::
  "kmem \<Rightarrow> config \<Rightarrow> (u8 list \<Rightarrow> string) \<Rightarrow> u64 \<Rightarrow> bool printed \<Rightarrow> bool printed" where
  "peer_key m cfg b64_ntop addr st =
     (case st of
        (Inl e, out) \<Rightarrow> (Inl e, out)
      | (Inr found, out) \<Rightarrow>
          (case read_long m addr of
             Inl e \<Rightarrow> (Inl e, out)
           | Inr key \<Rightarrow>
               (case print_key m cfg b64_ntop key out of
                  (Inl e, out) \<Rightarrow> (Inl e, out)
                | (Inr printed, out) \<Rightarrow> (Inr (found \<or> printed), out))))"

definition walk_peer :: "kmem \<Rightarrow> config \<Rightarrow> (u8 list \<Rightarrow> string) \<Rightarrow> u64 \<Rightarrow> bool printed \<Rightarrow> bool printed" where
  "walk_peer m cfg b64_ntop peer st =
     peer_key m cfg b64_ntop (peer + PEER_NEXTKEY_OFFSET cfg)
       (peer_key m cfg b64_ntop (peer + PEER_PREVIOUSKEY_OFFSET cfg)
         (peer_key m cfg b64_ntop (peer + PEER_CURRENTKEY_OFFSET cfg) st))"

partial_function (option) walk_loop ::
  "kmem \<Rightarrow> config \<Rightarrow> (u8 list \<Rightarrow> string) \<Rightarrow> u64 \<Rightarrow> u64 \<Rightarrow> bool printed \<Rightarrow> bool printed option" where
  "walk_loop m cfg b64_ntop peer_head peer_entry st =
     (if peer_entry = peer_head then Some st
      else
        let st = walk_peer m cfg b64_ntop (peer_entry + PEERS_PEER_OFFSET cfg) st in
        case st of
          (Inl e, out) \<Rightarrow> Some (Inl e, out)
        | (Inr found, out) \<Rightarrow>
            (case read_long m peer_entry of
               Inl e \<Rightarrow> Some (Inl e, out)
             | Inr next_entry \<Rightarrow> walk_loop m cfg b64_ntop peer_head next_entry st))"

declare walk_loop.simps [code]

definition walk_peers :: "kmem \<Rightarrow> config \<Rightarrow> (u8 list \<Rightarrow> string) \<Rightarrow> u64 \<Rightarrow> bool printed option" where
  "walk_peers m cfg b64_ntop peer_head =
     (case read_long m peer_head of
        Inl e \<Rightarrow> Some (Inl e, [])
      | Inr entry \<Rightarrow> walk_loop m cfg b64_ntop peer_head entry (Inr False, []))"

definition EINVAL :: int where "EINVAL = 22"
definition EBADSLT :: int where "EBADSLT = 57"
definition ENOKEY :: int where "ENOKEY = 126"

text \<open>\<open>open\<close> gives the contents of a device, or \<open>Inl\<close> of its error number.\<close>

definition open_kmem :: "(string \<Rightarrow> int + kmem) \<Rightarrow> int + kmem" where
  "open_kmem sys_open = sys_open ''/dev/kmem''"

text \<open>The exit code and the output.\<close>

definition extract_main ::
  "(string \<Rightarrow> int + kmem) \<Rightarrow> config \<Rightarrow> (u8 list \<Rightarrow> string) \<Rightarrow> int + string \<Rightarrow> string list \<Rightarrow> (int \<times> string list) option" where
  "extract_main sys_open cfg b64_ntop proc_net_udp argv =
     (if length argv < 2 then Some (EINVAL, [])
      else case open_kmem sys_open of
        Inl e \<Rightarrow> Some (e, [])
      | Inr m \<Rightarrow> do {
          r \<leftarrow> find_interface m cfg (argv ! 1) proc_net_udp;
          case r of
            Inl e \<Rightarrow> Some (e, [])
          | Inr wireguard_device \<Rightarrow>
              if wireguard_device = 0 then Some (EBADSLT, [])
              else do {
                (r, out) \<leftarrow> walk_peers m cfg b64_ntop (wireguard_device + DEVICE_PEERS_OFFSET cfg);
                case r of
                  Inl e \<Rightarrow> Some (e, out)
                | Inr found \<Rightarrow> Some (if found then 0 else ENOKEY, out) } })"

text \<open>A system whose only device is the memory of the kernel.\<close>

definition kmem_device :: "kmem \<Rightarrow> string \<Rightarrow> int + kmem" where
  "kmem_device m = (\<lambda>_. Inl 2)(''/dev/kmem'' := Inr m)"

section \<open>The list of peers\<close>

type_synonym keypair = "u32 \<times> u32 \<times> u8 list \<times> u8 list"




text \<open>What is printed for a key: first the local index with the receiving key.\<close>

definition key_lines :: "(u8 list \<Rightarrow> string) \<Rightarrow> keypair option \<Rightarrow> string list" where
  "key_lines b64_ntop kp = (case kp of None \<Rightarrow> []
     | Some (local_index, remote_index, sending, receiving) \<Rightarrow>
         [key_line local_index (b64_ntop receiving), key_line remote_index (b64_ntop sending)])"

definition all_lines :: "(u8 list \<Rightarrow> string) \<Rightarrow> keypair option list \<Rightarrow> string list" where
  "all_lines b64_ntop kps = concat (map (key_lines b64_ntop) kps)"

definition any_key :: "keypair option list \<Rightarrow> bool" where
  "any_key kps \<longleftrightarrow> list_ex (\<lambda>kp. kp \<noteq> None) kps"

lemma keys_append [simp]:
  "any_key [] = False" "any_key (kps @ kps') = (any_key kps \<or> any_key kps')"
  "all_lines b64_ntop [] = []" "all_lines b64_ntop (kps @ kps') = all_lines b64_ntop kps @ all_lines b64_ntop kps'"
  by (simp_all add: any_key_def all_lines_def)





section \<open>Lines of the socket table\<close>

text \<open>A line: anything, a blank, the address of the socket, a blank, the number of drops, padding.\<close>

datatype udp_line = Udp_Line (ul_start: string) (ul_socket: u64) (ul_drops: string) (ul_padding: nat)

definition line_text :: "udp_line \<Rightarrow> string" where
  "line_text l = ul_start l @ '' '' @ hex_digits 16 (unat (ul_socket l)) @ '' '' @ ul_drops l @ replicate (ul_padding l) (CHR '' '') @ [newline]"

definition line_ok :: "udp_line \<Rightarrow> bool" where
  "line_ok l \<longleftrightarrow> ul_drops l \<noteq> [] \<and> CHR '' '' \<notin> set (ul_drops l) \<and> CHR 0x00 \<notin> set (ul_start l @ ul_drops l) \<and>
     newline \<notin> set (ul_start l @ ul_drops l) \<and> length (line_text l) \<le> 255"

lemma back_while_skips: "(\<forall>y\<in>set ys. P y) \<Longrightarrow> \<not> P c \<Longrightarrow> back_while P (xs @ c # ys @ zs) (Suc (length xs + length ys)) = Some (length xs)"
proof (induction ys arbitrary: zs rule: rev_induct)
  case (snoc y ys)
  have "(xs @ c # ys @ y # zs) ! Suc (length xs + length ys) = y" by (simp add: nth_append)
  then show ?case using snoc.IH [of "y # zs"] snoc.prems by simp
qed simp

lemma back_start_skips:
  "(\<forall>y\<in>set ys. y \<noteq> CHR '' '') \<Longrightarrow> back_start (xs @ CHR '' '' # ys @ [y] @ zs) (Suc (Suc (length xs + length ys))) = Some (Suc (length xs))"
proof (induction ys arbitrary: y zs rule: rev_induct)
  case Nil
  then show ?case by simp
next
  case (snoc x ys)
  have "(xs @ CHR '' '' # (ys @ [x]) @ [y] @ zs) ! Suc (length xs + length ys) = x" by (simp add: nth_append)
  then show ?case using snoc.IH [of x "y # zs"] snoc.prems by simp
qed

lemma hex_digit_value: "d < 16 \<Longrightarrow> hex_value (hex_digit d) = Some d"
proof -
  have "list_all (\<lambda>d. hex_value (hex_digit d) = Some d) [0..<16]" by code_simp
  then show "d < 16 \<Longrightarrow> ?thesis" by (simp add: list_all_iff)
qed

lemma hex_digits_values: "c \<in> set (hex_digits n x) \<Longrightarrow> \<exists>d<16. c = hex_digit d"
  by (induction n arbitrary: x) force+

lemma hex_digit_plain: "d < 16 \<Longrightarrow> hex_digit d \<notin> {CHR '' '', CHR ''-'', CHR ''+'', CHR ''x'', CHR ''X'', CHR 0x00, newline}"
  "d < 16 \<Longrightarrow> \<not> blank (hex_digit d)"
proof -
  have "list_all (\<lambda>d. hex_digit d \<notin> {CHR '' '', CHR ''-'', CHR ''+'', CHR ''x'', CHR ''X'', CHR 0x00, newline} \<and> \<not> blank (hex_digit d)) [0..<16]"
    by code_simp
  then show "d < 16 \<Longrightarrow> hex_digit d \<notin> {CHR '' '', CHR ''-'', CHR ''+'', CHR ''x'', CHR ''X'', CHR 0x00, newline}"
    "d < 16 \<Longrightarrow> \<not> blank (hex_digit d)" by (auto simp: list_all_iff)
qed

lemma hex_fold: "foldl (\<lambda>v c. v * 16 + the (hex_value c)) 0 (hex_digits n x) = x mod 16 ^ n"
proof (induction n arbitrary: x)
  case (Suc n)
  have "x div 16 mod 16 ^ n * 16 + x mod 16 = x mod (16 * 16 ^ n)" by (simp add: mod_mult2_eq)
  then show ?case using Suc [of "x div 16"] hex_digit_value [of "x mod 16"] by simp
qed simp

lemma strtoul16_digits: "strtoul16 (hex_digits 16 (unat w) @ CHR '' '' # rest) = w"
proof -
  let ?h = "hex_digits 16 (unat w)"
  have all: "\<forall>c\<in>set ?h. hex_value c \<noteq> None" using hex_digits_values hex_digit_value by fastforce
  obtain c cs where h: "?h = c # cs" using length_hex_digits [of 16 "unat w"] by (cases ?h) auto
  obtain d ds where cs: "cs = d # ds" using h length_hex_digits [of 16 "unat w"] by (cases cs) auto
  have c: "\<not> blank c" "c \<noteq> CHR ''-''" "c \<noteq> CHR ''+''" "d \<noteq> CHR ''x''" "d \<noteq> CHR ''X''"
    using hex_digits_values [of _ 16 "unat w"] hex_digit_plain h cs by fastforce+
  have lt: "unat w < 2 ^ 64" using unsigned_less [of w, where 'a = nat] by simp
  have "takeWhile (\<lambda>c. hex_value c \<noteq> None) (?h @ CHR '' '' # rest) = ?h"
    using all by (simp add: takeWhile_append2 hex_value_def)
  then have n: "hex_number (?h @ CHR '' '' # rest) = unat w"
    unfolding hex_number_def using hex_fold [of 16 "unat w"] lt by simp
  show ?thesis
    unfolding strtoul16_def Let_def using n c lt by (simp add: h cs)
qed

lemma hex_digits_free: "c \<in> {CHR '' '', CHR 0x00, newline} \<Longrightarrow> c \<notin> set (hex_digits n x)"
proof
  assume c: "c \<in> {CHR '' '', CHR 0x00, newline}" and "c \<in> set (hex_digits n x)"
  then obtain d where "d < 16" "c = hex_digit d" using hex_digits_values by blast
  then show False using hex_digit_plain(1) [of d] c by blast
qed

lemma line_text_no_nul: "line_ok l \<Longrightarrow> CHR 0x00 \<notin> set (line_text l)"
  using hex_digits_free [of "CHR 0x00" 16 "unat (ul_socket l)"]
  by (simp add: line_text_def line_ok_def del: hex_digits.simps)

lemma line_text_one_newline: "line_ok l \<Longrightarrow> \<exists>t. line_text l = t @ [newline] \<and> newline \<notin> set t"
  using hex_digits_free [of newline 16 "unat (ul_socket l)"]
  by (simp add: line_text_def line_ok_def del: hex_digits.simps)

lemma line_socket_text:
  assumes "line_ok l"
  shows "line_socket (line_text l) = Some (ul_socket l)"
proof -
  let ?h = "hex_digits 16 (unat (ul_socket l))" and ?t = "line_text l" and ?s = "CHR '' ''" and ?pad = "replicate (ul_padding l) (CHR '' '')"
  obtain ds d where ds: "ul_drops l = ds @ [d]" using assms unfolding line_ok_def by (cases "ul_drops l" rule: rev_cases) auto
  have d: "d \<noteq> ?s" "\<forall>c\<in>set ds. c \<noteq> ?s" using assms ds by (auto simp: line_ok_def)
  obtain hs h where hs: "?h = hs @ [h]" using length_hex_digits [of 16 "unat (ul_socket l)"] by (cases ?h rule: rev_cases) auto
  have hsp: "\<forall>c\<in>set hs. c \<noteq> ?s" using hex_digits_free [of "CHR '' ''" 16 "unat (ul_socket l)"] hs by auto
  have nul: "takeWhile (\<lambda>c. c \<noteq> CHR 0x00) ?t = ?t"
    unfolding takeWhile_eq_all_conv using line_text_no_nul [OF assms] by blast
  let ?A = "ul_start l @ [?s] @ ?h" and ?B = "ul_start l @ [?s] @ ?h @ [?s] @ ds"
  have t1: "?t = ?B @ d # ?pad @ [newline]" by (simp add: line_text_def ds)
  have t2: "?t = ?A @ ?s # ds @ (d # ?pad @ [newline])" by (simp add: line_text_def ds)
  have t3: "?t = ul_start l @ ?s # hs @ [h] @ (?s # ds @ d # ?pad @ [newline])" by (simp add: line_text_def ds hs)
  have p1: "back_while (\<lambda>c. c = ?s) ?t (length ?t - 1) = Some (length ?B)"
    using back_while_skips [of ?pad "\<lambda>c. c = ?s" d ?B "[newline]"] d(1) unfolding t1 by simp
  have p2: "back_while (\<lambda>c. c \<noteq> ?s) ?t (length ?B) = Some (length ?A)"
    using back_while_skips [of ds "\<lambda>c. c \<noteq> ?s" ?s ?A "d # ?pad @ [newline]"] d(2) unfolding t2 by (simp add: add.left_commute)
  have lA: "length ?A = Suc (Suc (length (ul_start l) + length hs))" by (simp add: hs)
  have p3: "back_start ?t (length ?A) = Some (Suc (length (ul_start l)))"
    unfolding lA t3 by (rule back_start_skips [OF hsp])
  have dr: "drop (Suc (length (ul_start l))) ?t = ?h @ ?s # ds @ d # ?pad @ [newline]"
    unfolding t3 by (simp add: hs)
  have ne: "?t \<noteq> []" by (simp add: line_text_def)
  show ?thesis
    unfolding line_socket_def nul Let_def if_not_P [OF ne] p1 p2 p3 bind.bind_lunit dr strtoul16_digits ..
qed

lemma fgets_line:
  assumes "line_ok l"
  shows "c_fgets 256 (line_text l @ s) = Some (line_text l, s)"
proof -
  obtain t where t: "line_text l = t @ [newline]" "newline \<notin> set t" using line_text_one_newline [OF assms] by blast
  have tw: "takeWhile (\<lambda>c. c \<noteq> newline) (t @ newline # s) = t" using t(2) by (auto simp: takeWhile_append)
  have "length t + 1 \<le> 255" using assms t(1) by (simp add: line_ok_def)
  then show ?thesis by (simp add: c_fgets_def tw t(1) Let_def)
qed







section \<open>Properties\<close>














text \<open>A short read ends the program with whatever \<open>errno\<close> holds, also with 0.\<close>

lemma extract_main_short_read:
  assumes "line_ok heading" "line_ok l" "ul_socket l \<noteq> 0" "km_seek m (ul_socket l + SOCK_DEVICE_OFFSET cfg) = None"
    and "km_read m (ul_socket l + SOCK_DEVICE_OFFSET cfg) 8 = (e, bytes)" "length bytes < 8"
  shows "extract_main (kmem_device m) cfg b64_ntop (Inr (line_text heading @ line_text l)) [program, interface] = Some (e, [])"
proof -
  have "find_loop m cfg interface (line_text l) = Some (Inl e)"
    using assms fgets_line [OF assms(2), of "[]"]
    by (subst find_loop.simps) (simp add: line_socket_text socket_device_def read_long_def read_kmem_def)
  then show ?thesis using fgets_line [OF assms(1)] by (simp add: extract_main_def open_kmem_def kmem_device_def find_interface_def)
qed

end
