(* ===== verification/Offset_Tables.thy ===== *)
theory Offset_Tables
  imports Extract_Keys
begin

text \<open>
  The programs that print offsets of kernel structures: \<open>config.c\<close>, whose output is the header that
  \<open>extract-keys.c\<close> includes, and \<open>offset-finder.c\<close>, whose output is an array that
  \<open>extract-handshakes.sh\<close> sources. The layout of the structures is a parameter. The header is read
  back as the preprocessor reads it, which gives the constants that the extractor is compiled with.
\<close>

section \<open>The tables\<close>

text \<open>
  The layout of the kernel structures: \<open>offsetof\<close> of their members, all of type \<open>size_t\<close>, and the
  aligned size of \<open>struct net_device\<close>.
\<close>

record kernel_layout =
  sk_user_data :: u64
  net_device_aligned :: u64
  net_device_name :: u64
  ifnamsiz :: u64
  wg_device_peer_list :: u64
  wg_peer_peer_list :: u64
  current_keypair :: u64
  previous_keypair :: u64
  next_keypair :: u64
  entry_index :: u64
  remote_index :: u64
  sending_key :: u64
  receiving_key :: u64

text \<open>An array of \<open>struct def\<close>; the conversion of an unsigned offset to \<open>long long\<close> is \<open>sint\<close>.\<close>

type_synonym config_def = "string option \<times> int"

definition config_defs :: "kernel_layout \<Rightarrow> config_def list" where
  "config_defs k = [
     (Some ''SOCK_DEVICE_OFFSET'', sint (sk_user_data k)),
     (Some ''DEVICE_NAME_OFFSET'', sint (- net_device_aligned k + net_device_name k)),
     (Some ''IFNAMSIZ'', sint (ifnamsiz k)),
     (Some ''DEVICE_PEERS_OFFSET'', sint (wg_device_peer_list k)),
     (Some ''PEERS_PEER_OFFSET'', sint (- wg_peer_peer_list k)),
     (Some ''PEER_CURRENTKEY_OFFSET'', sint (current_keypair k)),
     (Some ''PEER_PREVIOUSKEY_OFFSET'', sint (previous_keypair k)),
     (Some ''PEER_NEXTKEY_OFFSET'', sint (next_keypair k)),
     (Some ''KEY_LOCALID_OFFSET'', sint (entry_index k)),
     (Some ''KEY_REMOTEID_OFFSET'', sint (remote_index k)),
     (Some ''KEY_SENDING_OFFSET'', sint (sending_key k)),
     (Some ''KEY_RECEIVING_OFFSET'', sint (receiving_key k)),
     (None, 0)]"

text \<open>The loop over the array up to the null pointer; without one it reads behind the array.\<close>

fun config_main :: "config_def list \<Rightarrow> string option" where
  "config_main [] = None"
| "config_main ((None, _) # _) = Some []"
| "config_main ((Some name, val) # defs) =
     map_option ((@) (''#define '' @ name @ '' '' @ dec_int val @ [newline])) (config_main defs)"

text \<open>
  The array of \<open>offset-finder.c\<close>; \<open>%ld\<close> prints the unsigned members as signed numbers, and -1
  as an indirection is the largest \<open>unsigned long\<close>.
\<close>

type_synonym offset_def = "string option \<times> u64 \<times> u64"

record noise_layout =
  static_private :: u64
  static_identity :: u64
  ephemeral_private :: u64
  remote_static :: u64
  noise_preshared_key :: u64

definition offset_defs :: "noise_layout \<Rightarrow> offset_def list" where
  "offset_defs k = [
     (Some ''LOCAL_STATIC_PRIVATE_KEY'', static_private k, static_identity k),
     (Some ''LOCAL_EPHEMERAL_PRIVATE_KEY'', ephemeral_private k, - 1),
     (Some ''REMOTE_STATIC_PUBLIC_KEY'', remote_static k, - 1),
     (Some ''PRESHARED_KEY'', noise_preshared_key k, - 1),
     (None, 0, 0)]"

fun offset_lines :: "offset_def list \<Rightarrow> string option" where
  "offset_lines [] = None"
| "offset_lines ((None, _) # _) = Some []"
| "offset_lines ((Some name, off, indirection) # defs) =
     map_option ((@) ([CHR 0x09] @ ''['' @ name @ '']='' @ dec_int (sint off) @
       (if indirection \<noteq> - 1 then '','' @ dec_int (sint indirection) else []) @ [newline])) (offset_lines defs)"

text \<open>The byte order is the preprocessor's choice.\<close>

definition offset_main :: "bool \<Rightarrow> offset_def list \<Rightarrow> string option" where
  "offset_main big_endian defs = do {
     out \<leftarrow> offset_lines defs;
     Some (''declare -A OFFSETS=('' @ [newline] @ out @ '')'' @ [newline] @
           (if big_endian then ''ENDIAN=big'' else ''ENDIAN=little'') @ [newline]) }"

section \<open>Reading numbers back\<close>

definition dec_value :: "string \<Rightarrow> nat" where
  "dec_value ds = foldl (\<lambda>v c. v * 10 + (of_char c - 48)) 0 ds"

definition digit_char :: "char \<Rightarrow> bool" where
  "digit_char c \<longleftrightarrow> (of_char c :: nat) \<in> {48..57}"

definition int_value :: "string \<Rightarrow> int option" where
  "int_value s =
     (let neg = (s \<noteq> [] \<and> hd s = CHR ''-''); ds = (if neg then tl s else s) in
      if ds = [] \<or> \<not> list_all digit_char ds then None
      else Some (if neg then - int (dec_value ds) else int (dec_value ds)))"

lemma digit_char_of: "(d :: nat) < 10 \<Longrightarrow> digit_char (char_of (48 + d)) \<and> of_char (char_of (48 + d) :: char) = 48 + d"
  by (simp add: digit_char_def)

lemma dec_digits_read: "dec_digits n \<noteq> [] \<and> list_all digit_char (dec_digits n) \<and> dec_value (dec_digits n) = n"
proof (induction n rule: dec_digits.induct)
  case (1 n)
  show ?case
  proof (cases "n < 10")
    case True
    then show ?thesis using digit_char_of [of n] by (simp add: dec_digits.simps [of n] dec_value_def)
  next
    case False
    note ih = 1 [OF False]
    have "dec_value (dec_digits (n div 10)) * 10 + n mod 10 = n" using ih by simp
    then show ?thesis
      using ih False digit_char_of [of "n mod 10"] by (simp add: dec_digits.simps [of n] dec_value_def)
  qed
qed

lemma dec_digits_no_sign: "hd (dec_digits n) \<noteq> CHR ''-''"
proof -
  have "digit_char (hd (dec_digits n))" using dec_digits_read [of n] by (cases "dec_digits n") auto
  then show ?thesis by (auto simp: digit_char_def)
qed

lemma int_value_dec_int: "int_value (dec_int i) = Some i"
proof (cases "i < 0")
  case True
  then show ?thesis using dec_digits_read [of "nat (- i)"] by (simp add: dec_int_def int_value_def Let_def)
next
  case False
  then show ?thesis
    using dec_digits_read [of "nat i"] dec_digits_no_sign [of "nat i"] by (simp add: dec_int_def int_value_def Let_def)
qed

lemma dec_int_chars: "c \<in> set (dec_int i) \<Longrightarrow> c = CHR ''-'' \<or> digit_char c"
  using dec_digits_read [of "nat i"] dec_digits_read [of "nat (- i)"]
  by (auto simp: dec_int_def list_all_iff split: if_splits)

lemma dec_int_plain: "c \<in> {newline, CHR '' '', CHR '',''} \<Longrightarrow> c \<notin> set (dec_int i)"
  using dec_int_chars [of c i] by (auto simp: digit_char_def)

section \<open>Reading the header\<close>

fun lines_of :: "string \<Rightarrow> string list" where
  "lines_of [] = []"
| "lines_of (c # s) =
     takeWhile (\<lambda>c. c \<noteq> newline) (c # s) # lines_of (drop (Suc (length (takeWhile (\<lambda>c. c \<noteq> newline) (c # s)))) (c # s))"

declare lines_of.simps(2) [simp del]

text \<open>The replacement text of the macro that a line defines, if it has the name.\<close>

definition define_text :: "string \<Rightarrow> string \<Rightarrow> string option" where
  "define_text name line =
     (let p = ''#define '' @ name @ '' '' in if take (length p) line = p then Some (drop (length p) line) else None)"

definition header_value :: "string \<Rightarrow> string \<Rightarrow> int option" where
  "header_value header name = (case List.map_filter (define_text name) (lines_of header) of [] \<Rightarrow> None | t # _ \<Rightarrow> int_value t)"

text \<open>The constants as they act in the address arithmetic on \<open>unsigned long\<close>.\<close>

definition config_of_header :: "string \<Rightarrow> config option" where
  "config_of_header h = do {
     a \<leftarrow> header_value h ''SOCK_DEVICE_OFFSET'';
     b \<leftarrow> header_value h ''DEVICE_NAME_OFFSET'';
     c \<leftarrow> header_value h ''IFNAMSIZ'';
     d \<leftarrow> header_value h ''DEVICE_PEERS_OFFSET'';
     e \<leftarrow> header_value h ''PEERS_PEER_OFFSET'';
     f \<leftarrow> header_value h ''PEER_CURRENTKEY_OFFSET'';
     g \<leftarrow> header_value h ''PEER_PREVIOUSKEY_OFFSET'';
     i \<leftarrow> header_value h ''PEER_NEXTKEY_OFFSET'';
     j \<leftarrow> header_value h ''KEY_LOCALID_OFFSET'';
     k \<leftarrow> header_value h ''KEY_REMOTEID_OFFSET'';
     l \<leftarrow> header_value h ''KEY_SENDING_OFFSET'';
     m \<leftarrow> header_value h ''KEY_RECEIVING_OFFSET'';
     Some \<lparr>SOCK_DEVICE_OFFSET = of_int a, DEVICE_NAME_OFFSET = of_int b, IFNAMSIZ = nat c, DEVICE_PEERS_OFFSET = of_int d,
       PEERS_PEER_OFFSET = of_int e, PEER_CURRENTKEY_OFFSET = of_int f, PEER_PREVIOUSKEY_OFFSET = of_int g,
       PEER_NEXTKEY_OFFSET = of_int i, KEY_LOCALID_OFFSET = of_int j, KEY_REMOTEID_OFFSET = of_int k,
       KEY_SENDING_OFFSET = of_int l, KEY_RECEIVING_OFFSET = of_int m\<rparr> }"

definition plain_name :: "string \<Rightarrow> bool" where
  "plain_name n \<longleftrightarrow> CHR '' '' \<notin> set n \<and> newline \<notin> set n"

definition define_line :: "string \<times> int \<Rightarrow> string" where
  "define_line d = ''#define '' @ fst d @ '' '' @ dec_int (snd d)"

lemma lines_of_line: "newline \<notin> set l \<Longrightarrow> lines_of (l @ newline # rest) = l # lines_of rest"
proof -
  assume "newline \<notin> set l"
  then have tw: "takeWhile (\<lambda>c. c \<noteq> newline) (l @ newline # rest) = l" by (auto simp: takeWhile_append)
  obtain c s where cs: "l @ newline # rest = c # s" by (cases l) auto
  have "lines_of (c # s) = l # lines_of (drop (Suc (length l)) (c # s))" using tw unfolding cs by (simp add: lines_of.simps(2))
  then show ?thesis unfolding cs [symmetric] by simp
qed

lemma config_main_lines:
  "list_all (\<lambda>d. plain_name (fst d)) ds \<Longrightarrow>
   \<exists>out. config_main (map (\<lambda>d. (Some (fst d), snd d)) ds @ [(None, 0)]) = Some out \<and> lines_of out = map define_line ds"
proof (induction ds)
  case (Cons d ds)
  then obtain out where out: "config_main (map (\<lambda>d. (Some (fst d), snd d)) ds @ [(None, 0)]) = Some out" "lines_of out = map define_line ds"
    by auto
  have "newline \<notin> set (define_line d)"
    using Cons.prems dec_int_plain [of newline "snd d"] by (simp add: define_line_def plain_name_def)
  then have "lines_of (define_line d @ newline # out) = define_line d # map define_line ds"
    using lines_of_line out(2) by simp
  moreover have "config_main (map (\<lambda>d. (Some (fst d), snd d)) (d # ds) @ [(None, 0)]) = Some (define_line d @ newline # out)"
    using out(1) by (simp add: define_line_def)
  ultimately show ?case unfolding list.map(2) by blast
qed simp

lemma takeWhile_name: "plain_name n \<Longrightarrow> takeWhile (\<lambda>c. c \<noteq> CHR '' '') (n @ CHR '' '' # r) = n"
  by (auto simp: plain_name_def takeWhile_append)

lemma define_text_line:
  assumes "plain_name n" "plain_name (fst d)"
  shows "define_text n (define_line d) = (if fst d = n then Some (dec_int (snd d)) else None)"
proof -
  let ?p = "''#define '' @ n @ '' ''"
  show ?thesis
  proof (cases "fst d = n")
    case False
    have "take (length ?p) (define_line d) \<noteq> ?p"
    proof
      assume "take (length ?p) (define_line d) = ?p"
      then obtain r where "define_line d = ?p @ r" using append_take_drop_id [of "length ?p" "define_line d"] by metis
      then have eq: "fst d @ CHR '' '' # dec_int (snd d) = n @ CHR '' '' # r" by (simp add: define_line_def)
      have "fst d = n"
        using takeWhile_name [OF assms(1), of r] takeWhile_name [OF assms(2), of "dec_int (snd d)"] unfolding eq by (rule trans [OF sym, rotated])
      then show False using False by blast
    qed
    then show ?thesis unfolding define_text_def Let_def using False by simp
  next
    case True
    then have "define_line d = ?p @ dec_int (snd d)" by (simp add: define_line_def)
    then show ?thesis unfolding define_text_def Let_def using True by simp
  qed
qed

lemma header_value_defs:
  assumes "list_all (\<lambda>d. plain_name (fst d)) ds" "distinct (map fst ds)" "lines_of out = map define_line ds" "(n, v) \<in> set ds"
  shows "header_value out n = Some v"
proof -
  have n: "plain_name n" using assms(1,4) by (auto simp: list_all_iff)
  have "List.map_filter (define_text n) (map define_line ds) = [dec_int v]"
    using assms(1,2,4)
  proof (induction ds)
    case (Cons d ds)
    have "List.map_filter (define_text n) (map define_line ds) = []" if "n \<notin> set (map fst ds)"
      using that Cons.prems(1) n by (auto simp: List.map_filter_def filter_empty_conv list_all_iff define_text_line)
    then show ?case using Cons n by (force simp: List.map_filter_simps define_text_line)
  qed simp
  then show ?thesis by (simp add: header_value_def assms(3) int_value_dec_int)
qed

section \<open>Reading the array\<close>

text \<open>
  The subscript and the value of an assignment in the array; the script splits the value at the
  comma.
\<close>

definition assignment :: "string \<times> u64 \<times> u64 \<Rightarrow> string" where
  "assignment d = (case d of (name, off, indirection) \<Rightarrow>
     [CHR 0x09] @ ''['' @ name @ '']='' @ dec_int (sint off) @ (if indirection \<noteq> - 1 then '','' @ dec_int (sint indirection) else []))"

definition assigned :: "string \<Rightarrow> string \<times> int option \<times> int option" where
  "assigned line =
     (let rest = drop 2 line; name = takeWhile (\<lambda>c. c \<noteq> CHR '']'') rest; val = drop (length name + 2) rest;
          off = takeWhile (\<lambda>c. c \<noteq> CHR '','') val in
      (name, int_value off, if length off < length val then int_value (drop (Suc (length off)) val) else None))"

lemma offset_lines_out:
  "list_all (\<lambda>d. newline \<notin> set (fst d)) ds \<Longrightarrow>
   \<exists>out. offset_lines (map (\<lambda>d. (Some (fst d), snd d)) ds @ [(None, 0, 0)]) = Some out \<and>
     lines_of (out @ rest) = map assignment ds @ lines_of rest"
proof (induction ds)
  case (Cons d ds)
  obtain name off ind where d: "d = (name, off, ind)" by (cases d)
  from Cons obtain out where out: "offset_lines (map (\<lambda>d. (Some (fst d), snd d)) ds @ [(None, 0, 0)]) = Some out"
    "lines_of (out @ rest) = map assignment ds @ lines_of rest" by auto
  have "newline \<notin> set (assignment d)"
    using Cons.prems dec_int_plain [of newline] by (auto simp: assignment_def d)
  then have "lines_of ((assignment d @ newline # out) @ rest) = map assignment (d # ds) @ lines_of rest"
    using lines_of_line [of "assignment d" "out @ rest"] out(2) by simp
  moreover have "offset_lines (map (\<lambda>d. (Some (fst d), snd d)) (d # ds) @ [(None, 0, 0)]) = Some (assignment d @ newline # out)"
    using out(1) by (simp add: assignment_def d)
  ultimately show ?case by blast
qed simp

lemma assigned_assignment:
  assumes "CHR '']'' \<notin> set name"
  shows "assigned (assignment (name, off, ind)) = (name, Some (sint off), if ind = - 1 then None else Some (sint ind))"
proof -
  have nm: "takeWhile (\<lambda>c. c \<noteq> CHR '']'') (name @ CHR '']'' # r) = name" for r
    using assms by (auto simp: takeWhile_append)
  have val: "takeWhile (\<lambda>c. c \<noteq> CHR '','') (dec_int i @ CHR '','' # r) = dec_int i"
    "takeWhile (\<lambda>c. c \<noteq> CHR '','') (dec_int i) = dec_int i" for i r
    using dec_int_plain [of "CHR '',''" i] by (auto simp: takeWhile_append)
  show ?thesis by (simp add: assigned_def assignment_def Let_def nm val int_value_dec_int)
qed

text \<open>The script finds every offset under its name, with an indirection exactly for the static key.\<close>

lemma offset_main_read:
  "\<exists>out. offset_main big_endian (offset_defs k) = Some out \<and>
     lines_of out = [''declare -A OFFSETS=(''] @ map assignment ds @ ['')'', if big_endian then ''ENDIAN=big'' else ''ENDIAN=little''] \<and>
     map assigned (map assignment ds) =
       [(''LOCAL_STATIC_PRIVATE_KEY'', Some (sint (static_private k)), if static_identity k = - 1 then None else Some (sint (static_identity k))),
        (''LOCAL_EPHEMERAL_PRIVATE_KEY'', Some (sint (ephemeral_private k)), None),
        (''REMOTE_STATIC_PUBLIC_KEY'', Some (sint (remote_static k)), None),
        (''PRESHARED_KEY'', Some (sint (noise_preshared_key k)), None)]"
  if "ds = map (\<lambda>d. (the (fst d), snd d)) (butlast (offset_defs k))"
proof -
  let ?tail = "'')'' @ [newline] @ (if big_endian then ''ENDIAN=big'' else ''ENDIAN=little'') @ [newline]"
  have defs: "offset_defs k = map (\<lambda>d. (Some (fst d), snd d)) ds @ [(None, 0, 0)]" by (simp add: that offset_defs_def)
  have "list_all (\<lambda>d. newline \<notin> set (fst d)) ds" by (simp add: that offset_defs_def)
  from offset_lines_out [OF this, of ?tail] obtain out
    where out: "offset_lines (offset_defs k) = Some out" "lines_of (out @ ?tail) = map assignment ds @ lines_of ?tail"
    unfolding defs by blast
  have tail: "lines_of ?tail = ['')'', if big_endian then ''ENDIAN=big'' else ''ENDIAN=little'']"
    by (simp add: lines_of.simps(2))
  have "lines_of (''declare -A OFFSETS=('' @ newline # out @ ?tail) = ''declare -A OFFSETS=('' # lines_of (out @ ?tail)"
    by (rule lines_of_line) simp
  moreover have "map assigned (map assignment ds) = map (\<lambda>(name, off, ind). (name, Some (sint off), if ind = - 1 then None else Some (sint ind))) ds"
    by (simp add: that offset_defs_def assigned_assignment)
  ultimately show ?thesis using out tail by (simp add: offset_main_def that offset_defs_def)
qed

section \<open>Properties\<close>

text \<open>Claim C33: the header that \<open>config.c\<close> prints makes the extractor use the layout of the kernel: every
  constant acts on addresses as the offset it was computed from, the negative ones included, so that
  from the list node of a peer \<open>walk_peers\<close> gets back to the peer.\<close>

theorem config_header_offsets:
  "\<exists>out cfg. config_main (config_defs k) = Some out \<and> config_of_header out = Some cfg \<and>
     cfg = \<lparr>SOCK_DEVICE_OFFSET = sk_user_data k, DEVICE_NAME_OFFSET = net_device_name k - net_device_aligned k,
       IFNAMSIZ = nat (sint (ifnamsiz k)), DEVICE_PEERS_OFFSET = wg_device_peer_list k, PEERS_PEER_OFFSET = - wg_peer_peer_list k,
       PEER_CURRENTKEY_OFFSET = current_keypair k, PEER_PREVIOUSKEY_OFFSET = previous_keypair k,
       PEER_NEXTKEY_OFFSET = next_keypair k, KEY_LOCALID_OFFSET = entry_index k, KEY_REMOTEID_OFFSET = remote_index k,
       KEY_SENDING_OFFSET = sending_key k, KEY_RECEIVING_OFFSET = receiving_key k\<rparr> \<and>
     (\<forall>peer. (peer + wg_peer_peer_list k) + PEERS_PEER_OFFSET cfg = peer)"
proof -
  define ds where "ds = map (\<lambda>d. (the (fst d), snd d)) (butlast (config_defs k))"
  have defs: "config_defs k = map (\<lambda>d. (Some (fst d), snd d)) ds @ [(None, 0)]" by (simp add: ds_def config_defs_def)
  have plain: "list_all (\<lambda>d. plain_name (fst d)) ds" by (simp add: ds_def config_defs_def plain_name_def)
  have dist: "distinct (map fst ds)" by (simp add: ds_def config_defs_def)
  obtain out where out: "config_main (config_defs k) = Some out" "lines_of out = map define_line ds"
    using config_main_lines [OF plain] unfolding defs by blast
  note val = header_value_defs [OF plain dist out(2)]
  have "config_of_header out = Some \<lparr>SOCK_DEVICE_OFFSET = sk_user_data k, DEVICE_NAME_OFFSET = net_device_name k - net_device_aligned k,
       IFNAMSIZ = nat (sint (ifnamsiz k)), DEVICE_PEERS_OFFSET = wg_device_peer_list k, PEERS_PEER_OFFSET = - wg_peer_peer_list k,
       PEER_CURRENTKEY_OFFSET = current_keypair k, PEER_PREVIOUSKEY_OFFSET = previous_keypair k,
       PEER_NEXTKEY_OFFSET = next_keypair k, KEY_LOCALID_OFFSET = entry_index k, KEY_REMOTEID_OFFSET = remote_index k,
       KEY_SENDING_OFFSET = sending_key k, KEY_RECEIVING_OFFSET = receiving_key k\<rparr>"
    by (simp add: config_of_header_def val [unfolded ds_def config_defs_def])
  then show ?thesis using out(1) by simp
qed

end
