(* ===== verification/Spec2Isabelle.thy ===== *)
theory Spec2Isabelle
  imports Highlight_Main Highlight_Gui Address_Grammar Nat_System Wg_Test Wg_Free Sticky_Sockets Offset_Tables
begin

text \<open>
  Verification of the C programs of \<open>src/wireguard-tools-wsl/contrib\<close>.

  \<^bold>\<open>The programs.\<close> The directory holds programs and a library around WireGuard:
  \<^item> \<open>highlighter/\<close>: a scanner that finds the parts of a configuration file and classifies them
    (\<open>highlighter.c\<close>), with a terminal colouriser (\<open>highlight.c\<close>), a fuzz target (\<open>fuzz.c\<close>) and
    a graphical editor (\<open>gui/highlight.cpp\<close>) that call \<open>highlight_config\<close>;
  \<^item> \<open>embeddable-wg-library/\<close>: a library (\<open>wireguard.c\<close>, \<open>wireguard.h\<close>) that lists, creates,
    configures, reads and deletes WireGuard devices over netlink, encodes keys in base64 and
    generates them on Curve25519, and its example client (\<open>test.c\<close>);
  \<^item> \<open>nat-hole-punching/\<close>: a rendezvous server and a client that learn each other's public
    addresses;
  \<^item> \<open>sticky-sockets/\<close>: sockets whose replies leave from where the request arrived;
  \<^item> \<open>extract-keys/\<close> and \<open>extract-handshakes/\<close>: reading session keys out of the memory of the
    kernel, and two programs that print the offsets of its structures.

  The highlighter is independent of the library, except that both judge the text of a key
  (\<open>is_valid_key\<close>, \<open>wg_key_from_base64\<close>); the example client calls nearly all of the library; the
  hole punching client talks to the server; the header that \<open>config.c\<close> prints is compiled into
  \<open>extract-keys.c\<close>.

  \<^bold>\<open>Conventions.\<close> An access outside an object, signed overflow, a failed assertion and a call that
  never returns are the value \<open>None\<close>; an error that the code reports is \<open>Inl\<close> of its number or its
  negative return value. Pointers into a buffer are offsets, other pointers indices or the rest of a
  list. Machine integers are words, or numbers with the wrap-around written out. System calls,
  allocators, the kernel, Qt, the shell and the resolver are arguments; what they are relied upon for
  is a hypothesis of the theorem that needs it, and each such theorem has an instance at a concrete
  world next to it. Multi-byte fields are little-endian.

  \<^bold>\<open>The theories.\<close>
  \<^item> \<open>Prelude\<close>: types, checked reads, loop combinators, byte encodings and the locale \<open>codec\<close> of
    encoders and decoders; \<open>C_Stdio\<close>: \<open>fgets\<close> and the printing of numbers.
  \<^item> \<open>Spans\<close>, \<open>Validators\<close>, \<open>Value_Validators\<close>: the string spans and the validators of
    \<open>highlighter.c\<close>, from \<open>is_decimal\<close> to \<open>is_valid_network\<close>; every validator refines a predicate on
    strings (locale \<open>span_check\<close>, interpreted for each of them). \<open>Address_Grammar\<close> and
    \<open>Endpoint_Text\<close> show that the predicates are those of declarative grammars of addresses and
    endpoints.
  \<^item> \<open>Span_Array\<close>, \<open>Highlighter\<close>: the array of spans and the functions from \<open>section_for_field\<close> to
    \<open>highlight_config\<close>; \<open>Highlight_Safety\<close>: the invariant of the array through all functions that
    emit spans (locale \<open>emitter\<close>); \<open>Highlight_Config\<close>: the character loop. The result: ordered,
    disjoint, soundly classified spans, and no undefined access while memory lasts.
    \<open>Highlight_Main\<close>: the colouriser prints its input unchanged apart from escapes; the fuzz target on a
    heap of allocated blocks, which it leaves as it was while memory lasts.
    \<open>Highlight_Gui\<close>: the handlers of the editor and its event loop. Text is a list of UTF-16 units and its
    conversion to Latin-1 a parameter; after any edits and clicks every character of a Latin-1 text without
    carriage returns has the colour of its span.
  \<^item> \<open>Base64\<close>: \<open>encode_base64\<close> to \<open>wg_key_from_base64\<close>: round trip, canonical texts only, agreement
    with the highlighter's \<open>is_valid_key\<close>.
  \<^item> \<open>Field25519\<close>, \<open>Curve25519\<close>: the limb arithmetic, with every operation checked for overflow, and
    the ladder, refined to the reference ladder modulo the prime (locale \<open>residue_arith\<close>); clamping and
    random keys.
  \<^item> \<open>Netlink\<close>: messages and attributes, writing and the parse loop; \<open>Netlink_Socket\<close>: callbacks,
    sending, receiving, and the generic netlink layer with its resources. The kernel is a function from the
    bytes that are sent to its answer, so that the theorems also fix the requests.
  \<^item> \<open>Wg_Device\<close>, \<open>Wg_Get_Device\<close>: the device structures, \<open>parse_device\<close> to \<open>wg_get_device\<close>;
    parsing stays inside the buffer for every message whose interface names are terminated in the buffer or
    followed by fifteen more bytes of it, \<open>coalesce_peers\<close> equals a reference.
    \<open>Wg_Set_Device\<close>: \<open>wg_set_device\<close>; \<open>Wg_Set_Messages\<close>: what it writes, as fragments of peers (the
    inductive relation \<open>emits\<close>). \<open>Wg_Roundtrip\<close>, \<open>Wg_Fragments\<close>, \<open>Wg_Set_Get\<close>, \<open>Wg_Configure\<close>: the
    messages read back give the device, for every buffer size.
  \<^item> \<open>String_List\<close>, \<open>Wg_Interfaces\<close>, \<open>Wg_Links\<close>: the list of names (locale \<open>name_list\<close>), the dump of
    links, with any number of links in a datagram and any attributes of a link, \<open>wg_list_device_names\<close>,
    \<open>wg_add_device\<close> and \<open>wg_del_device\<close>. \<open>Wg_Free\<close>: \<open>wg_free_device\<close> on a heap of cells.
  \<^item> \<open>Wg_Host\<close>: the other side, a kernel with devices that decodes the requests, changes its state and
    answers from it, or refuses; it knows the attributes that the example sends. \<open>Wg_Test\<close>: \<open>test.c\<close> against
    this kernel from end to end, and when the name of its device is taken.
  \<^item> \<open>Nat_Punch_Server\<close> (locale \<open>registry\<close>), \<open>Nat_Punch_Client\<close>, \<open>Nat_Punching\<close>: the table of
    addresses refines a map; the packets of the client and of the server as bytes, the filter of the raw
    socket, the client's passes, and the rendezvous of two clients. \<open>Nat_System\<close>: any number of
    clients, the server and strangers as a step relation with all interleavings and lost packets; the
    invariant of its reachable worlds says that every endpoint set is an address from which the peer's key
    was sent, so that it is the peer's when nobody else uses the key; no client waits in vain unless a packet
    is lost; and every run of the client's \<open>main\<close>, whether it returns, fails or goes on, is a run of the system.
    The network may lose the replies of the server, but neither duplicates, delays beyond the next request
    nor forges them; a single step of the client is defined for any queue of its socket.
  \<^item> \<open>Sticky_Sockets\<close> (locale \<open>sticky\<close>, interpreted for both address families): replies leave from
    where the packet arrived, and recover when that place is gone.
  \<^item> \<open>Extract_Keys\<close>, \<open>Offset_Tables\<close>: the extractor prints both lines of all keys of an interface (the
    order of the two lines is not fixed: README and code differ); the printed header gives it the layout of
    the kernel.

  \<^bold>\<open>Bounds and fuel.\<close> \<open>wg_set_device\<close> is a loop with fuel; one unit per message, and one more than
  the number of peers and allowed addresses is shown to be enough. Its buffers have from 272 bytes,
  which the fixed part of a message and one address need, to \<open>2 ^ 16\<close>, above which the 16-bit length
  of a nested attribute could wrap. Route netlink buffers have at least 96 bytes, for a name of at most
  15 characters. Texts for the highlighter have at most \<open>2 ^ 32\<close> bytes, so that no size wraps around. The
  loop of the hole punching client has fuel for its passes, since it goes on until the server knows every
  peer; one pass is enough when it does. Loops that follow pointers are partial functions; the theorems show that
  they end on finite lists.

  \<^bold>\<open>Not modelled.\<close> The layout, fonts and title of the editor's window in \<open>main\<close> of
  \<open>gui/highlight.cpp\<close> are a sequence of calls of Qt without a decision or a state of their own. Wiping of temporaries (\<open>memzero_explicit\<close>) has no
  effect on a result. Messages on standard error are left out. The variant of the highlighter with
  \<open>MOBILE_WGQUICK_SUBSET\<close> is another configuration of the same code. The shell scripts and other
  files of the repository are not C.
\<close>

end
